(* ===== verification/Rulf_Prelude.thy ===== *)
theory Rulf_Prelude
  imports Main "HOL-Library.Multiset"
begin

text \<open>
  Shared vocabulary of the development.

  \<^item> \<open>outcome\<close>: what a Rust function of the generator can do besides returning a value, a
    panic (an index out of range, an \<open>unwrap\<close> of \<open>None\<close>, an explicit \<open>panic!\<close>, an empty
    random range) or \<open>std::process::exit\<close>; \<open>obind\<close> sequences two such computations and
    \<open>ofold\<close> is a \<open>for\<close> loop over a list whose body may panic.
  \<^item> \<open>get_index\<close>, \<open>set_index\<close>, \<open>unwrap\<close>: the checked vector and option accesses.
  \<^item> the parts of Rust's string library the generator uses (\<open>to_string\<close> of an integer,
    \<open>starts_with\<close>, \<open>contains\<close>, \<open>split\<close>, \<open>join\<close>, \<open>replace\<close>).
  \<^item> \<open>hash_order\<close>: the iteration order of a \<open>HashMap\<close>/\<open>HashSet\<close>, an arbitrary permutation
    of the entries.
\<close>

named_theorems outcome_simps \<open>evaluation of outcome-valued code\<close>

section \<open>Panics, exits and results\<close>

datatype panic_kind =
    IndexOutOfBounds
  | UnwrapNone
  | ExplicitPanic string
  | EmptyRange
  | SubOverflow

datatype 'a outcome = Done 'a | Panic panic_kind | Exit int

fun obind :: "'a outcome \<Rightarrow> ('a \<Rightarrow> 'b outcome) \<Rightarrow> 'b outcome" where
  "obind (Done x) f = f x"
| "obind (Panic p) f = Panic p"
| "obind (Exit c) f = Exit c"

fun omap :: "('a \<Rightarrow> 'b) \<Rightarrow> 'a outcome \<Rightarrow> 'b outcome" where
  "omap f (Done x) = Done (f x)"
| "omap f (Panic p) = Panic p"
| "omap f (Exit c) = Exit c"

fun ofold :: "('x \<Rightarrow> 's \<Rightarrow> 's outcome) \<Rightarrow> 'x list \<Rightarrow> 's \<Rightarrow> 's outcome" where
  "ofold f [] s = Done s"
| "ofold f (x # xs) s = obind (f x s) (ofold f xs)"

definition get_index :: "'a list \<Rightarrow> nat \<Rightarrow> 'a outcome" where
  "get_index xs i = (if i < length xs then Done (xs ! i) else Panic IndexOutOfBounds)"

definition set_index :: "'a list \<Rightarrow> nat \<Rightarrow> 'a \<Rightarrow> 'a list outcome" where
  "set_index xs i v = (if i < length xs then Done (xs[i := v]) else Panic IndexOutOfBounds)"

fun unwrap :: "'a option \<Rightarrow> 'a outcome" where
  "unwrap (Some x) = Done x"
| "unwrap None = Panic UnwrapNone"

lemma obind_Done_iff: "obind m f = Done y \<longleftrightarrow> (\<exists>x. m = Done x \<and> f x = Done y)"
  by (cases m) auto

lemma obind_assoc: "obind (obind m f) g = obind m (\<lambda>x. obind (f x) g)"
  by (cases m) auto

lemma obind_cong [fundef_cong]:
  "m = m' \<Longrightarrow> (\<And>x. m' = Done x \<Longrightarrow> f x = g x) \<Longrightarrow> obind m f = obind m' g"
  by (cases m') auto

lemma omap_Done_iff: "omap f m = Done y \<longleftrightarrow> (\<exists>x. m = Done x \<and> y = f x)"
  by (cases m) auto

lemma get_index_in [simp, outcome_simps]: "i < length xs \<Longrightarrow> get_index xs i = Done (xs ! i)"
  by (simp add: get_index_def)

lemma get_index_Done_iff: "get_index xs i = Done x \<longleftrightarrow> i < length xs \<and> xs ! i = x"
  by (auto simp: get_index_def)

lemma set_index_in [simp, outcome_simps]: "i < length xs \<Longrightarrow> set_index xs i v = Done (xs[i := v])"
  by (simp add: set_index_def)

lemma set_index_Done_iff: "set_index xs i v = Done ys \<longleftrightarrow> i < length xs \<and> ys = xs[i := v]"
  by (auto simp: set_index_def)

lemma unwrap_Done_iff: "unwrap m = Done x \<longleftrightarrow> m = Some x"
  by (cases m) auto

lemma ofold_cong [fundef_cong]:
  "xs = ys \<Longrightarrow> s = t \<Longrightarrow> (\<And>x s. x \<in> set ys \<Longrightarrow> f x s = g x s) \<Longrightarrow> ofold f xs s = ofold g ys t"
proof (induction xs arbitrary: ys s t)
  case (Cons x xs)
  then show ?case by (cases "g x t") auto
qed auto

lemma ofold_no_panic:
  "(\<And>x s. x \<in> set xs \<Longrightarrow> f x s \<noteq> Panic e) \<Longrightarrow> ofold f xs s \<noteq> Panic e"
proof (induction xs arbitrary: s)
  case (Cons x xs)
  then show ?case by (cases "f x s") auto
qed simp

lemma ofold_append: "ofold f (xs @ ys) s = obind (ofold f xs s) (ofold f ys)"
  by (induction xs arbitrary: s) (auto simp: obind_assoc intro: obind_cong)

text \<open>
  The loop rule: if every iteration that starts in a good state returns a good state, the
  whole loop returns, in a good state. It is the rule every \<open>for\<close> loop of the generator is
  verified with.
\<close>

lemma ofold_inv:
  assumes "\<And>x s. x \<in> set xs \<Longrightarrow> P s \<Longrightarrow> \<exists>s'. f x s = Done s' \<and> P s'" and "P s"
  shows "\<exists>s'. ofold f xs s = Done s' \<and> P s'"
  using assms
proof (induction xs arbitrary: s)
  case Nil
  then show ?case by simp
next
  case (Cons x xs)
  from Cons.prems obtain s1 where s1: "f x s = Done s1" "P s1"
    by (meson list.set_intros(1))
  have "\<exists>s'. ofold f xs s1 = Done s' \<and> P s'"
    by (rule Cons.IH) (use Cons.prems(1) s1(2) in auto)
  with s1 show ?case by simp
qed

text \<open>The same rule for a loop that is only known to have returned.\<close>

lemma ofold_preserves:
  assumes "ofold f xs s = Done s'" and "P s"
    and "\<And>x s s'. x \<in> set xs \<Longrightarrow> P s \<Longrightarrow> f x s = Done s' \<Longrightarrow> P s'"
  shows "P s'"
  using assms
proof (induction xs arbitrary: s)
  case Nil
  then show ?case by simp
next
  case (Cons x xs)
  from Cons.prems(1) obtain s1 where s1: "f x s = Done s1" "ofold f xs s1 = Done s'"
    by (auto simp: obind_Done_iff)
  have "P s1" by (rule Cons.prems(3) [OF _ Cons.prems(2) s1(1)]) simp
  with s1(2) show ?case using Cons.IH Cons.prems(3) by auto
qed

lemma ofold_Done_fold: "ofold (\<lambda>x s. Done (f x s)) xs s = Done (fold f xs s)"
  by (induction xs arbitrary: s) auto

text \<open>A vector of outcomes collected left to right, as \<open>collect\<close> over a panicking closure.\<close>

fun omapM :: "('a \<Rightarrow> 'b outcome) \<Rightarrow> 'a list \<Rightarrow> 'b list outcome" where
  "omapM f [] = Done []"
| "omapM f (x # xs) = obind (f x) (\<lambda>y. omap (\<lambda>ys. y # ys) (omapM f xs))"

lemma omapM_Done_map:
  "(\<And>x. x \<in> set xs \<Longrightarrow> f x = Done (g x)) \<Longrightarrow> omapM f xs = Done (map g xs)"
  by (induction xs) auto

lemma omapM_Done_length: "omapM f xs = Done ys \<Longrightarrow> length ys = length xs"
  by (induction xs arbitrary: ys) (auto simp: obind_Done_iff omap_Done_iff)

text \<open>A loop that returns \<open>true\<close> at the first element that satisfies a panicking test.\<close>

fun oex :: "('a \<Rightarrow> bool outcome) \<Rightarrow> 'a list \<Rightarrow> bool outcome" where
  "oex f [] = Done False"
| "oex f (x # xs) = obind (f x) (\<lambda>b. if b then Done True else oex f xs)"

lemma oex_Done: "(\<And>x. x \<in> set xs \<Longrightarrow> f x = Done (p x)) \<Longrightarrow> oex f xs = Done (list_ex p xs)"
  by (induction xs) auto

section \<open>Hash collections\<close>

text \<open>
  A \<open>HashMap\<close> or \<open>HashSet\<close> whose iteration order matters is the list of its entries without
  duplicates; iterating visits \<open>it xs\<close>, where the order \<open>it\<close> is an argument of the model
  that only has to be a permutation.
\<close>

definition hash_order :: "('a list \<Rightarrow> 'a list) \<Rightarrow> bool" where
  "hash_order it \<longleftrightarrow> (\<forall>xs. mset (it xs) = mset xs)"

definition hs_insert :: "'a \<Rightarrow> 'a list \<Rightarrow> 'a list" where
  "hs_insert x xs = (if x \<in> set xs then xs else xs @ [x])"

definition hs_remove :: "'a \<Rightarrow> 'a list \<Rightarrow> 'a list" where
  "hs_remove x xs = filter (\<lambda>y. y \<noteq> x) xs"

lemma hash_order_set [simp]: "hash_order it \<Longrightarrow> set (it xs) = set xs"
  by (metis hash_order_def mset_eq_setD)

lemma hash_order_length [simp]: "hash_order it \<Longrightarrow> length (it xs) = length xs"
  by (metis hash_order_def mset_eq_length)

lemma hash_order_distinct [simp]: "hash_order it \<Longrightarrow> distinct (it xs) = distinct xs"
  by (metis hash_order_def mset_eq_imp_distinct_iff)

lemma hash_order_id [simp]: "hash_order (\<lambda>xs. xs)"
  by (simp add: hash_order_def)

lemma hash_order_rev [simp]: "hash_order rev"
  by (simp add: hash_order_def)

lemma set_hs_insert [simp]: "set (hs_insert x xs) = insert x (set xs)"
  by (auto simp: hs_insert_def)

lemma distinct_hs_insert [simp]: "distinct (hs_insert x xs) = distinct xs"
  by (auto simp: hs_insert_def)

lemma set_fold_hs_insert [simp]: "set (fold hs_insert xs ys) = set xs \<union> set ys"
  by (induction xs arbitrary: ys) auto

lemma distinct_fold_hs_insert [simp]: "distinct (fold hs_insert xs ys) = distinct ys"
  by (induction xs arbitrary: ys) auto

lemma set_hs_remove [simp]: "set (hs_remove x xs) = set xs - {x}"
  by (auto simp: hs_remove_def)

lemma distinct_hs_remove [simp]: "distinct xs \<Longrightarrow> distinct (hs_remove x xs)"
  by (simp add: hs_remove_def)

section \<open>Strings\<close>

definition digit_char :: "nat \<Rightarrow> char" where
  "digit_char d = char_of (48 + d)"

fun nat_to_string :: "nat \<Rightarrow> string" where
  "nat_to_string n =
     (if n < 10 then [digit_char n] else nat_to_string (n div 10) @ [digit_char (n mod 10)])"

declare nat_to_string.simps [simp del]

definition starts_with :: "string \<Rightarrow> string \<Rightarrow> bool" where
  "starts_with s p \<longleftrightarrow> take (length p) s = p"

fun str_contains :: "string \<Rightarrow> string \<Rightarrow> bool" where
  "str_contains [] p \<longleftrightarrow> p = []"
| "str_contains (c # cs) p \<longleftrightarrow> starts_with (c # cs) p \<or> str_contains cs p"

fun str_join :: "string \<Rightarrow> string list \<Rightarrow> string" where
  "str_join sep [] = []"
| "str_join sep [x] = x"
| "str_join sep (x # y # ys) = x @ sep @ str_join sep (y # ys)"

definition newline :: string where
  "newline = [CHR 0x0A]"

text \<open>A string literal of the source that spans several lines, and a text of lines.\<close>

definition unlines :: "string list \<Rightarrow> string" where
  "unlines ls = concat (map (\<lambda>l. l @ newline) ls)"

definition quote :: "string \<Rightarrow> string" where
  "quote s = CHR 0x22 # s @ [CHR 0x22]"

text \<open>\<open>generate_indent\<close> of the code generator: \<open>n\<close> spaces.\<close>

definition spaces :: "nat \<Rightarrow> string" where
  "spaces n = replicate n (CHR '' '')"

text \<open>\<open>str::split\<close> on a non-empty pattern: leftmost matches, not overlapping.\<close>

function str_split_acc :: "string \<Rightarrow> string \<Rightarrow> string \<Rightarrow> string list" where
  "str_split_acc pat acc [] = [acc]"
| "str_split_acc pat acc (c # cs) =
     (if pat \<noteq> [] \<and> starts_with (c # cs) pat
      then acc # str_split_acc pat [] (drop (length pat) (c # cs))
      else str_split_acc pat (acc @ [c]) cs)"
  by pat_completeness auto
termination
  by (relation "measure (\<lambda>(pat, acc, s). length s)") (auto simp: neq_Nil_conv)

definition str_split :: "string \<Rightarrow> string \<Rightarrow> string list" where
  "str_split s pat = str_split_acc pat [] s"

text \<open>\<open>str::replace\<close> on a non-empty pattern.\<close>

function str_replace :: "string \<Rightarrow> string \<Rightarrow> string \<Rightarrow> string" where
  "str_replace [] pat to = []"
| "str_replace (c # cs) pat to =
     (if pat \<noteq> [] \<and> starts_with (c # cs) pat
      then to @ str_replace (drop (length pat) (c # cs)) pat to
      else c # str_replace cs pat to)"
  by pat_completeness auto
termination
  by (relation "measure (\<lambda>(s, pat, to). length s)") (auto simp: neq_Nil_conv)

lemma unlines_append [simp]: "unlines (xs @ ys) = unlines xs @ unlines ys"
  by (simp add: unlines_def)

lemma starts_with_iff: "starts_with s p \<longleftrightarrow> (\<exists>t. s = p @ t)"
  unfolding starts_with_def by (metis append_eq_conv_conj append_take_drop_id)

lemma starts_with_append [simp]: "starts_with (p @ s) p"
  by (simp add: starts_with_def)

lemma str_contains_iff: "str_contains s p \<longleftrightarrow> (\<exists>u t. s = u @ p @ t)"
proof (induction s)
  case Nil
  then show ?case by auto
next
  case (Cons c cs)
  show ?case
  proof
    assume "str_contains (c # cs) p"
    then consider "starts_with (c # cs) p" | "str_contains cs p" by auto
    then show "\<exists>u t. c # cs = u @ p @ t"
    proof cases
      case 1
      then show ?thesis by (metis append_Nil starts_with_iff)
    next
      case 2
      then show ?thesis using Cons.IH by (metis append_Cons)
    qed
  next
    assume "\<exists>u t. c # cs = u @ p @ t"
    then obtain u t where u: "c # cs = u @ p @ t" by blast
    show "str_contains (c # cs) p"
    proof (cases u)
      case Nil
      with u have "starts_with (c # cs) p" by (auto simp: starts_with_iff)
      then show ?thesis by simp
    next
      case (Cons d ds)
      with u have "cs = ds @ p @ t" by simp
      with Cons.IH show ?thesis by (metis str_contains.simps(2))
    qed
  qed
qed

lemma str_join_append:
  "xs \<noteq> [] \<Longrightarrow> ys \<noteq> [] \<Longrightarrow> str_join sep (xs @ ys) = str_join sep xs @ sep @ str_join sep ys"
  by (induction sep xs rule: str_join.induct) (auto simp: neq_Nil_conv)

lemma nat_to_string_nonempty [simp]: "nat_to_string n \<noteq> []"
  by (subst nat_to_string.simps) simp

end
