(* ===== verification/Clean_Types.thy ===== *)
theory Clean_Types
  imports Rulf_Prelude
begin

text \<open>
  The cleaned type representation of \<^verbatim>\<open>librustdoc/clean/types.rs\<close> that the fuzz-target
  generator works on, with the compiler enumerations it mentions. Structs that are part of
  the recursion are one-constructor datatypes over the type of their type arguments, so that
  \<open>clean_type\<close> is one nested datatype; its equality is the derived \<open>PartialEq\<close>.
  \<open>Attributes\<close> (doc comments and spans, compared by their own \<open>PartialEq\<close> and never read by
  the generator) is a token; \<open>Box\<close> is transparent.
\<close>

section \<open>Compiler enumerations\<close>

text \<open>\<open>ast::Mutability\<close>; the source's \<open>Not\<close> is \<open>NotMut\<close>.\<close>

datatype mutability = Mut | NotMut

text \<open>
  \<open>clean::PrimitiveType\<close>; the constructors that share a name with a constructor of
  \<open>clean::Type\<close> carry the prefix \<open>Prim\<close>.
\<close>

datatype primitive_type =
    Isize | I8 | I16 | I32 | I64 | I128
  | Usize | U8 | U16 | U32 | U64 | U128
  | F32 | F64 | Char | Bool | Str
  | PrimSlice | PrimArray | PrimTuple | PrimUnit
  | PrimRawPointer | PrimReference | PrimFn | PrimNever

record def_id =
  krate :: nat
  index :: nat

datatype hir_unsafety = HirUnsafe | HirNormal

datatype int_ty = IntIsize | IntI8 | IntI16 | IntI32 | IntI64 | IntI128

datatype uint_ty = UintUsize | UintU8 | UintU16 | UintU32 | UintU64 | UintU128

datatype float_ty = FloatF32 | FloatF64

datatype prim_ty = PTInt int_ty | PTUint uint_ty | PTFloat float_ty | PTStr | PTBool | PTChar

datatype ctor_of = CtorOfStruct | CtorOfVariant

datatype ctor_kind = CtorFn | CtorConst | CtorFictive

datatype macro_kind = Bang | Attr | Derive

datatype def_kind =
    DKMod | DKStruct | DKUnion | DKEnum | DKVariant | DKTrait | DKTyAlias | DKForeignTy
  | DKTraitAlias | DKAssocTy | DKTyParam
  | DKFn | DKConst | DKConstParam | DKStatic | DKCtor ctor_of ctor_kind | DKAssocFn | DKAssocConst
  | DKMacro macro_kind
  | DKExternCrate | DKUse | DKForeignMod | DKAnonConst | DKOpaqueTy | DKField | DKLifetimeParam
  | DKGlobalAsm | DKImpl | DKClosure | DKGenerator

datatype non_macro_attr_kind = NMBuiltin | NMTool | NMDeriveHelper | NMRegistered

record hir_id =
  owner :: nat
  local_id :: nat

datatype res =
    ResDef def_kind def_id
  | ResPrimTy prim_ty
  | ResSelfTy "def_id option" "def_id option"
  | ResToolMod
  | ResSelfCtor def_id
  | ResLocal hir_id
  | ResNonMacroAttr non_macro_attr_kind
  | ResErr

datatype trait_bound_modifier = TBMNone | TBMMaybe | TBMMaybeConst

datatype synthetic_ty_param_kind = SynImplTrait

datatype abi =
    AbiRust | AbiC | AbiCdecl | AbiStdcall | AbiFastcall | AbiVectorcall | AbiThiscall | AbiAapcs
  | AbiWin64 | AbiSysV64 | AbiPtxKernel | AbiMsp430Interrupt | AbiX86Interrupt | AbiAmdGpuKernel
  | AbiEfiApi | AbiAvrInterrupt | AbiAvrNonBlockingInterrupt
  | AbiSystem | AbiRustIntrinsic | AbiRustCall | AbiPlatformIntrinsic

datatype attributes = Attributes nat

section \<open>Types, paths and bounds\<close>

datatype lifetime = Lifetime (lifetime_name: string)

datatype 'ty clean_constant =
  Constant (const_type: 'ty) (const_expr: string) (const_value: "string option")
    (const_is_literal: bool)

datatype ('ty, 'gb) generic_param_def_kind =
    GPLifetime
  | GPType def_id "'gb list" "'ty option" "synthetic_ty_param_kind option"
  | GPConst def_id 'ty

datatype ('ty, 'gb) generic_param_def =
  GenericParamDef (gp_name: string) (gp_kind: "('ty, 'gb) generic_param_def_kind")

datatype ('ty, 'gb) poly_trait =
  PolyTrait 'ty "('ty, 'gb) generic_param_def list"

datatype 'ty generic_bound =
    TraitBound "('ty, 'ty generic_bound) poly_trait" trait_bound_modifier
  | Outlives lifetime

datatype 'ty type_binding_kind = Equality 'ty | Constraint "'ty generic_bound list"

datatype 'ty type_binding = TypeBinding (tb_name: string) (tb_kind: "'ty type_binding_kind")

datatype 'ty generic_arg = ArgLifetime lifetime | ArgType 'ty | ArgConst "'ty clean_constant"

datatype 'ty generic_args =
    AngleBracketed "'ty generic_arg list" "'ty type_binding list"
  | Parenthesized "'ty list" "'ty option"

datatype 'ty path_segment = PathSegment (seg_name: string) (seg_args: "'ty generic_args")

datatype 'ty path =
  Path (path_global: bool) (path_res: res) (path_segments: "'ty path_segment list")

datatype 'ty argument = Argument (arg_type: 'ty) (arg_name: string)

datatype 'ty arguments = Arguments (arg_values: "'ty argument list")

datatype 'ty fn_ret_ty = Return 'ty | DefaultReturn

datatype 'ty fn_decl =
  FnDecl (fd_inputs: "'ty arguments") (fd_output: "'ty fn_ret_ty") (fd_c_variadic: bool)
    (fd_attrs: attributes)

datatype 'ty bare_function_decl =
  BareFunctionDecl hir_unsafety "('ty, 'ty generic_bound) generic_param_def list" "'ty fn_decl" abi

datatype clean_type =
    ResolvedPath "clean_type path" "clean_type generic_bound list option" def_id bool
  | Generic string
  | Primitive primitive_type
  | BareFunction "clean_type bare_function_decl"
  | Tuple "clean_type list"
  | Slice clean_type
  | Array clean_type string
  | Never
  | RawPointer mutability clean_type
  | BorrowedRef "lifetime option" mutability clean_type
  | QPath string clean_type clean_type
  | Infer
  | ImplTrait "clean_type generic_bound list"

type_synonym ctype_path = "clean_type path"
type_synonym ctype_segment = "clean_type path_segment"
type_synonym ctype_args = "clean_type generic_args"

datatype where_predicate =
    BoundPredicate clean_type "clean_type generic_bound list"
  | RegionPredicate lifetime "clean_type generic_bound list"
  | EqPredicate clean_type clean_type

record generics =
  gen_params :: "(clean_type, clean_type generic_bound) generic_param_def list"
  where_predicates :: "where_predicate list"

datatype visibility = Public | Inherited | VisCrate | Restricted def_id "clean_type path"

section \<open>Size of the parts of a path\<close>

text \<open>
  Every recursion of the generator over types goes through the type arguments of a path
  segment; these lemmas make the parts smaller than the whole for the termination proofs.
\<close>

lemma size_list_elem: "x \<in> set xs \<Longrightarrow> f x < size_list f xs"
  by (induction xs) auto

lemma size_segment_args:
  assumes "seg \<in> set (path_segments p)"
  shows "size_generic_args f (seg_args seg) < size_path f p"
proof -
  have "size_path_segment f seg < size_list (size_path_segment f) (path_segments p)"
    using assms by (rule size_list_elem)
  then show ?thesis by (cases p; cases seg) auto
qed

lemma size_angle_arg [termination_simp]:
  assumes "seg \<in> set (path_segments p)" "seg_args seg = AngleBracketed as bs" "ArgType t \<in> set as"
  shows "f t < size_path f p"
proof -
  have "size_generic_arg f (ArgType t) < size_list (size_generic_arg f) as"
    using assms(3) by (rule size_list_elem)
  then show ?thesis using size_segment_args [OF assms(1), of f] assms(2) by simp
qed

lemma size_paren_input [termination_simp]:
  assumes "seg \<in> set (path_segments p)" "seg_args seg = Parenthesized ins out" "t \<in> set ins"
  shows "f t < size_path f p"
  using size_segment_args [OF assms(1), of f] size_list_elem [OF assms(3), of f] assms(2) by simp

lemma size_paren_output [termination_simp]:
  assumes "seg \<in> set (path_segments p)" "seg_args seg = Parenthesized ins (Some t)"
  shows "f t < size_path f p"
  using size_segment_args [OF assms(1), of f] assms(2) by simp

lemma less_size_ResolvedPath [termination_simp]:
  "size t < size_path size p \<Longrightarrow> size t < size (ResolvedPath p pn did g)"
  by simp

end
