(* ===== verification/Name_Map.thy ===== *)
theory Name_Map
  imports Clean_Types
begin

text \<open>
  Queries on cleaned types (\<^verbatim>\<open>librustdoc/clean/types.rs\<close>: \<open>def_id\<close>, \<open>is_self_type\<close>,
  \<open>primitive_type\<close>, \<open>generics\<close>, the names of primitives) and \<open>FullNameMap\<close>
  (\<^verbatim>\<open>fuzz_target/impl_util.rs\<close>), the table from definition ids to full names, with the contract
  of such a table as the locale \<open>name_table\<close>. The documentation cache's table of primitive
  locations, which \<open>def_id\<close> reads, is an argument.
\<close>

section \<open>Queries on types\<close>

fun is_self_type :: "clean_type \<Rightarrow> bool" where
  "is_self_type (Generic name) = (name = ''Self'')"
| "is_self_type _ = False"

fun type_is_generic :: "clean_type \<Rightarrow> bool" where
  "type_is_generic (ResolvedPath _ _ _ is_generic) = is_generic"
| "type_is_generic _ = False"

fun is_full_generic :: "clean_type \<Rightarrow> bool" where
  "is_full_generic (Generic _) = True"
| "is_full_generic _ = False"

fun type_primitive_type :: "clean_type \<Rightarrow> primitive_type option" where
  "type_primitive_type (Primitive p) = Some p"
| "type_primitive_type (BorrowedRef _ _ (Primitive p)) = Some p"
| "type_primitive_type (Slice _) = Some PrimSlice"
| "type_primitive_type (BorrowedRef _ _ (Slice _)) = Some PrimSlice"
| "type_primitive_type (Array _ _) = Some PrimArray"
| "type_primitive_type (BorrowedRef _ _ (Array _ _)) = Some PrimArray"
| "type_primitive_type (Tuple tys) = (if tys = [] then Some PrimUnit else Some PrimTuple)"
| "type_primitive_type (RawPointer _ _) = Some PrimRawPointer"
| "type_primitive_type (BorrowedRef _ _ (Generic _)) = Some PrimReference"
| "type_primitive_type (BareFunction _) = Some PrimFn"
| "type_primitive_type Never = Some PrimNever"
| "type_primitive_type _ = None"

definition type_generics :: "clean_type \<Rightarrow> clean_type list option" where
  "type_generics t =
     (case t of
        ResolvedPath path _ _ _ \<Rightarrow>
          (if path_segments path = [] then None
           else (case seg_args (last (path_segments path)) of
                   AngleBracketed as _ \<Rightarrow>
                     Some (List.map_filter (\<lambda>a. case a of ArgType ty \<Rightarrow> Some ty | _ \<Rightarrow> None) as)
                 | Parenthesized _ _ \<Rightarrow> None))
      | _ \<Rightarrow> None)"

text \<open>\<open>GetDefId for Type\<close>; \<open>pl\<close> is the cache's \<open>primitive_locations\<close>.\<close>

fun type_def_id :: "(primitive_type \<Rightarrow> def_id option) \<Rightarrow> clean_type \<Rightarrow> def_id option" where
  "type_def_id pl (ResolvedPath _ _ did _) = Some did"
| "type_def_id pl (Primitive p) = pl p"
| "type_def_id pl (BorrowedRef _ _ (Generic _)) = pl PrimReference"
| "type_def_id pl (BorrowedRef _ _ ty) = type_def_id pl ty"
| "type_def_id pl (Tuple tys) = (if tys = [] then pl PrimUnit else pl PrimTuple)"
| "type_def_id pl (BareFunction _) = pl PrimFn"
| "type_def_id pl Never = pl PrimNever"
| "type_def_id pl (Slice _) = pl PrimSlice"
| "type_def_id pl (Array _ _) = pl PrimArray"
| "type_def_id pl (RawPointer _ _) = pl PrimRawPointer"
| "type_def_id pl (QPath _ self_type _) = type_def_id pl self_type"
| "type_def_id pl _ = None"

fun as_str :: "primitive_type \<Rightarrow> string" where
  "as_str Isize = ''isize''"
| "as_str I8 = ''i8''"
| "as_str I16 = ''i16''"
| "as_str I32 = ''i32''"
| "as_str I64 = ''i64''"
| "as_str I128 = ''i128''"
| "as_str Usize = ''usize''"
| "as_str U8 = ''u8''"
| "as_str U16 = ''u16''"
| "as_str U32 = ''u32''"
| "as_str U64 = ''u64''"
| "as_str U128 = ''u128''"
| "as_str F32 = ''f32''"
| "as_str F64 = ''f64''"
| "as_str Str = ''str''"
| "as_str Bool = ''bool''"
| "as_str Char = ''char''"
| "as_str PrimArray = ''array''"
| "as_str PrimSlice = ''slice''"
| "as_str PrimTuple = ''tuple''"
| "as_str PrimUnit = ''unit''"
| "as_str PrimRawPointer = ''pointer''"
| "as_str PrimReference = ''reference''"
| "as_str PrimFn = ''fn''"
| "as_str PrimNever = ''never''"

definition from_str :: "string \<Rightarrow> primitive_type option" where
  "from_str s = map_of
     [(''isize'', Isize), (''i8'', I8), (''i16'', I16), (''i32'', I32), (''i64'', I64),
      (''i128'', I128), (''usize'', Usize), (''u8'', U8), (''u16'', U16), (''u32'', U32),
      (''u64'', U64), (''u128'', U128), (''bool'', Bool), (''char'', Char), (''str'', Str),
      (''f32'', F32), (''f64'', F64), (''array'', PrimArray), (''slice'', PrimSlice),
      (''tuple'', PrimTuple), (''unit'', PrimUnit), (''pointer'', PrimRawPointer),
      (''reference'', PrimReference), (''fn'', PrimFn), (''never'', PrimNever)] s"

lemma from_str_as_str: "from_str (as_str p) = Some p"
  by (cases p) (simp_all add: from_str_def)

lemma as_str_from_str: "from_str s = Some p \<Longrightarrow> as_str p = s"
  by (auto simp: from_str_def split: if_splits)

section \<open>Item kinds and the full-name map\<close>

datatype item_type =
    ItModule | ItExternCrate | ItImport | ItStruct | ItEnum | ItFunction | ItTypedef | ItStatic
  | ItTrait | ItImpl | ItTyMethod | ItMethod | ItStructField | ItVariant | ItMacro | ItPrimitive
  | ItAssocType | ItConstant | ItAssocConst | ItUnion | ItForeignType | ItKeyword | ItOpaqueTy
  | ItProcAttribute | ItProcDerive | ItTraitAlias

record full_name_map =
  fnm_map :: "def_id \<Rightarrow> (string \<times> item_type) option"

definition fnm_new :: full_name_map where
  "fnm_new = \<lparr>fnm_map = (\<lambda>_. None)\<rparr>"

definition push_mapping ::
  "def_id \<Rightarrow> string \<Rightarrow> item_type \<Rightarrow> full_name_map \<Rightarrow> full_name_map" where
  "push_mapping did full_name it fnm = fnm\<lparr>fnm_map := (fnm_map fnm)(did \<mapsto> (full_name, it))\<rparr>"

definition get_full_name :: "full_name_map \<Rightarrow> def_id \<Rightarrow> string option" where
  "get_full_name fnm did =
     (case fnm_map fnm did of None \<Rightarrow> None | Some (full_name, _) \<Rightarrow> Some full_name)"

text \<open>
  The contract the type analyses rely on: an empty table names nothing, and a name is the one
  pushed last for its id.
\<close>

locale name_table =
  fixes empty :: "'t"
    and push :: "'k \<Rightarrow> 'n \<Rightarrow> 'i \<Rightarrow> 't \<Rightarrow> 't"
    and lookup :: "'t \<Rightarrow> 'k \<Rightarrow> 'n option"
  assumes lookup_empty: "lookup empty k = None"
    and lookup_push: "lookup (push k n i t) k' = (if k' = k then Some n else lookup t k')"
begin

lemma lookup_push_all:
  "lookup (fold (\<lambda>(k, n, i). push k n i) es t) k =
     (case map_of (rev (map (\<lambda>(k, n, i). (k, n)) es)) k of
        None \<Rightarrow> lookup t k
      | Some n \<Rightarrow> Some n)"
proof (induction es arbitrary: t)
  case Nil
  then show ?case by simp
next
  case (Cons e es)
  obtain k' n i where e: "e = (k', n, i)" by (cases e)
  show ?case
    by (simp add: e Cons.IH lookup_push map_add_def split: option.splits)
qed

lemma lookup_built_distinct:
  assumes "distinct (map fst es)"
  shows "lookup (fold (\<lambda>(k, n, i). push k n i) es empty) k = Some n \<longleftrightarrow> (\<exists>i. (k, n, i) \<in> set es)"
proof -
  have "distinct (map fst (rev (map (\<lambda>(k, n, i). (k, n)) es)))"
    using assms by (simp add: comp_def case_prod_unfold flip: rev_map)
  then have "map_of (rev (map (\<lambda>(k, n, i). (k, n)) es)) k = Some n \<longleftrightarrow>
      (k, n) \<in> set (rev (map (\<lambda>(k, n, i). (k, n)) es))"
    by (rule map_of_eq_Some_iff)
  also have "\<dots> \<longleftrightarrow> (\<exists>i. (k, n, i) \<in> set es)"
    by force
  finally show ?thesis
    by (auto simp: lookup_push_all lookup_empty split: option.splits)
qed

end

interpretation fnm: name_table fnm_new push_mapping get_full_name
  by unfold_locales (auto simp: fnm_new_def push_mapping_def get_full_name_def)

end
