(* ===== verification/Call_Type.thy ===== *)
theory Call_Type
  imports Name_Map
begin

text \<open>
  \<^verbatim>\<open>fuzz_target/call_type.rs\<close>: how an argument expression is built from a variable (borrow,
  dereference, convert, unwrap, wrap), its rendering as Rust text, and the split of a call type
  at its unwraps into the helper bindings the generated function body uses; with
  \<open>api_util::_type_name\<close>, which the rendering of raw-pointer casts calls, and
  \<open>ApiUnsafety\<close> of \<^verbatim>\<open>api_function.rs\<close>.
\<close>

section \<open>Definitions\<close>

datatype api_unsafety = Unsafe | Normal

fun is_unsafe :: "api_unsafety \<Rightarrow> bool" where
  "is_unsafe Unsafe = True"
| "is_unsafe Normal = False"

definition get_unsafety_from_fnheader :: "hir_unsafety \<Rightarrow> api_unsafety" where
  "get_unsafety_from_fnheader unsafety =
     (case unsafety of HirUnsafe \<Rightarrow> Unsafe | HirNormal \<Rightarrow> Normal)"

text \<open>\<open>_type_name\<close>: \<open>pl\<close> is the primitive-location table \<open>def_id\<close> reads.\<close>

fun type_name :: "(primitive_type \<Rightarrow> def_id option) \<Rightarrow> full_name_map \<Rightarrow> clean_type \<Rightarrow> string" where
  "type_name pl fnm ty =
     (case Option.bind (type_def_id pl ty) (get_full_name fnm) of
        Some full_name \<Rightarrow> full_name
      | None \<Rightarrow>
          (case ty of
             Primitive p \<Rightarrow> as_str p
           | Generic g \<Rightarrow> g
           | BorrowedRef _ _ inner \<Rightarrow> ''&'' @ type_name pl fnm inner
           | Tuple inner_types \<Rightarrow> ''('' @ str_join '' ,'' (map (type_name pl fnm) inner_types) @ '')''
           | _ \<Rightarrow> ''Currently not supported''))"

declare type_name.simps [simp del]

datatype call_type =
    NotCompatible
  | DirectCall
  | CtBorrowedRef call_type
  | CtMutBorrowedRef call_type
  | CtConstRawPointer call_type clean_type
  | CtMutRawPointer call_type clean_type
  | AsConvert string
  | UnsafeDeref call_type
  | Deref call_type
  | UnwrapResult call_type
  | ToResult call_type
  | UnwrapOption call_type
  | ToOption call_type

fun to_call_string ::
  "(primitive_type \<Rightarrow> def_id option) \<Rightarrow> full_name_map \<Rightarrow> call_type \<Rightarrow> string \<Rightarrow> string" where
  "to_call_string pl fnm NotCompatible v = []"
| "to_call_string pl fnm DirectCall v = v"
| "to_call_string pl fnm (CtBorrowedRef inner) v = ''&('' @ to_call_string pl fnm inner v @ '')''"
| "to_call_string pl fnm (CtMutBorrowedRef inner) v =
     ''&mut ('' @ to_call_string pl fnm inner v @ '')''"
| "to_call_string pl fnm (CtConstRawPointer inner ty) v =
     ''&('' @ to_call_string pl fnm inner v @ '') as *const '' @ type_name pl fnm ty"
| "to_call_string pl fnm (CtMutRawPointer inner ty) v =
     ''&('' @ to_call_string pl fnm inner v @ '') as *mut '' @ type_name pl fnm ty"
| "to_call_string pl fnm (AsConvert str) v = v @ '' as '' @ str"
| "to_call_string pl fnm (UnsafeDeref inner) v = ''*('' @ to_call_string pl fnm inner v @ '')''"
| "to_call_string pl fnm (Deref inner) v = ''*('' @ to_call_string pl fnm inner v @ '')''"
| "to_call_string pl fnm (UnwrapResult inner) v =
     ''_unwrap_result('' @ to_call_string pl fnm inner v @ '')''"
| "to_call_string pl fnm (UnwrapOption inner) v =
     ''_unwrap_option('' @ to_call_string pl fnm inner v @ '')''"
| "to_call_string pl fnm (ToOption inner) v = ''Some('' @ to_call_string pl fnm inner v @ '')''"
| "to_call_string pl fnm (ToResult inner) v = ''Ok('' @ to_call_string pl fnm inner v @ '')''"

fun unsafe_call_type :: "call_type \<Rightarrow> api_unsafety" where
  "unsafe_call_type (UnsafeDeref _) = Unsafe"
| "unsafe_call_type _ = Normal"

fun is_unwrap_call_type :: "call_type \<Rightarrow> bool" where
  "is_unwrap_call_type (UnwrapOption _) = True"
| "is_unwrap_call_type (UnwrapResult _) = True"
| "is_unwrap_call_type _ = False"

fun contains_unwrap_call_type :: "call_type \<Rightarrow> bool" where
  "contains_unwrap_call_type NotCompatible = False"
| "contains_unwrap_call_type DirectCall = False"
| "contains_unwrap_call_type (AsConvert _) = False"
| "contains_unwrap_call_type (UnwrapOption _) = True"
| "contains_unwrap_call_type (UnwrapResult _) = True"
| "contains_unwrap_call_type (CtBorrowedRef c) = contains_unwrap_call_type c"
| "contains_unwrap_call_type (CtMutBorrowedRef c) = contains_unwrap_call_type c"
| "contains_unwrap_call_type (CtConstRawPointer c _) = contains_unwrap_call_type c"
| "contains_unwrap_call_type (CtMutRawPointer c _) = contains_unwrap_call_type c"
| "contains_unwrap_call_type (UnsafeDeref c) = contains_unwrap_call_type c"
| "contains_unwrap_call_type (Deref c) = contains_unwrap_call_type c"
| "contains_unwrap_call_type (ToOption c) = contains_unwrap_call_type c"
| "contains_unwrap_call_type (ToResult c) = contains_unwrap_call_type c"

definition contains_move_call_type :: "call_type \<Rightarrow> bool" where
  "contains_move_call_type c = contains_unwrap_call_type c"

fun call_type_to_array :: "call_type \<Rightarrow> call_type list" where
  "call_type_to_array NotCompatible = [NotCompatible]"
| "call_type_to_array DirectCall = [DirectCall]"
| "call_type_to_array (AsConvert s) = [AsConvert s]"
| "call_type_to_array (UnwrapOption c) = UnwrapOption c # call_type_to_array c"
| "call_type_to_array (UnwrapResult c) = UnwrapResult c # call_type_to_array c"
| "call_type_to_array (CtBorrowedRef c) = CtBorrowedRef c # call_type_to_array c"
| "call_type_to_array (CtMutBorrowedRef c) = CtMutBorrowedRef c # call_type_to_array c"
| "call_type_to_array (CtConstRawPointer c t) = CtConstRawPointer c t # call_type_to_array c"
| "call_type_to_array (CtMutRawPointer c t) = CtMutRawPointer c t # call_type_to_array c"
| "call_type_to_array (UnsafeDeref c) = UnsafeDeref c # call_type_to_array c"
| "call_type_to_array (Deref c) = Deref c # call_type_to_array c"
| "call_type_to_array (ToOption c) = ToOption c # call_type_to_array c"
| "call_type_to_array (ToResult c) = ToResult c # call_type_to_array c"

text \<open>The match of \<open>_inner_array_to_call_type\<close>: the layer \<open>c\<close> around a new inner part.\<close>

fun rewrap :: "call_type \<Rightarrow> call_type \<Rightarrow> call_type" where
  "rewrap DirectCall inner = NotCompatible"
| "rewrap (AsConvert _) inner = NotCompatible"
| "rewrap NotCompatible inner = NotCompatible"
| "rewrap (CtBorrowedRef _) inner = CtBorrowedRef inner"
| "rewrap (CtMutBorrowedRef _) inner = CtMutBorrowedRef inner"
| "rewrap (CtConstRawPointer _ t) inner = CtConstRawPointer inner t"
| "rewrap (CtMutRawPointer _ t) inner = CtMutRawPointer inner t"
| "rewrap (UnsafeDeref _) inner = UnsafeDeref inner"
| "rewrap (Deref _) inner = Deref inner"
| "rewrap (UnwrapOption _) inner = UnwrapOption inner"
| "rewrap (ToOption _) inner = ToOption inner"
| "rewrap (UnwrapResult _) inner = UnwrapResult inner"
| "rewrap (ToResult _) inner = ToResult inner"

text \<open>
  \<open>_inner_array_to_call_type\<close>: the index \<open>start\<close> of the source is the suffix of the array
  that is left; past the end it prints a message and returns \<open>_NotCompatible\<close>.
\<close>

fun inner_array_to_call_type :: "call_type list \<Rightarrow> call_type" where
  "inner_array_to_call_type [] = NotCompatible"
| "inner_array_to_call_type [c] = c"
| "inner_array_to_call_type (c # d # cs) = rewrap c (inner_array_to_call_type (d # cs))"

definition array_to_call_type :: "call_type list \<Rightarrow> call_type" where
  "array_to_call_type cs = inner_array_to_call_type cs"

text \<open>
  The loop of \<open>_split_at_unwrap_call_type\<close> over the raw array, with the vectors \<open>one_split\<close>
  and \<open>res\<close> as accumulators. A chunk is pushed when an unwrap starts the next one and, at the
  last element, when that element is not an unwrap.
\<close>

fun split_loop :: "call_type list \<Rightarrow> call_type list \<Rightarrow> call_type list list \<Rightarrow> call_type list list"
where
  "split_loop [] one_split acc = acc"
| "split_loop (c # cs) one_split acc =
     (if \<not> is_unwrap_call_type c
      then (let one_split' = one_split @ [c]
            in split_loop cs one_split' (if cs = [] then acc @ [one_split'] else acc))
      else split_loop cs [c]
             (if length one_split > 0 then acc @ [one_split @ [DirectCall]] else acc))"

text \<open>\<open>call_types.last().unwrap()\<close> panics on an empty vector.\<close>

definition split_at_unwrap_call_type :: "call_type \<Rightarrow> call_type list outcome" where
  "split_at_unwrap_call_type c =
     (if \<not> contains_unwrap_call_type c then Done [c]
      else (let res = split_loop (call_type_to_array c) [] [];
                call_types = rev (map array_to_call_type res)
            in obind (unwrap (if call_types = [] then None else Some (last call_types)))
                 (\<lambda>last_call_type.
                    Done (if is_unwrap_call_type last_call_type
                          then call_types @ [DirectCall] else call_types))))"


section \<open>Flattening and rebuilding\<close>

lemma call_type_to_array_nonempty [simp]: "call_type_to_array c \<noteq> []"
  by (cases c) auto

lemma inner_array_Cons:
  "cs \<noteq> [] \<Longrightarrow> inner_array_to_call_type (c # cs) = rewrap c (inner_array_to_call_type cs)"
  by (cases cs) auto

lemma array_roundtrip: "array_to_call_type (call_type_to_array c) = c"
  unfolding array_to_call_type_def by (induction c) (auto simp: inner_array_Cons)

text \<open>
  C36: flattening a call type into its array of layers and rebuilding it gives the call type
  back, so the array form loses nothing.
\<close>

theorem array_to_call_type_roundtrip: "array_to_call_type (call_type_to_array c) = c"
  by (rule array_roundtrip)

section \<open>Splitting at unwraps\<close>

text \<open>A leaf of a call type, and the text a layer puts around an argument expression.\<close>

definition is_leaf_call_type :: "call_type \<Rightarrow> bool" where
  "is_leaf_call_type c \<longleftrightarrow> (case c of
     NotCompatible \<Rightarrow> True | DirectCall \<Rightarrow> True | AsConvert _ \<Rightarrow> True | _ \<Rightarrow> False)"

definition layer_string ::
  "(primitive_type \<Rightarrow> def_id option) \<Rightarrow> full_name_map \<Rightarrow> call_type \<Rightarrow> string \<Rightarrow> string" where
  "layer_string pl fnm c s = to_call_string pl fnm (rewrap c DirectCall) s"

lemma to_call_string_rewrap:
  "\<not> is_leaf_call_type c \<Longrightarrow>
     to_call_string pl fnm (rewrap c d) v = layer_string pl fnm c (to_call_string pl fnm d v)"
  by (cases c) (auto simp: is_leaf_call_type_def layer_string_def)

lemma to_call_string_array:
  "\<forall>c \<in> set cs. \<not> is_leaf_call_type c \<Longrightarrow>
     to_call_string pl fnm (array_to_call_type (cs @ [l])) v =
       foldr (layer_string pl fnm) cs (to_call_string pl fnm l v)"
  unfolding array_to_call_type_def
  by (induction cs) (auto simp: inner_array_Cons to_call_string_rewrap)

lemma call_type_to_array_leaf:
  "is_leaf_call_type (last (call_type_to_array c)) \<and>
   (\<forall>y \<in> set (butlast (call_type_to_array c)). \<not> is_leaf_call_type y)"
  by (induction c) (auto simp: is_leaf_call_type_def)

lemma call_type_to_array_shape:
  obtains ys l where "call_type_to_array c = ys @ [l]" "is_leaf_call_type l"
    "\<forall>y \<in> set ys. \<not> is_leaf_call_type y"
  using call_type_to_array_leaf [of c] by (metis append_butlast_last_id call_type_to_array_nonempty)

lemma is_leaf_not_unwrap: "is_leaf_call_type c \<Longrightarrow> \<not> is_unwrap_call_type c"
  by (cases c) (auto simp: is_leaf_call_type_def)

lemma split_loop_acc: "split_loop cs one acc = acc @ split_loop cs one []"
proof (induction cs arbitrary: one acc)
  case Nil
  then show ?case by simp
next
  case (Cons c cs)
  show ?case
    by (simp add: Let_def) (metis Cons.IH append.assoc append_Nil)
qed

text \<open>
  Running the chunks innermost first, each on the name the previous one was bound to, gives
  the text of all layers around the leaf: \<open>one\<close> is the chunk under construction.
\<close>

lemma split_loop_renders:
  assumes "\<forall>y \<in> set (one @ ys). \<not> is_leaf_call_type y" and "is_leaf_call_type l"
  shows "foldl (\<lambda>v c. to_call_string pl fnm c v) v
           (rev (map array_to_call_type (split_loop (ys @ [l]) one []))) =
         foldr (layer_string pl fnm) (one @ ys) (to_call_string pl fnm l v)"
  using assms
proof (induction ys arbitrary: one)
  case Nil
  then show ?case by (simp add: Let_def is_leaf_not_unwrap to_call_string_array)
next
  case (Cons y ys)
  show ?case
  proof (cases "is_unwrap_call_type y")
    case False
    with Cons show ?thesis by (simp add: Let_def)
  next
    case True
    have *: "split_loop ((y # ys) @ [l]) one [] =
        (if one = [] then [] else [one @ [DirectCall]]) @ split_loop (ys @ [l]) [y] []"
      using True by (simp add: split_loop_acc [of _ _ "[_]"])
    have IH: "foldl (\<lambda>v c. to_call_string pl fnm c v) v
           (rev (map array_to_call_type (split_loop (ys @ [l]) [y] []))) =
         foldr (layer_string pl fnm) ([y] @ ys) (to_call_string pl fnm l v)"
      using Cons by auto
    have one: "\<forall>c \<in> set one. \<not> is_leaf_call_type c"
      using Cons.prems(1) by simp
    show ?thesis
      unfolding * by (simp add: IH [simplified] to_call_string_array [OF one])
  qed
qed

lemma split_loop_nonempty: "ys \<noteq> [] \<Longrightarrow> \<not> is_unwrap_call_type (last ys) \<Longrightarrow> split_loop ys one [] \<noteq> []"
  by (induction ys arbitrary: one) (auto simp: Let_def split_loop_acc [of _ _ "[_]"])

lemma is_unwrap_rewrap: "is_unwrap_call_type (rewrap c d) = is_unwrap_call_type c"
  by (cases c) auto

lemma contains_unwrap_iff: "contains_unwrap_call_type c \<longleftrightarrow> (\<exists>y \<in> set (call_type_to_array c). is_unwrap_call_type y)"
  by (induction c) auto

lemma split_loop_last:
  assumes "one \<noteq> [] \<and> is_unwrap_call_type (hd one) \<or> (\<exists>y \<in> set ys. is_unwrap_call_type y)" "is_leaf_call_type l"
  shows "\<exists>u us. last (split_loop (ys @ [l]) one []) = u # us \<and> us \<noteq> [] \<and> is_unwrap_call_type u"
  using assms
proof (induction ys arbitrary: one)
  case Nil
  then show ?case by (cases one) (auto simp: Let_def is_leaf_not_unwrap)
next
  case (Cons y ys)
  show ?case
  proof (cases "is_unwrap_call_type y")
    case False
    have "(one @ [y] \<noteq> [] \<and> is_unwrap_call_type (hd (one @ [y]))) \<or> (\<exists>y \<in> set ys. is_unwrap_call_type y)"
      using Cons.prems(1) False by auto
    from Cons.IH [OF this Cons.prems(2)] show ?thesis using False by (simp add: Let_def)
  next
    case True
    have "split_loop ((y # ys) @ [l]) one [] =
        (if one = [] then [] else [one @ [DirectCall]]) @ split_loop (ys @ [l]) [y] []"
      using True by (simp add: split_loop_acc [of _ _ "[_]"])
    moreover have "split_loop (ys @ [l]) [y] [] \<noteq> []"
      using split_loop_nonempty [of "ys @ [l]" "[y]"] Cons.prems(2) by (simp add: is_leaf_not_unwrap)
    ultimately show ?thesis using Cons.IH [of "[y]"] True Cons.prems(2) by simp
  qed
qed

text \<open>The pieces of a call type; the first of several is an unwrap.\<close>

lemma split_at_unwrap_ok:
  "\<exists>cs. split_at_unwrap_call_type c = Done cs \<and> cs \<noteq> [] \<and>
     (length cs \<noteq> 1 \<longrightarrow> is_unwrap_call_type (hd cs)) \<and> (length cs = 1 \<longrightarrow> cs = [c]) \<and>
     (\<forall>pl fnm v. foldl (\<lambda>v c. to_call_string pl fnm c v) v cs = to_call_string pl fnm c v)"
proof (cases "contains_unwrap_call_type c")
  case False
  then show ?thesis by (simp add: split_at_unwrap_call_type_def)
next
  case True
  obtain ys l where a: "call_type_to_array c = ys @ [l]" "is_leaf_call_type l"
      "\<forall>y \<in> set ys. \<not> is_leaf_call_type y"
    using call_type_to_array_shape by blast
  let ?chunks = "split_loop (ys @ [l]) [] []"
  let ?ps = "rev (map array_to_call_type ?chunks)"
  have render: "foldl (\<lambda>v c. to_call_string pl fnm c v) v ?ps = to_call_string pl fnm c v" for pl fnm v
    using split_loop_renders [of "[]" ys l pl fnm v] a to_call_string_array [of ys pl fnm l v]
      array_roundtrip [of c] by simp
  have nonempty: "?chunks \<noteq> []"
    using split_loop_nonempty [of "ys @ [l]" "[]"] a(2) by (simp add: is_leaf_not_unwrap)
  have "\<exists>y \<in> set ys. is_unwrap_call_type y"
    using True a(1,2) by (auto simp: contains_unwrap_iff is_leaf_not_unwrap)
  then obtain u us where last: "last ?chunks = u # us" "us \<noteq> []" "is_unwrap_call_type u"
    using split_loop_last [of "[]" ys l] a(2) by blast
  have hd: "is_unwrap_call_type (hd ?ps)"
    using nonempty last by (simp add: hd_rev last_map array_to_call_type_def inner_array_Cons is_unwrap_rewrap)
  let ?cs = "if is_unwrap_call_type (last ?ps) then ?ps @ [DirectCall] else ?ps"
  have "split_at_unwrap_call_type c = Done ?cs"
    using True nonempty by (simp add: split_at_unwrap_call_type_def a(1) Let_def)
  moreover have "is_unwrap_call_type (hd ?cs)" "length ?cs \<noteq> 1" "?cs \<noteq> []"
    using hd nonempty by (auto simp: hd_append length_Suc_conv rev_eq_Cons_iff split: if_splits)
  moreover have "foldl (\<lambda>v c. to_call_string pl fnm c v) v ?cs = to_call_string pl fnm c v" for pl fnm v
    using render by simp
  ultimately show ?thesis by blast
qed

text \<open>
  C35: \<open>_split_at_unwrap_call_type\<close> always returns a non-empty list of helper expressions, and
  binding them one after the other, each applied to the previous binding, renders exactly the
  text of the whole call type.
\<close>

theorem split_at_unwrap_renders:
  "\<exists>cs. split_at_unwrap_call_type c = Done cs \<and> cs \<noteq> [] \<and>
     foldl (\<lambda>v c. to_call_string pl fnm c v) v cs = to_call_string pl fnm c v"
  using split_at_unwrap_ok [of c] by blast

end
