(* ===== verification/Prelude_Type.thy ===== *)
theory Prelude_Type
  imports Call_Type
begin

text \<open>
  \<^verbatim>\<open>fuzz_target/prelude_type.rs\<close>: the types of the standard prelude the generator sees through
  (\<open>Option\<close> and \<open>Result\<close>), how to unwrap and build them, and the helper functions a generated
  target needs for its unwraps.
\<close>

section \<open>Definitions\<close>

definition preluded_type_table :: "(string \<times> string) list" where
  "preluded_type_table =
     [(''core::option::Option'', ''Option''),
      (''core::result::Result'', ''Result''),
      (''alloc::string::String'', ''String'')]"

definition is_preluded_type :: "string \<Rightarrow> bool" where
  "is_preluded_type name \<longleftrightarrow> map_of preluded_type_table name \<noteq> None"

definition get_all_preluded_type :: "string list" where
  "get_all_preluded_type = map fst preluded_type_table"

definition preluded_did :: "full_name_map \<Rightarrow> def_id \<Rightarrow> bool" where
  "preluded_did fnm did =
     (case get_full_name fnm did of None \<Rightarrow> False | Some name \<Rightarrow> is_preluded_type name)"

text \<open>\<open>preluded_type\<close>: \<open>type_.def_id().unwrap()\<close> panics on a type without a definition id.\<close>

definition preluded_type ::
  "(primitive_type \<Rightarrow> def_id option) \<Rightarrow> full_name_map \<Rightarrow> clean_type \<Rightarrow> bool outcome" where
  "preluded_type pl fnm ty = obind (unwrap (type_def_id pl ty)) (\<lambda>did. Done (preluded_did fnm did))"

definition to_strip_type_name :: "string \<Rightarrow> string" where
  "to_strip_type_name name =
     (case map_of preluded_type_table name of Some stripped \<Rightarrow> stripped | None \<Rightarrow> name)"

datatype prelude_type =
    NotPrelude clean_type
  | PreludeOption clean_type
  | PreludeResult (ok_type: clean_type) (err_type: clean_type)

text \<open>The loop bodies of \<open>extract_option\<close> and \<open>extract_result\<close> on one segment's arguments.\<close>

definition option_arg :: "ctype_args \<Rightarrow> clean_type option" where
  "option_arg args =
     (case args of
        AngleBracketed as _ \<Rightarrow>
          (if length as \<noteq> 1 then None
           else (case as ! 0 of ArgType t \<Rightarrow> Some t | _ \<Rightarrow> None))
      | Parenthesized _ _ \<Rightarrow> None)"

definition result_args :: "ctype_args \<Rightarrow> (clean_type \<times> clean_type) option" where
  "result_args args =
     (case args of
        AngleBracketed as _ \<Rightarrow>
          (if length as \<noteq> 2 then None
           else (case as ! 0 of
                   ArgType ok \<Rightarrow> (case as ! 1 of ArgType err \<Rightarrow> Some (ok, err) | _ \<Rightarrow> None)
                 | _ \<Rightarrow> None))
      | Parenthesized _ _ \<Rightarrow> None)"

fun extract_option_segments :: "ctype_segment list \<Rightarrow> clean_type \<Rightarrow> prelude_type" where
  "extract_option_segments [] ty = NotPrelude ty"
| "extract_option_segments (seg # segs) ty =
     (case option_arg (seg_args seg) of
        Some t \<Rightarrow> PreludeOption t
      | None \<Rightarrow> extract_option_segments segs ty)"

definition extract_option :: "ctype_path \<Rightarrow> clean_type \<Rightarrow> prelude_type" where
  "extract_option path ty = extract_option_segments (path_segments path) ty"

fun extract_result_segments :: "ctype_segment list \<Rightarrow> clean_type \<Rightarrow> prelude_type" where
  "extract_result_segments [] ty = NotPrelude ty"
| "extract_result_segments (seg # segs) ty =
     (case result_args (seg_args seg) of
        Some (ok, err) \<Rightarrow> PreludeResult ok err
      | None \<Rightarrow> extract_result_segments segs ty)"

definition extract_result :: "ctype_path \<Rightarrow> clean_type \<Rightarrow> prelude_type" where
  "extract_result path ty = extract_result_segments (path_segments path) ty"

text \<open>
  \<open>PreludeType::from_type\<close>: both \<open>unwrap\<close>s of the source are on the definition id of a
  \<open>ResolvedPath\<close> and on a name just looked up, so they never fail (\<open>preluded_type_resolved\<close>).
\<close>

fun prelude_from_type :: "full_name_map \<Rightarrow> clean_type \<Rightarrow> prelude_type" where
  "prelude_from_type fnm (ResolvedPath path pn did g) =
     (let ty = ResolvedPath path pn did g
      in if preluded_did fnm did
         then (case get_full_name fnm did of
                 None \<Rightarrow> NotPrelude ty
               | Some full_name \<Rightarrow>
                   (let strip_type_name = to_strip_type_name full_name
                    in if ''Option'' = strip_type_name then extract_option path ty
                       else if ''Result'' = strip_type_name then extract_result path ty
                       else NotPrelude ty))
         else NotPrelude ty)"
| "prelude_from_type fnm ty = NotPrelude ty"

fun prelude_to_type_name ::
  "(primitive_type \<Rightarrow> def_id option) \<Rightarrow> full_name_map \<Rightarrow> prelude_type \<Rightarrow> string" where
  "prelude_to_type_name pl fnm (NotPrelude ty) = type_name pl fnm ty"
| "prelude_to_type_name pl fnm (PreludeOption ty) = ''Option<'' @ type_name pl fnm ty @ ''>''"
| "prelude_to_type_name pl fnm (PreludeResult ok err) =
     ''Result<'' @ type_name pl fnm ok @ '', '' @ type_name pl fnm err @ ''>''"

fun is_final_type :: "prelude_type \<Rightarrow> bool" where
  "is_final_type (NotPrelude _) = True"
| "is_final_type (PreludeResult _ _) = False"
| "is_final_type (PreludeOption _) = False"

fun get_final_type :: "prelude_type \<Rightarrow> clean_type" where
  "get_final_type (NotPrelude ty) = ty"
| "get_final_type (PreludeOption ty) = ty"
| "get_final_type (PreludeResult ok err) = ok"

fun unwrap_call_type :: "prelude_type \<Rightarrow> call_type \<Rightarrow> call_type" where
  "unwrap_call_type (NotPrelude _) inner = inner"
| "unwrap_call_type (PreludeOption _) inner = UnwrapOption inner"
| "unwrap_call_type (PreludeResult _ _) inner = UnwrapResult inner"

fun to_call_type :: "prelude_type \<Rightarrow> call_type \<Rightarrow> call_type" where
  "to_call_type (NotPrelude _) inner = inner"
| "to_call_type (PreludeOption _) inner = ToOption inner"
| "to_call_type (PreludeResult _ _) inner = ToResult inner"

definition prelude_type_need_special_dealing :: "full_name_map \<Rightarrow> clean_type \<Rightarrow> bool" where
  "prelude_type_need_special_dealing fnm ty =
     (let final_type = get_final_type (prelude_from_type fnm ty)
      in if final_type = ty then False else True)"

datatype prelude_helper = ResultHelper | OptionHelper

fun helpers_from_call_type :: "call_type \<Rightarrow> prelude_helper set" where
  "helpers_from_call_type DirectCall = {}"
| "helpers_from_call_type NotCompatible = {}"
| "helpers_from_call_type (AsConvert _) = {}"
| "helpers_from_call_type (CtBorrowedRef c) = helpers_from_call_type c"
| "helpers_from_call_type (CtConstRawPointer c _) = helpers_from_call_type c"
| "helpers_from_call_type (CtMutBorrowedRef c) = helpers_from_call_type c"
| "helpers_from_call_type (CtMutRawPointer c _) = helpers_from_call_type c"
| "helpers_from_call_type (Deref c) = helpers_from_call_type c"
| "helpers_from_call_type (ToOption c) = helpers_from_call_type c"
| "helpers_from_call_type (ToResult c) = helpers_from_call_type c"
| "helpers_from_call_type (UnsafeDeref c) = helpers_from_call_type c"
| "helpers_from_call_type (UnwrapOption c) = insert OptionHelper (helpers_from_call_type c)"
| "helpers_from_call_type (UnwrapResult c) = insert ResultHelper (helpers_from_call_type c)"

definition unwrap_result_function :: string where
  "unwrap_result_function = unlines
     [''fn _unwrap_result<T, E>(_res: Result<T, E>) -> T {'',
      ''    match _res {'',
      ''        Ok(_t) => _t,'',
      ''        Err(_) => {'',
      ''            use std::process;'',
      ''            process::exit(0);'',
      ''        },'',
      ''    }'',
      ''}'']"

definition unwrap_option_function :: string where
  "unwrap_option_function = unlines
     [''fn _unwrap_option<T>(_opt: Option<T>) -> T {'',
      ''    match _opt {'',
      ''        Some(_t) => _t,'',
      ''        None => {'',
      ''            use std::process;'',
      ''            process::exit(0);'',
      ''        }'',
      ''    }'',
      ''}'']"

fun prelude_to_helper_function :: "prelude_helper \<Rightarrow> string" where
  "prelude_to_helper_function ResultHelper = unwrap_result_function"
| "prelude_to_helper_function OptionHelper = unwrap_option_function"


declare prelude_from_type.simps(1) [simp del]

section \<open>Final types are smaller\<close>

lemma preluded_type_resolved:
  "preluded_type pl fnm (ResolvedPath path pn did g) = Done (preluded_did fnm did)"
  by (simp add: preluded_type_def)

lemma option_arg_Some: "option_arg a = Some t \<longleftrightarrow> (\<exists>bs. a = AngleBracketed [ArgType t] bs)"
  by (auto simp: option_arg_def length_Suc_conv
      split: generic_args.splits if_splits generic_arg.splits)

lemma result_args_Some:
  "result_args a = Some (ok, err) \<longleftrightarrow> (\<exists>bs. a = AngleBracketed [ArgType ok, ArgType err] bs)"
  by (auto simp: result_args_def numeral_2_eq_2 length_Suc_conv
      split: generic_args.splits if_splits generic_arg.splits)

lemma extract_option_cases:
  "extract_option_segments segs ty = NotPrelude ty \<or>
   (\<exists>seg t. seg \<in> set segs \<and> option_arg (seg_args seg) = Some t \<and>
      extract_option_segments segs ty = PreludeOption t)"
  by (induction segs) (auto split: option.splits)

lemma extract_result_cases:
  "extract_result_segments segs ty = NotPrelude ty \<or>
   (\<exists>seg ok err. seg \<in> set segs \<and> result_args (seg_args seg) = Some (ok, err) \<and>
      extract_result_segments segs ty = PreludeResult ok err)"
  by (induction segs) (auto split: option.splits)

lemma size_option_arg:
  "seg \<in> set (path_segments p) \<Longrightarrow> option_arg (seg_args seg) = Some t \<Longrightarrow> f t < size_path f p"
  by (auto simp: option_arg_Some intro: size_angle_arg)

lemma size_result_args:
  "seg \<in> set (path_segments p) \<Longrightarrow> result_args (seg_args seg) = Some (ok, err) \<Longrightarrow>
     f ok < size_path f p"
  by (auto simp: result_args_Some intro: size_angle_arg)

lemma prelude_from_type_cases:
  obtains (not_prelude) "prelude_from_type fnm ty = NotPrelude ty"
  | (option) t where "prelude_from_type fnm ty = PreludeOption t" "size t < size ty"
  | (result) ok err where "prelude_from_type fnm ty = PreludeResult ok err" "size ok < size ty"
proof (cases "prelude_from_type fnm ty = NotPrelude ty")
  case True
  then show ?thesis by (rule not_prelude)
next
  case False
  then obtain path pn did g where ty: "ty = ResolvedPath path pn did g"
    by (cases ty) auto
  from False consider
      "prelude_from_type fnm ty = extract_option_segments (path_segments path) ty"
    | "prelude_from_type fnm ty = extract_result_segments (path_segments path) ty"
    by (auto simp: ty prelude_from_type.simps(1) Let_def extract_option_def extract_result_def split: if_splits option.splits)
  then show ?thesis
  proof cases
    case 1
    with False obtain seg t where "seg \<in> set (path_segments path)"
        "option_arg (seg_args seg) = Some t" "prelude_from_type fnm ty = PreludeOption t"
      using extract_option_cases [of "path_segments path" ty] by auto
    then show ?thesis using option size_option_arg [of seg path t size] ty by simp
  next
    case 2
    with False obtain seg ok err where "seg \<in> set (path_segments path)"
        "result_args (seg_args seg) = Some (ok, err)"
        "prelude_from_type fnm ty = PreludeResult ok err"
      using extract_result_cases [of "path_segments path" ty] by auto
    then show ?thesis using result size_result_args [of seg path ok err size] ty by simp
  qed
qed

lemma final_type_smaller [termination_simp]:
  "prelude_type_need_special_dealing fnm ty \<Longrightarrow>
     size (get_final_type (prelude_from_type fnm ty)) < size ty"
  by (rule prelude_from_type_cases [of fnm ty]) (auto simp: prelude_type_need_special_dealing_def)

lemma special_dealing_iff:
  "prelude_type_need_special_dealing fnm ty \<longleftrightarrow> \<not> is_final_type (prelude_from_type fnm ty)"
  by (rule prelude_from_type_cases [of fnm ty])
    (auto simp: prelude_type_need_special_dealing_def Let_def)

lemma special_dealing_resolved:
  "prelude_type_need_special_dealing fnm ty \<Longrightarrow> \<exists>path pn did g. ty = ResolvedPath path pn did g"
  by (cases ty) (auto simp: prelude_type_need_special_dealing_def)

lemma prelude_option_smaller:
  "prelude_from_type fnm ty = PreludeOption t \<Longrightarrow> size t < size ty"
  by (rule prelude_from_type_cases [of fnm ty]) auto

section \<open>Unwrap helpers\<close>

text \<open>
  The set of unwrap helpers of a call type is empty exactly when the call type contains no
  unwrap, so a target defines an unwrap helper if and only if it calls one.
\<close>

lemma helpers_empty_iff_no_unwrap:
  "helpers_from_call_type c = {} \<longleftrightarrow> \<not> contains_unwrap_call_type c"
  by (induction c) auto

end
