(* ===== verification/Fuzzable_Type.thy ===== *)
theory Fuzzable_Type
  imports Prelude_Type
begin

text \<open>
  \<^verbatim>\<open>fuzz_target/fuzzable_type.rs\<close>: which parameter types can be built from fuzzer bytes, how
  (\<open>FuzzableCallType\<close>), the type of the variable that carries the bytes (\<open>FuzzableType\<close>) with
  its length measures, and \<open>api_util::is_fuzzable_type\<close>. The length measures promise the
  contract \<open>byte_layout\<close>, under which a byte string can be cut into the variables of a target.
\<close>

section \<open>Definitions\<close>

datatype fuzzable_calltype =
    FcNoFuzzable
  | FcPrimitive primitive_type
  | FcTuple "fuzzable_calltype list"
  | FcSlice fuzzable_calltype
  | FcArray fuzzable_calltype
  | FcConstRawPoiner fuzzable_calltype clean_type
  | FcMutRawPoiner fuzzable_calltype clean_type
  | FcSTR
  | FcBorrowedRef fuzzable_calltype
  | FcMutBorrowedRef fuzzable_calltype
  | FcToOption fuzzable_calltype

datatype fuzzable_type =
    NoFuzzable
  | FtPrimitive primitive_type
  | RefSlice fuzzable_type
  | RefStr
  | FtTuple "fuzzable_type list"

text \<open>
  The common tail of the branches of \<open>generate_fuzzable_type_and_call_type\<close>: both results are
  rejected when either part is, otherwise \<open>ok\<close> builds the new pair.
\<close>

definition generate_inner ::
  "fuzzable_type \<times> call_type \<Rightarrow> (fuzzable_type \<Rightarrow> call_type \<Rightarrow> fuzzable_type \<times> call_type) \<Rightarrow>
     fuzzable_type \<times> call_type" where
  "generate_inner r ok =
     (case r of (ft, ct) \<Rightarrow>
        if ft = NoFuzzable then (NoFuzzable, NotCompatible)
        else if ct = NotCompatible then (NoFuzzable, NotCompatible)
        else ok ft ct)"

fun generate_fuzzable_type_and_call_type :: "fuzzable_calltype \<Rightarrow> fuzzable_type \<times> call_type"
  and generate_tuple :: "fuzzable_calltype list \<Rightarrow> fuzzable_type list option" where
  "generate_fuzzable_type_and_call_type FcNoFuzzable = (NoFuzzable, NotCompatible)"
| "generate_fuzzable_type_and_call_type (FcPrimitive p) = (FtPrimitive p, DirectCall)"
| "generate_fuzzable_type_and_call_type (FcTuple types) =
     (case generate_tuple types of
        None \<Rightarrow> (NoFuzzable, NotCompatible)
      | Some fts \<Rightarrow> (FtTuple fts, DirectCall))"
| "generate_fuzzable_type_and_call_type (FcConstRawPoiner fct ty) =
     generate_inner (generate_fuzzable_type_and_call_type fct)
       (\<lambda>ft ct. (ft, CtConstRawPointer ct ty))"
| "generate_fuzzable_type_and_call_type (FcMutRawPoiner fct ty) =
     generate_inner (generate_fuzzable_type_and_call_type fct)
       (\<lambda>ft ct. (ft, CtMutRawPointer ct ty))"
| "generate_fuzzable_type_and_call_type (FcBorrowedRef fct) =
     (case fct of
        FcSlice slice_inner \<Rightarrow>
          generate_inner (generate_fuzzable_type_and_call_type slice_inner)
            (\<lambda>ft ct. (RefSlice ft, DirectCall))
      | _ \<Rightarrow>
          generate_inner (generate_fuzzable_type_and_call_type fct)
            (\<lambda>ft ct. (ft, CtBorrowedRef ct)))"
| "generate_fuzzable_type_and_call_type (FcMutBorrowedRef fct) =
     generate_inner (generate_fuzzable_type_and_call_type fct)
       (\<lambda>ft ct. (ft, CtMutBorrowedRef ct))"
| "generate_fuzzable_type_and_call_type FcSTR = (RefStr, DirectCall)"
| "generate_fuzzable_type_and_call_type (FcToOption fct) =
     generate_inner (generate_fuzzable_type_and_call_type fct) (\<lambda>ft ct. (ft, ToOption ct))"
| "generate_fuzzable_type_and_call_type (FcArray _) = (NoFuzzable, NotCompatible)"
| "generate_fuzzable_type_and_call_type (FcSlice _) = (NoFuzzable, NotCompatible)"
| "generate_tuple [] = Some []"
| "generate_tuple (fct # fcts) =
     (case generate_fuzzable_type_and_call_type fct of (ft, ct) \<Rightarrow>
        if ft = NoFuzzable then None
        else if ct \<noteq> DirectCall then None
        else map_option (\<lambda>fts. ft # fts) (generate_tuple fcts))"

fun is_fixed_length :: "fuzzable_type \<Rightarrow> bool" where
  "is_fixed_length NoFuzzable = True"
| "is_fixed_length (FtPrimitive _) = True"
| "is_fixed_length (RefSlice _) = False"
| "is_fixed_length RefStr = False"
| "is_fixed_length (FtTuple fts) = list_all is_fixed_length fts"

fun primitive_min_length :: "primitive_type \<Rightarrow> nat" where
  "primitive_min_length I8 = 1"
| "primitive_min_length U8 = 1"
| "primitive_min_length Bool = 1"
| "primitive_min_length I16 = 2"
| "primitive_min_length U16 = 2"
| "primitive_min_length I32 = 4"
| "primitive_min_length U32 = 4"
| "primitive_min_length Char = 4"
| "primitive_min_length F32 = 4"
| "primitive_min_length I64 = 8"
| "primitive_min_length U64 = 8"
| "primitive_min_length F64 = 8"
| "primitive_min_length Usize = 8"
| "primitive_min_length Isize = 8"
| "primitive_min_length I128 = 16"
| "primitive_min_length U128 = 16"
| "primitive_min_length _ = 0"

fun min_length :: "fuzzable_type \<Rightarrow> nat" where
  "min_length NoFuzzable = 0"
| "min_length (FtPrimitive p) = primitive_min_length p"
| "min_length (RefSlice ft) = min_length ft"
| "min_length RefStr = 1"
| "min_length (FtTuple fts) = sum_list (map min_length fts)"

fun fixed_part_length :: "fuzzable_type \<Rightarrow> nat" where
  "fixed_part_length NoFuzzable = min_length NoFuzzable"
| "fixed_part_length (FtPrimitive p) = min_length (FtPrimitive p)"
| "fixed_part_length RefStr = 0"
| "fixed_part_length (RefSlice _) = 0"
| "fixed_part_length (FtTuple fts) =
     (if is_fixed_length (FtTuple fts) then min_length (FtTuple fts)
      else sum_list (map fixed_part_length fts))"

fun dynamic_length_param_number :: "fuzzable_type \<Rightarrow> nat" where
  "dynamic_length_param_number NoFuzzable = 0"
| "dynamic_length_param_number (FtPrimitive p) = 0"
| "dynamic_length_param_number RefStr = 1"
| "dynamic_length_param_number (RefSlice _) = 1"
| "dynamic_length_param_number (FtTuple fts) =
     (if is_fixed_length (FtTuple fts) then 0
      else sum_list (map dynamic_length_param_number fts))"

fun is_multiple_dynamic_length :: "fuzzable_type \<Rightarrow> bool" where
  "is_multiple_dynamic_length (RefSlice ft) = (\<not> is_fixed_length ft)"
| "is_multiple_dynamic_length (FtTuple fts) = list_ex is_multiple_dynamic_length fts"
| "is_multiple_dynamic_length _ = False"

fun to_type_string :: "fuzzable_type \<Rightarrow> string" where
  "to_type_string NoFuzzable = ''nofuzzable''"
| "to_type_string (FtPrimitive p) = as_str p"
| "to_type_string (RefSlice inner) = ''&['' @ to_type_string inner @ '']''"
| "to_type_string RefStr = ''&str''"
| "to_type_string (FtTuple fts) = ''('' @ str_join '' ,'' (map to_type_string fts) @ '')''"

definition static_lifetime :: string where
  "static_lifetime = CHR 0x27 # ''static''"

text \<open>\<open>fuzzable_call_type\<close>: a rejected part rejects the whole type.\<close>

definition fuzzable_inner ::
  "fuzzable_calltype \<Rightarrow> (fuzzable_calltype \<Rightarrow> fuzzable_calltype) \<Rightarrow> fuzzable_calltype" where
  "fuzzable_inner inner ok = (case inner of FcNoFuzzable \<Rightarrow> FcNoFuzzable | _ \<Rightarrow> ok inner)"

function fuzzable_call_type :: "full_name_map \<Rightarrow> clean_type \<Rightarrow> fuzzable_calltype" where
  "fuzzable_call_type fnm (ResolvedPath path pn did g) =
     (case prelude_from_type fnm (ResolvedPath path pn did g) of
        NotPrelude _ \<Rightarrow> FcNoFuzzable
      | PreludeResult _ _ \<Rightarrow> FcNoFuzzable
      | PreludeOption inner \<Rightarrow> fuzzable_inner (fuzzable_call_type fnm inner) FcToOption)"
| "fuzzable_call_type fnm (Generic s) = FcNoFuzzable"
| "fuzzable_call_type fnm (Primitive p) = FcPrimitive p"
| "fuzzable_call_type fnm (BareFunction d) = FcNoFuzzable"
| "fuzzable_call_type fnm (Tuple types) =
     (let vec = map (fuzzable_call_type fnm) types
      in if FcNoFuzzable \<in> set vec then FcNoFuzzable else FcTuple vec)"
| "fuzzable_call_type fnm (Slice inner) = fuzzable_inner (fuzzable_call_type fnm inner) FcSlice"
| "fuzzable_call_type fnm (Array inner n) = fuzzable_inner (fuzzable_call_type fnm inner) FcArray"
| "fuzzable_call_type fnm (RawPointer m inner) =
     fuzzable_inner (fuzzable_call_type fnm inner)
       (\<lambda>f. case m of Mut \<Rightarrow> FcMutRawPoiner f inner | NotMut \<Rightarrow> FcConstRawPoiner f inner)"
| "fuzzable_call_type fnm (BorrowedRef lt m inner) =
     (if inner = Primitive Str \<and> m = NotMut
      then (case lt of
              Some l \<Rightarrow> (if lifetime_name l = static_lifetime then FcNoFuzzable else FcSTR)
            | None \<Rightarrow> FcSTR)
      else fuzzable_inner (fuzzable_call_type fnm inner)
             (\<lambda>f. case m of Mut \<Rightarrow> FcMutBorrowedRef f | NotMut \<Rightarrow> FcBorrowedRef f))"
| "fuzzable_call_type fnm (QPath n s t) = FcNoFuzzable"
| "fuzzable_call_type fnm (ImplTrait bs) = FcNoFuzzable"
| "fuzzable_call_type fnm Never = FcNoFuzzable"
| "fuzzable_call_type fnm Infer = FcNoFuzzable"
  by pat_completeness auto
termination
  by (relation "measure (\<lambda>(fnm, ty). size ty)")
    (auto dest: prelude_option_smaller simp: size_list_elem less_Suc_eq_le less_imp_le)

definition is_fuzzable_type :: "full_name_map \<Rightarrow> clean_type \<Rightarrow> bool" where
  "is_fuzzable_type fnm ty = (case fuzzable_call_type fnm ty of FcNoFuzzable \<Rightarrow> False | _ \<Rightarrow> True)"

section \<open>What the call-type generator returns\<close>

text \<open>The parts of a fuzzable type that no byte string can fill.\<close>

fun mentions_no_fuzzable :: "fuzzable_type \<Rightarrow> bool" where
  "mentions_no_fuzzable NoFuzzable = True"
| "mentions_no_fuzzable (FtPrimitive _) = False"
| "mentions_no_fuzzable (RefSlice ft) = mentions_no_fuzzable ft"
| "mentions_no_fuzzable RefStr = False"
| "mentions_no_fuzzable (FtTuple fts) = list_ex mentions_no_fuzzable fts"

text \<open>What every result of the generator is: a rejection, or a usable pair.\<close>

definition generated_ok :: "fuzzable_type \<times> call_type \<Rightarrow> bool" where
  "generated_ok r \<longleftrightarrow> r = (NoFuzzable, NotCompatible) \<or>
     (\<not> mentions_no_fuzzable (fst r) \<and> snd r \<noteq> NotCompatible \<and>
      \<not> contains_unwrap_call_type (snd r))"

lemma generated_ok_pair [simp]:
  "generated_ok (ft, ct) \<longleftrightarrow> (ft = NoFuzzable \<and> ct = NotCompatible) \<or>
     (\<not> mentions_no_fuzzable ft \<and> ct \<noteq> NotCompatible \<and> \<not> contains_unwrap_call_type ct)"
  by (auto simp: generated_ok_def)

lemma generated_ok_inner:
  assumes "generated_ok r"
    and "\<And>ft ct. \<not> mentions_no_fuzzable ft \<Longrightarrow> ct \<noteq> NotCompatible \<Longrightarrow>
           \<not> contains_unwrap_call_type ct \<Longrightarrow> generated_ok (ok ft ct)"
  shows "generated_ok (generate_inner r ok)"
  using assms by (cases r) (auto simp: generate_inner_def generated_ok_def)

lemma generated_ok_borrowed:
  assumes "generated_ok (generate_fuzzable_type_and_call_type fct)"
    and "\<And>inner. fct = FcSlice inner \<Longrightarrow> generated_ok (generate_fuzzable_type_and_call_type inner)"
  shows "generated_ok (generate_fuzzable_type_and_call_type (FcBorrowedRef fct))"
proof (cases "\<exists>inner. fct = FcSlice inner")
  case True
  then obtain inner where f: "fct = FcSlice inner" by blast
  show ?thesis
    unfolding f by simp (rule generated_ok_inner [OF assms(2) [OF f]], simp add: generated_ok_def)
next
  case False
  then have "generate_fuzzable_type_and_call_type (FcBorrowedRef fct) =
      generate_inner (generate_fuzzable_type_and_call_type fct) (\<lambda>ft ct. (ft, CtBorrowedRef ct))"
    by (cases fct) auto
  also have "generated_ok \<dots>"
    by (rule generated_ok_inner [OF assms(1)]) (simp add: generated_ok_def)
  finally show ?thesis .
qed

lemma generated_ok_tuple:
  "\<forall>f \<in> set fcts. generated_ok (generate_fuzzable_type_and_call_type f) \<Longrightarrow>
     generate_tuple fcts = Some fts \<Longrightarrow> \<not> list_ex mentions_no_fuzzable fts"
  by (induction fcts arbitrary: fts)
    (auto simp: generated_ok_def split: prod.splits if_splits)

lemma generate_ok_slice:
  "generated_ok (generate_fuzzable_type_and_call_type fct) \<and>
   (\<forall>inner. fct = FcSlice inner \<longrightarrow> generated_ok (generate_fuzzable_type_and_call_type inner))"
proof (induction fct)
  case (FcTuple fcts)
  then show ?case
    using generated_ok_tuple [of fcts] by (auto split: option.splits)
next
  case (FcBorrowedRef fct)
  then show ?case by (blast intro: generated_ok_borrowed)
qed (auto intro!: generated_ok_inner)

text \<open>
  C38: for every fuzzable description, \<open>generate_fuzzable_type_and_call_type\<close> either rejects
  (\<open>NoFuzzable\<close> with \<open>_NotCompatible\<close>, always both) or returns a variable type in which
  nothing is unfuzzable and a call type that is compatible and never unwraps.
\<close>

theorem generate_rejects_or_usable:
  "case generate_fuzzable_type_and_call_type fct of (ft, ct) \<Rightarrow>
     (ft = NoFuzzable \<and> ct = NotCompatible) \<or>
     (\<not> mentions_no_fuzzable ft \<and> ct \<noteq> NotCompatible \<and> \<not> contains_unwrap_call_type ct)"
  using generate_ok_slice [of fct] by (auto split: prod.splits)

section \<open>The length measures\<close>

text \<open>
  The contract between the measures and their client, the cut of a byte string into the
  variables of a target: a fixed-length variable needs exactly its minimum, a variable has
  parts of dynamic length exactly when it is not fixed, and the fixed part never exceeds the
  minimum.
\<close>

locale byte_layout =
  fixes fixed :: "'f \<Rightarrow> bool"
    and min_len :: "'f \<Rightarrow> nat"
    and fixed_len :: "'f \<Rightarrow> nat"
    and dyn_num :: "'f \<Rightarrow> nat"
  assumes fixed_len_min: "fixed f \<Longrightarrow> fixed_len f = min_len f"
    and dyn_num_zero: "dyn_num f = 0 \<longleftrightarrow> fixed f"
    and fixed_len_le: "fixed_len f \<le> min_len f"
begin

lemma sum_fixed_le_min: "sum_list (map fixed_len fs) \<le> sum_list (map min_len fs)"
  by (induction fs) (auto intro: add_mono fixed_len_le)

lemma all_fixed_sum: "list_all fixed fs \<Longrightarrow> sum_list (map fixed_len fs) = sum_list (map min_len fs)"
  by (induction fs) (auto simp: fixed_len_min)

lemma sum_dyn_zero: "sum_list (map dyn_num fs) = 0 \<longleftrightarrow> list_all fixed fs"
  by (induction fs) (auto simp: dyn_num_zero)

lemma dyn_of_not_fixed: "\<not> fixed f \<Longrightarrow> 0 < dyn_num f"
  using dyn_num_zero by (metis gr0I)

text \<open>The fixed part of each variable lies inside the fixed prefix of the data.\<close>

lemma fixed_window:
  assumes "i < length fs"
  shows "sum_list (map fixed_len (take i fs)) + fixed_len (fs ! i) \<le> sum_list (map fixed_len fs)"
proof -
  have "fs = take i fs @ fs ! i # drop (Suc i) fs"
    using assms by (rule id_take_nth_drop)
  then have "sum_list (map fixed_len fs) =
      sum_list (map fixed_len (take i fs @ fs ! i # drop (Suc i) fs))"
    by simp
  then show ?thesis by simp
qed

lemma dyn_window:
  assumes "i < length fs"
  shows "sum_list (map dyn_num (take i fs)) + dyn_num (fs ! i) \<le> sum_list (map dyn_num fs)"
proof -
  have "fs = take i fs @ fs ! i # drop (Suc i) fs"
    using assms by (rule id_take_nth_drop)
  then have "sum_list (map dyn_num fs) =
      sum_list (map dyn_num (take i fs @ fs ! i # drop (Suc i) fs))"
    by simp
  then show ?thesis by simp
qed

end

lemma fixed_part_of_fixed: "is_fixed_length ft \<Longrightarrow> fixed_part_length ft = min_length ft"
  by (cases ft) auto

lemma fixed_part_le_min: "fixed_part_length ft \<le> min_length ft"
proof (induction ft)
  case (FtTuple fts)
  then have "sum_list (map fixed_part_length fts) \<le> sum_list (map min_length fts)"
    by (intro sum_list_mono) auto
  then show ?case by simp
qed auto

lemma dynamic_number_zero_iff: "dynamic_length_param_number ft = 0 \<longleftrightarrow> is_fixed_length ft"
proof (induction ft)
  case (FtTuple fts)
  then show ?case by (force simp: list_all_iff)
qed auto

interpretation fuzz_layout:
  byte_layout is_fixed_length min_length fixed_part_length dynamic_length_param_number
  by unfold_locales (auto simp: fixed_part_of_fixed fixed_part_le_min dynamic_number_zero_iff)

end
