(* ===== verification/Api_Util.thy ===== *)
theory Api_Util
  imports Fuzzable_Type
begin

text \<open>
  \<^verbatim>\<open>fuzz_target/api_util.rs\<close>: the analyses of cleaned types the dependency graph is built on.
  \<open>same_type\<close> decides whether a value of one type can be passed where another is expected and
  by which call type; what the call expressions mean in Rust is in \<open>Arg_Expr\<close>.
\<close>

section \<open>Definitions\<close>

definition extract_input_types :: "clean_type arguments \<Rightarrow> clean_type list" where
  "extract_input_types inputs = map arg_type (arg_values inputs)"

fun extract_output_type :: "clean_type fn_ret_ty \<Rightarrow> clean_type option" where
  "extract_output_type (Return ty) = Some ty"
| "extract_output_type DefaultReturn = None"

function is_generic_type :: "clean_type \<Rightarrow> bool" where
  "is_generic_type (Generic s) = True"
| "is_generic_type (ResolvedPath path pn did is_generic) =
     (is_generic \<or>
      list_ex
        (\<lambda>segment. case seg_args segment of
           AngleBracketed as _ \<Rightarrow>
             list_ex (\<lambda>a. case a of ArgType inner_ty \<Rightarrow> is_generic_type inner_ty | _ \<Rightarrow> False) as
         | Parenthesized inputs output \<Rightarrow>
             list_ex is_generic_type inputs \<or>
             (case output of Some output_ty \<Rightarrow> is_generic_type output_ty | None \<Rightarrow> False))
        (path_segments path))"
| "is_generic_type (Tuple types) = list_ex is_generic_type types"
| "is_generic_type (Slice ty) = is_generic_type ty"
| "is_generic_type (Array ty n) = is_generic_type ty"
| "is_generic_type (RawPointer m ty) = is_generic_type ty"
| "is_generic_type (BorrowedRef lt m ty) = is_generic_type ty"
| "is_generic_type (Primitive p) = False"
| "is_generic_type (BareFunction d) = False"
| "is_generic_type Never = False"
| "is_generic_type (QPath n s t) = False"
| "is_generic_type Infer = False"
| "is_generic_type (ImplTrait bs) = False"
  by pat_completeness auto
termination
  by (relation "measure size")
    (auto simp: termination_simp size_list_elem less_Suc_eq intro: trans_less_add1)

function is_end_type :: "full_name_map \<Rightarrow> clean_type \<Rightarrow> bool" where
  "is_end_type fnm (ResolvedPath path pn did g) =
     (let ty = ResolvedPath path pn did g
      in if prelude_type_need_special_dealing fnm ty
         then is_end_type fnm (get_final_type (prelude_from_type fnm ty))
         else False)"
| "is_end_type fnm (Generic s) = False"
| "is_end_type fnm (Primitive p) = True"
| "is_end_type fnm Never = True"
| "is_end_type fnm (BareFunction d) = False"
| "is_end_type fnm (Tuple inner) = list_all (is_end_type fnm) inner"
| "is_end_type fnm (Slice inner) = is_end_type fnm inner"
| "is_end_type fnm (Array inner n) = is_end_type fnm inner"
| "is_end_type fnm (RawPointer m inner) = is_end_type fnm inner"
| "is_end_type fnm (BorrowedRef lt m inner) = is_end_type fnm inner"
| "is_end_type fnm (QPath n s t) = False"
| "is_end_type fnm Infer = False"
| "is_end_type fnm (ImplTrait bs) = False"
  by pat_completeness auto
termination
  by (relation "measure (\<lambda>(fnm, ty). size ty)")
    (auto dest: final_type_smaller simp: size_list_elem less_Suc_eq_le less_imp_le simp del: clean_type.size(1))

definition is_numeric :: "primitive_type \<Rightarrow> bool" where
  "is_numeric p \<longleftrightarrow>
     p \<in> set [Isize, I8, I16, I32, I64, I128, Usize, U8, U16, U32, U64, U128, F32, F64]"

fun copy_type :: "clean_type \<Rightarrow> bool" where
  "copy_type (ResolvedPath _ _ _ _) = False"
| "copy_type (Generic _) = False"
| "copy_type (Primitive p) = (is_numeric p \<or> p = Char \<or> p = Bool)"
| "copy_type (BareFunction _) = False"
| "copy_type Never = False"
| "copy_type Infer = False"
| "copy_type (Tuple types) = list_all copy_type types"
| "copy_type (Slice _) = False"
| "copy_type (Array ty _) = copy_type ty"
| "copy_type (RawPointer _ _) = True"
| "copy_type (BorrowedRef _ m _) = (case m of Mut \<Rightarrow> False | NotMut \<Rightarrow> True)"
| "copy_type (QPath _ _ _) = False"
| "copy_type (ImplTrait _) = False"

definition new_segments_without_lifetime :: "ctype_segment list \<Rightarrow> ctype_segment list" where
  "new_segments_without_lifetime segs =
     map (\<lambda>seg. case seg_args seg of
            AngleBracketed as bindings \<Rightarrow>
              PathSegment (seg_name seg)
                (AngleBracketed
                   (filter (\<lambda>a. case a of ArgLifetime _ \<Rightarrow> False | _ \<Rightarrow> True) as) bindings)
          | Parenthesized _ _ \<Rightarrow> seg)
       segs"

definition resolved_path_equal_without_lifetime :: "clean_type \<Rightarrow> clean_type \<Rightarrow> bool" where
  "resolved_path_equal_without_lifetime ltype rtype =
     (case ltype of
        ResolvedPath lpath _ ldid lis_generic \<Rightarrow>
          (case rtype of
             ResolvedPath rpath _ rdid ris_generic \<Rightarrow>
               if lis_generic \<or> ris_generic then False
               else if ldid \<noteq> rdid then False
               else if path_global lpath \<noteq> path_global rpath \<or> path_res lpath \<noteq> path_res rpath \<or>
                       length (path_segments lpath) \<noteq> length (path_segments rpath) then False
               else list_all
                      (\<lambda>i. new_segments_without_lifetime (path_segments lpath) ! i =
                           new_segments_without_lifetime (path_segments rpath) ! i)
                      [0..<length (path_segments lpath)]
           | _ \<Rightarrow> False)
      | _ \<Rightarrow> False)"

definition same_type_primitive :: "primitive_type \<Rightarrow> clean_type \<Rightarrow> call_type" where
  "same_type_primitive p input_type =
     (if is_numeric p
      then (case input_type of
              Primitive q \<Rightarrow>
                if p = q then DirectCall
                else if is_numeric q then AsConvert (as_str q)
                else if q = Char then (if p = U8 then AsConvert (as_str q) else NotCompatible)
                else NotCompatible
            | _ \<Rightarrow> NotCompatible)
      else if p = Char
      then (case input_type of
              Primitive q \<Rightarrow>
                if q = Char then DirectCall
                else if q = U8 then AsConvert (as_str q)
                else NotCompatible
            | _ \<Rightarrow> NotCompatible)
      else NotCompatible)"

text \<open>
  The helpers of \<open>_same_type_hard_mode\<close> that wrap the call type of a recursive comparison;
  \<open>inner_compatible\<close> is the result of that comparison, which the caller below makes.
\<close>

definition same_type_raw_pointer :: "call_type \<Rightarrow> call_type" where
  "same_type_raw_pointer inner_compatible =
     (case inner_compatible of NotCompatible \<Rightarrow> NotCompatible | _ \<Rightarrow> UnsafeDeref inner_compatible)"

definition same_type_borrowed_ref :: "clean_type \<Rightarrow> call_type \<Rightarrow> call_type" where
  "same_type_borrowed_ref inner_type inner_compatible =
     (case inner_compatible of
        NotCompatible \<Rightarrow> NotCompatible
      | _ \<Rightarrow> if copy_type inner_type then Deref inner_compatible else NotCompatible)"

definition borrowed_ref_in_same_type :: "mutability \<Rightarrow> call_type \<Rightarrow> call_type" where
  "borrowed_ref_in_same_type m inner_compatible =
     (case inner_compatible of
        NotCompatible \<Rightarrow> NotCompatible
      | _ \<Rightarrow> (case m of
                Mut \<Rightarrow> CtMutBorrowedRef inner_compatible
              | NotMut \<Rightarrow> CtBorrowedRef inner_compatible))"

definition raw_pointer_in_same_type :: "mutability \<Rightarrow> clean_type \<Rightarrow> call_type \<Rightarrow> call_type" where
  "raw_pointer_in_same_type m inner_type inner_compatible =
     (case inner_compatible of
        NotCompatible \<Rightarrow> NotCompatible
      | _ \<Rightarrow> (case m of
                Mut \<Rightarrow> CtMutRawPointer inner_compatible inner_type
              | NotMut \<Rightarrow> CtConstRawPointer inner_compatible inner_type))"

definition same_type_resolved_path_direct :: "clean_type \<Rightarrow> clean_type \<Rightarrow> call_type" where
  "same_type_resolved_path_direct output_type input_type =
     (case input_type of
        ResolvedPath _ _ _ _ \<Rightarrow>
          if output_type = input_type then DirectCall
          else if resolved_path_equal_without_lifetime output_type input_type then DirectCall
          else NotCompatible
      | _ \<Rightarrow> NotCompatible)"

text \<open>
  \<open>_same_type_hard_mode\<close>, with \<open>_same_type_resolved_path\<close> as its \<open>ResolvedPath\<close> branch. The
  recursion peels the input type first (references, raw pointers, prelude wrappers), then the
  output type.
\<close>

function same_type_hard_mode :: "full_name_map \<Rightarrow> clean_type \<Rightarrow> clean_type \<Rightarrow> call_type" where
  "same_type_hard_mode fnm output_type input_type =
     (if output_type = input_type then DirectCall
      else (case input_type of
        BorrowedRef _ m ty \<Rightarrow>
          borrowed_ref_in_same_type m (same_type_hard_mode fnm output_type ty)
      | RawPointer m ty \<Rightarrow>
          raw_pointer_in_same_type m ty (same_type_hard_mode fnm output_type ty)
      | _ \<Rightarrow>
          if prelude_type_need_special_dealing fnm input_type
          then (let input_prelude_type = prelude_from_type fnm input_type;
                    inner_call_type =
                      same_type_hard_mode fnm output_type (get_final_type input_prelude_type)
                in case inner_call_type of
                     NotCompatible \<Rightarrow> NotCompatible
                   | _ \<Rightarrow> to_call_type input_prelude_type inner_call_type)
          else (case output_type of
                  ResolvedPath _ _ _ _ \<Rightarrow>
                    if prelude_type_need_special_dealing fnm output_type
                    then (let output_prelude_type = prelude_from_type fnm output_type;
                              inner_call_type =
                                same_type_hard_mode fnm (get_final_type output_prelude_type) input_type
                          in case inner_call_type of
                               NotCompatible \<Rightarrow> NotCompatible
                             | _ \<Rightarrow> unwrap_call_type output_prelude_type inner_call_type)
                    else same_type_resolved_path_direct output_type input_type
                | Primitive p \<Rightarrow> same_type_primitive p input_type
                | RawPointer _ ty \<Rightarrow>
                    same_type_raw_pointer (same_type_hard_mode fnm ty input_type)
                | BorrowedRef _ _ ty \<Rightarrow>
                    same_type_borrowed_ref ty (same_type_hard_mode fnm ty input_type)
                | _ \<Rightarrow> NotCompatible)))"
  by pat_completeness auto
termination
  by (relation "measure (\<lambda>(fnm, out, inp). size out + size inp)")
    (auto dest: final_type_smaller)

declare same_type_hard_mode.simps [simp del]

definition same_type :: "full_name_map \<Rightarrow> clean_type \<Rightarrow> clean_type \<Rightarrow> bool \<Rightarrow> call_type" where
  "same_type fnm output_type input_type hard_mode =
     (if hard_mode then same_type_hard_mode fnm output_type input_type else NotCompatible)"

definition move_condition :: "clean_type \<Rightarrow> call_type \<Rightarrow> bool" where
  "move_condition input_type ct =
     (if contains_move_call_type ct then True
      else if \<not> copy_type input_type
      then (case ct of
              DirectCall \<Rightarrow> True
            | Deref _ \<Rightarrow> True
            | UnsafeDeref _ \<Rightarrow> True
            | UnwrapOption _ \<Rightarrow> True
            | UnwrapResult _ \<Rightarrow> True
            | _ \<Rightarrow> False)
      else False)"

text \<open>The mutability of a reference or raw-pointer type, the pattern both borrow tests share.\<close>

fun pointer_mutability :: "clean_type \<Rightarrow> mutability option" where
  "pointer_mutability (BorrowedRef _ m _) = Some m"
| "pointer_mutability (RawPointer m _) = Some m"
| "pointer_mutability _ = None"

definition is_mutable_borrow_occurs :: "clean_type \<Rightarrow> call_type \<Rightarrow> bool" where
  "is_mutable_borrow_occurs input_type ct =
     (if contains_move_call_type ct then False
      else if pointer_mutability input_type = Some Mut
      then (case ct of
              DirectCall \<Rightarrow> True
            | CtMutBorrowedRef _ \<Rightarrow> True
            | CtMutRawPointer _ _ \<Rightarrow> True
            | _ \<Rightarrow> False)
      else False)"

definition is_immutable_borrow_occurs :: "clean_type \<Rightarrow> call_type \<Rightarrow> bool" where
  "is_immutable_borrow_occurs input_type ct =
     (if pointer_mutability input_type = Some NotMut
      then (case ct of
              DirectCall \<Rightarrow> True
            | CtBorrowedRef _ \<Rightarrow> True
            | CtConstRawPointer _ _ \<Rightarrow> True
            | _ \<Rightarrow> False)
      else False)"

fun need_mut_tag :: "call_type \<Rightarrow> bool" where
  "need_mut_tag (CtMutBorrowedRef _) = True"
| "need_mut_tag (CtMutRawPointer _ _) = True"
| "need_mut_tag _ = False"

section \<open>Lifetimes do not matter for paths\<close>

lemma path_equal_refl:
  "resolved_path_equal_without_lifetime (ResolvedPath p pn did False) (ResolvedPath p pn' did False)"
  by (simp add: resolved_path_equal_without_lifetime_def list_all_iff)

lemma length_without_lifetime [simp]:
  "length (new_segments_without_lifetime segs) = length segs"
  by (simp add: new_segments_without_lifetime_def)

lemma nth_all_eq:
  "length xs = length ys \<Longrightarrow> list_all (\<lambda>i. xs ! i = ys ! i) [0..<length ys] \<longleftrightarrow> xs = ys"
  unfolding list_all_iff set_upt by (metis atLeastLessThan_iff le0 nth_equalityI)

lemma path_equal_segments:
  "resolved_path_equal_without_lifetime (ResolvedPath p pn did g) (ResolvedPath q pn' did' g') \<longleftrightarrow>
     \<not> g \<and> \<not> g' \<and> did = did' \<and> path_global p = path_global q \<and> path_res p = path_res q \<and>
     new_segments_without_lifetime (path_segments p) =
       new_segments_without_lifetime (path_segments q)"
  (is "?l = ?r")
proof (cases "length (path_segments p) = length (path_segments q)")
  case True
  then show ?thesis
    using nth_all_eq [of "new_segments_without_lifetime (path_segments p)"
        "new_segments_without_lifetime (path_segments q)"]
    by (simp add: resolved_path_equal_without_lifetime_def)
next
  case False
  then have "new_segments_without_lifetime (path_segments p) \<noteq>
      new_segments_without_lifetime (path_segments q)"
    by (metis length_without_lifetime)
  with False show ?thesis by (simp add: resolved_path_equal_without_lifetime_def)
qed

lemma path_equal_left:
  "resolved_path_equal_without_lifetime s t \<Longrightarrow> \<exists>p pn did g. s = ResolvedPath p pn did g"
  by (cases s) (simp_all add: resolved_path_equal_without_lifetime_def)

lemma path_equal_right:
  "resolved_path_equal_without_lifetime s t \<Longrightarrow> \<exists>p pn did g. t = ResolvedPath p pn did g"
  by (cases s; cases t) (simp_all add: resolved_path_equal_without_lifetime_def)

lemma path_equal_sym:
  assumes "resolved_path_equal_without_lifetime s t"
  shows "resolved_path_equal_without_lifetime t s"
  using path_equal_left [OF assms] path_equal_right [OF assms] assms
  by (elim exE) (simp add: path_equal_segments)

lemma path_equal_trans:
  assumes "resolved_path_equal_without_lifetime s t" "resolved_path_equal_without_lifetime t u"
  shows "resolved_path_equal_without_lifetime s u"
  using path_equal_left [OF assms(1)] path_equal_right [OF assms(1)] path_equal_right [OF assms(2)] assms
  by (elim exE) (simp add: path_equal_segments)

text \<open>
  Comparing paths without their lifetimes is an equivalence on non-generic resolved paths:
  reflexive, symmetric and transitive, and it holds exactly when the definition, the resolution
  and the segments after erasing the lifetime arguments agree.
\<close>

lemma path_equal_equivalence:
  "resolved_path_equal_without_lifetime (ResolvedPath p pn did False) (ResolvedPath p pn' did False) \<and>
   (resolved_path_equal_without_lifetime s t = resolved_path_equal_without_lifetime t s) \<and>
   (if resolved_path_equal_without_lifetime s t \<and> resolved_path_equal_without_lifetime t u
    then resolved_path_equal_without_lifetime s u else True) \<and>
   (resolved_path_equal_without_lifetime (ResolvedPath p pn did g) (ResolvedPath q pn' did' g') \<longleftrightarrow>
     \<not> g \<and> \<not> g' \<and> did = did' \<and> path_global p = path_global q \<and> path_res p = path_res q \<and>
     new_segments_without_lifetime (path_segments p) =
       new_segments_without_lifetime (path_segments q))"
proof (intro conjI)
  show "resolved_path_equal_without_lifetime (ResolvedPath p pn did False) (ResolvedPath p pn' did False)"
    by (rule path_equal_refl)
  show "resolved_path_equal_without_lifetime s t = resolved_path_equal_without_lifetime t s"
    using path_equal_sym by blast
  show "if resolved_path_equal_without_lifetime s t \<and> resolved_path_equal_without_lifetime t u
    then resolved_path_equal_without_lifetime s u else True"
    using path_equal_trans [of s t u] by simp
qed (rule path_equal_segments)

end
