(* ===== verification/Arg_Expr.thy ===== *)
theory Arg_Expr
  imports Api_Util
begin

text \<open>
  What the rendered argument expressions mean in Rust, written down from the language and not from
  the generator's own tests: the type an expression has (\<open>call_yields\<close>), what it does to the
  variable it is built from (\<open>use_of\<close>: read, moved, borrowed), and when that variable has to be
  bound as \<open>mut\<close> (\<open>mutated\<close>). The compatibility test \<open>same_type\<close>, and the tests for moves, borrows
  and \<open>mut\<close> of \<^verbatim>\<open>api_util.rs\<close>, are measured against it.
\<close>

section \<open>Values and places\<close>

text \<open>What is done to a variable, or to the place an expression denotes.\<close>

datatype var_use = Read | Move | Shared | Mutable

text \<open>
  The types that are \<open>Copy\<close> whatever the crate declares; a struct may or may not be, and counts as
  one that is not.
\<close>

fun known_copy :: "clean_type \<Rightarrow> bool" where
  "known_copy (Primitive p) \<longleftrightarrow> p \<in> {Isize, I8, I16, I32, I64, I128, Usize, U8, U16, U32, U64, U128, F32, F64, Char, Bool}"
| "known_copy (Tuple ts) \<longleftrightarrow> list_all known_copy ts"
| "known_copy (Array t _) \<longleftrightarrow> known_copy t"
| "known_copy (RawPointer _ _) \<longleftrightarrow> True"
| "known_copy (BorrowedRef _ m _) \<longleftrightarrow> m = NotMut"
| "known_copy (BareFunction _) \<longleftrightarrow> True"
| "known_copy Never \<longleftrightarrow> True"
| "known_copy _ \<longleftrightarrow> False"

text \<open>
  The use of the variable \<open>v\<close> in the text of a call type, when the expression itself is put to the
  use \<open>m\<close>: a plain \<open>v\<close> is used that way (a move copies if the type of \<open>v\<close> is \<open>Copy\<close>); \<open>&e\<close> and
  \<open>&mut e\<close> borrow the place \<open>e\<close>; \<open>*e\<close> used as a value only reads \<open>e\<close>, and borrowed it reborrows
  through \<open>e\<close>, unless \<open>e\<close> is a raw pointer; arguments of \<open>Some\<close>, \<open>Ok\<close> and the unwrapping functions are
  moved. A \<open>*mut\<close> pointer to a place lets the callee write to it, so it counts as a mutable borrow.
\<close>

fun use_of :: "var_use \<Rightarrow> bool \<Rightarrow> call_type \<Rightarrow> var_use" where
  "use_of m copy NotCompatible = Read"
| "use_of m copy DirectCall = (if m = Move \<and> copy then Read else m)"
| "use_of m copy (AsConvert _) = Read"
| "use_of m copy (CtBorrowedRef c) = use_of Shared copy c"
| "use_of m copy (CtMutBorrowedRef c) = use_of Mutable copy c"
| "use_of m copy (CtConstRawPointer c _) = use_of Shared copy c"
| "use_of m copy (CtMutRawPointer c _) = use_of Mutable copy c"
| "use_of m copy (Deref c) = use_of (if m = Move then Read else m) copy c"
| "use_of m copy (UnsafeDeref c) = use_of Read copy c"
| "use_of m copy (UnwrapResult c) = use_of Move copy c"
| "use_of m copy (UnwrapOption c) = use_of Move copy c"
| "use_of m copy (ToResult c) = use_of Move copy c"
| "use_of m copy (ToOption c) = use_of Move copy c"

text \<open>
  Whether the variable itself is borrowed mutably, so that Rust wants it bound as \<open>mut\<close>; a reborrow
  through a reference it holds does not need that. The flag says that the expression is borrowed
  mutably.
\<close>

fun mutated :: "bool \<Rightarrow> call_type \<Rightarrow> bool" where
  "mutated b NotCompatible = False"
| "mutated b DirectCall = b"
| "mutated b (AsConvert _) = False"
| "mutated b (CtBorrowedRef c) = mutated False c"
| "mutated b (CtMutBorrowedRef c) = mutated True c"
| "mutated b (CtConstRawPointer c _) = mutated False c"
| "mutated b (CtMutRawPointer c _) = mutated True c"
| "mutated b (Deref c) = mutated False c"
| "mutated b (UnsafeDeref c) = mutated False c"
| "mutated b (UnwrapResult c) = mutated False c"
| "mutated b (UnwrapOption c) = mutated False c"
| "mutated b (ToResult c) = mutated False c"
| "mutated b (ToOption c) = mutated False c"

text \<open>Whether the expression dereferences a raw pointer, which is only allowed in an \<open>unsafe\<close> block.\<close>

fun derefs_raw :: "call_type \<Rightarrow> bool" where
  "derefs_raw NotCompatible = False"
| "derefs_raw DirectCall = False"
| "derefs_raw (AsConvert _) = False"
| "derefs_raw (CtBorrowedRef c) = derefs_raw c"
| "derefs_raw (CtMutBorrowedRef c) = derefs_raw c"
| "derefs_raw (CtConstRawPointer c _) = derefs_raw c"
| "derefs_raw (CtMutRawPointer c _) = derefs_raw c"
| "derefs_raw (Deref c) = derefs_raw c"
| "derefs_raw (UnsafeDeref c) = True"
| "derefs_raw (UnwrapResult c) = derefs_raw c"
| "derefs_raw (UnwrapOption c) = derefs_raw c"
| "derefs_raw (ToResult c) = derefs_raw c"
| "derefs_raw (ToOption c) = derefs_raw c"

section \<open>Typing of call expressions\<close>

text \<open>
  Types the generated code may use for each other, the casts Rust's \<open>as\<close> allows between
  primitives, and the type of a rendered call expression: \<open>call_yields fnm m c src dst\<close> says that
  the text of \<open>c\<close>, read inside out on a variable of type \<open>src\<close>, has type \<open>dst\<close> and may be put to
  the use \<open>m\<close>. Only a \<open>Copy\<close> value can be taken out of a dereference, and only what a \<open>&mut\<close> or
  \<open>*mut\<close> points to can be borrowed mutably. There is no rule for the text of \<open>_MutRawPointer\<close>: a
  cast of a shared reference to \<open>*mut\<close> is an error.
\<close>

definition interchangeable :: "clean_type \<Rightarrow> clean_type \<Rightarrow> bool" where
  "interchangeable s t \<longleftrightarrow> s = t \<or> resolved_path_equal_without_lifetime s t"

definition castable :: "primitive_type \<Rightarrow> primitive_type \<Rightarrow> bool" where
  "castable p q \<longleftrightarrow> (is_numeric p \<and> is_numeric q) \<or> (p = U8 \<and> q = Char) \<or> (p = Char \<and> q = U8)"

inductive call_yields :: "full_name_map \<Rightarrow> var_use \<Rightarrow> call_type \<Rightarrow> clean_type \<Rightarrow> clean_type \<Rightarrow> bool"
  for fnm where
  direct: "interchangeable src dst \<Longrightarrow> call_yields fnm m DirectCall src dst"
| as_convert: "castable p q \<Longrightarrow> call_yields fnm m (AsConvert (as_str q)) (Primitive p) (Primitive q)"
| borrow: "call_yields fnm Shared c src t \<Longrightarrow>
    call_yields fnm m (CtBorrowedRef c) src (BorrowedRef lt NotMut t)"
| mut_borrow: "call_yields fnm Mutable c src t \<Longrightarrow>
    call_yields fnm m (CtMutBorrowedRef c) src (BorrowedRef lt Mut t)"
| const_raw: "call_yields fnm Shared c src t \<Longrightarrow>
    call_yields fnm m (CtConstRawPointer c t) src (RawPointer NotMut t)"
| to_option: "call_yields fnm Move c src t \<Longrightarrow> prelude_from_type fnm dst = PreludeOption t \<Longrightarrow>
    call_yields fnm m (ToOption c) src dst"
| to_result: "call_yields fnm Move c src t \<Longrightarrow> prelude_from_type fnm dst = PreludeResult t e \<Longrightarrow>
    call_yields fnm m (ToResult c) src dst"
| deref: "call_yields fnm Read c src (BorrowedRef lt r t) \<Longrightarrow> (m = Move \<Longrightarrow> known_copy t) \<Longrightarrow>
    (m = Mutable \<Longrightarrow> r = Mut) \<Longrightarrow> interchangeable t dst \<Longrightarrow> call_yields fnm m (Deref c) src dst"
| unsafe_deref: "call_yields fnm Read c src (RawPointer r t) \<Longrightarrow> (m = Move \<Longrightarrow> known_copy t) \<Longrightarrow>
    (m = Mutable \<Longrightarrow> r = Mut) \<Longrightarrow> interchangeable t dst \<Longrightarrow> call_yields fnm m (UnsafeDeref c) src dst"
| unwrap_option: "call_yields fnm Move c src w \<Longrightarrow> prelude_from_type fnm w = PreludeOption t \<Longrightarrow>
    interchangeable t dst \<Longrightarrow> call_yields fnm m (UnwrapOption c) src dst"
| unwrap_result: "call_yields fnm Move c src w \<Longrightarrow> prelude_from_type fnm w = PreludeResult t e \<Longrightarrow>
    interchangeable t dst \<Longrightarrow> call_yields fnm m (UnwrapResult c) src dst"

inductive_cases yields_direct: "call_yields fnm m DirectCall src dst"
inductive_cases yields_deref: "call_yields fnm m (Deref c) src dst"
inductive_cases yields_unwrap_option: "call_yields fnm m (UnwrapOption c) src dst"

text \<open>
  The call types whose text has a type, given the type of the variable: at most one layer is peeled
  off the value, no \<open>*mut\<close> pointer is made, what is taken by value out of a raw pointer is \<open>Copy\<close>, and
  no shared reference or \<open>*const\<close> pointer is reborrowed as \<open>&mut\<close>.
\<close>

fun pointee_copy :: "clean_type \<Rightarrow> bool" where
  "pointee_copy (RawPointer _ t) \<longleftrightarrow> known_copy t"
| "pointee_copy _ \<longleftrightarrow> False"

fun straight :: "clean_type \<Rightarrow> var_use \<Rightarrow> call_type \<Rightarrow> bool" where
  "straight src m NotCompatible = False"
| "straight src m DirectCall = True"
| "straight src m (AsConvert _) = True"
| "straight src m (CtBorrowedRef c) = straight src Shared c"
| "straight src m (CtMutBorrowedRef c) = straight src Mutable c"
| "straight src m (CtConstRawPointer c _) = straight src Shared c"
| "straight src m (CtMutRawPointer c _) = False"
| "straight src m (ToOption c) = straight src Move c"
| "straight src m (ToResult c) = straight src Move c"
| "straight src m (Deref c) = (c = DirectCall \<and> (m = Mutable \<longrightarrow> pointer_mutability src = Some Mut))"
| "straight src m (UnsafeDeref c) =
     (c = DirectCall \<and> (m = Move \<longrightarrow> pointee_copy src) \<and> (m = Mutable \<longrightarrow> pointer_mutability src = Some Mut))"
| "straight src m (UnwrapOption c) = (c = DirectCall)"
| "straight src m (UnwrapResult c) = (c = DirectCall)"

lemma copy_type_known: "copy_type t \<Longrightarrow> known_copy t"
  by (induction t rule: copy_type.induct) (auto simp: list_all_iff is_numeric_def split: mutability.splits)

lemma interchangeable_copy: "interchangeable s t \<Longrightarrow> known_copy s = known_copy t"
  by (auto simp: interchangeable_def dest: path_equal_left path_equal_right)

lemma same_type_refl: "same_type_hard_mode fnm t t = DirectCall"
  by (simp add: same_type_hard_mode.simps)

lemma as_convert_sound:
  "castable p q \<Longrightarrow> call_yields fnm m (AsConvert (as_str q)) (Primitive p) (Primitive q)"
  by (rule as_convert)

lemma same_type_primitive_sound:
  assumes "same_type_primitive p t \<noteq> NotCompatible"
  shows "call_yields fnm m (same_type_primitive p t) (Primitive p) t"
proof -
  obtain q where t: "t = Primitive q"
    using assms by (cases t) (simp_all add: same_type_primitive_def split: if_splits)
  show ?thesis
  proof (cases "p = q")
    case True
    with assms t show ?thesis
      by (simp add: same_type_primitive_def direct interchangeable_def split: if_splits)
  next
    case False
    with assms t have "castable p q" "same_type_primitive p t = AsConvert (as_str q)"
      by (auto simp: same_type_primitive_def castable_def is_numeric_def split: if_splits)
    then show ?thesis using t by (simp add: as_convert)
  qed
qed

lemma same_type_direct_sound:
  assumes "same_type_resolved_path_direct s t \<noteq> NotCompatible"
  shows "call_yields fnm m (same_type_resolved_path_direct s t) s t"
proof -
  have "same_type_resolved_path_direct s t = DirectCall" "interchangeable s t"
    using assms
    by (cases t; simp add: same_type_resolved_path_direct_def interchangeable_def split: if_splits)+
  then show ?thesis by (simp add: direct)
qed

definition if_compatible :: "(call_type \<Rightarrow> call_type) \<Rightarrow> call_type \<Rightarrow> call_type" where
  "if_compatible f c = (if c = NotCompatible then NotCompatible else f c)"

lemma case_compatible:
  "(case c of NotCompatible \<Rightarrow> NotCompatible | _ \<Rightarrow> f c) = if_compatible f c"
  by (cases c) (simp_all add: if_compatible_def)

lemma if_compatible_NC: "if_compatible f c \<noteq> NotCompatible \<Longrightarrow> c \<noteq> NotCompatible"
  by (auto simp: if_compatible_def)

lemmas case_wrap =
  case_compatible [where f = "unwrap_call_type p" for p]
  case_compatible [where f = "to_call_type p" for p]

lemma same_type_wrappers:
  "same_type_raw_pointer c = if_compatible UnsafeDeref c"
  "same_type_borrowed_ref ty c =
     if_compatible (\<lambda>c. if copy_type ty then Deref c else NotCompatible) c"
  "borrowed_ref_in_same_type m c =
     if_compatible (\<lambda>c. case m of Mut \<Rightarrow> CtMutBorrowedRef c | NotMut \<Rightarrow> CtBorrowedRef c) c"
  "raw_pointer_in_same_type m ty c =
     if_compatible (\<lambda>c. case m of Mut \<Rightarrow> CtMutRawPointer c ty | NotMut \<Rightarrow> CtConstRawPointer c ty) c"
  by (cases c; simp add: if_compatible_def same_type_raw_pointer_def same_type_borrowed_ref_def
      borrowed_ref_in_same_type_def raw_pointer_in_same_type_def)+

text \<open>The equations of \<open>same_type_hard_mode\<close>, one per branch of the code.\<close>

lemma same_type_equal: "out = inp \<Longrightarrow> same_type_hard_mode fnm out inp = DirectCall"
  by (subst same_type_hard_mode.simps) simp

lemma same_type_borrowed:
  "out \<noteq> BorrowedRef lt m ty \<Longrightarrow> same_type_hard_mode fnm out (BorrowedRef lt m ty) =
     borrowed_ref_in_same_type m (same_type_hard_mode fnm out ty)"
  by (subst same_type_hard_mode.simps) simp

lemma same_type_raw:
  "out \<noteq> RawPointer m ty \<Longrightarrow> same_type_hard_mode fnm out (RawPointer m ty) =
     raw_pointer_in_same_type m ty (same_type_hard_mode fnm out ty)"
  by (subst same_type_hard_mode.simps) simp

lemma same_type_special_input:
  assumes "out \<noteq> inp" "prelude_type_need_special_dealing fnm inp"
  shows "same_type_hard_mode fnm out inp =
     if_compatible (to_call_type (prelude_from_type fnm inp))
       (same_type_hard_mode fnm out (get_final_type (prelude_from_type fnm inp)))"
proof -
  obtain path pn did g where "inp = ResolvedPath path pn did g"
    using special_dealing_resolved [OF assms(2)] by blast
  with assms show ?thesis
    by (subst same_type_hard_mode.simps) (simp add: Let_def case_wrap)
qed

lemma same_type_plain_input:
  assumes "out \<noteq> inp" "\<not> prelude_type_need_special_dealing fnm inp"
    "pointer_mutability inp = None"
  shows "same_type_hard_mode fnm out inp =
     (case out of
        ResolvedPath _ _ _ _ \<Rightarrow>
          if prelude_type_need_special_dealing fnm out
          then if_compatible (unwrap_call_type (prelude_from_type fnm out))
                 (same_type_hard_mode fnm (get_final_type (prelude_from_type fnm out)) inp)
          else same_type_resolved_path_direct out inp
      | Primitive p \<Rightarrow> same_type_primitive p inp
      | RawPointer _ ty \<Rightarrow> same_type_raw_pointer (same_type_hard_mode fnm ty inp)
      | BorrowedRef _ _ ty \<Rightarrow> same_type_borrowed_ref ty (same_type_hard_mode fnm ty inp)
      | _ \<Rightarrow> NotCompatible)"
  using assms by (subst same_type_hard_mode.simps, unfold Let_def case_wrap) (cases inp; simp)

lemma special_dealing_cases:
  assumes "prelude_type_need_special_dealing fnm ty"
  obtains (option) t where "prelude_from_type fnm ty = PreludeOption t"
  | (result) ok err where "prelude_from_type fnm ty = PreludeResult ok err"
  using assms by (auto simp: special_dealing_iff intro: prelude_from_type_cases [of fnm ty])

lemma same_type_sound_plain:
  assumes neq: "out \<noteq> inp" and plain: "pointer_mutability inp = None"
      "\<not> prelude_type_need_special_dealing fnm inp"
    and IH: "\<And>t. size t < size out \<Longrightarrow> same_type_hard_mode fnm t inp = DirectCall \<Longrightarrow>
      interchangeable t inp"
    and compatible: "same_type_hard_mode fnm out inp \<noteq> NotCompatible"
    and single: "straight out m (same_type_hard_mode fnm out inp)"
  shows "call_yields fnm m (same_type_hard_mode fnm out inp) out inp"
proof -
  note eq = same_type_plain_input [OF neq plain(2,1)]
  have self: "call_yields fnm m DirectCall out out" for m by (simp add: direct interchangeable_def)
  consider (special) "prelude_type_need_special_dealing fnm out"
    | (path) path pn did g where "out = ResolvedPath path pn did g"
        "\<not> prelude_type_need_special_dealing fnm out"
    | (prim) p where "out = Primitive p"
    | (raw) m t where "out = RawPointer m t"
    | (ref) lt m t where "out = BorrowedRef lt m t"
    using compatible unfolding eq by (cases out) auto
  then show ?thesis
  proof cases
    case special
    let ?t = "get_final_type (prelude_from_type fnm out)"
    obtain path pn did g where out: "out = ResolvedPath path pn did g"
      using special_dealing_resolved [OF special] by blast
    have eq': "same_type_hard_mode fnm out inp = if_compatible
        (unwrap_call_type (prelude_from_type fnm out)) (same_type_hard_mode fnm ?t inp)"
      using special unfolding eq by (simp add: out)
    note sp = final_type_smaller [OF special]
    from special show ?thesis
    proof (cases rule: special_dealing_cases)
      case (option t)
      with compatible single IH [OF sp] show ?thesis unfolding eq'
        by (auto simp: if_compatible_def intro: unwrap_option [OF self option] split: if_splits)
    next
      case (result ok err)
      with compatible single IH [OF sp] show ?thesis unfolding eq'
        by (auto simp: if_compatible_def intro: unwrap_result [OF self result] split: if_splits)
    qed
  next
    case path
    with compatible same_type_direct_sound [of out inp fnm] show ?thesis
      unfolding eq by simp
  next
    case prim
    with compatible same_type_primitive_sound [of p inp fnm] show ?thesis
      unfolding eq by simp
  next
    case raw
    with compatible single IH [of t] self show ?thesis unfolding eq
      by (auto simp: same_type_wrappers if_compatible_def intro: unsafe_deref split: if_splits)
  next
    case ref
    with compatible single IH [of t] self show ?thesis unfolding eq
      by (auto simp: same_type_wrappers if_compatible_def intro: deref copy_type_known split: if_splits)
  qed
qed

text \<open>The layers around the parameter's type: a reference, a raw pointer, an option or result.\<close>

lemma same_type_sound_pointer:
  assumes neq: "out \<noteq> inp" and inp: "inp = BorrowedRef lt r ty \<or> inp = RawPointer r ty"
    and IH: "\<And>m. same_type_hard_mode fnm out ty \<noteq> NotCompatible \<Longrightarrow>
      straight out m (same_type_hard_mode fnm out ty) \<Longrightarrow>
      call_yields fnm m (same_type_hard_mode fnm out ty) out ty"
    and compatible: "same_type_hard_mode fnm out inp \<noteq> NotCompatible"
    and single: "straight out m (same_type_hard_mode fnm out inp)"
  shows "call_yields fnm m (same_type_hard_mode fnm out inp) out inp"
  using inp
proof
  assume inp: "inp = BorrowedRef lt r ty"
  have eq: "same_type_hard_mode fnm out inp = if_compatible
      (\<lambda>c. case r of Mut \<Rightarrow> CtMutBorrowedRef c | NotMut \<Rightarrow> CtBorrowedRef c) (same_type_hard_mode fnm out ty)"
    using neq unfolding inp by (simp add: same_type_borrowed same_type_wrappers)
  then show ?thesis
    using IH compatible single
    by (cases r) (simp_all add: inp if_compatible_def borrow mut_borrow split: if_splits)
next
  assume inp: "inp = RawPointer r ty"
  have eq: "same_type_hard_mode fnm out inp = if_compatible
      (\<lambda>c. case r of Mut \<Rightarrow> CtMutRawPointer c ty | NotMut \<Rightarrow> CtConstRawPointer c ty) (same_type_hard_mode fnm out ty)"
    using neq unfolding inp by (simp add: same_type_raw same_type_wrappers)
  then show ?thesis
    using IH compatible single
    by (cases r) (simp_all add: inp if_compatible_def const_raw split: if_splits)
qed

lemma same_type_sound_special:
  assumes neq: "out \<noteq> inp" and special: "prelude_type_need_special_dealing fnm inp"
    and IH: "\<And>m. same_type_hard_mode fnm out (get_final_type (prelude_from_type fnm inp)) \<noteq> NotCompatible \<Longrightarrow>
      straight out m (same_type_hard_mode fnm out (get_final_type (prelude_from_type fnm inp))) \<Longrightarrow>
      call_yields fnm m (same_type_hard_mode fnm out (get_final_type (prelude_from_type fnm inp))) out
        (get_final_type (prelude_from_type fnm inp))"
    and compatible: "same_type_hard_mode fnm out inp \<noteq> NotCompatible"
    and single: "straight out m (same_type_hard_mode fnm out inp)"
  shows "call_yields fnm m (same_type_hard_mode fnm out inp) out inp"
proof -
  note eq = same_type_special_input [OF neq special]
  from special show ?thesis
  proof (cases rule: special_dealing_cases)
    case (option t)
    then show ?thesis using IH compatible single unfolding eq
      by (auto simp: if_compatible_def intro: to_option split: if_splits)
  next
    case (result ok err)
    then show ?thesis using IH compatible single unfolding eq
      by (auto simp: if_compatible_def intro: to_result split: if_splits)
  qed
qed

lemma same_type_sound_lemma:
  "same_type_hard_mode fnm out inp \<noteq> NotCompatible \<Longrightarrow>
   straight out m (same_type_hard_mode fnm out inp) \<Longrightarrow>
     call_yields fnm m (same_type_hard_mode fnm out inp) out inp"
proof (induction "size out + size inp" arbitrary: out inp m rule: less_induct)
  case less
  show ?case
  proof (cases "out = inp")
    case True
    then show ?thesis by (simp add: same_type_equal direct interchangeable_def)
  next
    case neq: False
    consider (pointer) lt r ty where "inp = BorrowedRef lt r ty \<or> inp = RawPointer r ty"
      | (special) "prelude_type_need_special_dealing fnm inp"
      | (plain) "pointer_mutability inp = None" "\<not> prelude_type_need_special_dealing fnm inp"
      by (cases inp) auto
    then show ?thesis
    proof cases
      case pointer
      have "size ty < size inp" using pointer by auto
      then show ?thesis using same_type_sound_pointer [OF neq pointer _ less.prems] less.hyps [of out ty] by simp
    next
      case special
      show ?thesis
        using same_type_sound_special [OF neq special _ less.prems] final_type_smaller [OF special]
          less.hyps [of out "get_final_type (prelude_from_type fnm inp)"] by simp
    next
      case plain
      have IH: "interchangeable t inp"
        if "size t < size out" "same_type_hard_mode fnm t inp = DirectCall" for t
        using less.hyps [of t inp] that by (auto elim: yields_direct)
      show ?thesis by (rule same_type_sound_plain [OF neq plain IH less.prems])
    qed
  qed
qed


definition example_fnm :: full_name_map where
  "example_fnm = push_mapping \<lparr>krate = 0, index = 1\<rparr> ''core::option::Option'' ItEnum fnm_new"

definition example_option :: "clean_type \<Rightarrow> clean_type" where
  "example_option t = ResolvedPath (Path False ResErr
     [PathSegment ''Option'' (AngleBracketed [ArgType t] [])]) None \<lparr>krate = 0, index = 1\<rparr> False"

definition example_struct :: clean_type where
  "example_struct = ResolvedPath (Path False ResErr
     [PathSegment ''S'' (AngleBracketed [] [])]) None \<lparr>krate = 0, index = 2\<rparr> False"

lemmas example_type_simps = example_fnm_def example_option_def example_struct_def
  push_mapping_def fnm_new_def get_full_name_def preluded_did_def is_preluded_type_def
  preluded_type_table_def to_strip_type_name_def extract_option_def option_arg_def
  prelude_type_need_special_dealing_def prelude_from_type.simps(1)

lemma example_prelude [simp]:
  "prelude_from_type example_fnm (example_option t) = PreludeOption t"
  "prelude_from_type example_fnm example_struct = NotPrelude example_struct"
  by (simp_all add: example_type_simps)

lemma example_special [simp]:
  "prelude_type_need_special_dealing example_fnm (example_option t)"
  "\<not> prelude_type_need_special_dealing example_fnm example_struct"
  "\<not> prelude_type_need_special_dealing example_fnm (Primitive p)"
  "\<not> prelude_type_need_special_dealing example_fnm (BorrowedRef lt m t)"
  by (simp_all add: special_dealing_iff)

lemma example_neq [simp]:
  "example_option t \<noteq> BorrowedRef lt m u" "example_option t \<noteq> Primitive p"
  "example_struct \<noteq> BorrowedRef lt m u" "example_option t \<noteq> example_struct"
  "example_struct \<noteq> example_option t" "pointer_mutability example_struct = None"
  by (simp_all add: example_option_def example_struct_def)

lemma example_same_type:
  assumes "example_option t \<noteq> inp" "pointer_mutability inp = None"
    "\<not> prelude_type_need_special_dealing example_fnm inp"
  shows "same_type_hard_mode example_fnm (example_option t) inp =
     if_compatible UnwrapOption (same_type_hard_mode example_fnm t inp)"
  using same_type_plain_input [OF assms(1,3,2)] example_special(1) [of t] example_prelude(1) [of t]
  by (simp add: example_option_def if_compatible_def)

lemma example_deref:
  "same_type_hard_mode example_fnm (BorrowedRef None NotMut (Primitive U8)) (Primitive U8) =
     Deref DirectCall"
  by (simp add: same_type_plain_input same_type_wrappers if_compatible_def same_type_equal
      is_numeric_def)

lemmas example_eval = same_type_def same_type_borrowed same_type_wrappers if_compatible_def
  example_same_type same_type_equal same_type_special_input


text \<open>
  with two layers to peel the renderer applies them in the wrong order: an \<open>Option<&u8>\<close> is
  judged usable as a \<open>u8\<close>, but the call expression, which dereferences the option before it
  unwraps it, has no type at all.
\<close>

lemma nested_output_layers_wrong_order:
  "same_type example_fnm (example_option (BorrowedRef None NotMut (Primitive U8))) (Primitive U8) True
     = UnwrapOption (Deref DirectCall) \<and>
   \<not> call_yields example_fnm Move (UnwrapOption (Deref DirectCall))
       (example_option (BorrowedRef None NotMut (Primitive U8))) dst"
proof
  show "same_type example_fnm (example_option (BorrowedRef None NotMut (Primitive U8))) (Primitive U8) True
     = UnwrapOption (Deref DirectCall)"
    by (simp add: example_eval example_deref)
  show "\<not> call_yields example_fnm Move (UnwrapOption (Deref DirectCall))
       (example_option (BorrowedRef None NotMut (Primitive U8))) dst"
    by (auto elim!: yields_unwrap_option yields_deref yields_direct
        simp: interchangeable_def dest: path_equal_right)
qed

section \<open>The tests of the generator on plain conversions\<close>

text \<open>
  The call types on which the generator's tests, which look at the outermost layer only, agree with
  Rust: a value passed as it is, cast, dereferenced or unwrapped, with at most one reference or
  pointer made of it. Not among them are borrows and moves inside \<open>Some(..)\<close> or \<open>Ok(..)\<close>, a \<open>&mut\<close> below
  another reference, and a raw pointer dereferenced below a reference.
\<close>

fun base_conversion :: "call_type \<Rightarrow> bool" where
  "base_conversion DirectCall = True"
| "base_conversion (AsConvert _) = True"
| "base_conversion (Deref c) = (c = DirectCall)"
| "base_conversion (UnwrapOption c) = (c = DirectCall)"
| "base_conversion (UnwrapResult c) = (c = DirectCall)"
| "base_conversion _ = False"

fun plain_conversion :: "call_type \<Rightarrow> bool" where
  "plain_conversion (CtBorrowedRef c) = base_conversion c"
| "plain_conversion (CtMutBorrowedRef c) = base_conversion c"
| "plain_conversion (CtConstRawPointer c _) = base_conversion c"
| "plain_conversion (CtMutRawPointer c _) = base_conversion c"
| "plain_conversion (UnsafeDeref c) = (c = DirectCall)"
| "plain_conversion c = base_conversion c"

text \<open>A pointer is made where the parameter has that pointer type.\<close>

fun makes_pointer :: "call_type \<Rightarrow> mutability option" where
  "makes_pointer (CtBorrowedRef _) = Some NotMut"
| "makes_pointer (CtMutBorrowedRef _) = Some Mut"
| "makes_pointer (CtConstRawPointer _ _) = Some NotMut"
| "makes_pointer (CtMutRawPointer _ _) = Some Mut"
| "makes_pointer _ = None"

lemma same_type_no_pointer:
  assumes "out \<noteq> inp" "\<not> prelude_type_need_special_dealing fnm inp" "pointer_mutability inp = None"
  shows "makes_pointer (same_type_hard_mode fnm out inp) = None"
proof (cases out)
  case (ResolvedPath path pn did g)
  have "makes_pointer (same_type_resolved_path_direct out inp) = None"
    by (cases inp) (simp_all add: same_type_resolved_path_direct_def)
  moreover have "makes_pointer (if_compatible (unwrap_call_type (prelude_from_type fnm out)) c) = None"
    if "prelude_type_need_special_dealing fnm out" for c
    using that by (cases rule: special_dealing_cases) (simp_all add: if_compatible_def)
  ultimately show ?thesis using same_type_plain_input [OF assms] ResolvedPath by simp
next
  case (Primitive p)
  then show ?thesis using same_type_plain_input [OF assms] by (cases inp) (simp_all add: same_type_primitive_def)
qed (use same_type_plain_input [OF assms] in \<open>simp_all add: same_type_wrappers if_compatible_def\<close>)

lemma same_type_makes_pointer:
  assumes "makes_pointer (same_type_hard_mode fnm out inp) = Some r"
  shows "pointer_mutability inp = Some r"
proof (cases "out = inp")
  case True
  then show ?thesis using assms by (simp add: same_type_equal)
next
  case neq: False
  consider (ref) lt q ty where "inp = BorrowedRef lt q ty" | (raw) q ty where "inp = RawPointer q ty"
    | (special) "prelude_type_need_special_dealing fnm inp"
    | (plain) "pointer_mutability inp = None" "\<not> prelude_type_need_special_dealing fnm inp"
    by (cases inp) auto
  then show ?thesis
  proof cases
    case ref
    then show ?thesis using assms neq
      by (cases q) (simp_all add: same_type_borrowed same_type_wrappers if_compatible_def split: if_splits)
  next
    case raw
    then show ?thesis using assms neq
      by (cases q) (simp_all add: same_type_raw same_type_wrappers if_compatible_def split: if_splits)
  next
    case special
    then show ?thesis
      using assms same_type_special_input [OF neq special]
      by (cases rule: special_dealing_cases) (simp_all add: if_compatible_def split: if_splits)
  next
    case plain
    then show ?thesis using assms same_type_no_pointer [OF neq plain(2,1)] by simp
  qed
qed

lemma same_type_direct:
  assumes "same_type_hard_mode fnm out inp = DirectCall"
  shows "interchangeable out inp"
  using same_type_sound_lemma [of fnm out inp Move] assms by (auto elim: yields_direct)

text \<open>On a plain conversion the tests find every move and every borrow, every \<open>mut\<close> and every raw pointer.\<close>

lemma plain_uses:
  assumes ct: "same_type_hard_mode fnm out inp = ct" "plain_conversion ct"
  shows "use_of Move (known_copy out) ct = Move \<Longrightarrow> move_condition inp ct"
    "use_of Move (known_copy out) ct = Mutable \<Longrightarrow> is_mutable_borrow_occurs inp ct"
    "use_of Move (known_copy out) ct = Shared \<Longrightarrow> is_immutable_borrow_occurs inp ct"
proof -
  have pointer: "makes_pointer ct = Some r \<Longrightarrow> pointer_mutability inp = Some r" for r
    using same_type_makes_pointer ct(1) by blast
  have "\<not> copy_type inp" if "ct = DirectCall" "\<not> known_copy out"
    using interchangeable_copy [OF same_type_direct] that ct(1) copy_type_known by blast
  then show "use_of Move (known_copy out) ct = Move \<Longrightarrow> move_condition inp ct"
    using ct(2)
    by (auto elim!: plain_conversion.elims base_conversion.elims
        simp: move_condition_def contains_move_call_type_def split: if_splits)
  show "use_of Move (known_copy out) ct = Mutable \<Longrightarrow> is_mutable_borrow_occurs inp ct"
    using ct(2) pointer
    by (auto elim!: plain_conversion.elims base_conversion.elims
        simp: is_mutable_borrow_occurs_def contains_move_call_type_def split: if_splits)
  show "use_of Move (known_copy out) ct = Shared \<Longrightarrow> is_immutable_borrow_occurs inp ct"
    using ct(2) pointer
    by (auto elim!: plain_conversion.elims base_conversion.elims
        simp: is_immutable_borrow_occurs_def split: if_splits)
qed

lemma plain_tags:
  assumes "plain_conversion ct"
  shows "mutated False ct \<Longrightarrow> need_mut_tag ct" "derefs_raw ct \<Longrightarrow> is_unsafe (unsafe_call_type ct)"
  using assms by (auto elim!: plain_conversion.elims base_conversion.elims)

text \<open>
  Outside of the plain conversions the tests miss what Rust sees. Wrapping a value in \<open>Some(..)\<close> moves
  it, but \<open>_move_condition\<close> does not say so.
\<close>

lemma to_option_move_not_recorded:
  "same_type example_fnm example_struct (example_option example_struct) True = ToOption DirectCall \<and>
   use_of Move (known_copy example_struct) (ToOption DirectCall) = Move \<and>
   \<not> move_condition (example_option example_struct) (ToOption DirectCall)"
  by (simp add: example_eval move_condition_def contains_move_call_type_def)
    (simp add: example_struct_def)

text \<open>
  A \<open>&mut\<close> inside \<open>Some(..)\<close> is neither recorded as a borrow nor does it get its variable bound as \<open>mut\<close>.
\<close>

lemma to_option_borrow_not_recorded:
  "same_type example_fnm example_struct (example_option (BorrowedRef None Mut example_struct)) True = ToOption (CtMutBorrowedRef DirectCall) \<and>
   use_of Move (known_copy example_struct) (ToOption (CtMutBorrowedRef DirectCall)) = Mutable \<and>
   mutated False (ToOption (CtMutBorrowedRef DirectCall)) \<and>
   \<not> is_mutable_borrow_occurs (example_option (BorrowedRef None Mut example_struct)) (ToOption (CtMutBorrowedRef DirectCall)) \<and>
   \<not> need_mut_tag (ToOption (CtMutBorrowedRef DirectCall))"
  by (simp add: example_eval is_mutable_borrow_occurs_def contains_move_call_type_def)

text \<open>The expression for a \<open>*mut\<close> parameter has no type.\<close>

lemma mut_raw_pointer_untyped:
  "same_type example_fnm example_struct (RawPointer Mut example_struct) True = CtMutRawPointer DirectCall example_struct \<and>
   \<not> call_yields example_fnm Move (CtMutRawPointer DirectCall example_struct) example_struct dst"
proof
  have "example_struct \<noteq> RawPointer Mut example_struct" by (simp add: example_struct_def)
  then show "same_type example_fnm example_struct (RawPointer Mut example_struct) True = CtMutRawPointer DirectCall example_struct"
    by (simp add: same_type_def same_type_raw same_type_wrappers if_compatible_def same_type_equal)
  show "\<not> call_yields example_fnm Move (CtMutRawPointer DirectCall example_struct) example_struct dst"
    by (auto elim: call_yields.cases)
qed

end
