(* ===== verification/Api_Function.thy ===== *)
theory Api_Function
  imports Arg_Expr
begin

text \<open>
  \<^verbatim>\<open>fuzz_target/api_function.rs\<close> and \<^verbatim>\<open>generic_function.rs\<close>: a public function of the crate under
  test, as the dependency graph stores it, and the tests the filters and the search make on it.
\<close>

section \<open>Definitions\<close>

record api_function =
  full_name :: string
  af_generics :: generics
  inputs :: "clean_type list"
  output_ty :: "clean_type option"
  trait_full_path :: "string option"
  unsafe_tag :: api_unsafety

definition contains_mut_borrow :: "api_function \<Rightarrow> bool" where
  "contains_mut_borrow f =
     (if length (inputs f) \<le> 0 then False
      else list_ex (\<lambda>input_type. pointer_mutability input_type = Some Mut) (inputs f))"

definition is_end_function :: "full_name_map \<Rightarrow> api_function \<Rightarrow> bool" where
  "is_end_function fnm f =
     (if contains_mut_borrow f then False
      else (case output_ty f of
              Some ty \<Rightarrow> if is_end_type fnm ty then True else False
            | None \<Rightarrow> True))"

text \<open>\<open>prelude_types\<close> is a \<open>HashSet<String>\<close>; only \<open>any\<close> is asked of it.\<close>

definition is_defined_on_prelude_type :: "string set \<Rightarrow> api_function \<Rightarrow> bool" where
  "is_defined_on_prelude_type prelude_types f =
     (let function_name_contains_prelude_type =
            (\<exists>p \<in> prelude_types. starts_with (full_name f) p);
          trait_contains_prelude_type =
            (case trait_full_path f of
               Some trait_name \<Rightarrow> (\<exists>p \<in> prelude_types. starts_with trait_name p)
             | None \<Rightarrow> False)
      in \<not> function_name_contains_prelude_type \<and> \<not> trait_contains_prelude_type)"

definition is_start_function :: "full_name_map \<Rightarrow> api_function \<Rightarrow> bool" where
  "is_start_function fnm f = list_all (is_end_type fnm) (inputs f)"

definition is_generic_function :: "api_function \<Rightarrow> bool" where
  "is_generic_function f =
     (if list_ex is_generic_type (inputs f) then True
      else (case output_ty f of Some ty \<Rightarrow> is_generic_type ty | None \<Rightarrow> False))"

definition has_no_output :: "api_function \<Rightarrow> bool" where
  "has_no_output f = (case output_ty f of None \<Rightarrow> True | Some _ \<Rightarrow> False)"

definition pretty_print ::
  "(primitive_type \<Rightarrow> def_id option) \<Rightarrow> full_name_map \<Rightarrow> api_function \<Rightarrow> string" where
  "pretty_print pl fnm f =
     (let fn_line = ''fn '' @ full_name f @ ''('';
          fn_line = foldl (\<lambda>line i.
              (if i \<noteq> 0 then line @ '' ,'' else line) @ type_name pl fnm (inputs f ! i))
            fn_line [0..<length (inputs f)];
          fn_line = fn_line @ '')''
      in (case output_ty f of
            Some ty \<Rightarrow> fn_line @ ''->'' @ type_name pl fnm ty
          | None \<Rightarrow> fn_line))"

text \<open>The body of the loop of \<open>contains_unsupported_fuzzable_type\<close>, on one input type.\<close>

definition unsupported_input :: "full_name_map \<Rightarrow> clean_type \<Rightarrow> bool" where
  "unsupported_input fnm input_ty =
     (if is_fuzzable_type fnm input_ty
      then (case generate_fuzzable_type_and_call_type (fuzzable_call_type fnm input_ty) of
              (ft, ct) \<Rightarrow>
                if ft = NoFuzzable then True
                else if is_multiple_dynamic_length ft then True
                else if ct = NotCompatible then True
                else False)
      else False)"

definition contains_unsupported_fuzzable_type :: "full_name_map \<Rightarrow> api_function \<Rightarrow> bool" where
  "contains_unsupported_fuzzable_type fnm f = list_ex (unsupported_input fnm) (inputs f)"

record generic_function =
  gf_api_function :: api_function
  generic_substitute :: "string \<Rightarrow> clean_type option"

definition generic_function_from :: "api_function \<Rightarrow> generic_function" where
  "generic_function_from f = \<lparr>gf_api_function = f, generic_substitute = (\<lambda>_. None)\<rparr>"

section \<open>What the filters leave\<close>

text \<open>A parameter the fuzzer can feed: its bytes can be read and passed.\<close>

definition feedable :: "full_name_map \<Rightarrow> clean_type \<Rightarrow> bool" where
  "feedable fnm ty \<longleftrightarrow>
     (case generate_fuzzable_type_and_call_type (fuzzable_call_type fnm ty) of
        (ft, ct) \<Rightarrow> \<not> mentions_no_fuzzable ft \<and> \<not> is_multiple_dynamic_length ft \<and>
          ct \<noteq> NotCompatible \<and> \<not> contains_unwrap_call_type ct)"

lemma unsupported_input_iff:
  "unsupported_input fnm ty \<longleftrightarrow> is_fuzzable_type fnm ty \<and> \<not> feedable fnm ty"
  using generate_ok_slice [of "fuzzable_call_type fnm ty"]
  by (auto simp: unsupported_input_def feedable_def split: prod.splits)

lemma filtered_input_feedable:
  assumes "\<not> contains_unsupported_fuzzable_type fnm f" "ty \<in> set (inputs f)" "is_fuzzable_type fnm ty"
  shows "feedable fnm ty"
  using assms
  by (auto simp: contains_unsupported_fuzzable_type_def list_ex_iff unsupported_input_iff)

text \<open>
  The fuzzability filter is exact: a function passes it just when each of its fuzzable
  parameters gets a variable whose bytes can be read with at most one level of dynamic length,
  nothing unfuzzable inside, and a call type that neither is incompatible nor unwraps.
\<close>

lemma unsupported_filter_exact:
  "contains_unsupported_fuzzable_type fnm f =
     list_ex (\<lambda>ty. is_fuzzable_type fnm ty \<and> \<not> feedable fnm ty) (inputs f)"
  by (simp add: contains_unsupported_fuzzable_type_def unsupported_input_iff list_ex_iff)

lemma pretty_print_loop:
  "n \<le> length xs \<Longrightarrow>
   foldl (\<lambda>line i. (if i \<noteq> 0 then line @ sep else line) @ g (xs ! i)) s [0..<n] =
     s @ str_join sep (map g (take n xs))"
proof (induction n)
  case 0
  then show ?case by simp
next
  case (Suc n)
  then have nth: "take (Suc n) xs = take n xs @ [xs ! n]" by (simp add: take_Suc_conv_app_nth)
  show ?case
  proof (cases "n = 0")
    case True
    with Suc.prems nth show ?thesis by simp
  next
    case False
    then have "map g (take n xs) \<noteq> []" using Suc.prems by auto
    with False Suc show ?thesis by (simp add: nth str_join_append)
  qed
qed

text \<open>The printed signature is the name, the argument types separated by commas, the result.\<close>

lemma pretty_print_signature:
  "pretty_print pl fnm f =
     ''fn '' @ full_name f @ ''('' @ str_join '' ,'' (map (type_name pl fnm) (inputs f)) @ '')'' @
     (case output_ty f of Some ty \<Rightarrow> ''->'' @ type_name pl fnm ty | None \<Rightarrow> '''')"
  using pretty_print_loop [of "length (inputs f)" "inputs f" "'' ,''" "type_name pl fnm"
      "''fn '' @ full_name f @ ''(''"]
  by (simp add: pretty_print_def Let_def split: option.split)

end
