(* ===== verification/Afl_Util.thy ===== *)
theory Afl_Util
  imports Api_Function
begin

text \<open>
  \<^verbatim>\<open>fuzz_target/afl_util.rs\<close>: for every variable a target reads from the fuzzer's bytes, the helper
  function that reads it, the helpers it depends on, their source text, and the right-hand side
  of its \<open>let\<close>. The meaning of the helper functions is in \<open>Afl_Readers\<close>.
\<close>

section \<open>Helpers\<close>

datatype afl_helpers =
    NoHelper
  | HU8 | HI8 | HU16 | HI16 | HU32 | HI32 | HF32 | HU64 | HI64 | HF64
  | HU128 | HI128 | HUsize | HIsize | HChar | HBool | HStr
  | HSlice afl_helpers
  | HTuple "afl_helpers list"

fun helper_of_primitive :: "primitive_type \<Rightarrow> afl_helpers" where
  "helper_of_primitive U8 = HU8"
| "helper_of_primitive I8 = HI8"
| "helper_of_primitive U16 = HU16"
| "helper_of_primitive I16 = HI16"
| "helper_of_primitive U32 = HU32"
| "helper_of_primitive I32 = HI32"
| "helper_of_primitive U64 = HU64"
| "helper_of_primitive I64 = HI64"
| "helper_of_primitive U128 = HU128"
| "helper_of_primitive I128 = HI128"
| "helper_of_primitive Usize = HUsize"
| "helper_of_primitive Isize = HIsize"
| "helper_of_primitive Char = HChar"
| "helper_of_primitive Bool = HBool"
| "helper_of_primitive F32 = HF32"
| "helper_of_primitive F64 = HF64"
| "helper_of_primitive _ = NoHelper"

fun new_from_fuzzable :: "fuzzable_type \<Rightarrow> afl_helpers" where
  "new_from_fuzzable NoFuzzable = NoHelper"
| "new_from_fuzzable RefStr = HStr"
| "new_from_fuzzable (FtPrimitive p) = helper_of_primitive p"
| "new_from_fuzzable (RefSlice inner) = HSlice (new_from_fuzzable inner)"
| "new_from_fuzzable (FtTuple inners) = HTuple (map new_from_fuzzable inners)"

text \<open>
  The recursion of \<open>_get_all_dependent_afl_helpers\<close> goes down the chain of the integer readers;
  \<open>helper_rank\<close> is its height.
\<close>

fun helper_rank :: "afl_helpers \<Rightarrow> nat" where
  "helper_rank HBool = 1"
| "helper_rank HU16 = 1"
| "helper_rank HI16 = 1"
| "helper_rank HU32 = 2"
| "helper_rank HI32 = 2"
| "helper_rank HU64 = 3"
| "helper_rank HI64 = 3"
| "helper_rank HChar = 3"
| "helper_rank HU128 = 4"
| "helper_rank HI128 = 4"
| "helper_rank HUsize = 4"
| "helper_rank HIsize = 4"
| "helper_rank (HTuple hs) = 5"
| "helper_rank _ = 0"

lemma helper_rank_le: "helper_rank h \<le> 5"
  by (cases h) auto

function get_all_dependent_afl_helpers :: "afl_helpers \<Rightarrow> afl_helpers list" where
  "get_all_dependent_afl_helpers (HTuple inner) = concat (map get_all_dependent_afl_helpers inner)"
| "get_all_dependent_afl_helpers HU8 = [HU8]"
| "get_all_dependent_afl_helpers HI8 = [HI8]"
| "get_all_dependent_afl_helpers NoHelper = [NoHelper]"
| "get_all_dependent_afl_helpers (HSlice h) = [HSlice h]"
| "get_all_dependent_afl_helpers HStr = [HStr]"
| "get_all_dependent_afl_helpers HF32 = [HF32]"
| "get_all_dependent_afl_helpers HF64 = [HF64]"
| "get_all_dependent_afl_helpers HBool = [HBool] @ get_all_dependent_afl_helpers HU8"
| "get_all_dependent_afl_helpers HU16 = [HU16] @ get_all_dependent_afl_helpers HU8"
| "get_all_dependent_afl_helpers HI16 = [HI16] @ get_all_dependent_afl_helpers HI8"
| "get_all_dependent_afl_helpers HU32 = [HU32] @ get_all_dependent_afl_helpers HU16"
| "get_all_dependent_afl_helpers HI32 = [HI32] @ get_all_dependent_afl_helpers HI16"
| "get_all_dependent_afl_helpers HU64 = [HU64] @ get_all_dependent_afl_helpers HU32"
| "get_all_dependent_afl_helpers HI64 = [HI64] @ get_all_dependent_afl_helpers HI32"
| "get_all_dependent_afl_helpers HU128 = [HU128] @ get_all_dependent_afl_helpers HU64"
| "get_all_dependent_afl_helpers HI128 = [HI128] @ get_all_dependent_afl_helpers HI64"
| "get_all_dependent_afl_helpers HUsize = [HUsize] @ get_all_dependent_afl_helpers HU64"
| "get_all_dependent_afl_helpers HIsize = [HIsize] @ get_all_dependent_afl_helpers HI64"
| "get_all_dependent_afl_helpers HChar = [HChar] @ get_all_dependent_afl_helpers HU32"
  by pat_completeness auto
termination
proof (relation "measures [size, helper_rank]")
  fix inner :: "afl_helpers list" and x
  assume "x \<in> set inner"
  then have "size x < size (HTuple inner)" by (simp add: size_list_elem less_Suc_eq_le less_imp_le)
  then show "(x, HTuple inner) \<in> measures [size, helper_rank]" by simp
qed auto

section \<open>Source text of the readers\<close>

definition data_to_u8 :: string where
  "data_to_u8 = unlines
     [''fn _to_u8(data:&[u8], index:usize)->u8 {'',
      ''    data[index]'',
      ''}'']"

definition data_to_i8 :: string where
  "data_to_i8 = unlines
     [''fn _to_i8(data:&[u8], index:usize)->i8 {    '',
      ''    data[index] as i8'',
      ''}'']"

text \<open>The readers of two halves, which differ only in the types, the offset and the shift.\<close>

definition data_to_u16 :: string where
  "data_to_u16 = unlines
     [''fn _to_u16(data:&[u8], index:usize)->u16 {'',
      ''    let data0 = _to_u8(data, index) as u16;'',
      ''    let data1 = _to_u8(data, index+1) as u16;'',
      ''    data0 << 8 | data1'',
      ''}'']"

definition data_to_i16 :: string where
  "data_to_i16 = unlines
     [''fn _to_i16(data:&[u8], index:usize)->i16 {'',
      ''    let data0 = _to_i8(data, index) as i16;'',
      ''    let data1 = _to_i8(data, index+1) as i16;'',
      ''    data0 << 8 | data1'',
      ''}'']"

definition data_to_u32 :: string where
  "data_to_u32 = unlines
     [''fn _to_u32(data:&[u8], index:usize)->u32 {'',
      ''    let data0 = _to_u16(data, index) as u32;'',
      ''    let data1 = _to_u16(data, index+2) as u32;'',
      ''    data0 << 16 | data1'',
      ''}'']"

definition data_to_i32 :: string where
  "data_to_i32 = unlines
     [''fn _to_i32(data:&[u8], index:usize)->i32 {'',
      ''    let data0 = _to_i16(data, index) as i32;'',
      ''    let data1 = _to_i16(data, index+2) as i32;'',
      ''    data0 << 16 | data1'',
      ''}'']"

definition data_to_f32 :: string where
  "data_to_f32 = unlines
     [''fn _to_f32(data:&[u8], index: usize) -> f32 {'',
      ''    let data_slice = &data[index..index+4];'',
      ''    use std::convert::TryInto;'',
      ''    let data_array:[u8;4] = data_slice.try_into().expect('' @
        quote ''slice with incorrect length'' @ '');'',
      ''    f32::from_le_bytes(data_array)'',
      ''}'']"

definition data_to_u64 :: string where
  "data_to_u64 = unlines
     [''fn _to_u64(data:&[u8], index:usize)->u64 {'',
      ''    let data0 = _to_u32(data, index) as u64;'',
      ''    let data1 = _to_u32(data, index+4) as u64;'',
      ''    data0 << 32 | data1'',
      ''}'']"

definition data_to_i64 :: string where
  "data_to_i64 = unlines
     [''fn _to_i64(data:&[u8], index:usize)->i64 {'',
      ''    let data0 = _to_i32(data, index) as i64;'',
      ''    let data1 = _to_i32(data, index+4) as i64;'',
      ''    data0 << 32 | data1'',
      ''}'']"

definition data_to_f64 :: string where
  "data_to_f64 = unlines
     [''fn _to_f64(data:&[u8], index: usize) -> f64 {'',
      ''    let data_slice = &data[index..index+8];'',
      ''    use std::convert::TryInto;'',
      ''    let data_array:[u8;8] = data_slice.try_into().expect('' @
        quote ''slice with incorrect length'' @ '');'',
      ''    f64::from_le_bytes(data_array)'',
      ''}'']"

definition data_to_u128 :: string where
  "data_to_u128 = unlines
     [''fn _to_u128(data:&[u8], index:usize)->u128 {'',
      ''    let data0 = _to_u64(data, index) as u128;'',
      ''    let data1 = _to_u64(data, index+8) as u128;'',
      ''    data0 << 64 | data1'',
      ''}'']"

definition data_to_i128 :: string where
  "data_to_i128 = unlines
     [''fn _to_i128(data:&[u8], index:usize)->i128 {'',
      ''    let data0 = _to_i64(data, index) as i128;'',
      ''    let data1 = _to_i64(data, index+8) as i128;'',
      ''    data0 << 64 | data1'',
      ''}'']"

definition data_to_usize :: string where
  "data_to_usize = unlines
     [''fn _to_usize(data:&[u8], index:usize)->usize {'',
      ''    _to_u64(data, index) as usize'',
      ''}'']"

definition data_to_isize :: string where
  "data_to_isize = unlines
     [''fn _to_isize(data:&[u8], index:usize)->isize {'',
      ''    _to_i64(data, index) as isize'',
      ''}'']"

definition data_to_char :: string where
  "data_to_char = unlines
     [''fn _to_char(data:&[u8], index: usize)->char {'',
      ''    let char_value = _to_u32(data,index);'',
      ''    match char::from_u32(char_value) {'',
      ''        Some(c)=>c,'',
      ''        None=>{'',
      ''            use std::process;'',
      ''            process::exit(0);'',
      ''        }'',
      ''    }'',
      ''}'']"

definition data_to_bool :: string where
  "data_to_bool = unlines
     [''fn _to_bool(data:&[u8], index: usize)->bool {'',
      ''    let bool_value = _to_u8(data, index);'',
      ''    if bool_value %2 == 0 {'',
      ''        true'',
      ''    } else {'',
      ''        false'',
      ''    }'',
      ''}'']"

definition data_to_str :: string where
  "data_to_str = unlines
     [''fn _to_str(data:&[u8], start_index: usize, end_index: usize)->&str {'',
      ''    let data_slice = &data[start_index..end_index];'',
      ''    use std::str;'',
      ''    match str::from_utf8(data_slice) {'',
      ''        Ok(s)=>s,'',
      ''        Err(_)=>{'',
      ''            use std::process;'',
      ''            process::exit(0);'',
      ''        }'',
      ''    }'',
      ''}'']"

definition data_to_slice :: string where
  "data_to_slice = unlines
     [''fn _to_slice<T>(data:&[u8], start_index: usize, end_index: usize)->&[T] {'',
      ''    let data_slice = &data[start_index..end_index];'',
      ''    let (_, shorts, _) = unsafe {data_slice.align_to::<T>()};'',
      ''    shorts'',
      ''}'']"

fun to_full_function :: "afl_helpers \<Rightarrow> string" where
  "to_full_function NoHelper = ''afl no helper''"
| "to_full_function HU8 = data_to_u8"
| "to_full_function HI8 = data_to_i8"
| "to_full_function HU16 = data_to_u16"
| "to_full_function HI16 = data_to_i16"
| "to_full_function HU32 = data_to_u32"
| "to_full_function HI32 = data_to_i32"
| "to_full_function HF32 = data_to_f32"
| "to_full_function HU64 = data_to_u64"
| "to_full_function HI64 = data_to_i64"
| "to_full_function HF64 = data_to_f64"
| "to_full_function HU128 = data_to_u128"
| "to_full_function HI128 = data_to_i128"
| "to_full_function HUsize = data_to_usize"
| "to_full_function HIsize = data_to_isize"
| "to_full_function HChar = data_to_char"
| "to_full_function HBool = data_to_bool"
| "to_full_function HStr = data_to_str"
| "to_full_function (HSlice _) = data_to_slice"
| "to_full_function (HTuple _) = ''''"

fun afl_type_name :: "afl_helpers \<Rightarrow> string" where
  "afl_type_name NoHelper = ''afl no helper''"
| "afl_type_name HU8 = ''u8''"
| "afl_type_name HI8 = ''i8''"
| "afl_type_name HU16 = ''u16''"
| "afl_type_name HI16 = ''i16''"
| "afl_type_name HU32 = ''u32''"
| "afl_type_name HI32 = ''i32''"
| "afl_type_name HF32 = ''f32''"
| "afl_type_name HU64 = ''u64''"
| "afl_type_name HI64 = ''i64''"
| "afl_type_name HF64 = ''f64''"
| "afl_type_name HU128 = ''u128''"
| "afl_type_name HI128 = ''i128''"
| "afl_type_name HUsize = ''usize''"
| "afl_type_name HIsize = ''isize''"
| "afl_type_name HBool = ''bool''"
| "afl_type_name HChar = ''char''"
| "afl_type_name HStr = ''str''"
| "afl_type_name (HSlice _) = ''slice''"
| "afl_type_name (HTuple inner) = ''('' @ str_join '' ,'' (map afl_type_name inner) @ '')''"

fun to_function_name :: "afl_helpers \<Rightarrow> string" where
  "to_function_name (HSlice inner) =
     ''_to_'' @ afl_type_name (HSlice inner) @ ''::<'' @ afl_type_name inner @ ''>''"
| "to_function_name (HTuple _) = ''''"
| "to_function_name h = ''_to_'' @ afl_type_name h"

text \<open>\<open>_print_all\<close>: the lines it prints.\<close>

definition print_all :: "string list" where
  "print_all =
     [''afl helper functions: '', data_to_u8, data_to_i8, data_to_u16, data_to_i16, data_to_u32,
      data_to_i32, data_to_u64, data_to_i64, data_to_u128, data_to_i128, data_to_usize,
      data_to_isize, data_to_char, data_to_bool, data_to_str, data_to_slice, data_to_f32,
      data_to_f64]"

fun feature_gate :: "afl_helpers \<Rightarrow> string option" where
  "feature_gate HChar = Some ''#![feature(assoc_char_funcs)]''"
| "feature_gate _ = None"

fun is_slice :: "afl_helpers \<Rightarrow> bool" where
  "is_slice (HSlice _) = True"
| "is_slice _ = False"

fun is_tuple :: "afl_helpers \<Rightarrow> bool" where
  "is_tuple (HTuple _) = True"
| "is_tuple _ = False"


section \<open>Right-hand sides\<close>

text \<open>
  \<open>_generate_param_initial_rhs\<close>. The subtraction \<open>total_dynamic_param_numbers - 1\<close> is on
  \<open>usize\<close>; the tuple loop indexes the fuzzable types by the helper's position.
\<close>

definition latter_index :: "nat \<Rightarrow> nat \<Rightarrow> nat \<Rightarrow> string \<Rightarrow> string outcome" where
  "latter_index dynamic_start_index dynamic_param_index total_dynamic_param_numbers dynamic_param_length =
     (if total_dynamic_param_numbers = 0 then Panic SubOverflow
      else if dynamic_param_index = total_dynamic_param_numbers - 1 then Done ''data.len()''
      else Done (nat_to_string dynamic_start_index @ '' + '' @
             nat_to_string (dynamic_param_index + 1) @ '' * '' @ dynamic_param_length))"

fun generate_param_initial_rhs ::
  "afl_helpers \<Rightarrow> nat \<Rightarrow> nat \<Rightarrow> nat \<Rightarrow> nat \<Rightarrow> string \<Rightarrow> fuzzable_type \<Rightarrow> string outcome"
  and generate_tuple_rhs ::
  "afl_helpers list \<Rightarrow> nat \<Rightarrow> nat \<Rightarrow> nat \<Rightarrow> nat \<Rightarrow> nat \<Rightarrow> string \<Rightarrow> fuzzable_type list \<Rightarrow> string \<Rightarrow>
     string outcome" where
  "generate_param_initial_rhs (HTuple inner_helpers) fixed_start_index dynamic_start_index
       dynamic_param_index dyn_total dynamic_param_length origin =
     (case origin of
        FtTuple inner_fuzzables \<Rightarrow>
          generate_tuple_rhs inner_helpers 0 fixed_start_index dynamic_start_index
            dynamic_param_index dyn_total dynamic_param_length inner_fuzzables ''(''
      | _ \<Rightarrow> Done ''Type not match in afl_util'')"
| "generate_param_initial_rhs NoHelper fixed_start_index dynamic_start_index
       dynamic_param_index dyn_total dynamic_param_length origin = Done ''No helper''"
| "generate_param_initial_rhs h fixed_start_index dynamic_start_index
       dynamic_param_index dyn_total dynamic_param_length origin =
     (if h = HStr \<or> is_slice h
      then obind (latter_index dynamic_start_index dynamic_param_index dyn_total dynamic_param_length)
             (\<lambda>latter. Done (to_function_name h @ ''(data, '' @ nat_to_string dynamic_start_index @
                '' + '' @ nat_to_string dynamic_param_index @ '' * '' @ dynamic_param_length @ '', '' @
                latter @ '')''))
      else Done (to_function_name h @ ''(data, '' @ nat_to_string fixed_start_index @ '')''))"
| "generate_tuple_rhs [] i fixed_start dyn_start dyn_index dyn_total len fts res = Done (res @ '')'')"
| "generate_tuple_rhs (h # hs) i fixed_start dyn_start dyn_index dyn_total len fts res =
     (case fts of
        [] \<Rightarrow> Panic IndexOutOfBounds
      | ft # fts' \<Rightarrow>
          obind (generate_param_initial_rhs h fixed_start dyn_start dyn_index dyn_total len ft)
            (\<lambda>inner_rhs.
               generate_tuple_rhs hs (i + 1) (fixed_start + fixed_part_length ft) dyn_start
                 (dyn_index + dynamic_length_param_number ft) dyn_total len fts'
                 ((if i \<noteq> 0 then res @ '', '' else res) @ inner_rhs)))"

fun generate_param_initial_statement ::
  "afl_helpers \<Rightarrow> nat \<Rightarrow> nat \<Rightarrow> nat \<Rightarrow> nat \<Rightarrow> nat \<Rightarrow> string \<Rightarrow> fuzzable_type \<Rightarrow> string outcome" where
  "generate_param_initial_statement NoHelper param_index fixed_start_index dynamic_start_index
       dynamic_param_index dyn_total dynamic_param_length origin = Done ''No helper''"
| "generate_param_initial_statement h param_index fixed_start_index dynamic_start_index
       dynamic_param_index dyn_total dynamic_param_length origin =
     omap (\<lambda>rhs. ''let _param'' @ nat_to_string param_index @ '' = '' @ rhs @ '';'')
       (generate_param_initial_rhs h fixed_start_index dynamic_start_index
          dynamic_param_index dyn_total dynamic_param_length origin)"

section \<open>Helpers of a sequence\<close>

definition get_all_dependent_afl_helpers_of_sequence :: "fuzzable_type list \<Rightarrow> afl_helpers list" where
  "get_all_dependent_afl_helpers_of_sequence fuzzable_params =
     fold (\<lambda>fuzzable_param res.
         fold hs_insert (get_all_dependent_afl_helpers (new_from_fuzzable fuzzable_param)) res)
       fuzzable_params []"

definition get_afl_helpers_functions_of_sequence ::
  "(afl_helpers list \<Rightarrow> afl_helpers list) \<Rightarrow> fuzzable_type list \<Rightarrow> string list option" where
  "get_afl_helpers_functions_of_sequence it fuzzable_params =
     (let afl_helpers = get_all_dependent_afl_helpers_of_sequence fuzzable_params
      in if length afl_helpers < 1 then None
         else Some (snd (fold
                (\<lambda>h (contains_slice_flag, fns).
                   if \<not> contains_slice_flag \<and> is_slice h
                   then (True, fns @ [to_full_function h])
                   else (contains_slice_flag, fns @ [to_full_function h]))
                (it afl_helpers) (False, []))))"

definition get_feature_gates_of_sequence ::
  "(afl_helpers list \<Rightarrow> afl_helpers list) \<Rightarrow> (string list \<Rightarrow> string list) \<Rightarrow> fuzzable_type list \<Rightarrow>
     string list option" where
  "get_feature_gates_of_sequence it it' fuzzable_params =
     (let all_afl_helpers = get_all_dependent_afl_helpers_of_sequence fuzzable_params;
          feature_gates = fold (\<lambda>h gates. case feature_gate h of
              Some g \<Rightarrow> hs_insert g gates | None \<Rightarrow> gates) (it all_afl_helpers) []
      in if length feature_gates < 1 then None else Some (it' feature_gates))"


section \<open>The set of helpers is the one that is called\<close>

text \<open>
  The functions a text calls or declares: the names that begin with \<open>_to_\<close>, up to the parenthesis. The
  readers with a function of their own, and those that the text of a helper calls.
\<close>

fun call_sites :: "string \<Rightarrow> string list" where
  "call_sites [] = []"
| "call_sites (c # cs) =
     (if starts_with (c # cs) ''_to_'' then takeWhile (\<lambda>x. x \<noteq> CHR ''('') (c # cs) # call_sites cs else call_sites cs)"

definition scalar_readers :: "afl_helpers list" where
  "scalar_readers = [HU8, HI8, HU16, HI16, HU32, HI32, HF32, HU64, HI64, HF64, HU128, HI128, HUsize, HIsize, HChar, HBool, HStr]"

definition helper_calls :: "afl_helpers \<Rightarrow> afl_helpers list" where
  "helper_calls h = filter (\<lambda>c. c \<noteq> h \<and> to_function_name c \<in> set (call_sites (to_full_function h))) scalar_readers"

lemmas helper_calls_simps = helper_calls_def scalar_readers_def unlines_def newline_def starts_with_def quote_def
  data_to_u8_def data_to_i8_def data_to_u16_def data_to_i16_def data_to_u32_def data_to_i32_def data_to_f32_def
  data_to_u64_def data_to_i64_def data_to_f64_def data_to_u128_def data_to_i128_def data_to_usize_def data_to_isize_def
  data_to_char_def data_to_bool_def data_to_str_def data_to_slice_def

lemma helper_calls_eval:
  "helper_calls HU8 = []" "helper_calls HI8 = []" "helper_calls HF32 = []" "helper_calls HF64 = []" "helper_calls HStr = []"
  "helper_calls HBool = [HU8]" "helper_calls HU16 = [HU8]" "helper_calls HI16 = [HI8]" "helper_calls HU32 = [HU16]"
  "helper_calls HI32 = [HI16]" "helper_calls HU64 = [HU32]" "helper_calls HI64 = [HI32]" "helper_calls HU128 = [HU64]"
  "helper_calls HI128 = [HI64]" "helper_calls HUsize = [HU64]" "helper_calls HIsize = [HI64]" "helper_calls HChar = [HU32]"
  "helper_calls NoHelper = []" "helper_calls (HSlice h) = []" "helper_calls (HTuple hs) = []"
  by (simp_all add: helper_calls_simps)

text \<open>The readers the right-hand side of a parameter names.\<close>

fun param_readers :: "fuzzable_type \<Rightarrow> afl_helpers list" where
  "param_readers NoFuzzable = []"
| "param_readers RefStr = [HStr]"
| "param_readers (FtPrimitive p) = (if helper_of_primitive p = NoHelper then [] else [helper_of_primitive p])"
| "param_readers (RefSlice inner) = [HSlice (new_from_fuzzable inner)]"
| "param_readers (FtTuple inners) = concat (map param_readers inners)"

inductive_set called_from :: "afl_helpers set \<Rightarrow> afl_helpers set" for R where
  used: "h \<in> R \<Longrightarrow> h \<in> called_from R"
| called: "h \<in> called_from R \<Longrightarrow> c \<in> set (helper_calls h) \<Longrightarrow> c \<in> called_from R"

lemma called_from_mono: "h \<in> called_from R \<Longrightarrow> R \<subseteq> S \<Longrightarrow> h \<in> called_from S"
  by (induction rule: called_from.induct) (auto intro: called_from.intros)

lemma called_from_UN: "called_from (\<Union>x \<in> X. R x) = (\<Union>x \<in> X. called_from (R x))"
proof
  show "called_from (\<Union>x \<in> X. R x) \<subseteq> (\<Union>x \<in> X. called_from (R x))"
  proof
    fix h assume "h \<in> called_from (\<Union>x \<in> X. R x)"
    then show "h \<in> (\<Union>x \<in> X. called_from (R x))"
      by (induction rule: called_from.induct) (auto intro: called_from.intros)
  qed
  show "(\<Union>x \<in> X. called_from (R x)) \<subseteq> called_from (\<Union>x \<in> X. R x)"
    by (auto elim!: called_from_mono)
qed

lemma called_from_empty: "called_from {} = {}"
proof -
  have False if "h \<in> called_from {}" for h using that by (induction rule: called_from.induct) auto
  then show ?thesis by blast
qed

lemma dependent_closed:
  "g \<in> set (get_all_dependent_afl_helpers h) \<Longrightarrow> c \<in> set (helper_calls g) \<Longrightarrow> c \<in> set (get_all_dependent_afl_helpers h)"
  by (induction h rule: get_all_dependent_afl_helpers.induct) (auto simp: helper_calls_eval)

lemma dependent_self: "\<not> is_tuple h \<Longrightarrow> h \<in> set (get_all_dependent_afl_helpers h)"
  by (cases h) auto

lemma helper_calls_step: "helper_calls h = [c] \<Longrightarrow> h \<in> called_from R \<Longrightarrow> c \<in> called_from R"
  by (rule called_from.called) auto

lemmas called_steps = helper_calls_eval(6-17) [THEN helper_calls_step]

lemma dependent_called:
  "\<not> is_tuple h \<Longrightarrow> g \<in> set (get_all_dependent_afl_helpers h) \<Longrightarrow> h \<in> called_from R \<Longrightarrow> g \<in> called_from R"
  by (induction h rule: get_all_dependent_afl_helpers.induct) (auto dest: called_steps)

lemma helper_calls_scalar: "c \<in> set (helper_calls h) \<Longrightarrow> c \<noteq> NoHelper"
proof -
  have "NoHelper \<notin> set scalar_readers" by (simp add: scalar_readers_def)
  then show "c \<in> set (helper_calls h) \<Longrightarrow> c \<noteq> NoHelper" by (auto simp: helper_calls_def)
qed

lemma dependent_exact:
  assumes "\<not> is_tuple h" "h \<noteq> NoHelper"
  shows "set (get_all_dependent_afl_helpers h) - {NoHelper} = called_from {h}"
proof
  show "set (get_all_dependent_afl_helpers h) - {NoHelper} \<subseteq> called_from {h}"
    using dependent_called [OF assms(1)] by (auto intro: called_from.used)
  show "called_from {h} \<subseteq> set (get_all_dependent_afl_helpers h) - {NoHelper}"
  proof
    fix g assume "g \<in> called_from {h}"
    then show "g \<in> set (get_all_dependent_afl_helpers h) - {NoHelper}"
      using dependent_self [OF assms(1)] assms(2)
      by (induction rule: called_from.induct) (auto intro: dependent_closed dest: helper_calls_scalar)
  qed
qed

lemma param_helpers_exact:
  "set (get_all_dependent_afl_helpers (new_from_fuzzable p)) - {NoHelper} = called_from (set (param_readers p))"
proof (induction p)
  case (FtPrimitive p)
  have "\<not> is_tuple (helper_of_primitive p)" by (cases p) auto
  then show ?case using dependent_exact [of "helper_of_primitive p"] by (simp add: called_from_empty)
next
  case (FtTuple ps)
  have "called_from (\<Union>p \<in> set ps. set (param_readers p)) = (\<Union>p \<in> set ps. called_from (set (param_readers p)))"
    by (rule called_from_UN)
  also have "\<dots> = (\<Union>p \<in> set ps. set (get_all_dependent_afl_helpers (new_from_fuzzable p)) - {NoHelper})"
    using FtTuple by simp
  finally show ?case by auto
next
  case RefStr
  then show ?case using dependent_exact [of HStr] by simp
next
  case (RefSlice p)
  then show ?case using dependent_exact [of "HSlice (new_from_fuzzable p)"] by simp
qed (simp add: called_from_empty)

lemma set_helpers_of_sequence_acc:
  "set (fold (\<lambda>p res. fold hs_insert (g p) res) ps acc) = set acc \<union> (\<Union>p \<in> set ps. set (g p))"
  by (induction ps arbitrary: acc) auto

lemma set_helpers_of_sequence:
  "set (get_all_dependent_afl_helpers_of_sequence ps) =
     (\<Union>p \<in> set ps. set (get_all_dependent_afl_helpers (new_from_fuzzable p)))"
  by (simp add: get_all_dependent_afl_helpers_of_sequence_def set_helpers_of_sequence_acc)

lemma distinct_helpers_acc:
  "distinct acc \<Longrightarrow> distinct (fold (\<lambda>p res. fold hs_insert (g p) res) ps acc)"
  by (induction ps arbitrary: acc) auto

lemma helper_functions_loop:
  "snd (fold (\<lambda>h (flag, fns).
       if \<not> flag \<and> is_slice h then (True, fns @ [to_full_function h])
       else (flag, fns @ [to_full_function h])) hs (b, acc)) = acc @ map to_full_function hs"
  by (induction hs arbitrary: b acc) auto

lemma helper_functions_eq:
  "get_afl_helpers_functions_of_sequence it ps =
     (let hs = get_all_dependent_afl_helpers_of_sequence ps
      in if hs = [] then None else Some (map to_full_function (it hs)))"
  by (simp add: get_afl_helpers_functions_of_sequence_def helper_functions_loop Let_def
      Suc_le_eq linorder_not_less)


text \<open>
  The flag of \<open>_get_afl_helpers_functions_of_sequence\<close> has no effect: one text is pushed
  per helper, and two slices of different element types push the definition of \<open>_to_slice\<close> twice.
\<close>

lemma slice_helper_pushed_twice:
  "get_afl_helpers_functions_of_sequence (\<lambda>hs. hs)
     [RefSlice (FtPrimitive U8), RefSlice (FtPrimitive U16)] = Some [data_to_slice, data_to_slice]"
  by (simp add: helper_functions_eq get_all_dependent_afl_helpers_of_sequence_def hs_insert_def)


section \<open>What a right-hand side reads\<close>

text \<open>
  The abstract form of a right-hand side: which reader is applied where. \<open>ReadAt\<close> reads at a
  fixed offset, \<open>ReadRange\<close> the \<open>k\<close>-th of the equal parts of the dynamic rest of the data.
\<close>

datatype read_plan =
    ReadNothing
  | ReadAt afl_helpers nat
  | ReadRange afl_helpers nat
  | ReadTuple "read_plan list"

fun param_plan :: "fuzzable_type \<Rightarrow> nat \<Rightarrow> nat \<Rightarrow> read_plan"
  and tuple_plan :: "fuzzable_type list \<Rightarrow> nat \<Rightarrow> nat \<Rightarrow> read_plan list" where
  "param_plan NoFuzzable f k = ReadNothing"
| "param_plan (FtPrimitive p) f k =
     (if helper_of_primitive p = NoHelper then ReadNothing else ReadAt (helper_of_primitive p) f)"
| "param_plan (RefSlice ft) f k = ReadRange (HSlice (new_from_fuzzable ft)) k"
| "param_plan RefStr f k = ReadRange HStr k"
| "param_plan (FtTuple fts) f k = ReadTuple (tuple_plan fts f k)"
| "tuple_plan [] f k = []"
| "tuple_plan (ft # fts) f k =
     param_plan ft f k # tuple_plan fts (f + fixed_part_length ft) (k + dynamic_length_param_number ft)"

fun render_plan :: "nat \<Rightarrow> nat \<Rightarrow> string \<Rightarrow> read_plan \<Rightarrow> string" where
  "render_plan dyn_start dyn_total len ReadNothing = ''No helper''"
| "render_plan dyn_start dyn_total len (ReadAt h i) =
     to_function_name h @ ''(data, '' @ nat_to_string i @ '')''"
| "render_plan dyn_start dyn_total len (ReadRange h k) =
     to_function_name h @ ''(data, '' @ nat_to_string dyn_start @ '' + '' @ nat_to_string k @ '' * '' @ len @
       '', '' @
     (if k = dyn_total - 1 then ''data.len()''
      else nat_to_string dyn_start @ '' + '' @ nat_to_string (k + 1) @ '' * '' @ len) @ '')''"
| "render_plan dyn_start dyn_total len (ReadTuple ps) =
     ''('' @ str_join '', '' (map (render_plan dyn_start dyn_total len) ps) @ '')''"

fun helper_bytes :: "afl_helpers \<Rightarrow> nat" where
  "helper_bytes HU8 = 1"
| "helper_bytes HI8 = 1"
| "helper_bytes HBool = 1"
| "helper_bytes HU16 = 2"
| "helper_bytes HI16 = 2"
| "helper_bytes HU32 = 4"
| "helper_bytes HI32 = 4"
| "helper_bytes HF32 = 4"
| "helper_bytes HChar = 4"
| "helper_bytes HU64 = 8"
| "helper_bytes HI64 = 8"
| "helper_bytes HF64 = 8"
| "helper_bytes HUsize = 8"
| "helper_bytes HIsize = 8"
| "helper_bytes HU128 = 16"
| "helper_bytes HI128 = 16"
| "helper_bytes _ = 0"

lemma helper_bytes_primitive: "helper_bytes (helper_of_primitive p) = primitive_min_length p"
  by (cases p) auto

fun fixed_reads :: "read_plan \<Rightarrow> (nat \<times> nat) list" where
  "fixed_reads (ReadAt h i) = [(i, i + helper_bytes h)]"
| "fixed_reads (ReadTuple ps) = concat (map fixed_reads ps)"
| "fixed_reads _ = []"

fun dyn_reads :: "read_plan \<Rightarrow> nat list" where
  "dyn_reads (ReadRange h k) = [k]"
| "dyn_reads (ReadTuple ps) = concat (map dyn_reads ps)"
| "dyn_reads _ = []"

text \<open>A list of intervals that cuts \<open>[a, b)\<close> into consecutive pieces.\<close>

fun tiles :: "nat \<Rightarrow> (nat \<times> nat) list \<Rightarrow> nat \<Rightarrow> bool" where
  "tiles a [] b \<longleftrightarrow> a = b"
| "tiles a ((x, y) # rs) b \<longleftrightarrow> x = a \<and> x \<le> y \<and> tiles y rs b"

lemma tiles_append: "tiles a rs b \<Longrightarrow> tiles b rs' c \<Longrightarrow> tiles a (rs @ rs') c"
  by (induction a rs b rule: tiles.induct) auto

lemma tiles_bounds: "tiles a rs b \<Longrightarrow> a \<le> b \<and> (\<forall>(x, y) \<in> set rs. a \<le> x \<and> x \<le> y \<and> y \<le> b)"
  by (induction a rs b rule: tiles.induct) fastforce+

lemma fixed_part_tuple: "fixed_part_length (FtTuple fts) = sum_list (map fixed_part_length fts)"
  using fuzz_layout.all_fixed_sum [of fts] by simp

lemma dynamic_number_tuple:
  "dynamic_length_param_number (FtTuple fts) = sum_list (map dynamic_length_param_number fts)"
  using fuzz_layout.sum_dyn_zero [of fts] by simp

lemma tuple_plan_reads:
  assumes "\<And>ft f k. ft \<in> set fts \<Longrightarrow>
      tiles f (fixed_reads (param_plan ft f k)) (f + fixed_part_length ft) \<and>
      dyn_reads (param_plan ft f k) = [k..<k + dynamic_length_param_number ft]"
  shows "tiles f (concat (map fixed_reads (tuple_plan fts f k)))
       (f + sum_list (map fixed_part_length fts)) \<and>
     concat (map dyn_reads (tuple_plan fts f k)) =
       [k..<k + sum_list (map dynamic_length_param_number fts)]"
  using assms
proof (induction fts arbitrary: f k)
  case (Cons ft fts)
  have "tiles (f + fixed_part_length ft)
      (concat (map fixed_reads (tuple_plan fts (f + fixed_part_length ft) (k + dynamic_length_param_number ft))))
      (f + fixed_part_length ft + sum_list (map fixed_part_length fts))"
    and dyn: "concat (map dyn_reads (tuple_plan fts (f + fixed_part_length ft) (k + dynamic_length_param_number ft))) =
      [k + dynamic_length_param_number ft..<
       k + dynamic_length_param_number ft + sum_list (map dynamic_length_param_number fts)]"
    using Cons.IH Cons.prems by auto
  then have "tiles f (concat (map fixed_reads (tuple_plan (ft # fts) f k)))
      (f + sum_list (map fixed_part_length (ft # fts)))"
    using Cons.prems [of ft f k] by (auto intro: tiles_append simp: add.assoc)
  moreover have "concat (map dyn_reads (tuple_plan (ft # fts) f k)) =
      [k..<k + sum_list (map dynamic_length_param_number (ft # fts))]"
    using Cons.prems [of ft f k] dyn upt_add_eq_append [of k "k + dynamic_length_param_number ft"
        "sum_list (map dynamic_length_param_number fts)"]
    by (simp add: add.assoc)
  ultimately show ?case by blast
qed simp

lemma param_plan_reads:
  "tiles f (fixed_reads (param_plan ft f k)) (f + fixed_part_length ft) \<and>
   dyn_reads (param_plan ft f k) = [k..<k + dynamic_length_param_number ft]"
proof (induction ft arbitrary: f k)
  case (FtPrimitive p)
  then show ?case using helper_bytes_primitive [of p] by auto
next
  case (FtTuple fts)
  have "tiles f (concat (map fixed_reads (tuple_plan fts f k)))
       (f + sum_list (map fixed_part_length fts)) \<and>
     concat (map dyn_reads (tuple_plan fts f k)) =
       [k..<k + sum_list (map dynamic_length_param_number fts)]"
    by (rule tuple_plan_reads) (use FtTuple in auto)
  then show ?case unfolding fixed_part_tuple dynamic_number_tuple by simp
qed auto

text \<open>The text of a right-hand side is the rendering of its plan.\<close>

lemma str_join_Cons: "ys \<noteq> [] \<Longrightarrow> str_join sep (y # ys) = y @ sep @ str_join sep ys"
  by (cases ys) auto

lemma tuple_rhs_renders:
  assumes "\<And>ft f k. ft \<in> set fts \<Longrightarrow>
      generate_param_initial_rhs (new_from_fuzzable ft) f ds k n len ft =
        Done (render_plan ds n len (param_plan ft f k))"
  shows "generate_tuple_rhs (map new_from_fuzzable fts) i f ds k n len fts res =
      Done (res @ (if i \<noteq> 0 \<and> fts \<noteq> [] then '', '' else '''') @
        str_join '', '' (map (render_plan ds n len) (tuple_plan fts f k)) @ '')'')"
  using assms
proof (induction fts arbitrary: i f k res)
  case (Cons ft fts)
  show ?case
  proof (cases "fts = []")
    case True
    with Cons.prems show ?thesis by simp
  next
    case False
    then have "tuple_plan fts f k \<noteq> []" for f k by (cases fts) auto
    with False Cons show ?thesis by (simp add: str_join_Cons)
  qed
qed simp

lemma rhs_renders:
  "is_fixed_length ft \<or> 0 < n \<Longrightarrow>
     generate_param_initial_rhs (new_from_fuzzable ft) f ds k n len ft =
       Done (render_plan ds n len (param_plan ft f k))"
proof (induction ft arbitrary: f k)
  case (FtPrimitive p)
  then show ?case by (cases p) simp_all
next
  case (FtTuple fts)
  then have "generate_tuple_rhs (map new_from_fuzzable fts) 0 f ds k n len fts ''('' =
      Done (''('' @ (if (0::nat) \<noteq> 0 \<and> fts \<noteq> [] then '', '' else '''') @
        str_join '', '' (map (render_plan ds n len) (tuple_plan fts f k)) @ '')'')"
    by (intro tuple_rhs_renders) (auto simp: list_all_iff)
  then show ?case by simp
qed (auto simp: latter_index_def)

end
