(* ===== verification/Afl_Readers.thy ===== *)
theory Afl_Readers
  imports Afl_Util "HOL-Library.Word"
begin

text \<open>
  The meaning of the reader functions whose source text \<^verbatim>\<open>afl_util.rs\<close> emits with every target: a
  byte string at an offset becomes an integer, a character, a string or a slice. Integers are
  kept at their width; signed and unsigned values of a width are the same words, and a signed
  widening is the sign extension \<open>signed\<close>. \<open>usize\<close> is 64 bits wide.
\<close>

unbundle bit_operations_syntax

section \<open>Definitions\<close>

type_synonym bytes = "8 word list"

definition to_u8 :: "bytes \<Rightarrow> nat \<Rightarrow> 8 word outcome" where
  "to_u8 data idx = get_index data idx"

definition to_i8 :: "bytes \<Rightarrow> nat \<Rightarrow> 8 word outcome" where
  "to_i8 data idx = get_index data idx"

definition to_u16 :: "bytes \<Rightarrow> nat \<Rightarrow> 16 word outcome" where
  "to_u16 data idx =
     obind (omap unsigned (to_u8 data idx)) (\<lambda>data0.
     obind (omap unsigned (to_u8 data (idx + 1))) (\<lambda>data1.
       Done (push_bit 8 data0 OR data1)))"

definition to_i16 :: "bytes \<Rightarrow> nat \<Rightarrow> 16 word outcome" where
  "to_i16 data idx =
     obind (omap signed (to_i8 data idx)) (\<lambda>data0.
     obind (omap signed (to_i8 data (idx + 1))) (\<lambda>data1.
       Done (push_bit 8 data0 OR data1)))"

definition to_u32 :: "bytes \<Rightarrow> nat \<Rightarrow> 32 word outcome" where
  "to_u32 data idx =
     obind (omap unsigned (to_u16 data idx)) (\<lambda>data0.
     obind (omap unsigned (to_u16 data (idx + 2))) (\<lambda>data1.
       Done (push_bit 16 data0 OR data1)))"

definition to_i32 :: "bytes \<Rightarrow> nat \<Rightarrow> 32 word outcome" where
  "to_i32 data idx =
     obind (omap signed (to_i16 data idx)) (\<lambda>data0.
     obind (omap signed (to_i16 data (idx + 2))) (\<lambda>data1.
       Done (push_bit 16 data0 OR data1)))"

definition to_u64 :: "bytes \<Rightarrow> nat \<Rightarrow> 64 word outcome" where
  "to_u64 data idx =
     obind (omap unsigned (to_u32 data idx)) (\<lambda>data0.
     obind (omap unsigned (to_u32 data (idx + 4))) (\<lambda>data1.
       Done (push_bit 32 data0 OR data1)))"

definition to_i64 :: "bytes \<Rightarrow> nat \<Rightarrow> 64 word outcome" where
  "to_i64 data idx =
     obind (omap signed (to_i32 data idx)) (\<lambda>data0.
     obind (omap signed (to_i32 data (idx + 4))) (\<lambda>data1.
       Done (push_bit 32 data0 OR data1)))"

definition to_u128 :: "bytes \<Rightarrow> nat \<Rightarrow> 128 word outcome" where
  "to_u128 data idx =
     obind (omap unsigned (to_u64 data idx)) (\<lambda>data0.
     obind (omap unsigned (to_u64 data (idx + 8))) (\<lambda>data1.
       Done (push_bit 64 data0 OR data1)))"

definition to_i128 :: "bytes \<Rightarrow> nat \<Rightarrow> 128 word outcome" where
  "to_i128 data idx =
     obind (omap signed (to_i64 data idx)) (\<lambda>data0.
     obind (omap signed (to_i64 data (idx + 8))) (\<lambda>data1.
       Done (push_bit 64 data0 OR data1)))"

definition to_usize :: "bytes \<Rightarrow> nat \<Rightarrow> 64 word outcome" where
  "to_usize data idx = to_u64 data idx"

definition to_isize :: "bytes \<Rightarrow> nat \<Rightarrow> 64 word outcome" where
  "to_isize data idx = to_i64 data idx"

text \<open>\<open>char::from_u32\<close>: the scalar values, without the surrogates.\<close>

definition char_from_u32 :: "32 word \<Rightarrow> 32 word option" where
  "char_from_u32 w =
     (if unat w < 0x110000 \<and> \<not> (0xD800 \<le> unat w \<and> unat w \<le> 0xDFFF) then Some w else None)"

definition to_char :: "bytes \<Rightarrow> nat \<Rightarrow> 32 word outcome" where
  "to_char data idx =
     obind (to_u32 data idx) (\<lambda>char_value.
       (case char_from_u32 char_value of Some c \<Rightarrow> Done c | None \<Rightarrow> Exit 0))"

definition to_bool :: "bytes \<Rightarrow> nat \<Rightarrow> bool outcome" where
  "to_bool data idx =
     obind (to_u8 data idx) (\<lambda>bool_value.
       if bool_value mod 2 = 0 then Done True else Done False)"

text \<open>\<open>&data[a..b]\<close>: a slice expression panics when the bounds are out of order or too large.\<close>

definition slice_range :: "'a list \<Rightarrow> nat \<Rightarrow> nat \<Rightarrow> 'a list outcome" where
  "slice_range data a b =
     (if a \<le> b \<and> b \<le> length data then Done (take (b - a) (drop a data)) else Panic IndexOutOfBounds)"

text \<open>\<open>from_le_bytes\<close>: the bit pattern of a float, its least significant byte first.\<close>

definition le_bits :: "bytes \<Rightarrow> int" where
  "le_bits bs = foldr (\<lambda>b acc. uint b + 256 * acc) bs 0"

definition to_f32 :: "bytes \<Rightarrow> nat \<Rightarrow> 32 word outcome" where
  "to_f32 data idx = omap (\<lambda>bs. word_of_int (le_bits bs)) (slice_range data idx (idx + 4))"

definition to_f64 :: "bytes \<Rightarrow> nat \<Rightarrow> 64 word outcome" where
  "to_f64 data idx = omap (\<lambda>bs. word_of_int (le_bits bs)) (slice_range data idx (idx + 8))"

text \<open>\<open>str::from_utf8\<close> accepts exactly the well-formed UTF-8 byte sequences.\<close>

definition cont_byte :: "8 word \<Rightarrow> bool" where
  "cont_byte b \<longleftrightarrow> 0x80 \<le> unat b \<and> unat b \<le> 0xBF"

fun utf8_valid :: "bytes \<Rightarrow> bool" where
  "utf8_valid [] = True"
| "utf8_valid (b # bs) =
     (if unat b < 0x80 then utf8_valid bs
      else if 0xC2 \<le> unat b \<and> unat b \<le> 0xDF
      then (case bs of c # bs' \<Rightarrow> cont_byte c \<and> utf8_valid bs' | _ \<Rightarrow> False)
      else if 0xE0 \<le> unat b \<and> unat b \<le> 0xEF
      then (case bs of
              c # d # bs' \<Rightarrow> cont_byte c \<and> cont_byte d \<and>
                (unat b = 0xE0 \<longrightarrow> 0xA0 \<le> unat c) \<and> (unat b = 0xED \<longrightarrow> unat c \<le> 0x9F) \<and>
                utf8_valid bs'
            | _ \<Rightarrow> False)
      else if 0xF0 \<le> unat b \<and> unat b \<le> 0xF4
      then (case bs of
              c # d # e # bs' \<Rightarrow> cont_byte c \<and> cont_byte d \<and> cont_byte e \<and>
                (unat b = 0xF0 \<longrightarrow> 0x90 \<le> unat c) \<and> (unat b = 0xF4 \<longrightarrow> unat c \<le> 0x8F) \<and>
                utf8_valid bs'
            | _ \<Rightarrow> False)
      else False)"

definition to_str :: "bytes \<Rightarrow> nat \<Rightarrow> nat \<Rightarrow> bytes outcome" where
  "to_str data start_index end_index =
     obind (slice_range data start_index end_index) (\<lambda>data_slice.
       if utf8_valid data_slice then Done data_slice else Exit 0)"

text \<open>
  \<open>align_to::<T>\<close> drops the bytes before the first aligned address (\<open>misaligned\<close> of them, which
  depends on where the data lies in memory) and the rest that does not fill an element of
  \<open>size_of_T\<close> bytes; the elements are returned as their bytes.
\<close>

fun chunks :: "nat \<Rightarrow> nat \<Rightarrow> 'a list \<Rightarrow> 'a list list" where
  "chunks 0 sz xs = []"
| "chunks (Suc n) sz xs = take sz xs # chunks n sz (drop sz xs)"

definition to_slice :: "nat \<Rightarrow> nat \<Rightarrow> bytes \<Rightarrow> nat \<Rightarrow> nat \<Rightarrow> bytes list outcome" where
  "to_slice misaligned size_of_T data start_index end_index =
     obind (slice_range data start_index end_index) (\<lambda>data_slice.
       let middle = drop misaligned data_slice
       in Done (chunks (length middle div size_of_T) size_of_T middle))"

section \<open>Big-endian unsigned readers\<close>

definition be_value :: "bytes \<Rightarrow> int" where
  "be_value bs = foldl (\<lambda>acc b. acc * 256 + uint b) 0 bs"

lemma be_value_acc: "foldl (\<lambda>acc b. acc * 256 + uint b) a bs = a * 256 ^ length bs + be_value (bs :: bytes)"
proof (induction bs arbitrary: a)
  case (Cons b bs)
  show ?case
    using Cons [of "a * 256 + uint b"] Cons [of "uint b"]
    by (simp add: be_value_def algebra_simps)
qed (simp add: be_value_def)

lemma be_value_append: "be_value (xs @ ys) = be_value xs * 256 ^ length ys + be_value ys"
proof -
  have "be_value (xs @ ys) = foldl (\<lambda>acc b. acc * 256 + uint b) (be_value xs) ys"
    by (simp add: be_value_def)
  then show ?thesis by (simp only: be_value_acc)
qed

lemma or_halves:
  fixes a b :: "'a::len word"
  assumes "LENGTH('b) = LENGTH('a) + LENGTH('a)"
  shows "uint (push_bit LENGTH('a) (unsigned a) OR unsigned b :: 'b::len word) =
     uint a * 2 ^ LENGTH('a) + uint b"
proof -
  have widen: "uint (unsigned c :: 'b word) = uint c" for c :: "'a word"
  proof -
    have "uint c < 2 ^ LENGTH('a)" by (rule uint_lt2p)
    also have "(2::int) ^ LENGTH('a) \<le> 2 ^ LENGTH('b)"
      using assms by (intro power_increasing) auto
    finally show ?thesis by (simp add: unsigned_ucast_eq take_bit_int_eq_self)
  qed
  have self: "take_bit LENGTH('a) (uint c) = uint c" for c :: "'a word"
    by (simp add: take_bit_int_eq_self uint_lt2p)
  have "uint (push_bit LENGTH('a) (unsigned a) OR unsigned b :: 'b word) =
      push_bit LENGTH('a) (uint a) OR uint b"
    using assms widen [of a] widen [of b] self
    by (simp add: unsigned_or_eq unsigned_push_bit_eq take_bit_push_bit)
  also have "\<dots> = concat_bit LENGTH('a) (uint b) (uint a)"
    unfolding concat_bit_def self by (rule or.commute)
  also have "\<dots> = uint a * 2 ^ LENGTH('a) + uint b"
    by (simp add: concat_bit_eq push_bit_eq_mult self)
  finally show ?thesis .
qed

text \<open>
  The contract of a reader of \<open>n\<close> bytes: it returns exactly on the offsets that leave \<open>n\<close> bytes,
  and then the big-endian value of those bytes.
\<close>

locale be_reader =
  fixes rd :: "bytes \<Rightarrow> nat \<Rightarrow> 'a::len word outcome"
    and n :: nat
  assumes in_range: "i + n \<le> length data \<Longrightarrow>
      \<exists>w. rd data i = Done w \<and> uint w = be_value (take n (drop i data))"
    and out_of_range: "length data < i + n \<Longrightarrow> rd data i = Panic IndexOutOfBounds"
begin

lemma value_of:
  "rd data i = Done w \<longleftrightarrow> i + n \<le> length data \<and> uint w = be_value (take n (drop i data))"
proof (cases "i + n \<le> length data")
  case True
  then obtain v where "rd data i = Done v" "uint v = be_value (take n (drop i data))"
    using in_range by blast
  with True show ?thesis by (auto intro: word_uint_eqI)
qed (simp add: out_of_range)

lemma every_value:
  assumes "length bs = n" "be_value bs = uint w"
  shows "rd (pre @ bs @ post) (length pre) = Done w"
  using assms by (simp add: value_of)

end

lemma be_value_surj:
  "0 \<le> v \<Longrightarrow> v < 256 ^ n \<Longrightarrow> \<exists>bs :: bytes. length bs = n \<and> be_value bs = v"
proof (induction n arbitrary: v)
  case 0
  then show ?case by (simp add: be_value_def)
next
  case (Suc n)
  then have "0 \<le> v div 256" "v div 256 < 256 ^ n" by (auto simp: div_less_iff_less_mult)
  then obtain bs :: bytes where bs: "length bs = n" "be_value bs = v div 256"
    using Suc.IH by blast
  have "uint (word_of_int (v mod 256) :: 8 word) = v mod 256"
    by (simp add: uint_word_of_int)
  then have "be_value (bs @ [word_of_int (v mod 256)]) = v"
    by (simp add: be_value_append bs) (simp add: be_value_def)
  with bs show ?case by (metis length_append_singleton)
qed

lemma be_reader_halves:
  fixes rd :: "bytes \<Rightarrow> nat \<Rightarrow> 'a::len word outcome"
    and rd2 :: "bytes \<Rightarrow> nat \<Rightarrow> 'b::len word outcome"
  assumes rd: "be_reader rd n" and n: "LENGTH('a) = 8 * n" "LENGTH('b) = 8 * m" "m = n + n"
    and rd2: "\<And>data i. rd2 data i =
      obind (omap unsigned (rd data i)) (\<lambda>data0.
      obind (omap unsigned (rd data (i + n))) (\<lambda>data1. Done (push_bit (8 * n) data0 OR data1)))"
  shows "be_reader rd2 m"
proof
  fix i data
  assume i: "i + m \<le> length (data :: bytes)"
  then obtain a b where a: "rd data i = Done a" "uint a = be_value (take n (drop i data))"
    and b: "rd data (i + n) = Done b" "uint b = be_value (take n (drop (i + n) data))"
    using be_reader.in_range [OF rd, of i data] be_reader.in_range [OF rd, of "i + n" data] n
    by auto
  let ?w = "push_bit (8 * n) (unsigned a) OR unsigned b :: 'b word"
  have split: "take m (drop i data) = take n (drop i data) @ take n (drop (i + n) data)"
    unfolding n(3) by (simp add: take_add add.commute)
  have "uint ?w = uint a * 2 ^ (8 * n) + uint b"
    using or_halves [of a b, where 'b = 'b] n by simp
  also have "\<dots> = be_value (take m (drop i data))"
    unfolding split using i n(3) by (simp add: be_value_append a b power_mult)
  finally show "\<exists>w. rd2 data i = Done w \<and> uint w = be_value (take m (drop i data))"
    using a b by (auto simp: rd2)
next
  fix i data
  assume i: "length (data :: bytes) < i + m"
  show "rd2 data i = Panic IndexOutOfBounds"
  proof (cases "length data < i + n")
    case True
    then show ?thesis using be_reader.out_of_range [OF rd, of data i] by (simp add: rd2)
  next
    case False
    then show ?thesis
      using i n be_reader.in_range [OF rd, of i data] be_reader.out_of_range [OF rd, of data "i + n"]
      by (auto simp: rd2)
  qed
qed

interpretation u8: be_reader to_u8 1
proof
  fix i data
  assume "i + 1 \<le> length (data :: bytes)"
  then have "take 1 (drop i data) = [data ! i]" "to_u8 data i = Done (data ! i)"
    by (simp_all add: to_u8_def take_Suc hd_drop_conv_nth)
  then show "\<exists>w. to_u8 data i = Done w \<and> uint w = be_value (take 1 (drop i data))"
    by (simp add: be_value_def)
qed (simp add: to_u8_def get_index_def)

interpretation u16: be_reader to_u16 2
  by (rule be_reader_halves [OF u8.be_reader_axioms]) (simp_all add: to_u16_def)

interpretation u32: be_reader to_u32 4
  by (rule be_reader_halves [OF u16.be_reader_axioms]) (simp_all add: to_u32_def)

interpretation u64: be_reader to_u64 8
  by (rule be_reader_halves [OF u32.be_reader_axioms]) (simp_all add: to_u64_def)

interpretation u128: be_reader to_u128 16
  by (rule be_reader_halves [OF u64.be_reader_axioms]) (simp_all add: to_u128_def)

interpretation usize: be_reader to_usize 8
  using u64.be_reader_axioms unfolding to_usize_def [abs_def] by simp

section \<open>What the readers return\<close>

text \<open>
  C37: the unsigned readers decode big-endian integers of their width: they return on exactly
  the offsets with enough bytes left, and the value is the base-256 number the bytes spell.
\<close>

theorem unsigned_readers_big_endian:
  "(to_u8 data i = Done w8 \<longleftrightarrow> i + 1 \<le> length data \<and> uint w8 = be_value (take 1 (drop i data))) \<and>
   (to_u16 data i = Done w16 \<longleftrightarrow> i + 2 \<le> length data \<and> uint w16 = be_value (take 2 (drop i data))) \<and>
   (to_u32 data i = Done w32 \<longleftrightarrow> i + 4 \<le> length data \<and> uint w32 = be_value (take 4 (drop i data))) \<and>
   (to_u64 data i = Done w64 \<longleftrightarrow> i + 8 \<le> length data \<and> uint w64 = be_value (take 8 (drop i data))) \<and>
   (to_u128 data i = Done w128 \<longleftrightarrow>
      i + 16 \<le> length data \<and> uint w128 = be_value (take 16 (drop i data)))"
  by (intro conjI u8.value_of u16.value_of u32.value_of u64.value_of u128.value_of)

lemma be_value_of_word:
  fixes w :: "'a::len word"
  assumes "LENGTH('a) = 8 * n"
  shows "\<exists>bs :: bytes. length bs = n \<and> be_value bs = uint w"
proof (rule be_value_surj)
  have "uint w < 2 ^ (8 * n)" using uint_lt2p [of w] assms by simp
  then show "uint w < 256 ^ n" by (simp add: power_mult)
qed simp

text \<open>
  no value of an unsigned parameter is out of the fuzzer's reach: for every word there are
  bytes that the reader turns into it, wherever they stand in the data.
\<close>

lemma unsigned_readers_reach_every_value:
  "(\<exists>bs. \<forall>pre post. to_u16 (pre @ bs @ post) (length pre) = Done w16) \<and>
   (\<exists>bs. \<forall>pre post. to_u32 (pre @ bs @ post) (length pre) = Done w32) \<and>
   (\<exists>bs. \<forall>pre post. to_u64 (pre @ bs @ post) (length pre) = Done w64) \<and>
   (\<exists>bs. \<forall>pre post. to_u128 (pre @ bs @ post) (length pre) = Done w128) \<and>
   (\<exists>bs. \<forall>pre post. to_usize (pre @ bs @ post) (length pre) = Done ws)"
  using be_value_of_word [of 2 w16] be_value_of_word [of 4 w32] be_value_of_word [of 8 w64]
    be_value_of_word [of 16 w128] be_value_of_word [of 8 ws]
  by (auto dest: u16.every_value u32.every_value u64.every_value u128.every_value usize.every_value)

lemma signed_or_high:
  assumes "bit (b :: 8 word) 7"
  shows "bit (push_bit 8 (signed a) OR signed b :: 16 word) 8"
  using assms by (simp add: bit_or_iff bit_signed_iff)

text \<open>
  the signed readers lose values: the low byte is sign extended before the halves are
  joined, so a low byte with its top bit set overwrites the high byte, and no input ever gives
  the \<open>i16\<close> parameter the value 128 (or any other with bit 7 set and the high byte not all ones).
\<close>

lemma signed_reader_loses_values:
  "to_i16 data i \<noteq> Done 128 \<and>
   (case to_i16 data i of Done w \<Rightarrow> (if bit w 7 then bit w 8 else True) | _ \<Rightarrow> True)"
proof -
  have "bit w 8" if "to_i16 data i = Done w" "bit w 7" for w
  proof -
    from that(1) obtain a b :: "8 word" where w: "w = push_bit 8 (signed a) OR signed b"
      by (auto simp: to_i16_def obind_Done_iff omap_Done_iff)
    with that(2) have "bit b 7" by (simp add: bit_or_iff bit_push_bit_iff bit_signed_iff)
    with w signed_or_high show ?thesis by blast
  qed
  moreover have "bit (128 :: 16 word) 7" "\<not> bit (128 :: 16 word) 8"
    by (simp_all add: bit_numeral_rec)
  ultimately show ?thesis by (auto split: outcome.split)
qed

section \<open>Running a read plan\<close>

text \<open>The weaker contract all fixed-size readers share: they panic exactly out of range.\<close>

locale sized_reader =
  fixes rd :: "bytes \<Rightarrow> nat \<Rightarrow> 'v outcome"
    and n :: nat
  assumes panics_iff: "rd data i = Panic e \<longleftrightarrow> length data < i + n \<and> e = IndexOutOfBounds"

sublocale be_reader \<subseteq> sized_reader rd n
proof
  fix data i e
  show "rd data i = Panic e \<longleftrightarrow> length data < i + n \<and> e = IndexOutOfBounds"
    using in_range [of i data] out_of_range [of data i] by (cases "length data < i + n") auto
qed

lemma sized_halves:
  assumes rd: "sized_reader rd n" and no_exit: "\<And>data i c. rd data i \<noteq> Exit c"
    and m: "m = n + n"
    and rd2: "\<And>data i. rd2 data i =
      obind (omap ext (rd data i)) (\<lambda>a. obind (omap ext (rd data (i + n))) (\<lambda>b. Done (f a b)))"
  shows "sized_reader rd2 m \<and> (\<forall>data i c. rd2 data i \<noteq> Exit c)"
proof -
  note P = sized_reader.panics_iff [OF rd]
  have "rd2 data i = Panic e \<longleftrightarrow> length data < i + m \<and> e = IndexOutOfBounds" for data i e
  proof (cases "length data < i + n")
    case True
    then have "rd data i = Panic IndexOutOfBounds" using P by blast
    with True show ?thesis by (auto simp: rd2 m)
  next
    case False
    then obtain a where a: "rd data i = Done a" using P no_exit by (cases "rd data i") auto
    show ?thesis
    proof (cases "length data < i + n + n")
      case True
      then have "rd data (i + n) = Panic IndexOutOfBounds" using P by blast
      with True a show ?thesis by (auto simp: rd2 m)
    next
      case False
      then obtain b where "rd data (i + n) = Done b"
        using P no_exit by (cases "rd data (i + n)") auto
      with False a show ?thesis by (simp add: rd2 m)
    qed
  qed
  moreover have "rd2 data i \<noteq> Exit c" for data i c
    using no_exit [of data i] no_exit [of data "i + n"]
    by (cases "rd data i"; cases "rd data (i + n)") (auto simp: rd2)
  ultimately show ?thesis by (simp add: sized_reader_def)
qed

lemma i8_sized: "sized_reader to_i8 1 \<and> (\<forall>data i c. to_i8 data i \<noteq> Exit c)"
  by (auto simp: sized_reader_def to_i8_def get_index_def)

lemma i16_sized: "sized_reader to_i16 2 \<and> (\<forall>data i c. to_i16 data i \<noteq> Exit c)"
  by (rule sized_halves [of to_i8 1]) (use i8_sized in \<open>auto simp: to_i16_def\<close>)

lemma i32_sized: "sized_reader to_i32 4 \<and> (\<forall>data i c. to_i32 data i \<noteq> Exit c)"
  by (rule sized_halves [of to_i16 2]) (use i16_sized in \<open>auto simp: to_i32_def\<close>)

lemma i64_sized: "sized_reader to_i64 8 \<and> (\<forall>data i c. to_i64 data i \<noteq> Exit c)"
  by (rule sized_halves [of to_i32 4]) (use i32_sized in \<open>auto simp: to_i64_def\<close>)

lemma i128_sized: "sized_reader to_i128 16 \<and> (\<forall>data i c. to_i128 data i \<noteq> Exit c)"
  by (rule sized_halves [of to_i64 8]) (use i64_sized in \<open>auto simp: to_i128_def\<close>)

interpretation i8: sized_reader to_i8 1 using i8_sized by blast
interpretation i16: sized_reader to_i16 2 using i16_sized by blast
interpretation i32: sized_reader to_i32 4 using i32_sized by blast
interpretation i64: sized_reader to_i64 8 using i64_sized by blast
interpretation i128: sized_reader to_i128 16 using i128_sized by blast

interpretation isize: sized_reader to_isize 8
  by unfold_locales (simp add: to_isize_def i64.panics_iff)

interpretation f32: sized_reader to_f32 4
  by unfold_locales (auto simp: to_f32_def slice_range_def)

interpretation f64: sized_reader to_f64 8
  by unfold_locales (auto simp: to_f64_def slice_range_def)

interpretation chr: sized_reader to_char 4
proof
  fix data i e
  show "to_char data i = Panic e \<longleftrightarrow> length data < i + 4 \<and> e = IndexOutOfBounds"
    using u32.panics_iff [of data i]
    by (cases "to_u32 data i") (auto simp: to_char_def split: option.split)
qed

interpretation bl: sized_reader to_bool 1
proof
  fix data i e
  show "to_bool data i = Panic e \<longleftrightarrow> length data < i + 1 \<and> e = IndexOutOfBounds"
    using u8.panics_iff [of data i] by (cases "to_u8 data i") (auto simp: to_bool_def)
qed

text \<open>A reader run for its effect only, and a plan run on the bytes of one input.\<close>

definition effect :: "'v outcome \<Rightarrow> unit outcome" where
  "effect m = omap (\<lambda>_. ()) m"

fun run_reader :: "afl_helpers \<Rightarrow> bytes \<Rightarrow> nat \<Rightarrow> unit outcome" where
  "run_reader HU8 data i = effect (to_u8 data i)"
| "run_reader HI8 data i = effect (to_i8 data i)"
| "run_reader HU16 data i = effect (to_u16 data i)"
| "run_reader HI16 data i = effect (to_i16 data i)"
| "run_reader HU32 data i = effect (to_u32 data i)"
| "run_reader HI32 data i = effect (to_i32 data i)"
| "run_reader HF32 data i = effect (to_f32 data i)"
| "run_reader HU64 data i = effect (to_u64 data i)"
| "run_reader HI64 data i = effect (to_i64 data i)"
| "run_reader HF64 data i = effect (to_f64 data i)"
| "run_reader HU128 data i = effect (to_u128 data i)"
| "run_reader HI128 data i = effect (to_i128 data i)"
| "run_reader HUsize data i = effect (to_usize data i)"
| "run_reader HIsize data i = effect (to_isize data i)"
| "run_reader HChar data i = effect (to_char data i)"
| "run_reader HBool data i = effect (to_bool data i)"
| "run_reader _ data i = Done ()"

lemma effect_Panic [simp]: "effect m = Panic e \<longleftrightarrow> m = Panic e"
  by (cases m) (auto simp: effect_def)

lemma run_reader_panics:
  "i + helper_bytes h \<le> length data \<Longrightarrow> run_reader h data i \<noteq> Panic e"
  by (cases h)
    (simp_all add: u8.panics_iff u16.panics_iff u32.panics_iff u64.panics_iff u128.panics_iff
      usize.panics_iff i8.panics_iff i16.panics_iff i32.panics_iff i64.panics_iff i128.panics_iff
      isize.panics_iff f32.panics_iff f64.panics_iff chr.panics_iff bl.panics_iff)

definition run_range ::
  "nat \<Rightarrow> (afl_helpers \<Rightarrow> nat) \<Rightarrow> afl_helpers \<Rightarrow> bytes \<Rightarrow> nat \<Rightarrow> nat \<Rightarrow> unit outcome" where
  "run_range misaligned size_of h data a b =
     (case h of
        HSlice t \<Rightarrow> effect (to_slice misaligned (size_of t) data a b)
      | _ \<Rightarrow> effect (to_str data a b))"

lemma run_range_panics:
  "a \<le> b \<Longrightarrow> b \<le> length data \<Longrightarrow> run_range misaligned size_of h data a b \<noteq> Panic e"
  by (cases h) (auto simp: run_range_def to_slice_def to_str_def slice_range_def Let_def)

text \<open>
  \<open>dyn_length\<close> is the value of the variable \<open>dynamic_length\<close> of the target, \<open>dyn_total\<close> the
  number of its dynamic parameters.
\<close>

fun run_plan ::
  "nat \<Rightarrow> (afl_helpers \<Rightarrow> nat) \<Rightarrow> nat \<Rightarrow> nat \<Rightarrow> nat \<Rightarrow> bytes \<Rightarrow> read_plan \<Rightarrow> unit outcome" where
  "run_plan misaligned size_of dyn_start dyn_total dyn_length data ReadNothing = Done ()"
| "run_plan misaligned size_of dyn_start dyn_total dyn_length data (ReadAt h i) = run_reader h data i"
| "run_plan misaligned size_of dyn_start dyn_total dyn_length data (ReadRange h k) =
     run_range misaligned size_of h data (dyn_start + k * dyn_length)
       (if k = dyn_total - 1 then length data else dyn_start + (k + 1) * dyn_length)"
| "run_plan misaligned size_of dyn_start dyn_total dyn_length data (ReadTuple ps) =
     ofold (\<lambda>p _. run_plan misaligned size_of dyn_start dyn_total dyn_length data p) ps ()"


lemma dyn_part_end:
  assumes "k < (n :: nat)" "ds \<le> len" "dl = (len - ds) div n"
  shows "ds + k * dl \<le> len" "ds + (k + 1) * dl \<le> len"
proof -
  have "(k + 1) * dl \<le> n * dl" using assms(1) by (intro mult_le_mono1) simp
  also have "\<dots> \<le> len - ds" unfolding assms(3) by (rule times_div_less_eq_dividend)
  finally show "ds + (k + 1) * dl \<le> len" using assms(2) by simp
  then show "ds + k * dl \<le> len" by simp
qed

lemma run_plan_no_panic:
  assumes "\<forall>(x, y) \<in> set (fixed_reads p). y \<le> length data" "\<forall>k \<in> set (dyn_reads p). k < n"
    and "ds \<le> length data" "dl = (length data - ds) div n"
  shows "run_plan misaligned size_of ds n dl data p \<noteq> Panic e"
  using assms(1,2)
proof (induction p)
  case (ReadAt h i)
  then show ?case by (simp add: run_reader_panics)
next
  case (ReadRange h k)
  then have "ds + k * dl \<le> length data" "ds + (k + 1) * dl \<le> length data"
    using dyn_part_end [of k n ds "length data" dl] assms(3,4) by simp_all
  then show ?case unfolding run_plan.simps by (intro run_range_panics) auto
next
  case (ReadTuple ps)
  then show ?case by (auto intro!: ofold_no_panic)
qed simp

end
