(* ===== verification/Mod_Visibility.thy ===== *)
theory Mod_Visibility
  imports Clean_Types "HOL-Library.AList"
begin

text \<open>
  \<^verbatim>\<open>fuzz_target/mod_visibility.rs\<close>: the declared visibility of every module by its path, and the
  fixpoint that finds the modules that cannot be reached from outside the crate. The result is
  related to \<open>mod_status\<close>, the visibility of a module along the chain of its parents.
\<close>

section \<open>Definitions\<close>

text \<open>\<open>inner\<close> is a \<open>HashMap\<close>: an association list with distinct keys, iterated by \<open>it\<close>.\<close>

record mod_visibility =
  mv_crate_name :: string
  mv_inner :: "(string \<times> visibility) list"

definition mv_new :: "string \<Rightarrow> mod_visibility" where
  "mv_new crate_name = \<lparr>mv_crate_name = crate_name, mv_inner = []\<rparr>"

definition add_one_mod :: "string \<Rightarrow> visibility \<Rightarrow> mod_visibility \<Rightarrow> mod_visibility" where
  "add_one_mod mod_name visibility mv = mv\<lparr>mv_inner := AList.update mod_name visibility (mv_inner mv)\<rparr>"

definition get_parent_mod_name :: "string \<Rightarrow> string option" where
  "get_parent_mod_name mod_name =
     (if \<not> str_contains mod_name ''::'' then None
      else Some (str_join ''::'' (butlast (str_split mod_name ''::''))))"

text \<open>One visit of a module, one pass over the modules, and the bounded loop of passes.\<close>

definition visit_mod ::
  "string \<times> visibility \<Rightarrow> (string \<times> bool) list \<Rightarrow> (string \<times> bool) list outcome" where
  "visit_mod entry known =
     (case entry of (mod_name, visibility) \<Rightarrow>
        if map_of known mod_name \<noteq> None then Done known
        else obind (unwrap (get_parent_mod_name mod_name)) (\<lambda>parent_mod_name.
          (case map_of known parent_mod_name of
             None \<Rightarrow> Done known
           | Some parent_visibility \<Rightarrow>
               if visibility = Public \<and> parent_visibility
               then Done (AList.update mod_name True known)
               else Done (AList.update mod_name False known))))"

fun visibility_passes ::
  "nat \<Rightarrow> (string \<times> visibility) list \<Rightarrow> nat \<Rightarrow> (string \<times> bool) list \<Rightarrow> (string \<times> bool) list outcome" where
  "visibility_passes 0 entries mod_number known = Done known"
| "visibility_passes (Suc n) entries mod_number known =
     obind (ofold visit_mod entries known) (\<lambda>known'.
       if length known' = mod_number then Done known'
       else visibility_passes n entries mod_number known')"

definition get_invisible_mods ::
  "((string \<times> visibility) list \<Rightarrow> (string \<times> visibility) list) \<Rightarrow>
   ((string \<times> bool) list \<Rightarrow> (string \<times> bool) list) \<Rightarrow> mod_visibility \<Rightarrow> string list outcome" where
  "get_invisible_mods it it' mv =
     (let mod_number = length (mv_inner mv)
      in if map_of (mv_inner mv) (mv_crate_name mv) = None then Panic (ExplicitPanic ''No crate mod'')
         else obind (visibility_passes mod_number (it (mv_inner mv)) mod_number [(mv_crate_name mv, True)])
           (\<lambda>known. Done (map fst (filter (\<lambda>(mod_name, visibility). \<not> visibility) (it' known)))))"

section \<open>The parent of a path\<close>

lemma str_join_split_acc:
  "pat \<noteq> [] \<Longrightarrow> str_join pat (str_split_acc pat acc s) = acc @ s \<and> str_split_acc pat acc s \<noteq> []"
proof (induction pat acc s rule: str_split_acc.induct)
  case (2 pat acc c cs)
  show ?case
  proof (cases "starts_with (c # cs) pat")
    case True
    then obtain t where t: "c # cs = pat @ t" by (auto simp: starts_with_iff)
    let ?rest = "str_split_acc pat [] (drop (length pat) (c # cs))"
    have "str_join pat ?rest = t" "?rest \<noteq> []" using 2 True t by auto
    then have "str_join pat (acc # ?rest) = acc @ pat @ t" by (cases ?rest) auto
    moreover have "str_split_acc pat acc (c # cs) = acc # ?rest" using True 2(3) by simp
    ultimately show ?thesis unfolding t by (metis list.distinct(1) t)
  qed (use 2 in simp)
qed simp

lemma str_join_split: "pat \<noteq> [] \<Longrightarrow> str_join pat (str_split s pat) = s"
  using str_join_split_acc [of pat "[]" s] by (simp add: str_split_def)

lemma split_two:
  "pat \<noteq> [] \<Longrightarrow> str_contains s pat \<Longrightarrow> 2 \<le> length (str_split_acc pat acc s)"
proof (induction pat acc s rule: str_split_acc.induct)
  case (2 pat acc c cs)
  show ?case
  proof (cases "starts_with (c # cs) pat")
    case True
    have "str_split_acc pat [] (drop (length pat) (c # cs)) \<noteq> []"
      using 2(3) str_join_split_acc by blast
    then show ?thesis using True 2(3) by (simp add: Suc_le_eq)
  qed (use 2 in auto)
qed simp

lemma parent_prefix:
  assumes "get_parent_mod_name name = Some p"
  shows "\<exists>leaf. name = p @ ''::'' @ leaf"
proof -
  let ?parts = "str_split name ''::''"
  from assms have c: "str_contains name ''::''" and p: "p = str_join ''::'' (butlast ?parts)"
    by (auto simp: get_parent_mod_name_def split: if_splits)
  have two: "2 \<le> length ?parts" using split_two [OF _ c] by (simp add: str_split_def)
  then have ne: "?parts \<noteq> []" "butlast ?parts \<noteq> []" by (auto simp flip: length_0_conv)
  have "name = str_join ''::'' ?parts" by (simp add: str_join_split)
  also have "\<dots> = str_join ''::'' (butlast ?parts @ [last ?parts])"
    using ne by simp
  also have "\<dots> = p @ ''::'' @ last ?parts"
    unfolding p using ne(2) str_join_append [of "butlast ?parts" "[last ?parts]"] by simp
  finally show ?thesis by blast
qed

lemma parent_shorter: "get_parent_mod_name name = Some p \<Longrightarrow> length p < length name"
  by (auto dest: parent_prefix)

text \<open>
  The parent of a path is what stands before a separator of it: the path is its parent, the
  separator and a last part.
\<close>

lemma parent_mod_name_prefix:
  "case get_parent_mod_name name of
     None \<Rightarrow> \<not> str_contains name ''::''
   | Some p \<Rightarrow> (\<exists>leaf. name = p @ ''::'' @ leaf)"
  using parent_prefix [of name] by (auto simp: get_parent_mod_name_def)

section \<open>The visibility along the chain of parents\<close>

text \<open>
  The specification: the crate is visible; a module with a known parent is visible when it is
  declared public and its parent is visible; a module whose chain of parents leaves the table
  has no status.
\<close>

function mod_status :: "(string \<Rightarrow> visibility option) \<Rightarrow> string \<Rightarrow> string \<Rightarrow> bool option" where
  "mod_status decl crate name =
     (if name = crate then Some True
      else (case decl name of
              None \<Rightarrow> None
            | Some vis \<Rightarrow>
                (case get_parent_mod_name name of
                   None \<Rightarrow> None
                 | Some p \<Rightarrow>
                     (case mod_status decl crate p of
                        None \<Rightarrow> None
                      | Some pv \<Rightarrow> Some (vis = Public \<and> pv)))))"
  by pat_completeness auto
termination
  by (relation "measure (\<lambda>(decl, crate, name). length name)") (auto dest: parent_shorter)

declare mod_status.simps [simp del]

lemma mod_status_crate [simp]: "mod_status decl crate crate = Some True"
  by (subst mod_status.simps) simp

lemma mod_status_child:
  "name \<noteq> crate \<Longrightarrow> decl name = Some vis \<Longrightarrow> get_parent_mod_name name = Some p \<Longrightarrow>
     mod_status decl crate name = map_option (\<lambda>pv. vis = Public \<and> pv) (mod_status decl crate p)"
  by (subst mod_status.simps) (simp split: option.split)

text \<open>A table of modules as the analysis builds it: the crate is in it, all others are paths.\<close>

definition mods_ok :: "mod_visibility \<Rightarrow> bool" where
  "mods_ok mv \<longleftrightarrow> distinct (map fst (mv_inner mv)) \<and> mv_crate_name mv \<in> fst ` set (mv_inner mv) \<and>
     (\<forall>name \<in> fst ` set (mv_inner mv). name = mv_crate_name mv \<or> get_parent_mod_name name \<noteq> None)"

text \<open>What is known during the passes is correct.\<close>

definition known_ok :: "(string \<times> visibility) list \<Rightarrow> string \<Rightarrow> (string \<times> bool) list \<Rightarrow> bool" where
  "known_ok entries crate known \<longleftrightarrow> distinct (map fst known) \<and> map_of known crate = Some True \<and>
     (\<forall>name v. map_of known name = Some v \<longrightarrow>
        mod_status (map_of entries) crate name = Some v \<and>
        (name = crate \<or> name \<in> fst ` set entries))"

lemma visit_mod_step:
  assumes ok: "known_ok entries crate known" and e: "(name, vis) \<in> set entries"
    and d: "distinct (map fst entries)"
    and paths: "\<forall>name \<in> fst ` set entries. name = crate \<or> get_parent_mod_name name \<noteq> None"
  shows "\<exists>known'. visit_mod (name, vis) known = Done known' \<and> known_ok entries crate known' \<and>
     dom (map_of known) \<subseteq> dom (map_of known') \<and>
     (\<forall>p. get_parent_mod_name name = Some p \<longrightarrow> p \<in> dom (map_of known) \<longrightarrow> name \<in> dom (map_of known'))"
proof (cases "map_of known name")
  case (Some v)
  then show ?thesis using ok by (auto simp: visit_mod_def)
next
  case None
  have name: "name \<noteq> crate" using ok None by (auto simp: known_ok_def)
  then obtain p where p: "get_parent_mod_name name = Some p" using paths e by force
  have decl: "map_of entries name = Some vis" using d e by simp
  show ?thesis
  proof (cases "map_of known p")
    case None
    with \<open>map_of known name = None\<close> p ok show ?thesis by (auto simp: visit_mod_def)
  next
    case (Some pv)
    let ?known = "AList.update name (vis = Public \<and> pv) known"
    have "visit_mod (name, vis) known = Done ?known"
      using None p Some by (auto simp: visit_mod_def)
    moreover have "mod_status (map_of entries) crate name = Some (vis = Public \<and> pv)"
      using ok Some mod_status_child [of name crate "map_of entries" vis p] name decl p
      by (simp add: known_ok_def)
    then have "known_ok entries crate ?known"
      using ok name e unfolding known_ok_def
      by (auto simp: update_conv' distinct_update image_iff) force
    ultimately show ?thesis by (auto simp: update_conv')
  qed
qed

lemma visit_pass:
  assumes d: "distinct (map fst entries)"
    and paths: "\<forall>name \<in> fst ` set entries. name = crate \<or> get_parent_mod_name name \<noteq> None"
    and sub: "set es \<subseteq> set entries" and ok: "known_ok entries crate known"
  shows "\<exists>known'. ofold visit_mod es known = Done known' \<and> known_ok entries crate known' \<and>
     dom (map_of known) \<subseteq> dom (map_of known') \<and>
     (\<forall>name p. name \<in> fst ` set es \<longrightarrow> get_parent_mod_name name = Some p \<longrightarrow>
        p \<in> dom (map_of known) \<longrightarrow> name \<in> dom (map_of known'))"
  using sub ok
proof (induction es arbitrary: known)
  case (Cons e es)
  obtain name vis where e: "e = (name, vis)" by (cases e)
  obtain known1 where 1: "visit_mod (name, vis) known = Done known1" "known_ok entries crate known1"
      "dom (map_of known) \<subseteq> dom (map_of known1)"
      "\<forall>p. get_parent_mod_name name = Some p \<longrightarrow> p \<in> dom (map_of known) \<longrightarrow> name \<in> dom (map_of known1)"
    using visit_mod_step [OF Cons.prems(2) _ d paths, of name vis] Cons.prems(1) e by auto
  obtain known2 where 2: "ofold visit_mod es known1 = Done known2" "known_ok entries crate known2"
      "dom (map_of known1) \<subseteq> dom (map_of known2)"
      "\<forall>name p. name \<in> fst ` set es \<longrightarrow> get_parent_mod_name name = Some p \<longrightarrow>
        p \<in> dom (map_of known1) \<longrightarrow> name \<in> dom (map_of known2)"
    using Cons.IH [of known1] Cons.prems(1) 1(2) by auto
  have "\<forall>name' p. name' \<in> fst ` set (e # es) \<longrightarrow> get_parent_mod_name name' = Some p \<longrightarrow>
      p \<in> dom (map_of known) \<longrightarrow> name' \<in> dom (map_of known2)"
    using 1(3,4) 2(3,4) e by (metis fst_conv image_insert insert_iff list.simps(15) subsetD)
  with 1 2 e show ?case by auto
qed auto

text \<open>The names that have a status; the passes stop when all of them are known.\<close>

definition status_names :: "(string \<times> visibility) list \<Rightarrow> string \<Rightarrow> string set" where
  "status_names entries crate =
     {name \<in> insert crate (fst ` set entries). mod_status (map_of entries) crate name \<noteq> None}"

lemma status_listed:
  "mod_status (map_of entries) crate name \<noteq> None \<Longrightarrow> name = crate \<or> name \<in> fst ` set entries"
  by (subst (asm) mod_status.simps)
    (auto split: option.splits if_splits dest: map_of_SomeD intro: rev_image_eqI)

lemma status_parent:
  assumes "name \<in> status_names entries crate" "name \<noteq> crate"
  obtains p where "get_parent_mod_name name = Some p" "p \<in> status_names entries crate"
    "name \<in> fst ` set entries"
proof -
  have st: "mod_status (map_of entries) crate name \<noteq> None" and n: "name \<in> fst ` set entries"
    using assms by (auto simp: status_names_def)
  from st assms(2) obtain p where p: "get_parent_mod_name name = Some p"
      "mod_status (map_of entries) crate p \<noteq> None"
    by (subst (asm) mod_status.simps) (auto split: option.splits if_splits)
  from status_listed [OF p(2)]
  have "p = crate \<or> p \<in> fst ` set entries" .
  with p n that show ?thesis by (auto simp: status_names_def)
qed

lemma known_subset: "known_ok entries crate known \<Longrightarrow> dom (map_of known) \<subseteq> status_names entries crate"
  by (fastforce simp: known_ok_def status_names_def)

lemma pass_progress:
  assumes ok: "known_ok entries crate known"
    and more: "status_names entries crate - dom (map_of known) \<noteq> {}"
    and closed: "\<forall>name p. name \<in> fst ` set entries \<longrightarrow> get_parent_mod_name name = Some p \<longrightarrow>
        p \<in> dom (map_of known) \<longrightarrow> name \<in> dom (map_of known')"
    and mono: "dom (map_of known) \<subseteq> dom (map_of known')"
  shows "card (status_names entries crate - dom (map_of known')) <
     card (status_names entries crate - dom (map_of known))"
proof -
  let ?open = "status_names entries crate - dom (map_of known)"
  from more obtain name where name: "name \<in> ?open" and least: "\<forall>n \<in> ?open. length name \<le> length n"
    using ex_has_least_nat [of "\<lambda>n. n \<in> ?open" _ length] by (metis (no_types) equals0I)
  then have "name \<noteq> crate" using ok by (auto simp: known_ok_def)
  then obtain p where p: "get_parent_mod_name name = Some p" "p \<in> status_names entries crate"
      "name \<in> fst ` set entries"
    using status_parent name by blast
  then have "p \<in> dom (map_of known)"
    using least parent_shorter [OF p(1)] by (meson DiffI leD)
  then have "name \<in> dom (map_of known')" using closed p by blast
  then have "status_names entries crate - dom (map_of known') \<subset> ?open"
    using name mono by blast
  moreover have "finite ?open" by (simp add: status_names_def)
  ultimately show ?thesis by (rule psubset_card_mono [rotated])
qed

lemma passes_complete:
  assumes d: "distinct (map fst inner)" "distinct (map fst entries)" and same: "set entries = set inner"
    and crate: "crate \<in> fst ` set inner"
    and paths: "\<forall>name \<in> fst ` set inner. name = crate \<or> get_parent_mod_name name \<noteq> None"
  shows "known_ok entries crate known \<Longrightarrow>
     card (status_names entries crate - dom (map_of known)) \<le> n \<Longrightarrow>
     \<exists>known'. visibility_passes n entries (length inner) known = Done known' \<and>
       known_ok entries crate known' \<and> dom (map_of known') = status_names entries crate"
proof (induction n arbitrary: known)
  case 0
  moreover have "finite (status_names entries crate)" by (simp add: status_names_def)
  ultimately show ?case using known_subset by fastforce
next
  case (Suc n)
  have paths': "\<forall>name \<in> fst ` set entries. name = crate \<or> get_parent_mod_name name \<noteq> None"
    using paths same by simp
  obtain known1 where 1: "ofold visit_mod entries known = Done known1" "known_ok entries crate known1"
      "dom (map_of known) \<subseteq> dom (map_of known1)"
      "\<forall>name p. name \<in> fst ` set entries \<longrightarrow> get_parent_mod_name name = Some p \<longrightarrow>
        p \<in> dom (map_of known) \<longrightarrow> name \<in> dom (map_of known1)"
    using visit_pass [OF d(2) paths' subset_refl Suc.prems(1)] by blast
  show ?case
  proof (cases "length known1 = length inner")
    case True
    have "card (dom (map_of known1)) = length inner"
      using 1(2) True distinct_card [of "map fst known1"]
      by (simp add: known_ok_def dom_map_of_conv_image_fst)
    moreover have "card (status_names entries crate) \<le> length inner"
    proof -
      have "status_names entries crate \<subseteq> fst ` set inner"
        using crate same by (auto simp: status_names_def)
      then have "card (status_names entries crate) \<le> card (set (map fst inner))"
        by (intro card_mono) auto
      then show ?thesis using distinct_card [OF d(1)] by simp
    qed
    ultimately have "dom (map_of known1) = status_names entries crate"
      using known_subset [OF 1(2)] by (intro card_seteq) (auto simp: status_names_def)
    with True 1 show ?thesis by auto
  next
    case False
    have "card (status_names entries crate - dom (map_of known1)) \<le> n"
    proof (cases "status_names entries crate - dom (map_of known) = {}")
      case True
      then have "status_names entries crate - dom (map_of known1) = {}" using 1(3) by blast
      then show ?thesis by (metis card.empty le0)
    next
      case False
      from pass_progress [OF Suc.prems(1) False 1(4,3)] Suc.prems(2) show ?thesis by simp
    qed
    from Suc.IH [OF 1(2) this] False 1(1) show ?thesis by simp
  qed
qed

lemma known_complete:
  assumes ok: "known_ok entries crate known" and dom: "dom (map_of known) = status_names entries crate"
  shows "map_of known name = mod_status (map_of entries) crate name"
proof (cases "mod_status (map_of entries) crate name")
  case None
  then have "name \<notin> dom (map_of known)" by (simp add: dom status_names_def)
  with None show ?thesis by auto
next
  case (Some v)
  then have "name \<in> status_names entries crate"
    using status_listed [of entries crate name] by (simp add: status_names_def)
  then obtain w where "map_of known name = Some w" using dom by blast
  with Some ok show ?thesis by (auto simp: known_ok_def)
qed

lemma mset_keys:
  assumes "hash_order it" "distinct (map fst xs)"
  shows "distinct (map fst (it xs))" "map_of (it xs) = map_of xs"
proof -
  have "mset (it xs) = mset xs" using assms(1) by (simp add: hash_order_def)
  then show d: "distinct (map fst (it xs))"
    using assms(2) by (metis mset_map mset_eq_imp_distinct_iff)
  show "map_of (it xs) = map_of xs"
    using d assms by (intro map_of_inject_set [THEN iffD2]) auto
qed

lemma filter_false_keys:
  assumes "distinct (map fst xs)"
  shows "distinct (map fst (filter (\<lambda>(k, v). \<not> v) xs)) \<and>
     (\<forall>k. k \<in> set (map fst (filter (\<lambda>(k, v). \<not> v) xs)) \<longleftrightarrow> map_of xs k = Some False)"
  using assms by (force simp: distinct_map_filter)

lemma invisible_mods_lemma:
  assumes it: "hash_order it" and it': "hash_order it'" and ok: "mods_ok mv"
  shows "\<exists>res. get_invisible_mods it it' mv = Done res \<and> distinct res \<and>
     (\<forall>name. name \<in> set res \<longleftrightarrow>
        mod_status (map_of (mv_inner mv)) (mv_crate_name mv) name = Some False)"
proof -
  let ?inner = "mv_inner mv" and ?crate = "mv_crate_name mv" and ?entries = "it (mv_inner mv)"
  have d: "distinct (map fst ?inner)" and crate: "?crate \<in> fst ` set ?inner"
    and paths: "\<forall>name \<in> fst ` set ?inner. name = ?crate \<or> get_parent_mod_name name \<noteq> None"
    using ok by (auto simp: mods_ok_def)
  have same: "set ?entries = set ?inner" using it by simp
  have start: "known_ok ?entries ?crate [(?crate, True)]"
    by (simp add: known_ok_def split: if_splits)
  have "status_names ?entries ?crate - dom (map_of [(?crate, True)]) \<subseteq> set (map fst ?inner)"
    using same by (auto simp: status_names_def)
  then have bound: "card (status_names ?entries ?crate - dom (map_of [(?crate, True)])) \<le> length ?inner"
    by (metis card_length card_mono length_map List.finite_set le_trans)
  obtain known where known: "visibility_passes (length ?inner) ?entries (length ?inner) [(?crate, True)]
      = Done known" "known_ok ?entries ?crate known" "dom (map_of known) = status_names ?entries ?crate"
    using passes_complete [OF d mset_keys(1) [OF it d] same crate paths start bound] by blast
  have dk: "distinct (map fst known)" using known(2) by (simp add: known_ok_def)
  have "get_invisible_mods it it' mv =
      Done (map fst (filter (\<lambda>(mod_name, visibility). \<not> visibility) (it' known)))"
    using crate known(1) by (auto simp: get_invisible_mods_def map_of_eq_None_iff)
  then show ?thesis
    using filter_false_keys [OF mset_keys(1) [OF it' dk]] known_complete [OF known(2,3)]
    by (simp add: mset_keys(2) [OF it' dk] mset_keys(2) [OF it d])
qed

text \<open>
  C31: \<open>get_invisible_mods\<close> finds exactly the modules hidden from outside: on a table that has the
  crate and only paths, whatever the iteration order of the two hash maps, the loop of at most
  \<open>mod_number\<close> passes returns, without panic and without duplicates, the modules whose chain of
  parents up to the crate has one that is not public.
\<close>

theorem invisible_mods_exact:
  assumes "hash_order it" "hash_order it'" "mods_ok mv"
  shows "\<exists>res. get_invisible_mods it it' mv = Done res \<and> distinct res \<and>
     (\<forall>name. name \<in> set res \<longleftrightarrow>
        mod_status (map_of (mv_inner mv)) (mv_crate_name mv) name = Some False)"
  using assms by (rule invisible_mods_lemma)

definition example_mods :: mod_visibility where
  "example_mods = add_one_mod ''c::a::b'' Public (add_one_mod ''c::a'' Inherited
     (add_one_mod ''c'' Public (mv_new ''c'')))"

lemma example_mods_ok: "mods_ok example_mods"
  by (simp add: mods_ok_def example_mods_def mv_new_def add_one_mod_def get_parent_mod_name_def
      starts_with_def)

lemma example_status:
  "mod_status (map_of (mv_inner example_mods)) (mv_crate_name example_mods) ''c::a::b'' = Some False"
  by (simp add: mod_status.simps [of _ _ "''c::a::b''"] mod_status.simps [of _ _ "''c::a''"]
      example_mods_def mv_new_def add_one_mod_def get_parent_mod_name_def starts_with_def str_split_def)

theorem invisible_mods_exact_witness:
  "\<exists>res. get_invisible_mods rev (\<lambda>xs. xs) example_mods = Done res \<and> ''c::a::b'' \<in> set res"
  using invisible_mods_exact [OF hash_order_rev hash_order_id example_mods_ok] example_status by blast

end
