(* ===== verification/Api_Sequence.thy ===== *)
theory Api_Sequence
  imports Afl_Readers Mod_Visibility
begin

text \<open>
  \<^verbatim>\<open>fuzz_target/api_sequence.rs\<close>: a call sequence, the operations the search makes on it, the dead
  code analysis and the length measures. The records of \<^verbatim>\<open>api_graph.rs\<close> are here too, since the
  two modules refer to each other. The text of a target is in \<open>Target_Code\<close>.
\<close>

section \<open>Data\<close>

datatype api_type = ApiBareFunction

datatype param_type = FunctionReturn | FuzzableParam

type_synonym call_param = "param_type \<times> nat \<times> call_type"

record api_call =
  func :: "api_type \<times> nat"
  params :: "call_param list"

record api_sequence =
  seq_functions :: "api_call list"
  fuzzable_params :: "fuzzable_type list"
  using_traits :: "string list"
  seq_unsafe_tag :: bool
  moved :: "nat set"
  fuzzable_mut_tag :: "nat set"
  function_mut_tag :: "nat set"
  covered_dependencies :: "nat set"

record api_dependency =
  output_fun :: "api_type \<times> nat"
  input_fun :: "api_type \<times> nat"
  input_param_index :: nat
  dep_call_type :: call_type

record api_graph =
  crate_name :: string
  api_functions :: "api_function list"
  api_functions_visited :: "bool list"
  api_dependencies :: "api_dependency list"
  api_sequences :: "api_sequence list"
  graph_names :: full_name_map
  graph_mods :: mod_visibility
  generic_functions :: "generic_function list"
  functions_with_unsupported_fuzzable_types :: "string set"

section \<open>Operations\<close>

definition new_without_params :: "api_type \<Rightarrow> nat \<Rightarrow> api_call" where
  "new_without_params api_ty i = \<lparr>func = (api_ty, i), params = []\<rparr>"

definition call_new :: "nat \<Rightarrow> api_call" where
  "call_new fun_index = \<lparr>func = (ApiBareFunction, fun_index), params = []\<rparr>"

definition add_param :: "param_type \<Rightarrow> nat \<Rightarrow> call_type \<Rightarrow> api_call \<Rightarrow> api_call" where
  "add_param pt i ct call = call\<lparr>params := params call @ [(pt, i, ct)]\<rparr>"

definition seq_new :: api_sequence where
  "seq_new = \<lparr>seq_functions = [], fuzzable_params = [], using_traits = [], seq_unsafe_tag = False,
     moved = {}, fuzzable_mut_tag = {}, function_mut_tag = {}, covered_dependencies = {}\<rparr>"

definition add_fn_without_params :: "api_type \<Rightarrow> nat \<Rightarrow> api_sequence \<Rightarrow> api_sequence" where
  "add_fn_without_params api_ty i s = s\<lparr>seq_functions := seq_functions s @ [new_without_params api_ty i]\<rparr>"

definition add_dependency :: "nat \<Rightarrow> api_sequence \<Rightarrow> api_sequence" where
  "add_dependency dependency s = s\<lparr>covered_dependencies := insert dependency (covered_dependencies s)\<rparr>"

definition seq_len :: "api_sequence \<Rightarrow> nat" where
  "seq_len s = length (seq_functions s)"

definition has_no_fuzzables :: "api_sequence \<Rightarrow> bool" where
  "has_no_fuzzables s = (if length (fuzzable_params s) \<le> 0 then True else False)"

definition last_api_func_index :: "api_sequence \<Rightarrow> nat option" where
  "last_api_func_index s =
     (if seq_len s = 0 then None
      else (case func (last (seq_functions s)) of (ApiBareFunction, i) \<Rightarrow> Some i))"

definition shift_param :: "nat \<Rightarrow> nat \<Rightarrow> call_param \<Rightarrow> call_param" where
  "shift_param first_func_number first_fuzzable_number p =
     (case p of (pt, i, ct) \<Rightarrow>
        (pt, (case pt of FuzzableParam \<Rightarrow> i + first_fuzzable_number
                       | FunctionReturn \<Rightarrow> i + first_func_number), ct))"

definition shift_call :: "nat \<Rightarrow> nat \<Rightarrow> api_call \<Rightarrow> api_call" where
  "shift_call first_func_number first_fuzzable_number call =
     \<lparr>func = func call,
      params = map (shift_param first_func_number first_fuzzable_number) (params call)\<rparr>"

definition merge_another_sequence :: "api_sequence \<Rightarrow> api_sequence \<Rightarrow> api_sequence" where
  "merge_another_sequence s other =
     (let first_func_number = length (seq_functions s);
          first_fuzzable_number = length (fuzzable_params s)
      in s\<lparr>seq_functions := seq_functions s @
             map (shift_call first_func_number first_fuzzable_number) (seq_functions other),
           fuzzable_params := fuzzable_params s @ fuzzable_params other,
           using_traits := using_traits s @ using_traits other,
           seq_unsafe_tag := (if seq_unsafe_tag other then seq_unsafe_tag other else seq_unsafe_tag s),
           moved := moved s \<union> (\<lambda>t. t + first_func_number) ` moved other,
           fuzzable_mut_tag :=
             fuzzable_mut_tag s \<union> (\<lambda>t. t + first_fuzzable_number) ` fuzzable_mut_tag other,
           function_mut_tag :=
             function_mut_tag s \<union> (\<lambda>t. t + first_func_number) ` function_mut_tag other\<rparr>)"

fun merge_sequences :: "api_sequence list \<Rightarrow> api_sequence" where
  "merge_sequences [] = seq_new"
| "merge_sequences (s # ss) = foldl merge_another_sequence s ss"

definition contains_api_function :: "nat \<Rightarrow> api_sequence \<Rightarrow> bool" where
  "contains_api_function i s = list_ex (\<lambda>c. case func c of (_, func_index) \<Rightarrow> i = func_index) (seq_functions s)"

definition get_contained_api_functions :: "api_sequence \<Rightarrow> nat list" where
  "get_contained_api_functions s =
     foldl (\<lambda>res c. case func c of (_, func_index) \<Rightarrow>
         if func_index \<notin> set res then res @ [func_index] else res) [] (seq_functions s)"

definition is_moved :: "nat \<Rightarrow> api_sequence \<Rightarrow> bool" where
  "is_moved i s = (if i \<in> moved s then True else False)"

definition insert_move_index :: "nat \<Rightarrow> api_sequence \<Rightarrow> api_sequence" where
  "insert_move_index i s = s\<lparr>moved := insert i (moved s)\<rparr>"

definition add_fn :: "api_call \<Rightarrow> api_sequence \<Rightarrow> api_sequence" where
  "add_fn call s = s\<lparr>seq_functions := seq_functions s @ [call]\<rparr>"

definition insert_fuzzable_mut_tag :: "nat \<Rightarrow> api_sequence \<Rightarrow> api_sequence" where
  "insert_fuzzable_mut_tag i s = s\<lparr>fuzzable_mut_tag := insert i (fuzzable_mut_tag s)\<rparr>"

definition is_fuzzable_need_mut_tag :: "nat \<Rightarrow> api_sequence \<Rightarrow> bool" where
  "is_fuzzable_need_mut_tag i s = (if i \<in> fuzzable_mut_tag s then True else False)"

definition insert_function_mut_tag :: "nat \<Rightarrow> api_sequence \<Rightarrow> api_sequence" where
  "insert_function_mut_tag i s = s\<lparr>function_mut_tag := insert i (function_mut_tag s)\<rparr>"

definition is_function_need_mut_tag :: "nat \<Rightarrow> api_sequence \<Rightarrow> bool" where
  "is_function_need_mut_tag i s = (if i \<in> function_mut_tag s then True else False)"

definition set_unsafe :: "api_sequence \<Rightarrow> api_sequence" where
  "set_unsafe s = s\<lparr>seq_unsafe_tag := True\<rparr>"

definition add_trait :: "string \<Rightarrow> api_sequence \<Rightarrow> api_sequence" where
  "add_trait path s = s\<lparr>using_traits := using_traits s @ [path]\<rparr>"

definition is_fuzzables_fixed_length :: "api_sequence \<Rightarrow> bool" where
  "is_fuzzables_fixed_length s = list_all is_fixed_length (fuzzable_params s)"

definition fuzzables_min_length :: "api_sequence \<Rightarrow> nat" where
  "fuzzables_min_length s = foldl (\<lambda>n p. n + min_length p) 0 (fuzzable_params s)"

definition contains_multi_dynamic_length_fuzzable :: "api_sequence \<Rightarrow> bool" where
  "contains_multi_dynamic_length_fuzzable s = list_ex is_multiple_dynamic_length (fuzzable_params s)"

definition fuzzable_fixed_part_length :: "api_sequence \<Rightarrow> nat" where
  "fuzzable_fixed_part_length s = foldl (\<lambda>n p. n + fixed_part_length p) 0 (fuzzable_params s)"

definition seq_dynamic_length_param_number :: "api_sequence \<Rightarrow> nat" where
  "seq_dynamic_length_param_number s =
     foldl (\<lambda>n p. n + dynamic_length_param_number p) 0 (fuzzable_params s)"

lemmas seq_update_defs = call_new_def add_param_def add_dependency_def insert_move_index_def add_fn_def
  insert_fuzzable_mut_tag_def insert_function_mut_tag_def set_unsafe_def add_trait_def is_moved_def
  is_fuzzable_need_mut_tag_def is_function_need_mut_tag_def

lemma foldl_add: "foldl (\<lambda>n p. n + f p) (a :: nat) xs = a + sum_list (map f xs)"
  by (induction xs arbitrary: a) auto

lemma seq_lengths:
  "fuzzables_min_length s = sum_list (map min_length (fuzzable_params s))"
  "fuzzable_fixed_part_length s = sum_list (map fixed_part_length (fuzzable_params s))"
  "seq_dynamic_length_param_number s = sum_list (map dynamic_length_param_number (fuzzable_params s))"
  by (simp_all add: fuzzables_min_length_def fuzzable_fixed_part_length_def
      seq_dynamic_length_param_number_def foldl_add)

section \<open>Dead code\<close>

text \<open>
  The first loop of \<open>_dead_code\<close> marks the returned values that are used and records the last
  call that uses each; the second clears the mark of a call that mutably borrows a value used
  later.
\<close>

definition mark_param ::
  "nat \<Rightarrow> call_param \<Rightarrow> bool list \<times> (nat \<Rightarrow> nat option) \<Rightarrow> (bool list \<times> (nat \<Rightarrow> nat option)) outcome" where
  "mark_param api_call_index p st =
     (case p of (pt, i, _) \<Rightarrow> (case st of (dead, used) \<Rightarrow>
        if pt = FunctionReturn
        then obind (set_index dead i False) (\<lambda>dead'. Done (dead', used(i \<mapsto> api_call_index)))
        else Done (dead, used)))"

definition mark_used ::
  "api_sequence \<Rightarrow> bool list \<times> (nat \<Rightarrow> nat option) \<Rightarrow> (bool list \<times> (nat \<Rightarrow> nat option)) outcome" where
  "mark_used s st =
     ofold (\<lambda>api_call_index st.
         obind (get_index (seq_functions s) api_call_index) (\<lambda>api_call.
           ofold (mark_param api_call_index) (params api_call) st))
       [0..<length (seq_functions s)] st"

definition revive_param ::
  "api_function \<Rightarrow> api_call \<Rightarrow> (nat \<Rightarrow> nat option) \<Rightarrow> nat \<Rightarrow> nat \<Rightarrow> bool list \<Rightarrow> bool list outcome" where
  "revive_param f call used api_call_index param_index dead =
     obind (get_index (inputs f) param_index) (\<lambda>input_type.
     obind (get_index (params call) param_index) (\<lambda>p. case p of (pt, i, ct) \<Rightarrow>
       if pt = FunctionReturn
       then (if is_mutable_borrow_occurs input_type ct
             then (case used i of
                     Some last_call_index \<Rightarrow>
                       if api_call_index < last_call_index then set_index dead api_call_index False
                       else Done dead
                   | None \<Rightarrow> Done dead)
             else Done dead)
       else Done dead))"

definition revive_call ::
  "api_graph \<Rightarrow> api_sequence \<Rightarrow> (nat \<Rightarrow> nat option) \<Rightarrow> nat \<Rightarrow> bool list \<Rightarrow> bool list outcome" where
  "revive_call g s used api_call_index dead =
     obind (get_index dead api_call_index) (\<lambda>is_dead.
       if \<not> is_dead then Done dead
       else obind (get_index (seq_functions s) api_call_index) (\<lambda>api_call.
         let param_len = length (params api_call)
         in if param_len \<le> 0 then Done dead
            else (case func api_call of (ApiBareFunction, api_function_index) \<Rightarrow>
              obind (get_index (api_functions g) api_function_index) (\<lambda>f.
                ofold (revive_param f api_call used api_call_index) [0..<param_len] dead))))"

definition dead_code :: "api_graph \<Rightarrow> api_sequence \<Rightarrow> bool list outcome" where
  "dead_code g s =
     obind (mark_used s (replicate (seq_len s) True, \<lambda>_. None)) (\<lambda>(dead, used).
       ofold (revive_call g s used) [0..<length (seq_functions s)] dead)"

definition contains_dead_code_except_last_one :: "api_graph \<Rightarrow> api_sequence \<Rightarrow> bool outcome" where
  "contains_dead_code_except_last_one g s =
     (if seq_len s \<le> 1 then Done False
      else obind (dead_code g s) (\<lambda>dead_codes.
        oex (get_index dead_codes) [0..<seq_len s - 1]))"

section \<open>What dead code is\<close>

text \<open>The returned values a list of parameters uses, and the last call that uses a value.\<close>

definition returns_used :: "call_param list \<Rightarrow> nat set" where
  "returns_used ps = {k. \<exists>ct. (FunctionReturn, k, ct) \<in> set ps}"

definition used_before :: "api_sequence \<Rightarrow> nat \<Rightarrow> nat \<Rightarrow> nat list" where
  "used_before s n k = filter (\<lambda>i. k \<in> returns_used (params (seq_functions s ! i))) [0..<n]"

definition last_use :: "api_sequence \<Rightarrow> nat \<Rightarrow> nat \<Rightarrow> nat option" where
  "last_use s n k = (if used_before s n k = [] then None else Some (last (used_before s n k)))"

text \<open>A call that mutably borrows a value which a later call uses.\<close>

definition keeps_alive :: "api_graph \<Rightarrow> api_sequence \<Rightarrow> nat \<Rightarrow> bool" where
  "keeps_alive g s i \<longleftrightarrow>
     (let call = seq_functions s ! i; f = api_functions g ! snd (func call)
      in list_ex (\<lambda>p. case params call ! p of (pt, k, ct) \<Rightarrow>
           pt = FunctionReturn \<and> is_mutable_borrow_occurs (inputs f ! p) ct \<and>
           (case last_use s (length (seq_functions s)) k of Some l \<Rightarrow> i < l | None \<Rightarrow> False))
         [0..<length (params call)])"

definition is_dead :: "api_graph \<Rightarrow> api_sequence \<Rightarrow> nat \<Rightarrow> bool" where
  "is_dead g s i \<longleftrightarrow> used_before s (length (seq_functions s)) i = [] \<and> \<not> keeps_alive g s i"

text \<open>Sequences all indices of which are in range; \<open>call_in_range\<close> for one call.\<close>

definition call_in_range :: "api_graph \<Rightarrow> nat \<Rightarrow> api_call \<Rightarrow> bool" where
  "call_in_range g n call \<longleftrightarrow> snd (func call) < length (api_functions g) \<and>
     length (params call) = length (inputs (api_functions g ! snd (func call))) \<and>
     (\<forall>k \<in> returns_used (params call). k < n)"

definition in_range :: "api_graph \<Rightarrow> api_sequence \<Rightarrow> bool" where
  "in_range g s \<longleftrightarrow> list_all (call_in_range g (seq_len s)) (seq_functions s)"

lemma returns_used_Cons:
  "returns_used ((pt, k, ct) # ps) = (if pt = FunctionReturn then {k} else {}) \<union> returns_used ps"
  by (auto simp: returns_used_def)

lemma mark_params:
  assumes "\<forall>k \<in> returns_used ps. k < length dead"
  shows "ofold (mark_param i) ps (dead, used) =
     Done (map (\<lambda>k. dead ! k \<and> k \<notin> returns_used ps) [0..<length dead],
           \<lambda>k. if k \<in> returns_used ps then Some i else used k)"
  using assms
proof (induction ps arbitrary: dead used)
  case Nil
  then show ?case by (simp add: returns_used_def map_nth)
next
  case (Cons p ps)
  obtain pt k ct where p: "p = (pt, k, ct)" by (cases p)
  show ?case
  proof (cases "pt = FunctionReturn")
    case True
    have k: "k < length dead" and rest: "\<forall>k \<in> returns_used ps. k < length (dead[k := False])"
      using Cons.prems True p by (auto simp: returns_used_Cons)
    have "ofold (mark_param i) (p # ps) (dead, used) =
        ofold (mark_param i) ps (dead[k := False], used(k \<mapsto> i))"
      using k True by (simp add: p mark_param_def)
    also have "\<dots> = Done (map (\<lambda>j. dead[k := False] ! j \<and> j \<notin> returns_used ps) [0..<length dead],
        \<lambda>j. if j \<in> returns_used ps then Some i else (used(k \<mapsto> i)) j)"
      using Cons.IH [of "dead[k := False]"] Cons.prems True p by (simp add: returns_used_Cons)
    also have "\<dots> = Done (map (\<lambda>j. dead ! j \<and> j \<notin> returns_used (p # ps)) [0..<length dead],
        \<lambda>j. if j \<in> returns_used (p # ps) then Some i else used j)"
      using True k by (auto simp: p returns_used_Cons nth_list_update fun_eq_iff)
    finally show ?thesis .
  next
    case False
    then show ?thesis using Cons by (simp add: p mark_param_def returns_used_Cons)
  qed
qed

lemma mark_used_prefix:
  assumes "in_range g s" "n \<le> seq_len s"
  shows "ofold (\<lambda>i st. obind (get_index (seq_functions s) i) (\<lambda>c. ofold (mark_param i) (params c) st))
       [0..<n] (replicate (seq_len s) True, \<lambda>_. None) =
     Done (map (\<lambda>k. used_before s n k = []) [0..<seq_len s], last_use s n)"
  using assms(2)
proof (induction n)
  case 0
  then show ?case by (simp add: used_before_def last_use_def fun_eq_iff map_replicate_const)
next
  case (Suc n)
  let ?c = "seq_functions s ! n"
  have n: "n < length (seq_functions s)" using Suc.prems by (simp add: seq_len_def)
  then have "call_in_range g (seq_len s) ?c" using assms(1) by (simp add: in_range_def list_all_length)
  then have R: "\<forall>k \<in> returns_used (params ?c). k < seq_len s" by (simp add: call_in_range_def)
  have ub: "used_before s (Suc n) k =
      used_before s n k @ (if k \<in> returns_used (params ?c) then [n] else [])" for k
    by (simp add: used_before_def)
  have "last_use s (Suc n) = (\<lambda>k. if k \<in> returns_used (params ?c) then Some n else last_use s n k)"
    by (auto simp: last_use_def ub fun_eq_iff)
  then show ?case
    using Suc n R mark_params [of "params ?c" "map (\<lambda>k. used_before s n k = []) [0..<seq_len s]" n
        "last_use s n"]
    by (simp add: ofold_append ub cong: map_cong)
qed

lemma revive_params:
  assumes "length (params c) \<le> length (inputs f)" "n \<le> length (params c)" "i < length dead"
  shows "ofold (revive_param f c used i) [0..<n] dead =
     Done (dead[i := dead ! i \<and> \<not> list_ex (\<lambda>p. case params c ! p of (pt, k, ct) \<Rightarrow>
        pt = FunctionReturn \<and> is_mutable_borrow_occurs (inputs f ! p) ct \<and>
        (case used k of Some l \<Rightarrow> i < l | None \<Rightarrow> False)) [0..<n]])"
  using assms(2)
proof (induction n)
  case (Suc n)
  obtain pt k ct where p: "params c ! n = (pt, k, ct)" by (cases "params c ! n")
  have "revive_param f c used i n dead' =
      Done (dead'[i := dead' ! i \<and> \<not> (pt = FunctionReturn \<and> is_mutable_borrow_occurs (inputs f ! n) ct \<and>
        (case used k of Some l \<Rightarrow> i < l | None \<Rightarrow> False))])" if "length dead' = length dead" for dead'
    using Suc.prems assms(1,3) p that by (auto simp: revive_param_def split: option.split)
  then show ?case using Suc assms(3) p by (auto simp: ofold_append)
qed (simp add: assms)

lemma revive_call_eq:
  assumes "in_range g s" "i < seq_len s" "length dead = seq_len s"
  shows "revive_call g s (last_use s (seq_len s)) i dead =
     Done (dead[i := dead ! i \<and> \<not> keeps_alive g s i])"
proof -
  let ?c = "seq_functions s ! i"
  obtain j where f: "func ?c = (ApiBareFunction, j)"
    by (metis api_type.exhaust surj_pair)
  have "call_in_range g (seq_len s) ?c"
    using assms by (simp add: in_range_def list_all_length seq_len_def)
  then have j: "j < length (api_functions g)" "length (params ?c) = length (inputs (api_functions g ! j))"
    using f by (auto simp: call_in_range_def)
  show ?thesis
  proof (cases "dead ! i")
    case True
    then show ?thesis
      using assms f j revive_params [of ?c "api_functions g ! j" "length (params ?c)" i dead
          "last_use s (seq_len s)"] list_update_id [of dead i]
      by (auto simp: revive_call_def keeps_alive_def Let_def seq_len_def)
  next
    case False
    then have "dead[i := False] = dead" by (metis list_update_id)
    with False assms show ?thesis by (simp add: revive_call_def)
  qed
qed

lemma revive_prefix:
  assumes "in_range g s" "n \<le> seq_len s" "length dead = seq_len s"
  shows "ofold (revive_call g s (last_use s (seq_len s))) [0..<n] dead =
     Done (map (\<lambda>i. dead ! i \<and> (i < n \<longrightarrow> \<not> keeps_alive g s i)) [0..<seq_len s])"
  using assms(2)
proof (induction n)
  case 0
  then show ?case using map_nth [of dead] assms(3) by simp
next
  case (Suc n)
  let ?dead = "map (\<lambda>i. dead ! i \<and> (i < n \<longrightarrow> \<not> keeps_alive g s i)) [0..<seq_len s]"
  have "ofold (revive_call g s (last_use s (seq_len s))) [0..<Suc n] dead =
      Done (?dead[n := ?dead ! n \<and> \<not> keeps_alive g s n])"
    using Suc revive_call_eq [OF assms(1), of n ?dead] by (simp add: ofold_append)
  also have "?dead[n := ?dead ! n \<and> \<not> keeps_alive g s n] =
      map (\<lambda>i. dead ! i \<and> (i < Suc n \<longrightarrow> \<not> keeps_alive g s i)) [0..<seq_len s]"
    using Suc.prems by (auto simp: list_eq_iff_nth_eq nth_list_update less_Suc_eq)
  finally show ?case .
qed

lemma dead_code_eq:
  assumes "in_range g s"
  shows "dead_code g s = Done (map (is_dead g s) [0..<seq_len s])"
proof -
  have "mark_used s (replicate (seq_len s) True, \<lambda>_. None) =
      Done (map (\<lambda>k. used_before s (seq_len s) k = []) [0..<seq_len s], last_use s (seq_len s))"
    using mark_used_prefix [OF assms, of "seq_len s"] by (simp add: mark_used_def seq_len_def)
  then show ?thesis
    using revive_prefix [OF assms, of "seq_len s"
        "map (\<lambda>k. used_before s (seq_len s) k = []) [0..<seq_len s]"]
    by (simp add: dead_code_def is_dead_def seq_len_def cong: map_cong)
qed

lemma contains_dead_code_eq:
  assumes "in_range g s"
  shows "contains_dead_code_except_last_one g s = Done (list_ex (is_dead g s) [0..<seq_len s - 1])"
  using oex_Done [of "[0..<seq_len s - 1]" "get_index (map (is_dead g s) [0..<seq_len s])" "is_dead g s"]
  by (auto simp: contains_dead_code_except_last_one_def dead_code_eq [OF assms] le_Suc_eq)

text \<open>
  C32: the dead code analysis returns on every sequence with indices in range, and marks a call
  as dead exactly when no call uses its value and it does not mutably borrow a value that a
  later call uses.
\<close>

theorem dead_code_exact:
  assumes "in_range g s"
  shows "dead_code g s = Done (map (is_dead g s) [0..<seq_len s]) \<and>
     contains_dead_code_except_last_one g s = Done (list_ex (is_dead g s) [0..<seq_len s - 1])"
  using dead_code_eq [OF assms] contains_dead_code_eq [OF assms] by simp

text \<open>
  A small graph and a sequence on it, for the witnesses: \<open>c::new() -> S\<close> and
  \<open>c::push(&mut S, u8)\<close>, called one after the other.
\<close>

definition example_new :: api_function where
  "example_new = \<lparr>full_name = ''c::new'', af_generics = \<lparr>gen_params = [], where_predicates = []\<rparr>,
     inputs = [], output_ty = Some example_struct, trait_full_path = None, unsafe_tag = Normal\<rparr>"

definition example_push :: api_function where
  "example_push = \<lparr>full_name = ''c::push'', af_generics = \<lparr>gen_params = [], where_predicates = []\<rparr>,
     inputs = [BorrowedRef None Mut example_struct, Primitive U8], output_ty = None,
     trait_full_path = None, unsafe_tag = Normal\<rparr>"

definition example_graph :: api_graph where
  "example_graph = \<lparr>crate_name = ''c'', api_functions = [example_new, example_push],
     api_functions_visited = [False, False],
     api_dependencies = [\<lparr>output_fun = (ApiBareFunction, 0), input_fun = (ApiBareFunction, 1),
       input_param_index = 0, dep_call_type = CtMutBorrowedRef DirectCall\<rparr>],
     api_sequences = [], graph_names = example_fnm, graph_mods = example_mods,
     generic_functions = [], functions_with_unsupported_fuzzable_types = {}\<rparr>"

definition example_sequence :: api_sequence where
  "example_sequence = \<lparr>seq_functions =
       [\<lparr>func = (ApiBareFunction, 0), params = []\<rparr>,
        \<lparr>func = (ApiBareFunction, 1), params = [(FunctionReturn, 0, CtMutBorrowedRef DirectCall),
           (FuzzableParam, 0, DirectCall)]\<rparr>],
     fuzzable_params = [FtPrimitive U8], using_traits = [], seq_unsafe_tag = False, moved = {},
     fuzzable_mut_tag = {}, function_mut_tag = {0}, covered_dependencies = {0}\<rparr>"

lemma example_in_range: "in_range example_graph example_sequence"
  by (simp add: in_range_def call_in_range_def example_graph_def example_sequence_def seq_len_def
      example_new_def example_push_def returns_used_def)

theorem dead_code_exact_witness:
  "dead_code example_graph example_sequence = Done [False, True]"
proof -
  have "used_before example_sequence 2 0 = [1]" "used_before example_sequence 2 1 = []"
    by (simp_all add: used_before_def example_sequence_def returns_used_def numeral_2_eq_2)
  moreover have "\<not> keeps_alive example_graph example_sequence 1"
    by (simp add: keeps_alive_def last_use_def used_before_def example_graph_def example_sequence_def
        example_push_def returns_used_def numeral_2_eq_2)
  ultimately have "map (is_dead example_graph example_sequence) [0..<seq_len example_sequence] = [False, True]"
    by (simp add: is_dead_def seq_len_def numeral_2_eq_2 example_sequence_def)
  with dead_code_exact [OF example_in_range] show ?thesis by simp
qed

end
