(* ===== verification/Sequence_Wf.thy ===== *)
theory Sequence_Wf
  imports Api_Sequence
begin

text \<open>
  Well-formed call sequences, the invariant of the search: every argument of every call is a
  fuzzable variable of the right kind or the value of an earlier call along an edge of the
  graph, no value is used after it was moved, no call borrows a value in conflicting ways, each
  fuzzable variable is used once and in order, and the tags (\<open>mut\<close>, \<open>unsafe\<close>, traits) cover what
  the calls need. The invariant is closed under \<open>merge_sequences\<close>.
\<close>

section \<open>Accesses to the values of earlier calls\<close>

record access =
  acc_value :: nat
  acc_move :: bool
  acc_mut :: bool
  acc_shared :: bool

definition param_access :: "clean_type \<Rightarrow> nat \<Rightarrow> call_type \<Rightarrow> access" where
  "param_access ty k ct = \<lparr>acc_value = k, acc_move = move_condition ty ct,
     acc_mut = is_mutable_borrow_occurs ty ct, acc_shared = is_immutable_borrow_occurs ty ct\<rparr>"

fun accesses :: "clean_type list \<Rightarrow> call_param list \<Rightarrow> access list" where
  "accesses (ty # tys) ((FunctionReturn, k, ct) # ps) = param_access ty k ct # accesses tys ps"
| "accesses (ty # tys) ((FuzzableParam, k, ct) # ps) = accesses tys ps"
| "accesses _ _ = []"

text \<open>
  Two accesses to one value in the order they happen: after a move nothing, after a mutable
  borrow no other borrow or move, after a shared borrow no mutable borrow or move.
\<close>

definition compatible_accesses :: "access \<Rightarrow> access \<Rightarrow> bool" where
  "compatible_accesses a b \<longleftrightarrow> acc_value a = acc_value b \<longrightarrow>
     \<not> acc_move a \<and>
     (acc_mut a \<longrightarrow> \<not> acc_move b \<and> \<not> acc_mut b \<and> \<not> acc_shared b) \<and>
     (acc_shared a \<longrightarrow> \<not> acc_move b \<and> \<not> acc_mut b)"

definition borrow_ok :: "access list \<Rightarrow> bool" where
  "borrow_ok as = sorted_wrt compatible_accesses as"

definition no_use_after_move :: "access list \<Rightarrow> bool" where
  "no_use_after_move as = sorted_wrt (\<lambda>a b. acc_move a \<longrightarrow> acc_value a \<noteq> acc_value b) as"

definition moved_by :: "access list \<Rightarrow> nat set" where
  "moved_by as = acc_value ` set (filter acc_move as)"

definition fuzz_used :: "call_param list \<Rightarrow> nat list" where
  "fuzz_used ps = map (\<lambda>(pt, k, ct). k) (filter (\<lambda>(pt, k, ct). pt = FuzzableParam) ps)"

section \<open>Well-formed sequences\<close>

abbreviation called :: "api_graph \<Rightarrow> api_call \<Rightarrow> api_function" where
  "called g c \<equiv> api_functions g ! snd (func c)"

definition dep_between :: "api_call \<Rightarrow> api_call \<Rightarrow> nat \<Rightarrow> call_type \<Rightarrow> api_dependency" where
  "dep_between producer consumer p ct =
     \<lparr>output_fun = func producer, input_fun = func consumer, input_param_index = p, dep_call_type = ct\<rparr>"

definition param_ok :: "api_graph \<Rightarrow> api_sequence \<Rightarrow> nat \<Rightarrow> api_call \<Rightarrow> nat \<Rightarrow> call_param \<Rightarrow> bool" where
  "param_ok g s n c p entry = (case entry of (pt, k, ct) \<Rightarrow>
     (case pt of
        FunctionReturn \<Rightarrow> k < n \<and> dep_between (seq_functions s ! k) c p ct \<in> set (api_dependencies g) \<and>
          (need_mut_tag ct \<longrightarrow> k \<in> function_mut_tag s) \<and>
          (is_unsafe (unsafe_call_type ct) \<longrightarrow> seq_unsafe_tag s)
      | FuzzableParam \<Rightarrow> k < length (fuzzable_params s) \<and>
          generate_fuzzable_type_and_call_type (fuzzable_call_type (graph_names g) (inputs (called g c) ! p))
            = (fuzzable_params s ! k, ct) \<and>
          (need_mut_tag ct \<longrightarrow> k \<in> fuzzable_mut_tag s)))"

definition call_tags_ok :: "api_graph \<Rightarrow> api_sequence \<Rightarrow> api_call \<Rightarrow> bool" where
  "call_tags_ok g s c \<longleftrightarrow>
     (is_unsafe (unsafe_tag (called g c)) \<longrightarrow> seq_unsafe_tag s) \<and>
     (\<forall>t. trait_full_path (called g c) = Some t \<longrightarrow> t \<in> set (using_traits s))"

definition call_ok :: "api_graph \<Rightarrow> api_sequence \<Rightarrow> nat \<Rightarrow> api_call \<Rightarrow> bool" where
  "call_ok g s n c \<longleftrightarrow>
     snd (func c) < length (api_functions g) \<and>
     length (params c) = length (inputs (called g c)) \<and>
     (\<forall>p < length (params c). param_ok g s n c p (params c ! p)) \<and>
     borrow_ok (accesses (inputs (called g c)) (params c)) \<and>
     call_tags_ok g s c"

definition seq_accesses :: "api_graph \<Rightarrow> api_sequence \<Rightarrow> access list" where
  "seq_accesses g s = concat (map (\<lambda>c. accesses (inputs (called g c)) (params c)) (seq_functions s))"

definition fuzzable_ok :: "fuzzable_type \<Rightarrow> bool" where
  "fuzzable_ok ft \<longleftrightarrow> \<not> mentions_no_fuzzable ft \<and> \<not> is_multiple_dynamic_length ft"

definition wf_sequence :: "api_graph \<Rightarrow> api_sequence \<Rightarrow> bool" where
  "wf_sequence g s \<longleftrightarrow>
     (\<forall>n < seq_len s. call_ok g s n (seq_functions s ! n)) \<and>
     concat (map (\<lambda>c. fuzz_used (params c)) (seq_functions s)) = [0..<length (fuzzable_params s)] \<and>
     no_use_after_move (seq_accesses g s) \<and>
     moved s = moved_by (seq_accesses g s) \<and>
     list_all fuzzable_ok (fuzzable_params s) \<and>
     function_mut_tag s \<subseteq> {..<seq_len s} \<and>
     fuzzable_mut_tag s \<subseteq> {..<length (fuzzable_params s)} \<and>
     covered_dependencies s \<subseteq> {..<length (api_dependencies g)}"

lemma wf_seq_new: "wf_sequence g seq_new"
  by (simp add: wf_sequence_def seq_new_def seq_len_def seq_accesses_def no_use_after_move_def moved_by_def)

section \<open>Extending a sequence\<close>

text \<open>The calls of \<open>s\<close> stay well-formed in a sequence that only adds to \<open>s\<close>.\<close>

definition extends :: "api_sequence \<Rightarrow> api_sequence \<Rightarrow> bool" where
  "extends s s' \<longleftrightarrow>
     (\<exists>cs. seq_functions s' = seq_functions s @ cs) \<and>
     (\<exists>fts. fuzzable_params s' = fuzzable_params s @ fts) \<and>
     set (using_traits s) \<subseteq> set (using_traits s') \<and>
     (seq_unsafe_tag s \<longrightarrow> seq_unsafe_tag s') \<and>
     fuzzable_mut_tag s \<subseteq> fuzzable_mut_tag s' \<and>
     function_mut_tag s \<subseteq> function_mut_tag s'"

lemma extends_refl [simp]: "extends s s"
  by (simp add: extends_def)

lemma extends_trans: "extends s t \<Longrightarrow> extends t u \<Longrightarrow> extends s u"
  unfolding extends_def by (metis append.assoc subset_trans)

lemma param_ok_extends:
  "extends s s' \<Longrightarrow> n \<le> length (seq_functions s) \<Longrightarrow> param_ok g s n c p e \<Longrightarrow> param_ok g s' n c p e"
  by (auto simp: extends_def param_ok_def nth_append split: prod.splits param_type.splits)

lemma call_ok_extends:
  "extends s s' \<Longrightarrow> n \<le> length (seq_functions s) \<Longrightarrow> call_ok g s n c \<Longrightarrow> call_ok g s' n c"
  using param_ok_extends [of s s' n g c] by (auto simp: call_ok_def call_tags_ok_def extends_def)

section \<open>Merging sequences\<close>

definition shift_access :: "nat \<Rightarrow> access \<Rightarrow> access" where
  "shift_access n a = a\<lparr>acc_value := acc_value a + n\<rparr>"

lemma shift_access_simps [simp]:
  "acc_value (shift_access n a) = acc_value a + n" "acc_move (shift_access n a) = acc_move a"
  "acc_mut (shift_access n a) = acc_mut a" "acc_shared (shift_access n a) = acc_shared a"
  by (simp_all add: shift_access_def)

lemma accesses_shift:
  "accesses tys (map (shift_param n m) ps) = map (shift_access n) (accesses tys ps)"
  by (induction tys ps rule: accesses.induct)
    (auto simp: shift_param_def param_access_def shift_access_def)

lemma fuzz_used_shift: "fuzz_used (map (shift_param n m) ps) = map (\<lambda>k. k + m) (fuzz_used ps)"
  by (induction ps) (auto simp: fuzz_used_def shift_param_def split: param_type.splits)

lemma borrow_ok_shift: "borrow_ok (map (shift_access n) as) = borrow_ok as"
  by (simp add: borrow_ok_def sorted_wrt_map compatible_accesses_def [abs_def])

lemma no_use_after_move_shift: "no_use_after_move (map (shift_access n) as) = no_use_after_move as"
  by (simp add: no_use_after_move_def sorted_wrt_map)

lemma moved_by_shift: "moved_by (map (shift_access n) as) = (\<lambda>k. k + n) ` moved_by as"
  by (induction as) (auto simp: moved_by_def)

lemma moved_by_append [simp]: "moved_by (as @ bs) = moved_by as \<union> moved_by bs"
  by (auto simp: moved_by_def)

lemma no_use_after_move_append:
  "no_use_after_move (as @ bs) \<longleftrightarrow>
     no_use_after_move as \<and> no_use_after_move bs \<and> moved_by as \<inter> acc_value ` set bs = {}"
  by (fastforce simp: no_use_after_move_def moved_by_def sorted_wrt_append)

lemma accesses_from_returns:
  "a \<in> set (accesses tys ps) \<Longrightarrow> \<exists>ct. (FunctionReturn, acc_value a, ct) \<in> set ps"
  by (induction tys ps rule: accesses.induct) (auto simp: param_access_def)

lemma call_ok_value_bound:
  assumes "call_ok g s n c" "a \<in> set (accesses tys (params c))"
  shows "acc_value a < n"
proof -
  from accesses_from_returns [OF assms(2)] obtain ct p where
    p: "p < length (params c)" "params c ! p = (FunctionReturn, acc_value a, ct)"
    by (metis in_set_conv_nth)
  then have "param_ok g s n c p (FunctionReturn, acc_value a, ct)"
    using assms(1) by (metis call_ok_def)
  then show ?thesis by (simp add: param_ok_def)
qed

lemma seq_accesses_bound:
  assumes "wf_sequence g s" "a \<in> set (seq_accesses g s)"
  shows "acc_value a < seq_len s"
proof -
  from assms(2) obtain c where c: "c \<in> set (seq_functions s)"
      "a \<in> set (accesses (inputs (called g c)) (params c))"
    by (auto simp: seq_accesses_def)
  from c(1) obtain n where "n < seq_len s" "seq_functions s ! n = c"
    by (metis in_set_conv_nth seq_len_def)
  with c(2) have n: "n < seq_len s"
      "a \<in> set (accesses (inputs (called g (seq_functions s ! n))) (params (seq_functions s ! n)))"
    by simp_all
  then have "call_ok g s n (seq_functions s ! n)" using assms(1) by (simp add: wf_sequence_def)
  from call_ok_value_bound [OF this n(2)] n(1) show ?thesis by simp
qed

lemma merge_simps:
  "seq_functions (merge_another_sequence s t) = seq_functions s @
     map (shift_call (length (seq_functions s)) (length (fuzzable_params s))) (seq_functions t)"
  "fuzzable_params (merge_another_sequence s t) = fuzzable_params s @ fuzzable_params t"
  "using_traits (merge_another_sequence s t) = using_traits s @ using_traits t"
  "seq_unsafe_tag (merge_another_sequence s t) = (seq_unsafe_tag t \<or> seq_unsafe_tag s)"
  "moved (merge_another_sequence s t) = moved s \<union> (\<lambda>k. k + length (seq_functions s)) ` moved t"
  "fuzzable_mut_tag (merge_another_sequence s t) =
     fuzzable_mut_tag s \<union> (\<lambda>k. k + length (fuzzable_params s)) ` fuzzable_mut_tag t"
  "function_mut_tag (merge_another_sequence s t) =
     function_mut_tag s \<union> (\<lambda>k. k + length (seq_functions s)) ` function_mut_tag t"
  "covered_dependencies (merge_another_sequence s t) = covered_dependencies s"
  by (simp_all add: merge_another_sequence_def Let_def)

lemma merge_extends: "extends s (merge_another_sequence s t)"
  by (auto simp: extends_def merge_simps)

lemma shift_call_simps [simp]:
  "func (shift_call n m c) = func c" "params (shift_call n m c) = map (shift_param n m) (params c)"
  by (simp_all add: shift_call_def)

lemma param_ok_merge:
  assumes "param_ok g t n c p e" "n \<le> length (seq_functions t)"
  shows "param_ok g (merge_another_sequence s t) (n + length (seq_functions s))
     (shift_call (length (seq_functions s)) (length (fuzzable_params s)) c) p
     (shift_param (length (seq_functions s)) (length (fuzzable_params s)) e)"
  using assms
  by (auto simp: param_ok_def shift_param_def merge_simps nth_append dep_between_def
      split: prod.splits param_type.splits)

lemma call_ok_merge:
  assumes "call_ok g t n c" "n \<le> length (seq_functions t)"
  shows "call_ok g (merge_another_sequence s t) (n + length (seq_functions s))
     (shift_call (length (seq_functions s)) (length (fuzzable_params s)) c)"
  using assms param_ok_merge [of g t n c _ _ s]
  by (auto simp: call_ok_def call_tags_ok_def accesses_shift borrow_ok_shift merge_simps)

lemma seq_accesses_merge:
  "seq_accesses g (merge_another_sequence s t) =
     seq_accesses g s @ map (shift_access (length (seq_functions s))) (seq_accesses g t)"
  by (simp add: seq_accesses_def merge_simps map_concat comp_def accesses_shift)

lemma wf_merge_another:
  assumes s: "wf_sequence g s" and t: "wf_sequence g t"
  shows "wf_sequence g (merge_another_sequence s t)"
proof -
  let ?m = "merge_another_sequence s t" and ?N = "length (seq_functions s)"
  have calls: "call_ok g ?m n (seq_functions ?m ! n)" if "n < seq_len ?m" for n
  proof (cases "n < ?N")
    case True
    then show ?thesis
      using s call_ok_extends [OF merge_extends, of n s g "seq_functions s ! n" t]
      by (simp add: wf_sequence_def seq_len_def merge_simps nth_append)
  next
    case False
    then have n: "n - ?N < length (seq_functions t)" using that by (simp add: seq_len_def merge_simps)
    then have "call_ok g t (n - ?N) (seq_functions t ! (n - ?N))"
      using t by (simp add: wf_sequence_def seq_len_def)
    from call_ok_merge [OF this, of s] n False show ?thesis
      by (simp add: merge_simps nth_append)
  qed
  have "concat (map (\<lambda>c. fuzz_used (params c)) (seq_functions ?m)) =
      concat (map (\<lambda>c. fuzz_used (params c)) (seq_functions s)) @
      map (\<lambda>k. k + length (fuzzable_params s)) (concat (map (\<lambda>c. fuzz_used (params c)) (seq_functions t)))"
    by (simp add: merge_simps comp_def fuzz_used_shift map_concat)
  also have "\<dots> = [0..<length (fuzzable_params ?m)]"
    using s t upt_add_eq_append [of 0 "length (fuzzable_params s)" "length (fuzzable_params t)"]
    by (simp add: wf_sequence_def merge_simps map_add_upt add.commute)
  finally have fuzz: "concat (map (\<lambda>c. fuzz_used (params c)) (seq_functions ?m)) =
      [0..<length (fuzzable_params ?m)]" .
  have disjoint: "moved_by (seq_accesses g s) \<inter>
      acc_value ` set (map (shift_access ?N) (seq_accesses g t)) = {}"
    using seq_accesses_bound [OF s] by (fastforce simp: moved_by_def seq_len_def)
  have "no_use_after_move (seq_accesses g ?m)"
    using s t disjoint
    by (simp add: seq_accesses_merge no_use_after_move_append no_use_after_move_shift wf_sequence_def)
  moreover have "moved ?m = moved_by (seq_accesses g ?m)"
    using s t by (simp add: seq_accesses_merge moved_by_shift merge_simps wf_sequence_def)
  moreover have "function_mut_tag ?m \<subseteq> {..<seq_len ?m}" "fuzzable_mut_tag ?m \<subseteq> {..<length (fuzzable_params ?m)}"
    "covered_dependencies ?m \<subseteq> {..<length (api_dependencies g)}" "list_all fuzzable_ok (fuzzable_params ?m)"
    using s t by (auto simp: wf_sequence_def merge_simps seq_len_def)
  ultimately show ?thesis using calls fuzz by (simp add: wf_sequence_def)
qed

lemma wf_merge_fold:
  "wf_sequence g s \<Longrightarrow> list_all (wf_sequence g) ss \<Longrightarrow> wf_sequence g (foldl merge_another_sequence s ss)"
  by (induction ss arbitrary: s) (auto intro: wf_merge_another)

lemma wf_merge: "list_all (wf_sequence g) ss \<Longrightarrow> wf_sequence g (merge_sequences ss)"
  by (cases ss) (auto intro: wf_seq_new wf_merge_fold)

lemma wf_in_range:
  assumes "wf_sequence g s"
  shows "in_range g s"
proof -
  have "call_in_range g (seq_len s) (seq_functions s ! n)" if n: "n < seq_len s" for n
  proof -
    let ?c = "seq_functions s ! n"
    have ok: "call_ok g s n ?c" using assms n by (simp add: wf_sequence_def)
    have "k < seq_len s" if "k \<in> returns_used (params ?c)" for k
    proof -
      from that obtain ct where "(FunctionReturn, k, ct) \<in> set (params ?c)"
        by (auto simp: returns_used_def)
      then obtain p where "p < length (params ?c)" "params ?c ! p = (FunctionReturn, k, ct)"
        by (auto simp: in_set_conv_nth)
      then have "param_ok g s n ?c p (FunctionReturn, k, ct)" using ok by (metis call_ok_def)
      then show ?thesis using n by (simp add: param_ok_def)
    qed
    with ok show ?thesis by (simp add: call_in_range_def call_ok_def)
  qed
  then show ?thesis by (simp add: in_range_def list_all_length seq_len_def)
qed

end
