(* ===== verification/Api_Graph.thy ===== *)
theory Api_Graph
  imports Sequence_Wf
begin

text \<open>
  \<^verbatim>\<open>fuzz_target/api_graph.rs\<close>, first part: building the dependency graph (adding and filtering
  functions, finding the dependencies) and \<open>is_fun_satisfied\<close>, the extension of a sequence by one
  call. The searches are in \<open>Graph_Search\<close>, the choice of targets in \<open>Sequence_Choice\<close>.
\<close>

section \<open>Building the graph\<close>

definition graph_new :: "string \<Rightarrow> api_graph" where
  "graph_new crate = \<lparr>crate_name = crate, api_functions = [], api_functions_visited = [],
     api_dependencies = [], api_sequences = [], graph_names = fnm_new, graph_mods = mv_new crate,
     generic_functions = [], functions_with_unsupported_fuzzable_types = {}\<rparr>"

definition add_api_function :: "api_function \<Rightarrow> api_graph \<Rightarrow> api_graph" where
  "add_api_function api_fun g =
     (if is_generic_function api_fun
      then g\<lparr>generic_functions := generic_functions g @ [generic_function_from api_fun]\<rparr>
      else if contains_unsupported_fuzzable_type (graph_names g) api_fun
      then g\<lparr>functions_with_unsupported_fuzzable_types :=
             insert (full_name api_fun) (functions_with_unsupported_fuzzable_types g)\<rparr>
      else g\<lparr>api_functions := api_functions g @ [api_fun]\<rparr>)"

definition add_mod_visibility :: "string \<Rightarrow> visibility \<Rightarrow> api_graph \<Rightarrow> api_graph" where
  "add_mod_visibility mod_name visibility g =
     g\<lparr>graph_mods := add_one_mod mod_name visibility (graph_mods g)\<rparr>"

definition filter_functions_defined_on_prelude_type :: "api_graph \<Rightarrow> api_graph" where
  "filter_functions_defined_on_prelude_type g =
     (let prelude_types = get_all_preluded_type
      in if length prelude_types \<le> 0 then g
         else g\<lparr>api_functions := filter (is_defined_on_prelude_type (set prelude_types)) (api_functions g)\<rparr>)"

definition invisible_function :: "string list \<Rightarrow> api_function \<Rightarrow> bool" where
  "invisible_function invisible_mods f =
     list_ex (\<lambda>m. starts_with (full_name f) m \<or>
         (case trait_full_path f of Some trait_name \<Rightarrow> starts_with trait_name m | None \<Rightarrow> False))
       invisible_mods"

type_synonym mod_orders =
  "((string \<times> visibility) list \<Rightarrow> (string \<times> visibility) list) \<times>
   ((string \<times> bool) list \<Rightarrow> (string \<times> bool) list)"

definition filter_api_functions_by_mod_visibility :: "mod_orders \<Rightarrow> api_graph \<Rightarrow> api_graph outcome" where
  "filter_api_functions_by_mod_visibility its g =
     obind (get_invisible_mods (fst its) (snd its) (graph_mods g)) (\<lambda>invisible_mods.
       if length invisible_mods \<le> 0 then Done g
       else Done (g\<lparr>api_functions :=
              filter (\<lambda>f. \<not> invisible_function invisible_mods f) (api_functions g)\<rparr>))"

definition filter_functions :: "mod_orders \<Rightarrow> api_graph \<Rightarrow> api_graph outcome" where
  "filter_functions its g =
     filter_api_functions_by_mod_visibility its (filter_functions_defined_on_prelude_type g)"

definition set_full_name_map :: "full_name_map \<Rightarrow> api_graph \<Rightarrow> api_graph" where
  "set_full_name_map names g = g\<lparr>graph_names := names\<rparr>"

section \<open>Dependencies\<close>

text \<open>The three nested loops of \<open>find_all_dependencies\<close>, from the inside out.\<close>

definition dependencies_on_param ::
  "full_name_map \<Rightarrow> clean_type \<Rightarrow> api_function list \<Rightarrow> nat \<Rightarrow> nat \<Rightarrow> nat \<Rightarrow> api_dependency list" where
  "dependencies_on_param names output_type fns i j k =
     (let ct = same_type names output_type (inputs (fns ! j) ! k) True
      in case ct of
           NotCompatible \<Rightarrow> []
         | _ \<Rightarrow> [\<lparr>output_fun = (ApiBareFunction, i), input_fun = (ApiBareFunction, j),
                  input_param_index = k, dep_call_type = ct\<rparr>])"

definition dependencies_on_function ::
  "full_name_map \<Rightarrow> clean_type \<Rightarrow> api_function list \<Rightarrow> nat \<Rightarrow> nat \<Rightarrow> api_dependency list" where
  "dependencies_on_function names output_type fns i j =
     (if is_start_function names (fns ! j) then []
      else concat (map (dependencies_on_param names output_type fns i j) [0..<length (inputs (fns ! j))]))"

definition dependencies_from ::
  "full_name_map \<Rightarrow> api_function list \<Rightarrow> nat \<Rightarrow> api_dependency list" where
  "dependencies_from names fns i =
     (if is_end_function names (fns ! i) then []
      else (case output_ty (fns ! i) of
              Some ty \<Rightarrow> concat (map (dependencies_on_function names ty fns i) [0..<length fns])
            | None \<Rightarrow> []))"

definition find_all_dependencies :: "api_graph \<Rightarrow> api_graph" where
  "find_all_dependencies g =
     g\<lparr>api_dependencies :=
         concat (map (dependencies_from (graph_names g) (api_functions g)) [0..<length (api_functions g)])\<rparr>"

definition check_dependency ::
  "api_graph \<Rightarrow> api_type \<Rightarrow> nat \<Rightarrow> api_type \<Rightarrow> nat \<Rightarrow> nat \<Rightarrow> nat option" where
  "check_dependency g output_type output_index input_type input_index param_index =
     find (\<lambda>i. let dependency = api_dependencies g ! i
               in \<lparr>output_fun = (output_type, output_index), input_fun = (input_type, input_index),
                   input_param_index = param_index, dep_call_type = dep_call_type dependency\<rparr> = dependency)
       [0..<length (api_dependencies g)]"

definition is_sequence_ended :: "api_graph \<Rightarrow> api_sequence \<Rightarrow> bool outcome" where
  "is_sequence_ended g s =
     (if seq_functions s = [] then Done False
      else (case func (last (seq_functions s)) of (ApiBareFunction, i) \<Rightarrow>
        obind (get_index (api_functions g) i) (\<lambda>last_func.
          if is_end_function (graph_names g) last_func then Done True else Done False)))"

section \<open>Extending a sequence by a call\<close>

text \<open>
  The variables of \<open>is_fun_satisfied\<close> that change in its loops: the new sequence, the new call,
  and the values moved, mutably borrowed and immutably borrowed by the call so far.
\<close>

record fit_state =
  fit_seq :: api_sequence
  fit_call :: api_call
  fit_moved :: "nat set"
  fit_multi_mut :: "nat set"
  fit_immutable_borrow :: "nat set"

text \<open>The body of the inner loop once a dependency was found, on one value of the sequence.\<close>

definition take_dependency ::
  "clean_type \<Rightarrow> nat \<Rightarrow> nat \<Rightarrow> call_type \<Rightarrow> fit_state \<Rightarrow> bool \<times> fit_state" where
  "take_dependency current_ty function_index dependency_index ct st =
     (let st = st\<lparr>fit_seq := add_dependency dependency_index (fit_seq st)\<rparr>;
          borrowed = (function_index \<in> fit_multi_mut st \<or> function_index \<in> fit_immutable_borrow st)
      in if move_condition current_ty ct \<and> borrowed then (False, st)
      else let st = (if move_condition current_ty ct
                     then st\<lparr>fit_moved := insert function_index (fit_moved st)\<rparr> else st)
      in if is_mutable_borrow_occurs current_ty ct \<and> borrowed then (False, st)
      else let st = (if is_mutable_borrow_occurs current_ty ct
                     then st\<lparr>fit_multi_mut := insert function_index (fit_multi_mut st)\<rparr> else st)
      in if is_immutable_borrow_occurs current_ty ct \<and> function_index \<in> fit_multi_mut st then (False, st)
      else let st = (if is_immutable_borrow_occurs current_ty ct
                     then st\<lparr>fit_immutable_borrow := insert function_index (fit_immutable_borrow st)\<rparr>
                     else st);
               st = (if need_mut_tag ct
                     then st\<lparr>fit_seq := insert_function_mut_tag function_index (fit_seq st)\<rparr> else st);
               st = (if is_unsafe (unsafe_call_type ct)
                     then st\<lparr>fit_seq := set_unsafe (fit_seq st)\<rparr> else st)
      in (True, st\<lparr>fit_call := add_param FunctionReturn function_index ct (fit_call st)\<rparr>))"

definition try_function ::
  "api_graph \<Rightarrow> api_type \<Rightarrow> nat \<Rightarrow> nat \<Rightarrow> clean_type \<Rightarrow> nat \<Rightarrow> fit_state \<Rightarrow> (bool \<times> fit_state) outcome" where
  "try_function g input_type input_fun_index i current_ty function_index st =
     (if is_moved function_index (fit_seq st) \<or> function_index \<in> fit_moved st then Done (False, st)
      else obind (get_index (seq_functions (fit_seq st)) function_index) (\<lambda>found_function.
        (case check_dependency g (fst (func found_function)) (snd (func found_function))
                input_type input_fun_index i of
           None \<Rightarrow> Done (False, st)
         | Some dependency_index \<Rightarrow>
             obind (get_index (api_dependencies g) dependency_index) (\<lambda>dependency.
               Done (take_dependency current_ty function_index dependency_index
                       (dep_call_type dependency) st)))))"

fun dependency_loop ::
  "api_graph \<Rightarrow> api_type \<Rightarrow> nat \<Rightarrow> nat \<Rightarrow> clean_type \<Rightarrow> nat list \<Rightarrow> fit_state \<Rightarrow>
     (bool \<times> fit_state) outcome" where
  "dependency_loop g input_type input_fun_index i current_ty [] st = Done (False, st)"
| "dependency_loop g input_type input_fun_index i current_ty (j # js) st =
     obind (try_function g input_type input_fun_index i current_ty j st) (\<lambda>(found, st').
       if found then Done (True, st')
       else dependency_loop g input_type input_fun_index i current_ty js st')"

definition add_fuzzable :: "fuzzable_type \<Rightarrow> call_type \<Rightarrow> fit_state \<Rightarrow> fit_state" where
  "add_fuzzable ft ct st =
     (let current_fuzzable_index = length (fuzzable_params (fit_seq st));
          s = (if need_mut_tag ct then insert_fuzzable_mut_tag current_fuzzable_index (fit_seq st)
               else fit_seq st)
      in st\<lparr>fit_seq := s\<lparr>fuzzable_params := fuzzable_params s @ [ft]\<rparr>,
            fit_call := add_param FuzzableParam current_fuzzable_index ct (fit_call st)\<rparr>)"

text \<open>One parameter: \<open>None\<close> is the early \<open>return None\<close> of the function.\<close>

definition fit_param ::
  "api_graph \<Rightarrow> api_type \<Rightarrow> nat \<Rightarrow> api_sequence \<Rightarrow> clean_type list \<Rightarrow> nat \<Rightarrow> fit_state \<Rightarrow>
     fit_state option outcome" where
  "fit_param g input_type input_fun_index sequence input_params i st =
     obind (get_index input_params i) (\<lambda>current_ty.
       if is_fuzzable_type (graph_names g) current_ty
       then (case generate_fuzzable_type_and_call_type (fuzzable_call_type (graph_names g) current_ty) of
               (ft, ct) \<Rightarrow> if ft = NoFuzzable then Done None else Done (Some (add_fuzzable ft ct st)))
       else obind (dependency_loop g input_type input_fun_index i current_ty
                [0..<length (seq_functions sequence)] st) (\<lambda>(dependency_flag, st').
              if \<not> dependency_flag then Done None else Done (Some st')))"

fun fit_params ::
  "api_graph \<Rightarrow> api_type \<Rightarrow> nat \<Rightarrow> api_sequence \<Rightarrow> clean_type list \<Rightarrow> nat list \<Rightarrow> fit_state \<Rightarrow>
     fit_state option outcome" where
  "fit_params g input_type input_fun_index sequence input_params [] st = Done (Some st)"
| "fit_params g input_type input_fun_index sequence input_params (i # is) st =
     obind (fit_param g input_type input_fun_index sequence input_params i st) (\<lambda>r.
       (case r of
          None \<Rightarrow> Done None
        | Some st' \<Rightarrow> fit_params g input_type input_fun_index sequence input_params is st'))"

definition start_fit :: "api_function \<Rightarrow> nat \<Rightarrow> api_sequence \<Rightarrow> fit_state" where
  "start_fit input_function input_fun_index sequence =
     (let s = (if is_unsafe (unsafe_tag input_function) then set_unsafe sequence else sequence);
          s = (case trait_full_path input_function of Some path \<Rightarrow> add_trait path s | None \<Rightarrow> s)
      in \<lparr>fit_seq = s, fit_call = call_new input_fun_index, fit_moved = {}, fit_multi_mut = {},
          fit_immutable_borrow = {}\<rparr>)"

definition is_fun_satisfied ::
  "api_graph \<Rightarrow> api_type \<Rightarrow> nat \<Rightarrow> api_sequence \<Rightarrow> api_sequence option outcome" where
  "is_fun_satisfied g input_type input_fun_index sequence =
     obind (get_index (api_functions g) input_fun_index) (\<lambda>input_function.
       let st = start_fit input_function input_fun_index sequence;
           input_params = inputs input_function
       in if length input_params = 0 then Done (Some (add_fn (fit_call st) (fit_seq st)))
          else obind (fit_params g input_type input_fun_index sequence input_params
                   [0..<length input_params] st) (\<lambda>r.
            (case r of
               None \<Rightarrow> Done None
             | Some st \<Rightarrow>
                 let new_sequence = add_fn (fit_call st) (fit_seq st);
                     new_sequence = new_sequence\<lparr>moved := moved new_sequence \<union> fit_moved st\<rparr>
                 in if contains_multi_dynamic_length_fuzzable new_sequence then Done None
                    else Done (Some new_sequence))))"

section \<open>The dependencies are the edges\<close>

text \<open>
  The edges the graph should have: from a function that is not an end point to a parameter of a
  function that is not a start point, with the call type that makes its result usable there.
\<close>

definition edge :: "api_graph \<Rightarrow> api_dependency \<Rightarrow> bool" where
  "edge g d \<longleftrightarrow>
     (let i = snd (output_fun d); j = snd (input_fun d); k = input_param_index d; fns = api_functions g
      in i < length fns \<and> j < length fns \<and> k < length (inputs (fns ! j)) \<and>
         \<not> is_end_function (graph_names g) (fns ! i) \<and> \<not> is_start_function (graph_names g) (fns ! j) \<and>
         (case output_ty (fns ! i) of
            None \<Rightarrow> False
          | Some ty \<Rightarrow> dep_call_type d = same_type (graph_names g) ty (inputs (fns ! j) ! k) True \<and>
              dep_call_type d \<noteq> NotCompatible))"

lemma case_not_compatible:
  "(case c of NotCompatible \<Rightarrow> [] | _ \<Rightarrow> [x]) = (if c = NotCompatible then [] else [x])"
  by (cases c) simp_all

lemma set_dependencies_on_function:
  "d \<in> set (dependencies_on_function names ty fns i j) \<longleftrightarrow>
     (\<exists>k < length (inputs (fns ! j)). \<not> is_start_function names (fns ! j) \<and>
        same_type names ty (inputs (fns ! j) ! k) True \<noteq> NotCompatible \<and>
        d = \<lparr>output_fun = (ApiBareFunction, i), input_fun = (ApiBareFunction, j), input_param_index = k,
             dep_call_type = same_type names ty (inputs (fns ! j) ! k) True\<rparr>)"
  by (auto simp: dependencies_on_function_def dependencies_on_param_def case_not_compatible Let_def
      split: if_splits)

lemma api_type_only [simp]: "t = ApiBareFunction"
  by (cases t) simp

lemma set_find_all_dependencies:
  "d \<in> set (api_dependencies (find_all_dependencies g)) \<longleftrightarrow> edge g d"
proof
  assume "d \<in> set (api_dependencies (find_all_dependencies g))"
  then show "edge g d"
    by (auto simp: find_all_dependencies_def dependencies_from_def edge_def set_dependencies_on_function
        Let_def split: if_splits option.splits) metis
next
  assume e: "edge g d"
  then obtain ty where ty: "output_ty (api_functions g ! snd (output_fun d)) = Some ty"
    by (auto simp: edge_def Let_def split: option.splits)
  have "d \<in> set (dependencies_on_function (graph_names g) ty (api_functions g)
      (snd (output_fun d)) (snd (input_fun d)))"
    unfolding set_dependencies_on_function
    using e ty by (intro exI [of _ "input_param_index d"]) (auto simp: edge_def Let_def prod_eq_iff)
  with e ty have "d \<in> set (dependencies_from (graph_names g) (api_functions g) (snd (output_fun d)))"
    by (auto simp: dependencies_from_def edge_def Let_def)
  with e show "d \<in> set (api_dependencies (find_all_dependencies g))"
    by (auto simp: find_all_dependencies_def edge_def Let_def)
qed

lemma dep_record_iff:
  "\<lparr>output_fun = a, input_fun = b, input_param_index = k, dep_call_type = dep_call_type d\<rparr> =
     (d :: api_dependency) \<longleftrightarrow> output_fun d = a \<and> input_fun d = b \<and> input_param_index d = k"
  by (cases d) auto

lemma check_dependency_Some:
  assumes "check_dependency g t i u j k = Some n"
  shows "n < length (api_dependencies g)" "output_fun (api_dependencies g ! n) = (t, i)"
    "input_fun (api_dependencies g ! n) = (u, j)" "input_param_index (api_dependencies g ! n) = k"
  using assms unfolding check_dependency_def Let_def dep_record_iff by (auto simp: find_Some_iff)

lemma check_dependency_None:
  "check_dependency g t i u j k = None \<longleftrightarrow>
     (\<forall>d \<in> set (api_dependencies g). \<not> (output_fun d = (t, i) \<and> input_fun d = (u, j) \<and> input_param_index d = k))"
  unfolding check_dependency_def Let_def dep_record_iff find_None_iff all_set_conv_all_nth by auto

text \<open>
  C13: \<open>find_all_dependencies\<close> is sound and complete: after it the graph has exactly the edges, one
  entry per pair of functions and parameter, and \<open>check_dependency\<close> finds the entry of a pair and
  a parameter exactly when the pair has an edge there.
\<close>

theorem find_all_dependencies_exact:
  "set (api_dependencies (find_all_dependencies g)) = {d. edge g d} \<and>
   (case check_dependency (find_all_dependencies g) t i u j k of
      Some n \<Rightarrow> n < length (api_dependencies (find_all_dependencies g)) \<and>
        edge g (api_dependencies (find_all_dependencies g) ! n) \<and>
        output_fun (api_dependencies (find_all_dependencies g) ! n) = (t, i) \<and>
        input_fun (api_dependencies (find_all_dependencies g) ! n) = (u, j) \<and>
        input_param_index (api_dependencies (find_all_dependencies g) ! n) = k
    | None \<Rightarrow> \<not> (\<exists>d. edge g d \<and> output_fun d = (t, i) \<and> input_fun d = (u, j) \<and> input_param_index d = k))"
proof -
  have "set (api_dependencies (find_all_dependencies g)) = {d. edge g d}"
    using set_find_all_dependencies by blast
  moreover from this have "edge g (api_dependencies (find_all_dependencies g) ! n)"
    if "n < length (api_dependencies (find_all_dependencies g))" for n
    using that nth_mem by blast
  ultimately show ?thesis
    using check_dependency_Some [of "find_all_dependencies g" t i u j k]
      check_dependency_None [of "find_all_dependencies g" t i u j k]
    by (cases "check_dependency (find_all_dependencies g) t i u j k") auto
qed

section \<open>What a call may take\<close>

lemma mut_shared_exclusive:
  "is_mutable_borrow_occurs ty ct \<Longrightarrow> \<not> is_immutable_borrow_occurs ty ct"
  by (auto simp: is_mutable_borrow_occurs_def is_immutable_borrow_occurs_def split: if_splits)

text \<open>The test \<open>take_dependency\<close> makes in three steps, and the state after it succeeds.\<close>

definition acceptable :: "clean_type \<Rightarrow> nat \<Rightarrow> call_type \<Rightarrow> fit_state \<Rightarrow> bool" where
  "acceptable ty k ct st \<longleftrightarrow>
     (move_condition ty ct \<or> is_mutable_borrow_occurs ty ct \<longrightarrow>
        k \<notin> fit_multi_mut st \<and> k \<notin> fit_immutable_borrow st) \<and>
     (is_immutable_borrow_occurs ty ct \<longrightarrow> k \<notin> fit_multi_mut st)"

definition accept :: "clean_type \<Rightarrow> nat \<Rightarrow> nat \<Rightarrow> call_type \<Rightarrow> fit_state \<Rightarrow> fit_state" where
  "accept ty k d ct st =
     (let s = add_dependency d (fit_seq st);
          s = (if need_mut_tag ct then insert_function_mut_tag k s else s);
          s = (if is_unsafe (unsafe_call_type ct) then set_unsafe s else s)
      in \<lparr>fit_seq = s, fit_call = add_param FunctionReturn k ct (fit_call st),
          fit_moved = (if move_condition ty ct then insert k (fit_moved st) else fit_moved st),
          fit_multi_mut = (if is_mutable_borrow_occurs ty ct then insert k (fit_multi_mut st)
                           else fit_multi_mut st),
          fit_immutable_borrow = (if is_immutable_borrow_occurs ty ct
                           then insert k (fit_immutable_borrow st) else fit_immutable_borrow st)\<rparr>)"

lemma take_dependency_eq:
  "take_dependency ty k d ct st =
     (if acceptable ty k ct st then (True, accept ty k d ct st)
      else (False, st\<lparr>fit_seq := add_dependency d (fit_seq st)\<rparr>))"
  using mut_shared_exclusive [of ty ct]
  by (cases st) (auto simp: take_dependency_def acceptable_def accept_def Let_def)

lemma accesses_snoc:
  "length ps < length tys \<Longrightarrow> accesses tys (ps @ [(pt, k, ct)]) = accesses tys ps @
     (if pt = FunctionReturn then [param_access (tys ! length ps) k ct] else [])"
proof (induction ps arbitrary: tys)
  case Nil
  then obtain ty tys' where "tys = ty # tys'" by (cases tys) auto
  then show ?case by (cases pt) simp_all
next
  case (Cons p ps)
  obtain qt j dt where p: "p = (qt, j, dt)" by (cases p)
  obtain ty tys' where "tys = ty # tys'" using Cons.prems by (cases tys) auto
  with Cons p show ?case by (cases qt) simp_all
qed

lemma fuzz_used_snoc:
  "fuzz_used (ps @ [(pt, k, ct)]) = fuzz_used ps @ (if pt = FuzzableParam then [k] else [])"
  by (simp add: fuzz_used_def)

lemma param_ok_func: "func c = func c' \<Longrightarrow> param_ok g s n c p e = param_ok g s n c' p e"
  by (simp add: param_ok_def dep_between_def split: prod.splits param_type.splits)

section \<open>The loops of is\_fun\_satisfied keep the invariant\<close>

text \<open>The sequence and the call under construction, apart from the borrow sets.\<close>

definition fit_seq_ok :: "api_graph \<Rightarrow> api_sequence \<Rightarrow> api_sequence \<Rightarrow> api_call \<Rightarrow> bool" where
  "fit_seq_ok g s q c \<longleftrightarrow>
     extends s q \<and> seq_functions q = seq_functions s \<and> moved q = moved s \<and>
     (\<forall>p < length (params c). param_ok g q (seq_len s) c p (params c ! p)) \<and>
     fuzz_used (params c) = [length (fuzzable_params s)..<length (fuzzable_params q)] \<and>
     call_tags_ok g q c \<and>
     list_all (\<lambda>ft. \<not> mentions_no_fuzzable ft) (fuzzable_params q) \<and>
     function_mut_tag q \<subseteq> {..<seq_len s} \<and>
     fuzzable_mut_tag q \<subseteq> {..<length (fuzzable_params q)} \<and>
     covered_dependencies q \<subseteq> {..<length (api_dependencies g)}"

definition fit_borrows_ok :: "api_sequence \<Rightarrow> access list \<Rightarrow> fit_state \<Rightarrow> bool" where
  "fit_borrows_ok s as st \<longleftrightarrow>
     borrow_ok as \<and> (\<forall>a \<in> set as. acc_value a \<notin> moved s) \<and>
     fit_moved st = moved_by as \<and>
     fit_multi_mut st = acc_value ` set (filter acc_mut as) \<and>
     fit_immutable_borrow st = acc_value ` set (filter acc_shared as)"

definition fit_ok :: "api_graph \<Rightarrow> api_sequence \<Rightarrow> nat \<Rightarrow> nat \<Rightarrow> fit_state \<Rightarrow> bool" where
  "fit_ok g s fi i st \<longleftrightarrow>
     func (fit_call st) = (ApiBareFunction, fi) \<and> length (params (fit_call st)) = i \<and>
     fit_seq_ok g s (fit_seq st) (fit_call st) \<and>
     fit_borrows_ok s (accesses (inputs (api_functions g ! fi)) (params (fit_call st))) st"

lemma all_less_snoc:
  "(\<forall>p < length (xs @ [x]). P p ((xs @ [x]) ! p)) \<longleftrightarrow> (\<forall>p < length xs. P p (xs ! p)) \<and> P (length xs) x"
  by (auto simp: nth_append less_Suc_eq)

lemma fit_seq_ok_grow:
  assumes ok: "fit_seq_ok g s q c" and ext: "extends q q'"
    and same: "seq_functions q' = seq_functions q" "moved q' = moved q" "fuzzable_params q' = fuzzable_params q"
    and tags: "function_mut_tag q' \<subseteq> {..<seq_len s}" "fuzzable_mut_tag q' \<subseteq> {..<length (fuzzable_params q)}"
      "covered_dependencies q' \<subseteq> {..<length (api_dependencies g)}"
  shows "fit_seq_ok g s q' c"
proof -
  have "param_ok g q' (seq_len s) c p e" if "param_ok g q (seq_len s) c p e" for p e
    using param_ok_extends [OF ext] ok that by (simp add: fit_seq_ok_def seq_len_def)
  moreover have "extends s q'" using ok ext extends_trans by (auto simp: fit_seq_ok_def)
  moreover have "call_tags_ok g q' c"
    using ok ext by (auto simp: fit_seq_ok_def call_tags_ok_def extends_def)
  ultimately show ?thesis using ok same tags by (auto simp: fit_seq_ok_def)
qed

lemma fit_seq_ok_add_param:
  assumes "fit_seq_ok g s q c" "param_ok g q (seq_len s) c (length (params c)) (FunctionReturn, k, ct)"
  shows "fit_seq_ok g s q (add_param FunctionReturn k ct c)"
proof -
  have "param_ok g q (seq_len s) (c\<lparr>params := ps\<rparr>) p e = param_ok g q (seq_len s) c p e" for ps p e
    by (rule param_ok_func) simp
  then show ?thesis
    using assms
    by (simp add: fit_seq_ok_def add_param_def fuzz_used_snoc call_tags_ok_def nth_append less_Suc_eq)
qed

lemma extends_seq_updates:
  "extends q (add_dependency d q)" "extends q (set_unsafe q)" "extends q (insert_function_mut_tag k q)"
  by (auto simp: extends_def seq_update_defs)

lemma fit_seq_ok_dependency:
  "fit_seq_ok g s q c \<Longrightarrow> d < length (api_dependencies g) \<Longrightarrow> fit_seq_ok g s (add_dependency d q) c"
  by (rule fit_seq_ok_grow [OF _ extends_seq_updates(1)], assumption)
    (auto simp: add_dependency_def fit_seq_ok_def)

lemma fit_reject:
  "fit_ok g s fi i st \<Longrightarrow> d < length (api_dependencies g) \<Longrightarrow>
     fit_ok g s fi i (st\<lparr>fit_seq := add_dependency d (fit_seq st)\<rparr>)"
  by (simp add: fit_ok_def fit_borrows_ok_def fit_seq_ok_dependency)

lemma borrows_accept:
  assumes ok: "fit_borrows_ok s as st" and k: "k \<notin> moved s" "k \<notin> fit_moved st"
    and acc: "acceptable ty k ct st"
  shows "fit_borrows_ok s (as @ [param_access ty k ct]) (accept ty k d ct st)"
proof -
  have "compatible_accesses a (param_access ty k ct)" if a: "a \<in> set as" for a
  proof (cases "acc_value a = k")
    case True
    then have "\<not> acc_move a" "acc_mut a \<Longrightarrow> k \<in> fit_multi_mut st" "acc_shared a \<Longrightarrow> k \<in> fit_immutable_borrow st"
      using ok k a by (auto simp: fit_borrows_ok_def moved_by_def)
    then show ?thesis using acc by (auto simp: compatible_accesses_def param_access_def acceptable_def)
  qed (simp add: compatible_accesses_def param_access_def)
  then have "borrow_ok (as @ [param_access ty k ct])"
    using ok by (simp add: fit_borrows_ok_def borrow_ok_def sorted_wrt_append)
  then show ?thesis
    using ok k by (auto simp: fit_borrows_ok_def accept_def Let_def moved_by_def param_access_def)
qed

lemma fit_accept:
  assumes ok: "fit_ok g s fi i st" and i: "i < length (inputs (api_functions g ! fi))"
    and k: "k < seq_len s" "k \<notin> moved s" "k \<notin> fit_moved st"
    and d: "d < length (api_dependencies g)"
      "dep_between (seq_functions s ! k) (fit_call st) i ct \<in> set (api_dependencies g)"
    and acc: "acceptable (inputs (api_functions g ! fi) ! i) k ct st"
  shows "fit_ok g s fi (Suc i) (accept (inputs (api_functions g ! fi) ! i) k d ct st)"
proof -
  let ?ty = "inputs (api_functions g ! fi) ! i"
  let ?st = "accept ?ty k d ct st"
  have "fit_seq_ok g s (fit_seq ?st) (fit_call st)"
  proof (rule fit_seq_ok_grow)
    show "fit_seq_ok g s (fit_seq st) (fit_call st)" using ok by (simp add: fit_ok_def)
    show "extends (fit_seq st) (fit_seq ?st)"
      by (auto simp: accept_def Let_def extends_def seq_update_defs)
  qed (use ok k(1) d(1) in \<open>auto simp: accept_def Let_def seq_update_defs fit_ok_def fit_seq_ok_def\<close>)
  moreover have "param_ok g (fit_seq ?st) (seq_len s) (fit_call st) i (FunctionReturn, k, ct)"
    using ok k(1) d(2)
    by (auto simp: param_ok_def accept_def Let_def seq_update_defs fit_ok_def fit_seq_ok_def)
  ultimately have "fit_seq_ok g s (fit_seq ?st) (fit_call ?st)"
    using ok fit_seq_ok_add_param by (simp add: fit_ok_def accept_def Let_def)
  moreover have "accesses (inputs (api_functions g ! fi)) (params (fit_call ?st)) =
      accesses (inputs (api_functions g ! fi)) (params (fit_call st)) @ [param_access ?ty k ct]"
    using ok i by (simp add: fit_ok_def accept_def Let_def add_param_def accesses_snoc)
  ultimately show ?thesis
    using ok borrows_accept [OF _ k(2,3) acc, of _ d]
    by (simp add: fit_ok_def) (simp add: accept_def Let_def add_param_def)
qed

lemma try_function_ok:
  assumes ok: "fit_ok g s fi i st" and i: "i < length (inputs (api_functions g ! fi))"
    and k: "k < seq_len s"
  shows "\<exists>found st'. try_function g ApiBareFunction fi i (inputs (api_functions g ! fi) ! i) k st =
       Done (found, st') \<and> fit_ok g s fi (if found then Suc i else i) st'"
proof -
  let ?ty = "inputs (api_functions g ! fi) ! i" and ?c = "seq_functions s ! k"
  have fs: "seq_functions (fit_seq st) = seq_functions s" "moved (fit_seq st) = moved s"
    and c: "func (fit_call st) = (ApiBareFunction, fi)"
    using ok by (auto simp: fit_ok_def fit_seq_ok_def)
  consider (moved) "k \<in> moved s \<or> k \<in> fit_moved st"
    | (none) "k \<notin> moved s" "k \<notin> fit_moved st"
        "check_dependency g (fst (func ?c)) (snd (func ?c)) ApiBareFunction fi i = None"
    | (some) d where "k \<notin> moved s" "k \<notin> fit_moved st"
        "check_dependency g (fst (func ?c)) (snd (func ?c)) ApiBareFunction fi i = Some d"
    by (cases "check_dependency g (fst (func ?c)) (snd (func ?c)) ApiBareFunction fi i") blast+
  then show ?thesis
  proof cases
    case moved
    then show ?thesis using ok fs by (auto simp: try_function_def is_moved_def)
  next
    case none
    then show ?thesis using ok fs k by (auto simp: try_function_def is_moved_def seq_len_def)
  next
    case (some d)
    let ?ct = "dep_call_type (api_dependencies g ! d)"
    note cd = check_dependency_Some [OF some(3)]
    have dep: "dep_between ?c (fit_call st) i ?ct = api_dependencies g ! d"
      using cd c by (simp add: dep_between_def dep_record_iff)
    have eq: "try_function g ApiBareFunction fi i ?ty k st = Done (take_dependency ?ty k d ?ct st)"
      using some fs k cd by (simp add: try_function_def is_moved_def seq_len_def)
    show ?thesis
    proof (cases "acceptable ?ty k ?ct st")
      case True
      then have "fit_ok g s fi (Suc i) (accept ?ty k d ?ct st)"
        using fit_accept [OF ok i k some(1,2) cd(1)] dep nth_mem [OF cd(1)] by simp
      then show ?thesis using True by (auto simp: eq take_dependency_eq)
    next
      case False
      then show ?thesis using fit_reject [OF ok cd(1)] by (auto simp: eq take_dependency_eq)
    qed
  qed
qed

lemma dependency_loop_ok:
  assumes "fit_ok g s fi i st" "i < length (inputs (api_functions g ! fi))" "\<forall>k \<in> set ks. k < seq_len s"
  shows "\<exists>found st'. dependency_loop g ApiBareFunction fi i (inputs (api_functions g ! fi) ! i) ks st =
       Done (found, st') \<and> fit_ok g s fi (if found then Suc i else i) st'"
  using assms
proof (induction ks arbitrary: st)
  case (Cons k ks)
  obtain found st1 where 1: "try_function g ApiBareFunction fi i (inputs (api_functions g ! fi) ! i) k st =
      Done (found, st1)" "fit_ok g s fi (if found then Suc i else i) st1"
    using try_function_ok [OF Cons.prems(1,2), of k] Cons.prems(3) by auto
  show ?case using 1 Cons.IH [of st1] Cons.prems by (cases found) auto
qed auto

lemma fit_fuzzable:
  assumes ok: "fit_ok g s fi i st" and i: "i < length (inputs (api_functions g ! fi))"
    and gen: "generate_fuzzable_type_and_call_type
       (fuzzable_call_type (graph_names g) (inputs (api_functions g ! fi) ! i)) = (ft, ct)" "ft \<noteq> NoFuzzable"
  shows "fit_ok g s fi (Suc i) (add_fuzzable ft ct st)"
proof -
  let ?q = "fit_seq st" and ?c = "fit_call st" and ?st = "add_fuzzable ft ct st"
  let ?n = "length (fuzzable_params ?q)"
  have q: "fit_seq_ok g s ?q ?c" and c: "func ?c = (ApiBareFunction, fi)" "length (params ?c) = i"
    using ok by (auto simp: fit_ok_def)
  have usable: "\<not> mentions_no_fuzzable ft"
    using generate_ok_slice [of "fuzzable_call_type (graph_names g) (inputs (api_functions g ! fi) ! i)"] gen
    by simp
  have ext: "extends ?q (fit_seq ?st)"
    by (auto simp: add_fuzzable_def Let_def extends_def seq_update_defs)
  have fc: "func (fit_call ?st) = func ?c" "params (fit_call ?st) = params ?c @ [(FuzzableParam, ?n, ct)]"
    by (simp_all add: add_fuzzable_def add_param_def Let_def)
  have old: "param_ok g (fit_seq ?st) (seq_len s) (fit_call ?st) p (params ?c ! p)" if "p < i" for p
    using param_ok_extends [OF ext, of "seq_len s" g ?c p] q that c param_ok_func [OF fc(1)]
    by (auto simp: fit_seq_ok_def seq_len_def)
  have new: "param_ok g (fit_seq ?st) (seq_len s) (fit_call ?st) i (FuzzableParam, ?n, ct)"
    using gen c by (auto simp: param_ok_def add_fuzzable_def Let_def seq_update_defs)
  have "fit_seq_ok g s (fit_seq ?st) (fit_call ?st)"
    unfolding fit_seq_ok_def
  proof (intro conjI)
    show "extends s (fit_seq ?st)" using q ext extends_trans by (auto simp: fit_seq_ok_def)
    show "\<forall>p < length (params (fit_call ?st)). param_ok g (fit_seq ?st) (seq_len s) (fit_call ?st) p
        (params (fit_call ?st) ! p)"
      using old new c(2) by (auto simp: fc nth_append less_Suc_eq)
    show "fuzz_used (params (fit_call ?st)) = [length (fuzzable_params s)..<length (fuzzable_params (fit_seq ?st))]"
      using q by (auto simp: fc fuzz_used_snoc add_fuzzable_def Let_def seq_update_defs fit_seq_ok_def extends_def)
    show "call_tags_ok g (fit_seq ?st) (fit_call ?st)"
      using q by (auto simp: fc fit_seq_ok_def call_tags_ok_def add_fuzzable_def Let_def seq_update_defs)
  qed (use q usable in \<open>auto simp: fit_seq_ok_def add_fuzzable_def Let_def seq_update_defs\<close>)
  then show ?thesis
    using ok i c by (auto simp: fit_ok_def fc accesses_snoc fit_borrows_ok_def)
      (auto simp: add_fuzzable_def Let_def)
qed

lemma fit_param_ok:
  assumes "fit_ok g s fi i st" "i < length (inputs (api_functions g ! fi))"
  shows "\<exists>r. fit_param g ApiBareFunction fi s (inputs (api_functions g ! fi)) i st = Done r \<and>
     (\<forall>st'. r = Some st' \<longrightarrow> fit_ok g s fi (Suc i) st')"
proof (cases "is_fuzzable_type (graph_names g) (inputs (api_functions g ! fi) ! i)")
  case True
  then show ?thesis
    using assms fit_fuzzable [OF assms] by (auto simp: fit_param_def split: prod.split)
next
  case False
  obtain found st' where "dependency_loop g ApiBareFunction fi i (inputs (api_functions g ! fi) ! i)
      [0..<length (seq_functions s)] st = Done (found, st')" "fit_ok g s fi (if found then Suc i else i) st'"
    using dependency_loop_ok [OF assms, of "[0..<length (seq_functions s)]"] by (auto simp: seq_len_def)
  then show ?thesis using False assms(2) by (cases found) (auto simp: fit_param_def)
qed

lemma fit_params_ok:
  "fit_ok g s fi i st \<Longrightarrow> i \<le> length (inputs (api_functions g ! fi)) \<Longrightarrow>
     \<exists>r. fit_params g ApiBareFunction fi s (inputs (api_functions g ! fi))
          [i..<length (inputs (api_functions g ! fi))] st = Done r \<and>
       (\<forall>st'. r = Some st' \<longrightarrow> fit_ok g s fi (length (inputs (api_functions g ! fi))) st')"
proof (induction "length (inputs (api_functions g ! fi)) - i" arbitrary: i st)
  case 0
  then show ?case by simp
next
  case (Suc n)
  then have i: "i < length (inputs (api_functions g ! fi))" by simp
  obtain r where r: "fit_param g ApiBareFunction fi s (inputs (api_functions g ! fi)) i st = Done r"
      "\<forall>st'. r = Some st' \<longrightarrow> fit_ok g s fi (Suc i) st'"
    using fit_param_ok [OF Suc.prems(1) i] by blast
  show ?case
  proof (cases r)
    case None
    with r i show ?thesis by (simp add: upt_conv_Cons)
  next
    case (Some st')
    with r Suc.hyps(1) [of "Suc i" st'] Suc.hyps(2) i show ?thesis by (simp add: upt_conv_Cons)
  qed
qed

lemma start_fit_ok:
  assumes "wf_sequence g s" "fi < length (api_functions g)"
  shows "fit_ok g s fi 0 (start_fit (api_functions g ! fi) fi s)"
  using assms
  by (auto simp: fit_ok_def fit_seq_ok_def fit_borrows_ok_def start_fit_def Let_def seq_update_defs
      extends_def fuzz_used_def borrow_ok_def moved_by_def call_tags_ok_def wf_sequence_def
      fuzzable_ok_def list_all_iff split: option.split)

lemma borrow_ok_moves: "borrow_ok as \<Longrightarrow> no_use_after_move as"
  unfolding borrow_ok_def no_use_after_move_def
  by (rule sorted_wrt_mono_rel) (auto simp: compatible_accesses_def)

text \<open>A sequence with the finished call is well-formed again.\<close>

lemma fit_finish:
  assumes s: "wf_sequence g s" and fi: "fi < length (api_functions g)"
    and ok: "fit_ok g s fi (length (inputs (api_functions g ! fi))) st"
    and nd: "list_all (\<lambda>ft. \<not> is_multiple_dynamic_length ft) (fuzzable_params (fit_seq st))"
    and new: "new = add_fn (fit_call st) ((fit_seq st)\<lparr>moved := moved (fit_seq st) \<union> fit_moved st\<rparr>)"
  shows "wf_sequence g new"
proof -
  let ?q = "fit_seq st" and ?c = "fit_call st"
  let ?as = "accesses (inputs (api_functions g ! fi)) (params ?c)"
  have q: "fit_seq_ok g s ?q ?c" and b: "fit_borrows_ok s ?as st"
    and c: "func ?c = (ApiBareFunction, fi)" "length (params ?c) = length (inputs (api_functions g ! fi))"
    using ok by (auto simp: fit_ok_def)
  have parts: "seq_functions new = seq_functions s @ [?c]" "fuzzable_params new = fuzzable_params ?q"
    "moved new = moved s \<union> moved_by ?as" "function_mut_tag new = function_mut_tag ?q"
    "fuzzable_mut_tag new = fuzzable_mut_tag ?q" "covered_dependencies new = covered_dependencies ?q"
    using q b by (simp_all add: new add_fn_def fit_seq_ok_def fit_borrows_ok_def)
  have ext: "extends ?q new" by (simp add: extends_def new add_fn_def)
  have ext': "extends s new" using ext q extends_trans by (auto simp: fit_seq_ok_def)
  have "param_ok g new (seq_len s) ?c p (params ?c ! p)" if "p < length (params ?c)" for p
    using param_ok_extends [OF ext, of "seq_len s"] q that by (auto simp: fit_seq_ok_def seq_len_def)
  then have "call_ok g new (seq_len s) ?c"
    using q b c fi ext by (auto simp: call_ok_def fit_borrows_ok_def fit_seq_ok_def call_tags_ok_def extends_def)
  moreover have "call_ok g new n (seq_functions s ! n)" if "n < seq_len s" for n
    using call_ok_extends [OF ext'] s that by (simp add: wf_sequence_def seq_len_def)
  ultimately have calls: "\<forall>n < seq_len new. call_ok g new n (seq_functions new ! n)"
    by (simp add: seq_len_def parts nth_append less_Suc_eq)
  have acc: "seq_accesses g new = seq_accesses g s @ ?as"
    using c by (simp add: seq_accesses_def parts)
  have "moved_by (seq_accesses g s) \<inter> acc_value ` set ?as = {}"
    using s b by (auto simp: wf_sequence_def fit_borrows_ok_def)
  then have "no_use_after_move (seq_accesses g new)" "moved new = moved_by (seq_accesses g new)"
    using s b borrow_ok_moves
    by (simp_all add: acc parts no_use_after_move_append wf_sequence_def fit_borrows_ok_def)
  moreover have "concat (map (\<lambda>c. fuzz_used (params c)) (seq_functions new)) = [0..<length (fuzzable_params new)]"
    using s q by (auto simp: parts wf_sequence_def fit_seq_ok_def extends_def upt_add_eq_append [of 0])
  moreover have "list_all fuzzable_ok (fuzzable_params new)"
    using q nd by (auto simp: parts fit_seq_ok_def list_all_iff fuzzable_ok_def)
  ultimately show ?thesis
    using calls q by (auto simp: wf_sequence_def fit_seq_ok_def seq_len_def parts)
qed

lemma is_fun_satisfied_lemma:
  assumes s: "wf_sequence g s" and fi: "fi < length (api_functions g)"
  shows "\<exists>r. is_fun_satisfied g ApiBareFunction fi s = Done r \<and>
     (\<forall>new. r = Some new \<longrightarrow> wf_sequence g new \<and>
        (\<exists>c. seq_functions new = seq_functions s @ [c] \<and> func c = (ApiBareFunction, fi)))"
proof -
  let ?f = "api_functions g ! fi"
  let ?st = "start_fit ?f fi s"
  have start: "fit_ok g s fi 0 ?st" by (rule start_fit_ok [OF s fi])
  have result: "wf_sequence g new \<and> (\<exists>c. seq_functions new = seq_functions s @ [c] \<and> func c = (ApiBareFunction, fi))"
    if "fit_ok g s fi (length (inputs ?f)) st"
      "list_all (\<lambda>ft. \<not> is_multiple_dynamic_length ft) (fuzzable_params (fit_seq st))"
      "new = add_fn (fit_call st) ((fit_seq st)\<lparr>moved := moved (fit_seq st) \<union> fit_moved st\<rparr>)" for st new
    using fit_finish [OF s fi that] that by (auto simp: add_fn_def fit_ok_def fit_seq_ok_def)
  show ?thesis
  proof (cases "length (inputs ?f) = 0")
    case True
    have "list_all (\<lambda>ft. \<not> is_multiple_dynamic_length ft) (fuzzable_params (fit_seq ?st))"
      using s by (auto simp: start_fit_def Let_def seq_update_defs wf_sequence_def fuzzable_ok_def
          list_all_iff split: option.split)
    moreover have "moved (fit_seq ?st) \<union> fit_moved ?st = moved (fit_seq ?st)"
      by (simp add: start_fit_def Let_def)
    ultimately show ?thesis
      using True fi start result [of ?st] by (auto simp: is_fun_satisfied_def Let_def)
  next
    case False
    obtain r where r: "fit_params g ApiBareFunction fi s (inputs ?f) [0..<length (inputs ?f)] ?st = Done r"
        "\<forall>st'. r = Some st' \<longrightarrow> fit_ok g s fi (length (inputs ?f)) st'"
      using fit_params_ok [OF start] by auto
    show ?thesis
    proof (cases r)
      case None
      with False r fi show ?thesis by (simp add: is_fun_satisfied_def Let_def)
    next
      case (Some st)
      let ?new = "add_fn (fit_call st) ((fit_seq st)\<lparr>moved := moved (fit_seq st) \<union> fit_moved st\<rparr>)"
      have "is_fun_satisfied g ApiBareFunction fi s =
          Done (if contains_multi_dynamic_length_fuzzable ?new then None else Some ?new)"
        using False r Some fi
        by (simp add: is_fun_satisfied_def Let_def add_fn_def contains_multi_dynamic_length_fuzzable_def)
      with r Some result [of st ?new] show ?thesis
        by (auto simp: contains_multi_dynamic_length_fuzzable_def add_fn_def list_ex_iff list_all_iff)
    qed
  qed
qed

definition example_first :: api_sequence where
  "example_first = seq_new\<lparr>seq_functions := [\<lparr>func = (ApiBareFunction, 0), params = []\<rparr>]\<rparr>"

lemma example_first_step:
  "is_fun_satisfied example_graph ApiBareFunction 0 seq_new = Done (Some example_first)"
  by (simp add: is_fun_satisfied_def example_graph_def example_new_def start_fit_def Let_def add_fn_def
      call_new_def seq_new_def example_first_def)

lemma example_fuzzable:
  "is_fuzzable_type example_fnm (Primitive U8)"
  "\<not> is_fuzzable_type example_fnm (BorrowedRef None Mut example_struct)"
proof -
  show "is_fuzzable_type example_fnm (Primitive U8)" by (simp add: is_fuzzable_type_def)
  have "fuzzable_call_type example_fnm example_struct = FcNoFuzzable"
    using example_prelude(2) by (simp add: example_struct_def)
  moreover have "example_struct \<noteq> Primitive Str" by (simp add: example_struct_def)
  ultimately show "\<not> is_fuzzable_type example_fnm (BorrowedRef None Mut example_struct)"
    by (simp add: is_fuzzable_type_def fuzzable_inner_def)
qed

lemma example_second_step:
  "is_fun_satisfied example_graph ApiBareFunction 1 example_first = Done (Some example_sequence)"
  using example_fuzzable
  by (simp add: is_fun_satisfied_def example_graph_def example_push_def start_fit_def Let_def
      fit_param_def example_first_def seq_new_def try_function_def is_moved_def check_dependency_def
      take_dependency_def move_condition_def contains_move_call_type_def is_mutable_borrow_occurs_def
      is_immutable_borrow_occurs_def add_fuzzable_def seq_update_defs upt_rec
      contains_multi_dynamic_length_fuzzable_def example_sequence_def)

lemma example_wf: "list_all (wf_sequence example_graph) [seq_new, example_first, example_sequence]"
proof -
  have n: "0 < length (api_functions example_graph)" "1 < length (api_functions example_graph)"
    by (simp_all add: example_graph_def)
  have first: "wf_sequence example_graph example_first"
    using is_fun_satisfied_lemma [OF wf_seq_new n(1)] example_first_step by auto
  then have "wf_sequence example_graph example_sequence"
    using is_fun_satisfied_lemma [OF first n(2)] example_second_step by auto
  with first show ?thesis by (simp add: wf_seq_new)
qed

end
