(* ===== verification/Doc_Cfg.thy ===== *)
theory Doc_Cfg
  imports Rulf_Prelude
begin

text \<open>
  The configurations of \<^verbatim>\<open>doc(cfg(...))\<close> attributes (\<^verbatim>\<open>librustdoc/clean/cfg.rs\<close>) and the escaping of
  HTML text (\<^verbatim>\<open>html/escape.rs\<close>) they are rendered with, over the meta items of \<^verbatim>\<open>librustc_ast/ast.rs\<close>.
  A symbol is its text, a position in the source (\<open>rustc_span::Span\<close>) a number. The configuration
  of the session is the set of its pairs of a name and an optional value.

  The reading of a meta item is compared with a reference: which meta items are configurations
  (\<open>cfg_syntax\<close>) and when they hold (\<open>meta_holds\<close>). The operators keep formulas in a normal form.
\<close>

section \<open>Meta items\<close>

text \<open>Literals without the way they were written: quotes and \<open>#\<close> signs of strings, suffixes of numbers.\<close>

datatype lit_kind =
  LitStr string | LitByteStr "nat list" | LitByte nat | LitChar char | LitInt nat | LitFloat string | LitBool bool | LitErr string

datatype ast_lit = AstLit (lit_kind: lit_kind) (lit_span: nat)

datatype 'n meta_item_kind = MetaWord | MetaList "'n list" | MetaNameValue ast_lit

datatype 'n meta_item = MetaItem (meta_path: "string list") (meta_kind: "'n meta_item_kind") (meta_span: nat)

datatype nested_meta_item = NestedMeta "nested_meta_item meta_item" | NestedLiteral ast_lit

type_synonym doc_meta = "nested_meta_item meta_item"

fun nested_check_name :: "nested_meta_item \<Rightarrow> string \<Rightarrow> bool" where
  "nested_check_name (NestedMeta mi) name = (meta_path mi = [name])"
| "nested_check_name (NestedLiteral _) name = False"

fun nested_is_word :: "nested_meta_item \<Rightarrow> bool" where
  "nested_is_word (NestedMeta mi) = (case meta_kind mi of MetaWord \<Rightarrow> True | _ \<Rightarrow> False)"
| "nested_is_word (NestedLiteral _) = False"

definition meta_value_str :: "doc_meta \<Rightarrow> string option" where
  "meta_value_str mi =
     (case meta_kind mi of
        MetaNameValue v \<Rightarrow> (case lit_kind v of LitStr s \<Rightarrow> Some s | _ \<Rightarrow> None)
      | _ \<Rightarrow> None)"

fun nested_value_str :: "nested_meta_item \<Rightarrow> string option" where
  "nested_value_str (NestedMeta mi) = meta_value_str mi"
| "nested_value_str (NestedLiteral _) = None"

section \<open>Escaping\<close>

text \<open>
  The loop writes the piece of the text since the last special character, then its entity.
\<close>

definition html_entity :: "char \<Rightarrow> string option" where
  "html_entity ch =
     (if ch = CHR ''>'' then Some ''&gt;'' else if ch = CHR ''<'' then Some ''&lt;''
      else if ch = CHR ''&'' then Some ''&amp;'' else if ch = CHR 0x27 then Some ''&#39;''
      else if ch = CHR 0x22 then Some ''&quot;'' else None)"

fun escape_loop :: "string \<Rightarrow> string \<Rightarrow> nat \<Rightarrow> nat \<Rightarrow> string \<Rightarrow> string" where
  "escape_loop pile_o_bits [] i lst out =
     (if lst < length pile_o_bits then out @ drop lst pile_o_bits else out)"
| "escape_loop pile_o_bits (ch # bytes) i lst out =
     (case html_entity ch of
        Some s \<Rightarrow> escape_loop pile_o_bits bytes (i + 1) (i + 1) (out @ take (i - lst) (drop lst pile_o_bits) @ s)
      | None \<Rightarrow> escape_loop pile_o_bits bytes (i + 1) lst out)"

definition escape :: "string \<Rightarrow> string" where
  "escape s = escape_loop s s 0 0 []"

definition escape_char :: "char \<Rightarrow> string" where
  "escape_char ch = (case html_entity ch of Some s \<Rightarrow> s | None \<Rightarrow> [ch])"

lemma escape_loop_eq:
  assumes "pile = xs @ ys @ bytes" "lst = length xs" "i = length xs + length ys" "\<forall>ch \<in> set ys. html_entity ch = None"
  shows "escape_loop pile bytes i lst out = out @ ys @ concat (map escape_char bytes)"
  using assms
proof (induction bytes arbitrary: xs ys lst i out)
  case Nil
  then show ?case by auto
next
  case (Cons ch bytes)
  show ?case
  proof (cases "html_entity ch")
    case None
    with Cons.prems have "escape_loop pile bytes (i + 1) lst out = out @ (ys @ [ch]) @ concat (map escape_char bytes)"
      by (intro Cons.IH [of xs]) auto
    with None show ?thesis by (simp add: escape_char_def [of ch])
  next
    case (Some s)
    have "escape_loop pile bytes (i + 1) (i + 1) (out @ ys @ s) = (out @ ys @ s) @ [] @ concat (map escape_char bytes)"
      using Cons.prems by (intro Cons.IH [of "xs @ ys @ [ch]"]) auto
    with Some Cons.prems show ?thesis by (simp add: escape_char_def [of ch])
  qed
qed

lemma escape_eq: "escape s = concat (map escape_char s)"
  unfolding escape_def by (subst escape_loop_eq [of s "[]" "[]" s]) simp_all

text \<open>The reader of the five entities.\<close>

definition html_entities :: "(string \<times> char) list" where
  "html_entities = [(''&gt;'', CHR ''>''), (''&lt;'', CHR ''<''), (''&amp;'', CHR ''&''), (''&#39;'', CHR 0x27),
     (''&quot;'', CHR 0x22)]"

function unescape :: "string \<Rightarrow> string" where
  "unescape [] = []"
| "unescape (c # cs) =
     (case find (\<lambda>(e, _). starts_with (c # cs) e) html_entities of
        Some (e, ch) \<Rightarrow> ch # unescape (drop (length e - 1) cs)
      | None \<Rightarrow> c # unescape cs)"
  by pat_completeness auto
termination
  by (relation "measure length") auto

lemma unescape_char: "unescape (escape_char ch @ s) = ch # unescape s"
  by (simp add: escape_char_def html_entity_def html_entities_def starts_with_def)

text \<open>
  C21: escaped text can be put into HTML: it has no angle bracket and no quote, and reading the
  entities back gives the text.
\<close>

theorem escape_roundtrip:
  "unescape (escape s) = s \<and> set (escape s) \<inter> {CHR ''<'', CHR ''>'', CHR 0x27, CHR 0x22} = {}"
proof
  show "unescape (escape s) = s" unfolding escape_eq by (induction s) (simp_all add: unescape_char)
  have "set (escape_char ch) \<inter> {CHR ''<'', CHR ''>'', CHR 0x27, CHR 0x22} = {}" for ch
    by (auto simp: escape_char_def html_entity_def)
  then show "set (escape s) \<inter> {CHR ''<'', CHR ''>'', CHR 0x27, CHR 0x22} = {}" unfolding escape_eq by fastforce
qed

section \<open>Configurations\<close>

datatype doc_cfg =
    CfgTrue
  | CfgFalse
  | CfgOption string "string option"
  | CfgNot doc_cfg
  | CfgAny "doc_cfg list"
  | CfgAll "doc_cfg list"

record invalid_cfg_error =
  err_msg :: string
  err_span :: nat

type_synonym parsed_cfg = "invalid_cfg_error + doc_cfg"

text \<open>The operators: \<open>if !a.contains(&c) { a.push(c) }\<close> is \<open>hs_insert\<close>.\<close>

fun cfg_not :: "doc_cfg \<Rightarrow> doc_cfg" where
  "cfg_not CfgFalse = CfgTrue"
| "cfg_not CfgTrue = CfgFalse"
| "cfg_not (CfgNot cfg) = cfg"
| "cfg_not s = CfgNot s"

fun cfg_and :: "doc_cfg \<Rightarrow> doc_cfg \<Rightarrow> doc_cfg" where
  "cfg_and CfgFalse _ = CfgFalse"
| "cfg_and s CfgTrue = s"
| "cfg_and s CfgFalse = CfgFalse"
| "cfg_and CfgTrue b = b"
| "cfg_and (CfgAll a) (CfgAll b) = CfgAll (fold hs_insert b a)"
| "cfg_and (CfgAll a) b = CfgAll (hs_insert b a)"
| "cfg_and s (CfgAll a) = CfgAll (hs_insert s a)"
| "cfg_and s b = (if s \<noteq> b then CfgAll [s, b] else s)"

fun cfg_or :: "doc_cfg \<Rightarrow> doc_cfg \<Rightarrow> doc_cfg" where
  "cfg_or CfgTrue _ = CfgTrue"
| "cfg_or s CfgFalse = s"
| "cfg_or s CfgTrue = CfgTrue"
| "cfg_or CfgFalse b = b"
| "cfg_or (CfgAny a) (CfgAny b) = CfgAny (fold hs_insert b a)"
| "cfg_or (CfgAny a) b = CfgAny (hs_insert b a)"
| "cfg_or s (CfgAny a) = CfgAny (hs_insert s a)"
| "cfg_or s b = (if s \<noteq> b then CfgAny [s, b] else s)"

fun cfg_matches :: "(string \<times> string option) set \<Rightarrow> doc_cfg \<Rightarrow> bool" where
  "cfg_matches config CfgFalse = False"
| "cfg_matches config CfgTrue = True"
| "cfg_matches config (CfgNot child) = (\<not> cfg_matches config child)"
| "cfg_matches config (CfgAll sub_cfgs) = list_all (cfg_matches config) sub_cfgs"
| "cfg_matches config (CfgAny sub_cfgs) = list_ex (cfg_matches config) sub_cfgs"
| "cfg_matches config (CfgOption name value) = ((name, value) \<in> config)"

section \<open>Reading a meta item\<close>

text \<open>The closures \<open>Ok(x? & y?)\<close> and \<open>Ok(x? | y?)\<close>.\<close>

definition lift_cfg :: "(doc_cfg \<Rightarrow> doc_cfg \<Rightarrow> doc_cfg) \<Rightarrow> parsed_cfg \<Rightarrow> parsed_cfg \<Rightarrow> parsed_cfg" where
  "lift_cfg f x y =
     (case x of Inl e \<Rightarrow> Inl e | Inr x \<Rightarrow> (case y of Inl e \<Rightarrow> Inl e | Inr y \<Rightarrow> Inr (f x y)))"

text \<open>\<open>Cfg::parse\<close>, with the reader of the items in a list as an argument.\<close>

definition parse_with :: "(nested_meta_item \<Rightarrow> parsed_cfg) \<Rightarrow> doc_meta \<Rightarrow> parsed_cfg" where
  "parse_with nested cfg =
     (case meta_path cfg of
        [name] \<Rightarrow>
          (case meta_kind cfg of
             MetaWord \<Rightarrow> Inr (CfgOption name None)
           | MetaNameValue lit \<Rightarrow>
               (case lit_kind lit of
                  LitStr value \<Rightarrow> Inr (CfgOption name (Some value))
                | _ \<Rightarrow> Inl \<lparr>err_msg = ''value of cfg option should be a string literal'', err_span = lit_span lit\<rparr>)
           | MetaList items \<Rightarrow>
               let sub_cfgs = map nested items in
               if name = ''all'' then foldl (lift_cfg cfg_and) (Inr CfgTrue) sub_cfgs
               else if name = ''any'' then foldl (lift_cfg cfg_or) (Inr CfgFalse) sub_cfgs
               else if name = ''not'' then
                 if length sub_cfgs = 1 then
                   (case hd sub_cfgs of Inl e \<Rightarrow> Inl e | Inr c \<Rightarrow> Inr (cfg_not c))
                 else Inl \<lparr>err_msg = ''expected 1 cfg-pattern'', err_span = meta_span cfg\<rparr>
               else Inl \<lparr>err_msg = ''invalid predicate'', err_span = meta_span cfg\<rparr>)
      | _ \<Rightarrow> Inl \<lparr>err_msg = ''expected a single identifier'', err_span = meta_span cfg\<rparr>)"

fun nested_items :: "doc_meta \<Rightarrow> nested_meta_item list" where
  "nested_items (MetaItem _ (MetaList l) _) = l"
| "nested_items _ = []"

lemma parse_with_cong [fundef_cong]:
  assumes "cfg = cfg'" "\<And>x. x \<in> set (nested_items cfg') \<Longrightarrow> f x = g x"
  shows "parse_with f cfg = parse_with g cfg'"
proof -
  have "map f l = map g l" if "meta_kind cfg = MetaList l" for l
    using that assms by (cases cfg) auto
  then show ?thesis
    unfolding parse_with_def assms(1) [symmetric]
    by (auto split: list.split meta_item_kind.split simp del: map_eq_conv)
qed

lemma size_nested_items [termination_simp]:
  "x \<in> set (nested_items mi) \<Longrightarrow> size x < Suc (size_meta_item size mi)"
  by (induction mi rule: nested_items.induct) (auto dest: size_list_estimation' [where f = size, OF _ order_refl])

function parse_nested :: "nested_meta_item \<Rightarrow> parsed_cfg" where
  "parse_nested (NestedMeta cfg) = parse_with parse_nested cfg"
| "parse_nested (NestedLiteral lit) = Inl \<lparr>err_msg = ''unexpected literal'', err_span = lit_span lit\<rparr>"
  by pat_completeness auto
termination
  by (relation "measure size") (auto simp: size_nested_items)

definition cfg_parse :: "doc_meta \<Rightarrow> parsed_cfg" where
  "cfg_parse cfg = parse_with parse_nested cfg"

section \<open>What a meta item means\<close>

text \<open>The meta items that are configurations, and when they hold in a session.\<close>

fun cfg_syntax :: "nested_meta_item \<Rightarrow> bool" where
  "cfg_syntax (NestedLiteral _) = False"
| "cfg_syntax (NestedMeta (MetaItem path MetaWord _)) = (length path = 1)"
| "cfg_syntax (NestedMeta (MetaItem path (MetaNameValue (AstLit (LitStr _) _)) _)) = (length path = 1)"
| "cfg_syntax (NestedMeta (MetaItem path (MetaNameValue _) _)) = False"
| "cfg_syntax (NestedMeta (MetaItem path (MetaList items) _)) =
     ((path \<in> {[''all''], [''any'']} \<or> path = [''not''] \<and> length items = 1) \<and> list_all cfg_syntax items)"

fun meta_holds :: "(string \<times> string option) set \<Rightarrow> nested_meta_item \<Rightarrow> bool" where
  "meta_holds config (NestedMeta (MetaItem path MetaWord _)) = ((hd path, None) \<in> config)"
| "meta_holds config (NestedMeta (MetaItem path (MetaNameValue (AstLit (LitStr v) _)) _)) = ((hd path, Some v) \<in> config)"
| "meta_holds config (NestedMeta (MetaItem path (MetaList items) _)) =
     (if path = [''all''] then list_all (meta_holds config) items
      else if path = [''any''] then list_ex (meta_holds config) items
      else \<not> list_ex (meta_holds config) items)"
| "meta_holds config _ = False"

text \<open>
  The normal form: constants only at the top, no double negation, conjunctions and disjunctions of
  at least two different members that are not of the same kind.
\<close>

definition cfg_constant :: "doc_cfg \<Rightarrow> bool" where
  "cfg_constant c \<longleftrightarrow> c = CfgTrue \<or> c = CfgFalse"

fun cfg_normal :: "doc_cfg \<Rightarrow> bool" where
  "cfg_normal (CfgNot c) \<longleftrightarrow> \<not> cfg_constant c \<and> (\<forall>d. c \<noteq> CfgNot d) \<and> cfg_normal c"
| "cfg_normal (CfgAll cs) \<longleftrightarrow> 2 \<le> length cs \<and> distinct cs \<and>
     list_all (\<lambda>c. cfg_normal c \<and> \<not> cfg_constant c \<and> (\<forall>ds. c \<noteq> CfgAll ds)) cs"
| "cfg_normal (CfgAny cs) \<longleftrightarrow> 2 \<le> length cs \<and> distinct cs \<and>
     list_all (\<lambda>c. cfg_normal c \<and> \<not> cfg_constant c \<and> (\<forall>ds. c \<noteq> CfgAny ds)) cs"
| "cfg_normal _ \<longleftrightarrow> True"

lemma length_hs_insert: "length xs \<le> length (hs_insert x xs)"
  by (simp add: hs_insert_def)

lemma length_fold_hs_insert: "length xs \<le> length (fold hs_insert ys xs)"
  by (induction ys arbitrary: xs) (auto intro: order_trans [OF length_hs_insert])

lemma list_all_hs_insert: "list_all P (hs_insert x xs) \<longleftrightarrow> P x \<and> list_all P xs"
  by (auto simp: list_all_iff)

lemma list_all_fold_hs_insert: "list_all P (fold hs_insert ys xs) \<longleftrightarrow> list_all P xs \<and> list_all P ys"
  by (auto simp: list_all_iff)

lemma list_ex_hs_insert: "list_ex P (hs_insert x xs) \<longleftrightarrow> P x \<or> list_ex P xs"
  by (auto simp: list_ex_iff)

lemma list_ex_fold_hs_insert: "list_ex P (fold hs_insert ys xs) \<longleftrightarrow> list_ex P xs \<or> list_ex P ys"
  by (auto simp: list_ex_iff)

lemmas hs_list = list_all_hs_insert list_all_fold_hs_insert list_ex_hs_insert list_ex_fold_hs_insert

lemmas hs_length = order_trans [OF _ length_hs_insert] order_trans [OF _ length_fold_hs_insert]

lemma matches_not [simp]: "cfg_matches config (cfg_not c) = (\<not> cfg_matches config c)"
  by (cases c) simp_all

lemma matches_and [simp]: "cfg_matches config (cfg_and c d) = (cfg_matches config c \<and> cfg_matches config d)"
  by (induction c d rule: cfg_and.induct) (auto simp: hs_list)

lemma matches_or [simp]: "cfg_matches config (cfg_or c d) = (cfg_matches config c \<or> cfg_matches config d)"
  by (induction c d rule: cfg_or.induct) (auto simp: hs_list)

lemma normal_not [simp]: "cfg_normal c \<Longrightarrow> cfg_normal (cfg_not c)"
  by (cases c) (simp_all add: cfg_constant_def)

lemma normal_and [simp]: "cfg_normal c \<Longrightarrow> cfg_normal d \<Longrightarrow> cfg_normal (cfg_and c d)"
  by (induction c d rule: cfg_and.induct)
    (simp_all add: hs_list hs_length cfg_constant_def)

lemma normal_or [simp]: "cfg_normal c \<Longrightarrow> cfg_normal d \<Longrightarrow> cfg_normal (cfg_or c d)"
  by (induction c d rule: cfg_or.induct)
    (simp_all add: hs_list hs_length cfg_constant_def)

text \<open>A fold with an operator: all members have to be read, and then it is the fold of them.\<close>

lemma lift_cfg_simps [simp]:
  "lift_cfg f (Inl e) r = Inl e" "lift_cfg f (Inr x) (Inl e) = Inl e" "lift_cfg f (Inr x) (Inr y) = Inr (f x y)"
  by (simp_all add: lift_cfg_def)

lemma foldl_lift_error [simp]: "foldl (lift_cfg f) (Inl e) ys = Inl e"
  by (induction ys) simp_all

lemma foldl_lift_Inr_iff:
  "foldl (lift_cfg f) (Inr x) ys = Inr c \<longleftrightarrow>
     list_all (\<lambda>y. \<exists>c. y = Inr c) ys \<and> c = foldl f x (map projr ys)"
proof (induction ys arbitrary: x)
  case (Cons y ys)
  then show ?case by (cases y) simp_all
qed auto

lemma matches_foldl:
  "cfg_matches config (foldl cfg_and c cs) \<longleftrightarrow> cfg_matches config c \<and> list_all (cfg_matches config) cs"
  "cfg_matches config (foldl cfg_or c cs) \<longleftrightarrow> cfg_matches config c \<or> list_ex (cfg_matches config) cs"
  by (induction cs arbitrary: c) auto

lemma normal_foldl:
  "cfg_normal c \<Longrightarrow> list_all cfg_normal cs \<Longrightarrow> cfg_normal (foldl cfg_and c cs)"
  "cfg_normal c \<Longrightarrow> list_all cfg_normal cs \<Longrightarrow> cfg_normal (foldl cfg_or c cs)"
  by (induction cs arbitrary: c) auto

definition reads_as :: "nested_meta_item \<Rightarrow> parsed_cfg \<Rightarrow> bool" where
  "reads_as mi r \<longleftrightarrow>
     (case r of
        Inl e \<Rightarrow> \<not> cfg_syntax mi
      | Inr c \<Rightarrow> cfg_syntax mi \<and> cfg_normal c \<and> (\<forall>config. cfg_matches config c = meta_holds config mi))"

lemma reads_as_list:
  assumes "\<forall>x \<in> set items. reads_as x (p x)"
  shows "list_all (\<lambda>y. \<exists>c. y = Inr c) (map p items) \<longleftrightarrow> list_all cfg_syntax items"
    "list_all cfg_syntax items \<Longrightarrow> list_all cfg_normal (map projr (map p items))"
    "list_all cfg_syntax items \<Longrightarrow>
       list_all (cfg_matches config) (map projr (map p items)) = list_all (meta_holds config) items"
    "list_all cfg_syntax items \<Longrightarrow>
       list_ex (cfg_matches config) (map projr (map p items)) = list_ex (meta_holds config) items"
proof -
  have one: "(\<exists>c. p x = Inr c) \<longleftrightarrow> cfg_syntax x" "cfg_syntax x \<Longrightarrow> cfg_normal (projr (p x))"
    "cfg_syntax x \<Longrightarrow> cfg_matches config (projr (p x)) = meta_holds config x" if "x \<in> set items" for x
    using assms that by (cases "p x"; force simp: reads_as_def)+
  show "list_all (\<lambda>y. \<exists>c. y = Inr c) (map p items) \<longleftrightarrow> list_all cfg_syntax items"
    using one(1) by (auto simp: list_all_iff)
  assume "list_all cfg_syntax items"
  then have all: "cfg_syntax x" if "x \<in> set items" for x using that by (simp add: list_all_iff)
  show "list_all cfg_normal (map projr (map p items))" using one(2) all by (auto simp: list_all_iff)
  show "list_all (cfg_matches config) (map projr (map p items)) = list_all (meta_holds config) items"
    "list_ex (cfg_matches config) (map projr (map p items)) = list_ex (meta_holds config) items"
    using one(3) all by (auto simp: list_all_iff list_ex_iff)
qed

lemma reads_fold:
  assumes "\<forall>x \<in> set items. reads_as x (p x)" "path = [name]"
    and "name = ''all'' \<and> r = foldl (lift_cfg cfg_and) (Inr CfgTrue) (map p items) \<or>
         name = ''any'' \<and> r = foldl (lift_cfg cfg_or) (Inr CfgFalse) (map p items)"
  shows "reads_as (NestedMeta (MetaItem path (MetaList items) sp)) r"
proof (cases r)
  case (Inl e)
  then have "\<not> list_all cfg_syntax items"
    using assms(3) foldl_lift_Inr_iff [of _ _ "map p items"] reads_as_list(1) [OF assms(1)] by (metis sum.distinct(1))
  then show ?thesis using Inl by (simp add: reads_as_def)
next
  case (Inr c)
  then have c: "name = ''all'' \<and> c = foldl cfg_and CfgTrue (map projr (map p items)) \<or>
      name = ''any'' \<and> c = foldl cfg_or CfgFalse (map projr (map p items))"
    and all: "list_all cfg_syntax items"
    using assms(3) foldl_lift_Inr_iff [of _ _ "map p items" c] reads_as_list(1) [OF assms(1)] by metis+
  show ?thesis
    using c Inr assms(2) reads_as_list(2-4) [OF assms(1) all] all normal_foldl
    by (auto simp: reads_as_def matches_foldl simp del: map_map)
qed

lemma reads_not:
  assumes "\<forall>x \<in> set items. reads_as x (p x)" "length items = 1"
  shows "reads_as (NestedMeta (MetaItem [''not''] (MetaList items) sp))
    (case hd (map p items) of Inl e \<Rightarrow> Inl e | Inr c \<Rightarrow> Inr (cfg_not c))"
proof -
  obtain x where items: "items = [x]" using assms(2) by (cases items) auto
  show ?thesis using assms(1) by (cases "p x") (auto simp: items reads_as_def)
qed

lemma parse_nested_reads: "reads_as mi (parse_nested mi)"
proof (induction mi rule: parse_nested.induct)
  case (1 cfg)
  obtain path kind sp where cfg: "cfg = MetaItem path kind sp" by (cases cfg)
  show ?case
  proof (cases "\<exists>name. path = [name]")
    case False
    then have "\<not> cfg_syntax (NestedMeta cfg)"
      by (cases "NestedMeta cfg" rule: cfg_syntax.cases) (auto simp: cfg length_Suc_conv)
    moreover have "\<exists>e. parse_nested (NestedMeta cfg) = Inl e"
      using False by (auto simp: parse_with_def cfg split: list.split)
    ultimately show ?thesis by (auto simp: reads_as_def)
  next
    case True
    then obtain name where path: "path = [name]" ..
    show ?thesis
    proof (cases kind)
      case MetaWord
      then show ?thesis by (simp add: cfg path parse_with_def reads_as_def)
    next
      case (MetaNameValue lit)
      then show ?thesis
        by (cases lit; cases "lit_kind lit") (auto simp: cfg path parse_with_def reads_as_def)
    next
      case (MetaList items)
      then have IH: "\<forall>x \<in> set items. reads_as x (parse_nested x)" using 1 by (simp add: cfg)
      consider "name \<in> {''all'', ''any''}" | "name = ''not''" "length items = 1"
        | "name = ''not''" "length items \<noteq> 1" | "name \<notin> {''all'', ''any'', ''not''}" by blast
      then show ?thesis
      proof cases
        case 1
        then show ?thesis
          using reads_fold [OF IH path] by (auto simp: cfg path MetaList parse_with_def Let_def)
      next
        case 2
        then show ?thesis
          using reads_not [OF IH] by (simp add: cfg path MetaList parse_with_def Let_def)
      qed (auto simp: cfg path MetaList parse_with_def Let_def reads_as_def)
    qed
  qed
qed (simp add: reads_as_def)

text \<open>
  C17: \<open>Cfg::parse\<close> reads exactly the meta items that are configurations. It returns an error for
  every other, and the formula it returns is in normal form and matches the sessions in which the
  meta item holds.
\<close>

theorem cfg_parse_correct:
  "case cfg_parse mi of
     Inl e \<Rightarrow> \<not> cfg_syntax (NestedMeta mi)
   | Inr c \<Rightarrow> cfg_syntax (NestedMeta mi) \<and> cfg_normal c \<and>
       (\<forall>config. cfg_matches config c = meta_holds config (NestedMeta mi))"
  using parse_nested_reads [of "NestedMeta mi"] by (simp add: reads_as_def cfg_parse_def)

section \<open>Rendering\<close>

fun is_simple :: "doc_cfg \<Rightarrow> bool" where
  "is_simple (CfgAll _) = False"
| "is_simple (CfgAny _) = False"
| "is_simple _ = True"

fun is_all :: "doc_cfg \<Rightarrow> bool" where
  "is_all (CfgAny _) = False"
| "is_all _ = True"

definition target_os_names :: "(string \<times> string) list" where
  "target_os_names = [(''android'', ''Android''), (''dragonfly'', ''DragonFly BSD''), (''emscripten'', ''Emscripten''),
     (''freebsd'', ''FreeBSD''), (''fuchsia'', ''Fuchsia''), (''haiku'', ''Haiku''), (''hermit'', ''HermitCore''),
     (''illumos'', ''illumos''), (''ios'', ''iOS''), (''l4re'', ''L4Re''), (''linux'', ''Linux''), (''macos'', ''macOS''),
     (''netbsd'', ''NetBSD''), (''openbsd'', ''OpenBSD''), (''redox'', ''Redox''), (''solaris'', ''Solaris''),
     (''windows'', ''Windows'')]"

definition target_arch_names :: "(string \<times> string) list" where
  "target_arch_names = [(''aarch64'', ''AArch64''), (''arm'', ''ARM''), (''asmjs'', ''JavaScript''), (''mips'', ''MIPS''),
     (''mips64'', ''MIPS-64''), (''msp430'', ''MSP430''), (''powerpc'', ''PowerPC''), (''powerpc64'', ''PowerPC-64''),
     (''s390x'', ''s390x''), (''sparc64'', ''SPARC64''), (''wasm32'', ''WebAssembly''), (''x86'', ''x86''),
     (''x86_64'', ''x86-64'')]"

definition target_vendor_names :: "(string \<times> string) list" where
  "target_vendor_names = [(''apple'', ''Apple''), (''pc'', ''PC''), (''rumprun'', ''Rumprun''), (''sun'', ''Sun''),
     (''fortanix'', ''Fortanix'')]"

definition target_env_names :: "(string \<times> string) list" where
  "target_env_names = [(''gnu'', ''GNU''), (''msvc'', ''MSVC''), (''musl'', ''musl''), (''newlib'', ''Newlib''),
     (''uclibc'', ''uClibc''), (''sgx'', ''SGX'')]"

definition name_or_empty :: "(string \<times> string) list \<Rightarrow> string \<Rightarrow> string" where
  "name_or_empty names v = (case map_of names v of Some s \<Rightarrow> s | None \<Rightarrow> '''')"

text \<open>\<open>Inl\<close> is a text that is written at once, \<open>Inr\<close> the human readable name, which may be empty.\<close>

definition option_text :: "bool \<Rightarrow> string \<Rightarrow> string option \<Rightarrow> string + string" where
  "option_text short n value =
     (case value of
        None \<Rightarrow>
          Inr (if n = ''unix'' then ''Unix'' else if n = ''windows'' then ''Windows''
               else if n = ''debug_assertions'' then ''debug-assertions enabled'' else '''')
      | Some v \<Rightarrow>
          if n = ''target_os'' then Inr (name_or_empty target_os_names v)
          else if n = ''target_arch'' then Inr (name_or_empty target_arch_names v)
          else if n = ''target_vendor'' then Inr (name_or_empty target_vendor_names v)
          else if n = ''target_env'' then Inr (name_or_empty target_env_names v)
          else if n = ''target_endian'' then Inl (v @ ''-endian'')
          else if n = ''target_pointer_width'' then Inl (v @ ''-bit'')
          else if n = ''target_feature'' then
            Inl (if short then ''<code>'' @ v @ ''</code>'' else ''target feature <code>'' @ v @ ''</code>'')
          else Inr '''')"

definition option_html :: "bool \<Rightarrow> string \<Rightarrow> string option \<Rightarrow> string" where
  "option_html short n value =
     (case option_text short n value of
        Inl text \<Rightarrow> text
      | Inr human_readable \<Rightarrow>
          if human_readable \<noteq> '''' then human_readable
          else case value of
            Some v \<Rightarrow> ''<code>'' @ escape n @ ''='' @ quote (escape v) @ ''</code>''
          | None \<Rightarrow> ''<code>'' @ escape n @ ''</code>'')"

definition write_with_opt_paren :: "bool \<Rightarrow> string \<Rightarrow> string" where
  "write_with_opt_paren has_paren obj = (if has_paren then ''('' @ obj @ '')'' else obj)"

fun cfg_html :: "bool \<Rightarrow> doc_cfg \<Rightarrow> string" where
  "cfg_html short (CfgNot (CfgAny sub_cfgs)) =
     (let separator = (if list_all is_simple sub_cfgs then '' nor '' else '', nor '');
          texts = map (\<lambda>sub_cfg. write_with_opt_paren (\<not> is_all sub_cfg) (cfg_html short sub_cfg)) sub_cfgs
      in if texts = [] then '''' else ''neither '' @ str_join separator texts)"
| "cfg_html short (CfgNot (CfgOption n v)) = ''non-'' @ option_html short n v"
| "cfg_html short (CfgNot c) = ''not ('' @ cfg_html short c @ '')''"
| "cfg_html short (CfgAny sub_cfgs) =
     (let separator = (if list_all is_simple sub_cfgs then '' or '' else '', or '')
      in str_join separator
           (map (\<lambda>sub_cfg. write_with_opt_paren (\<not> is_all sub_cfg) (cfg_html short sub_cfg)) sub_cfgs))"
| "cfg_html short (CfgAll sub_cfgs) =
     str_join '' and ''
       (map (\<lambda>sub_cfg. write_with_opt_paren (\<not> is_simple sub_cfg) (cfg_html short sub_cfg)) sub_cfgs)"
| "cfg_html short CfgTrue = ''everywhere''"
| "cfg_html short CfgFalse = ''nowhere''"
| "cfg_html short (CfgOption n v) = option_html short n v"

fun should_capitalize_first_letter :: "doc_cfg \<Rightarrow> bool" where
  "should_capitalize_first_letter CfgFalse = True"
| "should_capitalize_first_letter CfgTrue = True"
| "should_capitalize_first_letter (CfgNot _) = True"
| "should_capitalize_first_letter (CfgAny sub_cfgs) =
     (case sub_cfgs of [] \<Rightarrow> False | c # _ \<Rightarrow> should_capitalize_first_letter c)"
| "should_capitalize_first_letter (CfgAll sub_cfgs) =
     (case sub_cfgs of [] \<Rightarrow> False | c # _ \<Rightarrow> should_capitalize_first_letter c)"
| "should_capitalize_first_letter (CfgOption name _) = (name \<in> {''debug_assertions'', ''target_endian''})"

fun should_append_only_to_description :: "doc_cfg \<Rightarrow> bool" where
  "should_append_only_to_description CfgFalse = False"
| "should_append_only_to_description CfgTrue = False"
| "should_append_only_to_description (CfgNot (CfgOption _ _)) = True"
| "should_append_only_to_description (CfgNot _) = False"
| "should_append_only_to_description _ = True"

fun should_use_with_in_description :: "doc_cfg \<Rightarrow> bool" where
  "should_use_with_in_description (CfgOption name _) = (name = ''target_feature'')"
| "should_use_with_in_description _ = False"

definition ascii_alphanumeric :: "char \<Rightarrow> bool" where
  "ascii_alphanumeric c \<longleftrightarrow>
     (let n = of_char c :: nat in n \<in> {48..57} \<or> n \<in> {65..90} \<or> n \<in> {97..122})"

definition ascii_uppercase :: "char \<Rightarrow> char" where
  "ascii_uppercase c = (let n = of_char c :: nat in if n \<in> {97..122} then char_of (n - 32) else c)"

definition render_short_html :: "doc_cfg \<Rightarrow> string" where
  "render_short_html c =
     (let msg = cfg_html True c in
      if should_capitalize_first_letter c then
        (case dropWhile (\<lambda>c. \<not> ascii_alphanumeric c) msg of
           [] \<Rightarrow> msg
         | ch # tail \<Rightarrow> takeWhile (\<lambda>c. \<not> ascii_alphanumeric c) msg @ ascii_uppercase ch # tail)
      else msg)"

definition render_long_html :: "doc_cfg \<Rightarrow> string" where
  "render_long_html c =
     (let on = (if should_use_with_in_description c then ''with'' else ''on'');
          msg = ''This is supported '' @ on @ '' <strong>'' @ cfg_html False c @ ''</strong>''
      in (if should_append_only_to_description c then msg @ '' only'' else msg) @ ''.'')"

text \<open>
  Outside the options \<open>target_feature\<close>, \<open>target_endian\<close> and \<open>target_pointer_width\<close> the text of an
  option is a known name or escaped; the values of these three are written as they are.
\<close>

lemma target_feature_unescaped:
  "option_html True ''target_feature'' (Some ''<i>'') = ''<code><i></code>''"
  "option_html True ''foo'' (Some ''<i>'') = ''<code>foo='' @ quote ''&lt;i&gt;'' @ ''</code>''"
  by (simp_all add: option_html_def option_text_def escape_eq escape_char_def html_entity_def quote_def)

end
