(* ===== verification/Clean_Item.thy ===== *)
theory Clean_Item
  imports Name_Map Doc_Cfg "HOL-Library.Option_ord"
begin

text \<open>
  The items of a cleaned crate (\<^verbatim>\<open>librustdoc/clean/types.rs\<close>): \<open>Item\<close>, \<open>ItemEnum\<close> with all its
  constructors and the structs they carry, attributes and the queries on them, \<open>Crate\<close>;
  \<open>ItemType::from\<close> of \<^verbatim>\<open>html/item_type.rs\<close> and the access levels of
  \<^verbatim>\<open>librustc_middle/middle/privacy.rs\<close>. The structs an item is nested in are datatypes over the type
  of the nested items, so that \<open>clean_item\<close> is one nested datatype and \<open>set_item_enum\<close> the set of
  the items directly under an item. Positions in the source text (\<open>rustc_span::Span\<close>) are numbers.
\<close>

section \<open>Attributes\<close>

text \<open>
  An attribute: its path and what its tokens parse to (\<open>MetaItemKind::from_mac_args\<close>), or a doc
  comment.
\<close>

datatype attr_kind =
    AttrNormal "string list" "nested_meta_item meta_item_kind option"
  | AttrDocComment string

datatype attr_style = OuterAttr | InnerAttr

record ast_attribute =
  attr_kind :: attr_kind
  attr_id :: nat
  attr_style :: attr_style
  attr_span :: nat

definition attr_check_name :: "ast_attribute \<Rightarrow> string \<Rightarrow> bool" where
  "attr_check_name attr name =
     (case attr_kind attr of AttrNormal path _ \<Rightarrow> path = [name] | AttrDocComment _ \<Rightarrow> False)"

definition meta_item_list :: "ast_attribute \<Rightarrow> nested_meta_item list option" where
  "meta_item_list attr =
     (case attr_kind attr of AttrNormal _ (Some (MetaList l)) \<Rightarrow> Some l | _ \<Rightarrow> None)"

text \<open>The iterator \<open>ListAttributesIter\<close> as the list of what it yields.\<close>

fun attr_lists :: "ast_attribute list \<Rightarrow> string \<Rightarrow> nested_meta_item list" where
  "attr_lists [] name = []"
| "attr_lists (attr # attrs) name =
     (case meta_item_list attr of
        Some l \<Rightarrow> if attr_check_name attr name then l @ attr_lists attrs name else attr_lists attrs name
      | None \<Rightarrow> attr_lists attrs name)"

definition has_word :: "nested_meta_item list \<Rightarrow> string \<Rightarrow> bool" where
  "has_word l word = list_ex (\<lambda>attr. nested_is_word attr \<and> nested_check_name attr word) l"

datatype doc_fragment =
    SugaredDoc nat nat string
  | RawDoc nat nat string
  | Include nat nat string string

fun fragment_as_str :: "doc_fragment \<Rightarrow> string" where
  "fragment_as_str (SugaredDoc _ _ s) = s"
| "fragment_as_str (RawDoc _ _ s) = s"
| "fragment_as_str (Include _ _ _ s) = s"

record item_attributes =
  doc_strings :: "doc_fragment list"
  other_attrs :: "ast_attribute list"
  attrs_cfg :: "doc_cfg option"
  attrs_span :: "nat option"
  attrs_links :: "(string \<times> def_id option \<times> string option) list"
  inner_docs :: bool

definition doc_value :: "item_attributes \<Rightarrow> string option" where
  "doc_value attrs = (case doc_strings attrs of [] \<Rightarrow> None | s # _ \<Rightarrow> Some (fragment_as_str s))"

text \<open>The aliases are a hash set, listed here without duplicates in the order of the attributes.\<close>

definition get_doc_aliases :: "item_attributes \<Rightarrow> string list" where
  "get_doc_aliases attrs =
     remdups (filter (\<lambda>v. v \<noteq> '''')
       (List.map_filter (\<lambda>a. map_option (\<lambda>v. str_replace v [CHR 0x22] '''') (nested_value_str a))
         (filter (\<lambda>a. nested_check_name a ''alias'') (attr_lists (other_attrs attrs) ''doc''))))"

definition is_hidden :: "item_attributes \<Rightarrow> bool" where
  "is_hidden attrs = has_word (attr_lists (other_attrs attrs) ''doc'') ''hidden''"

section \<open>The structs of an item\<close>

datatype type_kind =
    TkEnum | TkFunction | TkModule | TkConst | TkStatic | TkStruct | TkUnion | TkTrait | TkTypedef
  | TkForeign | TkMacro | TkAttr | TkDerive | TkTraitAlias

datatype constness = ConstFn | NotConstFn

datatype is_async = AsyncFn | NotAsyncFn

record fn_header =
  header_unsafety :: hir_unsafety
  header_constness :: constness
  header_asyncness :: is_async
  header_abi :: abi

datatype defaultness = DefaultValue bool | FinalValue

record clean_function =
  fn_decl :: "clean_type fn_decl"
  fn_generics :: generics
  fn_header :: fn_header
  fn_all_types :: "(clean_type \<times> type_kind) list"
  fn_ret_types :: "(clean_type \<times> type_kind) list"

record clean_method = clean_function +
  method_defaultness :: "defaultness option"

datatype import_source = ImportSource (import_path: "clean_type path") (import_did: "def_id option")

datatype clean_import = SimpleImport string import_source | GlobImport import_source

datatype struct_type = StPlain | StTuple | StUnit

datatype 'i clean_struct =
  Struct (struct_type: struct_type) (struct_generics: generics) (struct_fields: "'i list")
    (struct_fields_stripped: bool)

datatype 'i clean_union =
  Union (union_type: struct_type) (union_generics: generics) (union_fields: "'i list")
    (union_fields_stripped: bool)

datatype 'i variant_struct =
  VariantStruct (vs_type: struct_type) (vs_fields: "'i list") (vs_fields_stripped: bool)

datatype 'i clean_enum =
  Enum (enum_variants: "'i list") (enum_generics: generics) (enum_variants_stripped: bool)

datatype 'i variant_kind = CLike | TupleVariant "clean_type list" | StructVariant "'i variant_struct"

datatype 'i clean_variant = Variant (variant_kind: "'i variant_kind")

datatype 'i clean_module = Module (module_items: "'i list") (module_is_crate: bool)

record clean_typedef =
  td_type :: clean_type
  td_generics :: generics
  td_item_type :: "clean_type option"

record opaque_ty =
  op_bounds :: "clean_type generic_bound list"
  op_generics :: generics

record clean_static =
  st_type :: clean_type
  st_mutability :: mutability
  st_expr :: string

datatype 'i clean_trait =
  Trait (trait_auto: bool) (trait_unsafety: hir_unsafety) (trait_items: "'i list")
    (trait_generics: generics) (trait_bounds: "clean_type generic_bound list") (trait_is_auto: bool)

record trait_alias =
  ta_generics :: generics
  ta_bounds :: "clean_type generic_bound list"

datatype impl_polarity = Positive | Negative

datatype 'i clean_impl =
  Impl (impl_unsafety: hir_unsafety) (impl_generics: generics) (provided_trait_methods: "string list")
    (impl_trait: "clean_type option") (impl_for: clean_type) (impl_items: "'i list")
    (impl_polarity: "impl_polarity option") (impl_synthetic: bool) (blanket_impl: "clean_type option")

record clean_macro =
  macro_source :: string
  imported_from :: "string option"

record proc_macro =
  pm_kind :: macro_kind
  pm_helpers :: "string list"

section \<open>Items\<close>

text \<open>\<open>TyMethod\<close> has the fields of \<open>Function\<close>.\<close>

datatype 'i item_enum =
    ExternCrateItem string "string option"
  | ImportItem clean_import
  | StructItem "'i clean_struct"
  | UnionItem "'i clean_union"
  | EnumItem "'i clean_enum"
  | FunctionItem clean_function
  | ModuleItem "'i clean_module"
  | TypedefItem clean_typedef bool
  | OpaqueTyItem opaque_ty bool
  | StaticItem clean_static
  | ConstantItem "clean_type clean_constant"
  | TraitItem "'i clean_trait"
  | TraitAliasItem trait_alias
  | ImplItem "'i clean_impl"
  | TyMethodItem clean_function
  | MethodItem clean_method
  | StructFieldItem clean_type
  | VariantItem "'i clean_variant"
  | ForeignFunctionItem clean_function
  | ForeignStaticItem clean_static
  | ForeignTypeItem
  | MacroItem clean_macro
  | ProcMacroItem proc_macro
  | PrimitiveItem primitive_type
  | AssocConstItem clean_type "string option"
  | AssocTypeItem "clean_type generic_bound list" "clean_type option"
  | StrippedItem "'i item_enum"
  | KeywordItem string

record clean_span =
  span_filename :: string
  span_cnum :: nat
  span_lo :: "nat \<times> nat"
  span_hi :: "nat \<times> nat"
  span_original :: nat

datatype stability_level = Unstable | Stable

record deprecation =
  depr_since :: "string option"
  depr_note :: "string option"

record stability =
  stab_level :: stability_level
  stab_feature :: "string option"
  stab_since :: string
  stab_deprecation :: "deprecation option"
  unstable_reason :: "string option"
  stab_issue :: "nat option"

datatype clean_item =
  CleanItem (item_source: clean_span) (item_name: "string option") (item_attrs: item_attributes)
    (item_inner: "clean_item item_enum") (item_visibility: visibility) (item_def_id: def_id)
    (item_stability: "stability option") (item_deprecation: "deprecation option")

type_synonym item_inner = "clean_item item_enum"
type_synonym item_impl = "clean_item clean_impl"
type_synonym item_trait = "clean_item clean_trait"

text \<open>The item with another \<open>inner\<close>, and with another name.\<close>

definition set_inner :: "item_inner \<Rightarrow> clean_item \<Rightarrow> clean_item" where
  "set_inner inner item = CleanItem (item_source item) (item_name item) (item_attrs item) inner
     (item_visibility item) (item_def_id item) (item_stability item) (item_deprecation item)"

definition set_name :: "string option \<Rightarrow> clean_item \<Rightarrow> clean_item" where
  "set_name name item = CleanItem (item_source item) name (item_attrs item) (item_inner item)
     (item_visibility item) (item_def_id item) (item_stability item) (item_deprecation item)"

definition is_stripped :: "clean_item \<Rightarrow> bool" where
  "is_stripped item = (case item_inner item of StrippedItem _ \<Rightarrow> True | _ \<Rightarrow> False)"

text \<open>\<open>ItemType::from\<close> looks under one layer of \<open>StrippedItem\<close>; a second one is unreachable.\<close>

definition item_type_of :: "'i item_enum \<Rightarrow> item_type outcome" where
  "item_type_of inner =
     (case (case inner of StrippedItem item \<Rightarrow> item | _ \<Rightarrow> inner) of
        ModuleItem _ \<Rightarrow> Done ItModule
      | ExternCrateItem _ _ \<Rightarrow> Done ItExternCrate
      | ImportItem _ \<Rightarrow> Done ItImport
      | StructItem _ \<Rightarrow> Done ItStruct
      | UnionItem _ \<Rightarrow> Done ItUnion
      | EnumItem _ \<Rightarrow> Done ItEnum
      | FunctionItem _ \<Rightarrow> Done ItFunction
      | TypedefItem _ _ \<Rightarrow> Done ItTypedef
      | OpaqueTyItem _ _ \<Rightarrow> Done ItOpaqueTy
      | StaticItem _ \<Rightarrow> Done ItStatic
      | ConstantItem _ \<Rightarrow> Done ItConstant
      | TraitItem _ \<Rightarrow> Done ItTrait
      | ImplItem _ \<Rightarrow> Done ItImpl
      | TyMethodItem _ \<Rightarrow> Done ItTyMethod
      | MethodItem _ \<Rightarrow> Done ItMethod
      | StructFieldItem _ \<Rightarrow> Done ItStructField
      | VariantItem _ \<Rightarrow> Done ItVariant
      | ForeignFunctionItem _ \<Rightarrow> Done ItFunction
      | ForeignStaticItem _ \<Rightarrow> Done ItStatic
      | MacroItem _ \<Rightarrow> Done ItMacro
      | PrimitiveItem _ \<Rightarrow> Done ItPrimitive
      | AssocConstItem _ _ \<Rightarrow> Done ItAssocConst
      | AssocTypeItem _ _ \<Rightarrow> Done ItAssocType
      | ForeignTypeItem \<Rightarrow> Done ItForeignType
      | KeywordItem _ \<Rightarrow> Done ItKeyword
      | TraitAliasItem _ \<Rightarrow> Done ItTraitAlias
      | ProcMacroItem mac \<Rightarrow>
          Done (case pm_kind mac of Bang \<Rightarrow> ItMacro | Attr \<Rightarrow> ItProcAttribute | Derive \<Rightarrow> ItProcDerive)
      | StrippedItem _ \<Rightarrow> Panic (ExplicitPanic ''unreachable''))"

fun item_type_of_kind :: "type_kind \<Rightarrow> item_type" where
  "item_type_of_kind TkStruct = ItStruct"
| "item_type_of_kind TkUnion = ItUnion"
| "item_type_of_kind TkEnum = ItEnum"
| "item_type_of_kind TkFunction = ItFunction"
| "item_type_of_kind TkTrait = ItTrait"
| "item_type_of_kind TkModule = ItModule"
| "item_type_of_kind TkStatic = ItStatic"
| "item_type_of_kind TkConst = ItConstant"
| "item_type_of_kind TkTypedef = ItTypedef"
| "item_type_of_kind TkForeign = ItForeignType"
| "item_type_of_kind TkMacro = ItMacro"
| "item_type_of_kind TkAttr = ItProcAttribute"
| "item_type_of_kind TkDerive = ItProcDerive"
| "item_type_of_kind TkTraitAlias = ItTraitAlias"

definition is_mod :: "clean_item \<Rightarrow> bool outcome" where
  "is_mod item = omap (\<lambda>ty. ty = ItModule) (item_type_of (item_inner item))"

section \<open>Crates\<close>

record external_crate =
  ext_name :: string
  ext_src :: string
  ext_attrs :: item_attributes
  ext_primitives :: "(def_id \<times> primitive_type \<times> item_attributes) list"
  ext_keywords :: "(def_id \<times> string \<times> item_attributes) list"

text \<open>The hash map \<open>external_traits\<close> and the hash set \<open>masked_crates\<close> are lists of their entries.\<close>

record clean_crate =
  krate_name :: string
  krate_version :: "string option"
  krate_src :: string
  krate_module :: "clean_item option"
  krate_externs :: "(nat \<times> external_crate) list"
  krate_primitives :: "(def_id \<times> primitive_type \<times> item_attributes) list"
  external_traits :: "(def_id \<times> item_trait) list"
  masked_crates :: "nat list"
  krate_collapsed :: bool

definition local_crate :: nat where
  "local_crate = 0"

definition crate_def_index :: nat where
  "crate_def_index = 0"

definition is_local :: "def_id \<Rightarrow> bool" where
  "is_local did = (krate did = local_crate)"

section \<open>Access levels\<close>

datatype access_level = ReachableFromImplTrait | Reachable | Exported | PublicLevel

fun access_rank :: "access_level \<Rightarrow> nat" where
  "access_rank ReachableFromImplTrait = 0"
| "access_rank Reachable = 1"
| "access_rank Exported = 2"
| "access_rank PublicLevel = 3"

lemma access_rank_inject: "access_rank a = access_rank b \<longleftrightarrow> a = b"
  by (cases a; cases b) simp_all

text \<open>The derived order of the enum: the order of its constructors.\<close>

instantiation access_level :: linorder
begin

definition less_eq_access_level :: "access_level \<Rightarrow> access_level \<Rightarrow> bool" where
  "a \<le> b \<longleftrightarrow> access_rank a \<le> access_rank b"

definition less_access_level :: "access_level \<Rightarrow> access_level \<Rightarrow> bool" where
  "a < b \<longleftrightarrow> access_rank a < access_rank b"

instance
  by standard (auto simp: less_eq_access_level_def less_access_level_def access_rank_inject)

end

type_synonym access_levels = "def_id \<Rightarrow> access_level option"

definition is_exported :: "access_levels \<Rightarrow> def_id \<Rightarrow> bool" where
  "is_exported levels did \<longleftrightarrow> Some Exported \<le> levels did"

definition is_public :: "access_levels \<Rightarrow> def_id \<Rightarrow> bool" where
  "is_public levels did \<longleftrightarrow> Some PublicLevel \<le> levels did"

lemma public_exported: "is_public levels did \<Longrightarrow> is_exported levels did"
  unfolding is_public_def is_exported_def
  by (rule order_trans [of _ "Some PublicLevel"]) (simp_all add: less_eq_access_level_def)

section \<open>The items under an item\<close>

lemma size_inner_item [termination_simp]: "x \<in> set_item_enum e \<Longrightarrow> f x < size_item_enum f e"
proof (induction e)
  case (StructItem s)
  then show ?case by (cases s) (auto dest: size_list_elem [where f = f])
next
  case (UnionItem u)
  then show ?case by (cases u) (auto dest: size_list_elem [where f = f])
next
  case (EnumItem u)
  then show ?case by (cases u) (auto dest: size_list_elem [where f = f])
next
  case (ModuleItem m)
  then show ?case by (cases m) (auto dest: size_list_elem [where f = f])
next
  case (TraitItem t)
  then show ?case by (cases t) (auto dest: size_list_elem [where f = f])
next
  case (ImplItem t)
  then show ?case by (cases t) (auto dest: size_list_elem [where f = f])
next
  case (VariantItem v)
  obtain k where v: "v = Variant k" by (cases v)
  show ?case
  proof (cases k)
    case (StructVariant vs)
    then show ?thesis using VariantItem v by (cases vs) (auto dest: size_list_elem [where f = f])
  qed (use VariantItem v in auto)
qed auto

lemma size_item_inner [termination_simp]: "x \<in> set_item_enum (item_inner item) \<Longrightarrow> size x < size item"
  using size_inner_item [of x "item_inner item" size] by (cases item) auto

end
