(* ===== verification/Doc_Folder.thy ===== *)
theory Doc_Folder
  imports Clean_Item
begin

text \<open>
  \<^verbatim>\<open>librustdoc/fold.rs\<close>: the trait \<open>DocFolder\<close>, with which the passes and the cache go through a crate.
  The default methods are functions of the method \<open>fold_item\<close> of the folder and of the folder's
  state, which they thread through the items in the order the iterators do. \<open>fold_inner_recur\<close> is
  unreachable on a stripped item, a panic of the model; \<open>item_flat\<close> are the items on which it is
  not reached. The locale \<open>item_folder\<close> is the contract of a folder that returns on such items.
\<close>

section \<open>The default methods\<close>

definition strip :: "clean_item \<Rightarrow> clean_item option" where
  "strip item =
     (case item_inner item of
        StrippedItem _ \<Rightarrow> Some item
      | inner \<Rightarrow> Some (set_inner (StrippedItem inner) item))"

type_synonym 's folder = "clean_item \<Rightarrow> 's \<Rightarrow> (clean_item option \<times> 's) outcome"

text \<open>\<open>into_iter().filter_map(|x| self.fold_item(x)).collect()\<close>.\<close>

fun fold_list :: "'s folder \<Rightarrow> clean_item list \<Rightarrow> 's \<Rightarrow> (clean_item list \<times> 's) outcome" where
  "fold_list f [] s = Done ([], s)"
| "fold_list f (x # xs) s =
     obind (f x s) (\<lambda>(y, s). obind (fold_list f xs s) (\<lambda>(ys, s).
       Done (case y of None \<Rightarrow> ys | Some y \<Rightarrow> y # ys, s)))"

definition fold_mod :: "'s folder \<Rightarrow> clean_item clean_module \<Rightarrow> 's \<Rightarrow> (clean_item clean_module \<times> 's) outcome" where
  "fold_mod f m s =
     obind (fold_list f (module_items m) s) (\<lambda>(items, s). Done (Module items (module_is_crate m), s))"

text \<open>\<open>fields_stripped |= num_fields != fields.len() || fields.iter().any(is_stripped)\<close>.\<close>

definition some_stripped :: "clean_item list \<Rightarrow> clean_item list \<Rightarrow> bool" where
  "some_stripped before after \<longleftrightarrow> length before \<noteq> length after \<or> list_ex is_stripped after"

definition fold_trait :: "'s folder \<Rightarrow> item_trait \<Rightarrow> 's \<Rightarrow> (item_trait \<times> 's) outcome" where
  "fold_trait f t s =
     obind (fold_list f (trait_items t) s) (\<lambda>(items, s).
       Done (Trait (trait_auto t) (trait_unsafety t) items (trait_generics t) (trait_bounds t) (trait_is_auto t), s))"

definition fold_variant :: "'s folder \<Rightarrow> clean_item clean_variant \<Rightarrow> 's \<Rightarrow> (clean_item clean_variant \<times> 's) outcome" where
  "fold_variant f v s =
     (case variant_kind v of
        StructVariant j \<Rightarrow>
          obind (fold_list f (vs_fields j) s) (\<lambda>(fields, s).
            Done (Variant (StructVariant (VariantStruct (vs_type j) fields
              (vs_fields_stripped j \<or> some_stripped (vs_fields j) fields))), s))
      | _ \<Rightarrow> Done (v, s))"

definition fold_impl :: "'s folder \<Rightarrow> item_impl \<Rightarrow> 's \<Rightarrow> (item_impl \<times> 's) outcome" where
  "fold_impl f i s =
     obind (fold_list f (impl_items i) s) (\<lambda>(items, s).
       Done (Impl (impl_unsafety i) (impl_generics i) (provided_trait_methods i) (impl_trait i) (impl_for i)
         items (impl_polarity i) (impl_synthetic i) (blanket_impl i), s))"

definition fold_inner_recur :: "'s folder \<Rightarrow> item_inner \<Rightarrow> 's \<Rightarrow> (item_inner \<times> 's) outcome" where
  "fold_inner_recur f inner s =
     (case inner of
        StrippedItem _ \<Rightarrow> Panic (ExplicitPanic ''unreachable'')
      | ModuleItem i \<Rightarrow> obind (fold_mod f i s) (\<lambda>(i, s). Done (ModuleItem i, s))
      | StructItem i \<Rightarrow>
          obind (fold_list f (struct_fields i) s) (\<lambda>(fields, s).
            Done (StructItem (Struct (struct_type i) (struct_generics i) fields
              (struct_fields_stripped i \<or> some_stripped (struct_fields i) fields)), s))
      | UnionItem i \<Rightarrow>
          obind (fold_list f (union_fields i) s) (\<lambda>(fields, s).
            Done (UnionItem (Union (union_type i) (union_generics i) fields
              (union_fields_stripped i \<or> some_stripped (union_fields i) fields)), s))
      | EnumItem i \<Rightarrow>
          obind (fold_list f (enum_variants i) s) (\<lambda>(variants, s).
            Done (EnumItem (Enum variants (enum_generics i)
              (enum_variants_stripped i \<or> some_stripped (enum_variants i) variants)), s))
      | TraitItem i \<Rightarrow> obind (fold_trait f i s) (\<lambda>(i, s). Done (TraitItem i, s))
      | ImplItem i \<Rightarrow> obind (fold_impl f i s) (\<lambda>(i, s). Done (ImplItem i, s))
      | VariantItem i \<Rightarrow> obind (fold_variant f i s) (\<lambda>(i, s). Done (VariantItem i, s))
      | x \<Rightarrow> Done (x, s))"

definition fold_item_recur :: "'s folder \<Rightarrow> 's folder" where
  "fold_item_recur f item s =
     (case item_inner item of
        StrippedItem i \<Rightarrow>
          obind (fold_inner_recur f i s) (\<lambda>(i, s). Done (Some (set_inner (StrippedItem i) item), s))
      | inner \<Rightarrow> obind (fold_inner_recur f inner s) (\<lambda>(inner, s). Done (Some (set_inner inner item), s)))"

text \<open>The entries of \<open>external_traits\<close> are taken in the order of the list.\<close>

fun fold_traits :: "'s folder \<Rightarrow> (def_id \<times> item_trait) list \<Rightarrow> 's \<Rightarrow> ((def_id \<times> item_trait) list \<times> 's) outcome" where
  "fold_traits f [] s = Done ([], s)"
| "fold_traits f ((k, v) # ts) s =
     obind (fold_trait f v s) (\<lambda>(v, s). obind (fold_traits f ts s) (\<lambda>(ts, s). Done ((k, v) # ts, s)))"

definition fold_crate :: "'s folder \<Rightarrow> clean_crate \<Rightarrow> 's \<Rightarrow> (clean_crate \<times> 's) outcome" where
  "fold_crate f c s =
     obind (case krate_module c of None \<Rightarrow> Done (None, s) | Some m \<Rightarrow> f m s) (\<lambda>(m, s).
     obind (fold_traits f (external_traits c) s) (\<lambda>(traits, s).
       Done (c\<lparr>krate_module := m, external_traits := traits\<rparr>, s)))"

section \<open>A folder goes through the items under an item\<close>

text \<open>
  The items under an item and the item with other items under it, whatever struct holds them; with
  them a step of a folder is one loop.
\<close>

fun children :: "item_inner \<Rightarrow> clean_item list" where
  "children (StructItem i) = struct_fields i"
| "children (UnionItem i) = union_fields i"
| "children (EnumItem i) = enum_variants i"
| "children (ModuleItem i) = module_items i"
| "children (TraitItem i) = trait_items i"
| "children (ImplItem i) = impl_items i"
| "children (VariantItem v) = (case variant_kind v of StructVariant j \<Rightarrow> vs_fields j | _ \<Rightarrow> [])"
| "children (StrippedItem i) = children i"
| "children _ = []"

fun rebuild :: "item_inner \<Rightarrow> clean_item list \<Rightarrow> item_inner" where
  "rebuild (StructItem i) xs = StructItem (Struct (struct_type i) (struct_generics i) xs
     (struct_fields_stripped i \<or> some_stripped (struct_fields i) xs))"
| "rebuild (UnionItem i) xs = UnionItem (Union (union_type i) (union_generics i) xs
     (union_fields_stripped i \<or> some_stripped (union_fields i) xs))"
| "rebuild (EnumItem i) xs = EnumItem (Enum xs (enum_generics i)
     (enum_variants_stripped i \<or> some_stripped (enum_variants i) xs))"
| "rebuild (ModuleItem i) xs = ModuleItem (Module xs (module_is_crate i))"
| "rebuild (TraitItem i) xs = TraitItem (Trait (trait_auto i) (trait_unsafety i) xs (trait_generics i)
     (trait_bounds i) (trait_is_auto i))"
| "rebuild (ImplItem i) xs = ImplItem (Impl (impl_unsafety i) (impl_generics i) (provided_trait_methods i)
     (impl_trait i) (impl_for i) xs (impl_polarity i) (impl_synthetic i) (blanket_impl i))"
| "rebuild (VariantItem v) xs = (case variant_kind v of
     StructVariant j \<Rightarrow> VariantItem (Variant (StructVariant (VariantStruct (vs_type j) xs
       (vs_fields_stripped j \<or> some_stripped (vs_fields j) xs))))
   | _ \<Rightarrow> VariantItem v)"
| "rebuild (StrippedItem i) xs = StrippedItem (rebuild i xs)"
| "rebuild inner xs = inner"

definition item_children :: "clean_item \<Rightarrow> clean_item list" where
  "item_children item = children (item_inner item)"

definition rebuild_item :: "clean_item \<Rightarrow> clean_item list \<Rightarrow> clean_item" where
  "rebuild_item item xs = set_inner (rebuild (item_inner item) xs) item"

lemma struct_sets [simp]:
  "set_clean_struct s = set (struct_fields s)" "set_clean_union u = set (union_fields u)"
  "set_clean_enum e = set (enum_variants e)" "set_clean_module m = set (module_items m)"
  "set_clean_trait t = set (trait_items t)" "set_clean_impl i = set (impl_items i)"
  "set_variant_struct j = set (vs_fields j)" "set_clean_variant v = set_variant_kind (variant_kind v)"
  by (cases s; cases u; cases e; cases m; cases t; cases i; cases j; cases v; simp)+

lemma set_variant_kind_eq:
  "set_variant_kind k = (case k of StructVariant j \<Rightarrow> set (vs_fields j) | _ \<Rightarrow> {})"
  by (cases k) simp_all

lemma set_children: "set (children inner) = set_item_enum inner"
  by (induction inner) (auto simp: set_variant_kind_eq split: variant_kind.splits)

lemma size_item_children [termination_simp]: "x \<in> set (item_children item) \<Longrightarrow> size x < size item"
  by (simp add: item_children_def set_children size_item_inner)

lemma fold_inner_recur_eq:
  "fold_inner_recur f inner s =
     (case inner of
        StrippedItem _ \<Rightarrow> Panic (ExplicitPanic ''unreachable'')
      | _ \<Rightarrow> obind (fold_list f (children inner) s) (\<lambda>(xs, s). Done (rebuild inner xs, s)))"
  by (cases inner)
    (auto simp: fold_inner_recur_def fold_mod_def fold_trait_def fold_impl_def fold_variant_def obind_assoc
      intro!: obind_cong split: variant_kind.split)

text \<open>Items with at most one layer of \<open>StrippedItem\<close>, at every level.\<close>

definition flat_here :: "clean_item \<Rightarrow> bool" where
  "flat_here item = (case item_inner item of StrippedItem (StrippedItem _) \<Rightarrow> False | _ \<Rightarrow> True)"

function item_flat :: "clean_item \<Rightarrow> bool" where
  "item_flat item \<longleftrightarrow> flat_here item \<and> list_all item_flat (item_children item)"
  by pat_completeness auto
termination
  by (relation "measure size") (auto simp: size_item_children)

declare item_flat.simps [simp del]

lemma fold_item_recur_eq:
  assumes "flat_here item"
  shows "fold_item_recur f item s =
    obind (fold_list f (item_children item) s) (\<lambda>(xs, s). Done (Some (rebuild_item item xs), s))"
proof (cases "item_inner item")
  case (StrippedItem i)
  with assms show ?thesis
    by (cases i) (auto simp: flat_here_def fold_item_recur_def fold_inner_recur_eq item_children_def
        rebuild_item_def obind_assoc intro!: obind_cong)
qed (auto simp: fold_item_recur_def fold_inner_recur_eq item_children_def rebuild_item_def obind_assoc
      intro!: obind_cong)

section \<open>Recursion through a folder\<close>

lemma fold_list_cong [fundef_cong]:
  "xs = ys \<Longrightarrow> s = t \<Longrightarrow> (\<And>x s. x \<in> set ys \<Longrightarrow> f x s = g x s) \<Longrightarrow> fold_list f xs s = fold_list g ys t"
proof (induction xs arbitrary: ys s t)
  case (Cons x xs)
  then show ?case by (auto intro!: obind_cong)
qed auto

lemma fold_item_recur_cong [fundef_cong]:
  assumes "item = item'" "s = t" "\<And>x s. x \<in> set (item_children item') \<Longrightarrow> f x s = g x s"
  shows "fold_item_recur f item s = fold_item_recur g item' t"
proof -
  have "fold_inner_recur f inner t = fold_inner_recur g inner t"
    if "set (children inner) \<subseteq> set (item_children item')" for inner
  proof -
    have "fold_list f (children inner) t = fold_list g (children inner) t"
      using assms(3) that by (intro fold_list_cong) auto
    then show ?thesis unfolding fold_inner_recur_eq by (cases inner) simp_all
  qed
  then show ?thesis
    using assms(1,2) by (cases "item_inner item'") (simp_all add: fold_item_recur_def item_children_def)
qed

lemma map_filter_cong [fundef_cong]:
  "xs = ys \<Longrightarrow> (\<And>x. x \<in> set ys \<Longrightarrow> f x = g x) \<Longrightarrow> List.map_filter f xs = List.map_filter g ys"
  by (induction xs arbitrary: ys) (auto simp: map_filter_simps split: option.split)

lemma set_map_filter: "set (List.map_filter f xs) = {y. \<exists>x \<in> set xs. f x = Some y}"
  by (induction xs) (auto simp: map_filter_simps split: option.split)

lemma fold_list_spec:
  assumes "\<And>x s. x \<in> set xs \<Longrightarrow> ok s \<Longrightarrow> f x s = Done (keep x, effect x s) \<and> ok (effect x s)" and "ok s"
  shows "fold_list f xs s = Done (List.map_filter keep xs, fold effect xs s) \<and> ok (fold effect xs s)"
  using assms by (induction xs arbitrary: s) (auto simp: map_filter_simps split: option.split)

lemma children_rebuild:
  "children (rebuild inner (List.map_filter keep (children inner))) = List.map_filter keep (children inner)"
  by (induction inner) (auto simp: map_filter_simps split: variant_kind.split)

lemma rebuild_item_simps [simp]:
  "item_name (rebuild_item item xs) = item_name item" "item_def_id (rebuild_item item xs) = item_def_id item"
  "item_visibility (rebuild_item item xs) = item_visibility item" "item_attrs (rebuild_item item xs) = item_attrs item"
  "item_inner (rebuild_item item xs) = rebuild (item_inner item) xs"
  by (simp_all add: rebuild_item_def set_inner_def)

section \<open>The contract of a folder\<close>

text \<open>The items a folder is called on by \<open>fold_crate\<close>, and the crate it makes of them.\<close>

definition crate_items :: "clean_crate \<Rightarrow> clean_item list" where
  "crate_items c = (case krate_module c of None \<Rightarrow> [] | Some m \<Rightarrow> [m]) @
     concat (map (trait_items \<circ> snd) (external_traits c))"

definition crate_flat :: "clean_crate \<Rightarrow> bool" where
  "crate_flat c \<longleftrightarrow> list_all item_flat (crate_items c)"

definition trait_with :: "(clean_item \<Rightarrow> clean_item option) \<Rightarrow> item_trait \<Rightarrow> item_trait" where
  "trait_with keep t = Trait (trait_auto t) (trait_unsafety t) (List.map_filter keep (trait_items t))
     (trait_generics t) (trait_bounds t) (trait_is_auto t)"

definition crate_with :: "(clean_item \<Rightarrow> clean_item option) \<Rightarrow> clean_crate \<Rightarrow> clean_crate" where
  "crate_with keep c = c\<lparr>krate_module := Option.bind (krate_module c) keep,
     external_traits := map (\<lambda>(k, t). (k, trait_with keep t)) (external_traits c)\<rparr>"

text \<open>
  On flat items a folder returns: what it makes of an item does not depend on its state, and its
  effect on the state keeps the state in the set \<open>ok\<close>.
\<close>

locale item_folder =
  fixes fold_item :: "'s folder"
    and keep :: "clean_item \<Rightarrow> clean_item option"
    and effect :: "clean_item \<Rightarrow> 's \<Rightarrow> 's"
    and ok :: "'s \<Rightarrow> bool"
  assumes fold_item_eq: "item_flat item \<Longrightarrow> ok s \<Longrightarrow> fold_item item s = Done (keep item, effect item s)"
    and effect_ok: "item_flat item \<Longrightarrow> ok s \<Longrightarrow> ok (effect item s)"
begin

lemma fold_list_eq:
  "list_all item_flat xs \<Longrightarrow> ok s \<Longrightarrow>
     fold_list fold_item xs s = Done (List.map_filter keep xs, fold effect xs s) \<and> ok (fold effect xs s)"
  by (rule fold_list_spec) (auto simp: fold_item_eq effect_ok list_all_iff)

lemma fold_traits_eq:
  "list_all (\<lambda>(_, t). list_all item_flat (trait_items t)) ts \<Longrightarrow> ok s \<Longrightarrow>
     fold_traits fold_item ts s = Done (map (\<lambda>(k, t). (k, trait_with keep t)) ts,
       fold (\<lambda>(_, t). fold effect (trait_items t)) ts s) \<and>
     ok (fold (\<lambda>(_, t). fold effect (trait_items t)) ts s)"
  by (induction ts arbitrary: s) (auto simp: fold_list_eq fold_trait_def trait_with_def)

lemma fold_crate_eq:
  assumes "crate_flat c" "ok s"
  shows "fold_crate fold_item c s = Done (crate_with keep c, fold effect (crate_items c) s) \<and>
    ok (fold effect (crate_items c) s)"
proof -
  have flat: "list_all (\<lambda>(_, t). list_all item_flat (trait_items t)) (external_traits c)"
    using assms(1) by (fastforce simp: crate_flat_def crate_items_def list_all_iff)
  have "fold effect (concat (map (trait_items \<circ> snd) ts)) s = fold (\<lambda>(_, t). fold effect (trait_items t)) ts s"
    for ts :: "(def_id \<times> item_trait) list" and s
    by (induction ts arbitrary: s) auto
  then show ?thesis
    using assms fold_traits_eq [OF flat] fold_item_eq effect_ok
    by (cases "krate_module c")
      (auto simp: fold_crate_def crate_with_def crate_items_def crate_flat_def)
qed

end

end
