(* ===== verification/Strip_Passes.thy ===== *)
theory Strip_Passes
  imports Doc_Folder
begin

text \<open>
  The passes that strip items from a cleaned crate before the generator sees it
  (\<^verbatim>\<open>librustdoc/passes/mod.rs\<close>, \<^verbatim>\<open>strip_hidden.rs\<close>, \<^verbatim>\<open>strip_private.rs\<close>, \<^verbatim>\<open>strip_priv_imports.rs\<close>) and the
  list of passes that is run (\<open>fuzz_target_generator_run_core\<close> of \<^verbatim>\<open>core.rs\<close>). Every stripper is a
  folder; each is related to a function on items without state, and to the set of the ids it
  retains. The argument \<open>pl\<close> is the table of primitive locations in the thread-local cache that
  \<open>def_id\<close> of a type reads; no run has filled it when the passes run.
\<close>

section \<open>The strippers\<close>

record stripper =
  retained :: "def_id set"
  update_retained :: bool

text \<open>Items that can be re-exported and are kept just when they are exported.\<close>

definition can_be_reexported :: "item_inner \<Rightarrow> bool" where
  "can_be_reexported inner =
     (case inner of
        OpaqueTyItem _ _ \<Rightarrow> True | TypedefItem _ _ \<Rightarrow> True | StaticItem _ \<Rightarrow> True | StructItem _ \<Rightarrow> True
      | EnumItem _ \<Rightarrow> True | TraitItem _ \<Rightarrow> True | FunctionItem _ \<Rightarrow> True | VariantItem _ \<Rightarrow> True
      | MethodItem _ \<Rightarrow> True | ForeignFunctionItem _ \<Rightarrow> True | ForeignStaticItem _ \<Rightarrow> True
      | ConstantItem _ \<Rightarrow> True | UnionItem _ \<Rightarrow> True | AssocConstItem _ _ \<Rightarrow> True
      | TraitAliasItem _ \<Rightarrow> True | ForeignTypeItem \<Rightarrow> True | _ \<Rightarrow> False)"

definition fastreturn :: "item_inner \<Rightarrow> bool" where
  "fastreturn inner =
     (case inner of
        TraitItem _ \<Rightarrow> True
      | ImplItem imp \<Rightarrow> impl_trait imp \<noteq> None
      | VariantItem v \<Rightarrow> (case variant_kind v of StructVariant _ \<Rightarrow> True | _ \<Rightarrow> False)
      | _ \<Rightarrow> False)"

definition retain :: "clean_item \<Rightarrow> stripper \<Rightarrow> stripper" where
  "retain i s = (if update_retained s then s\<lparr>retained := insert (item_def_id i) (retained s)\<rparr> else s)"

definition is_field :: "item_inner \<Rightarrow> bool" where
  "is_field inner = (case inner of StructFieldItem _ \<Rightarrow> True | _ \<Rightarrow> False)"

definition is_module :: "item_inner \<Rightarrow> bool" where
  "is_module inner = (case inner of ModuleItem _ \<Rightarrow> True | _ \<Rightarrow> False)"

definition is_import :: "item_inner \<Rightarrow> bool" where
  "is_import inner = (case inner of ExternCrateItem _ _ \<Rightarrow> True | ImportItem _ \<Rightarrow> True | _ \<Rightarrow> False)"

text \<open>\<open>Stripper\<close> of \<^verbatim>\<open>passes/mod.rs\<close>.\<close>

function private_stripper :: "access_levels \<Rightarrow> stripper folder" where
  "private_stripper levels i s =
     (if is_stripped i then
        obind (fold_item_recur (private_stripper levels) i (s\<lparr>update_retained := False\<rparr>)) (\<lambda>(ret, s').
          Done (ret, s'\<lparr>update_retained := update_retained s\<rparr>))
      else if can_be_reexported (item_inner i) \<and> is_local (item_def_id i) \<and> \<not> is_exported levels (item_def_id i)
      then Done (None, s)
      else if is_field (item_inner i) \<and> item_visibility i \<noteq> Public then Done (strip i, s)
      else if is_module (item_inner i) \<and> is_local (item_def_id i) \<and> item_visibility i \<noteq> Public then
        obind (fold_item_recur (private_stripper levels) i (s\<lparr>update_retained := False\<rparr>)) (\<lambda>(ret, s').
        obind (unwrap ret) (\<lambda>ret. Done (strip ret, s'\<lparr>update_retained := update_retained s\<rparr>)))
      else if fastreturn (item_inner i) then Done (Some i, retain i s)
      else
        obind (fold_item_recur (private_stripper levels) i s) (\<lambda>(r, s).
          Done (r, case r of Some i \<Rightarrow> retain i s | None \<Rightarrow> s)))"
  by pat_completeness auto
termination
  by (relation "measure (\<lambda>(levels, i, s). size i)") (auto simp: size_item_children)

text \<open>\<open>Stripper\<close> of \<^verbatim>\<open>passes/strip_hidden.rs\<close>.\<close>

function hidden_stripper :: "stripper folder" where
  "hidden_stripper i s =
     (if is_hidden (item_attrs i) then
        if is_field (item_inner i) \<or> is_module (item_inner i) then
          obind (fold_item_recur hidden_stripper i (s\<lparr>update_retained := False\<rparr>)) (\<lambda>(ret, s').
          obind (unwrap ret) (\<lambda>ret. Done (strip ret, s'\<lparr>update_retained := update_retained s\<rparr>)))
        else Done (None, s)
      else fold_item_recur hidden_stripper i (retain i s))"
  by pat_completeness auto
termination
  by (relation "measure (\<lambda>(i, s). size i)") (auto simp: size_item_children)

text \<open>\<open>ImportStripper\<close>.\<close>

function import_stripper :: "unit folder" where
  "import_stripper i s =
     (if is_import (item_inner i) \<and> item_visibility i \<noteq> Public then Done (None, s)
      else fold_item_recur import_stripper i s)"
  by pat_completeness auto
termination
  by (relation "measure (\<lambda>(i, s). size i)") (auto simp: size_item_children)

text \<open>\<open>ImplStripper\<close>: which impl blocks go, and the folder.\<close>

definition stripped_id :: "def_id set \<Rightarrow> def_id option \<Rightarrow> bool" where
  "stripped_id kept did = (case did of Some did \<Rightarrow> is_local did \<and> did \<notin> kept | None \<Rightarrow> False)"

definition impl_stripped :: "(primitive_type \<Rightarrow> def_id option) \<Rightarrow> def_id set \<Rightarrow> item_impl \<Rightarrow> bool" where
  "impl_stripped pl kept imp \<longleftrightarrow>
     impl_trait imp = None \<and> impl_items imp = [] \<or>
     stripped_id kept (type_def_id pl (impl_for imp)) \<and> \<not> type_is_generic (impl_for imp) \<or>
     stripped_id kept (Option.bind (impl_trait imp) (type_def_id pl)) \<or>
     (case Option.bind (impl_trait imp) type_generics of
        Some generics \<Rightarrow> list_ex (\<lambda>typaram. stripped_id kept (type_def_id pl typaram)) generics
      | None \<Rightarrow> False)"

function impl_stripper :: "(primitive_type \<Rightarrow> def_id option) \<Rightarrow> def_id set \<Rightarrow> unit folder" where
  "impl_stripper pl kept i s =
     (if (case item_inner i of ImplItem imp \<Rightarrow> impl_stripped pl kept imp | _ \<Rightarrow> False) then Done (None, s)
      else fold_item_recur (impl_stripper pl kept) i s)"
  by pat_completeness auto
termination
  by (relation "measure (\<lambda>(pl, kept, i, s). size i)") (auto simp: size_item_children)

declare private_stripper.simps [simp del] hidden_stripper.simps [simp del]
  import_stripper.simps [simp del] impl_stripper.simps [simp del]

section \<open>The passes\<close>

definition strip_hidden :: "(primitive_type \<Rightarrow> def_id option) \<Rightarrow> clean_crate \<Rightarrow> clean_crate outcome" where
  "strip_hidden pl c =
     obind (fold_crate hidden_stripper c \<lparr>retained = {}, update_retained = True\<rparr>) (\<lambda>(c, s).
     obind (fold_crate (impl_stripper pl (retained s)) c ()) (\<lambda>(c, _). Done c))"

definition strip_private ::
  "(primitive_type \<Rightarrow> def_id option) \<Rightarrow> access_levels \<Rightarrow> clean_crate \<Rightarrow> clean_crate outcome" where
  "strip_private pl levels c =
     obind (fold_crate (private_stripper levels) c \<lparr>retained = {}, update_retained = True\<rparr>) (\<lambda>(c, s).
     obind (fold_crate import_stripper c ()) (\<lambda>(c, _).
     obind (fold_crate (impl_stripper pl (retained s)) c ()) (\<lambda>(c, _). Done c)))"

definition strip_priv_imports :: "clean_crate \<Rightarrow> clean_crate outcome" where
  "strip_priv_imports c = obind (fold_crate import_stripper c ()) (\<lambda>(c, _). Done c)"

section \<open>What a stripper makes of an item\<close>

text \<open>
  The decision a stripper takes at an item: drop it, leave it as it is, replace it by a stripped
  item, or go on to the items under it, where \<open>DescendQuiet\<close> and \<open>DescendStripped\<close> retain no ids.
\<close>

datatype verdict = Drop | Leave | StripHere | Descend | DescendQuiet | DescendStripped

function prune :: "(clean_item \<Rightarrow> verdict) \<Rightarrow> clean_item \<Rightarrow> clean_item option" where
  "prune v i =
     (let j = rebuild_item i (List.map_filter (prune v) (item_children i)) in
      case v i of
        Drop \<Rightarrow> None | Leave \<Rightarrow> Some i | StripHere \<Rightarrow> strip i
      | Descend \<Rightarrow> Some j | DescendQuiet \<Rightarrow> Some j | DescendStripped \<Rightarrow> strip j)"
  by pat_completeness auto
termination
  by (relation "measure (\<lambda>(v, i). size i)") (auto simp: size_item_children)

function kept_ids :: "(clean_item \<Rightarrow> verdict) \<Rightarrow> clean_item \<Rightarrow> def_id set" where
  "kept_ids v i =
     (case v i of
        Leave \<Rightarrow> {item_def_id i}
      | Descend \<Rightarrow> insert (item_def_id i) (\<Union>x \<in> set (item_children i). kept_ids v x)
      | _ \<Rightarrow> {})"
  by pat_completeness auto
termination
  by (relation "measure (\<lambda>(v, i). size i)") (auto simp: size_item_children)

declare prune.simps [simp del] kept_ids.simps [simp del]

definition private_verdict :: "access_levels \<Rightarrow> clean_item \<Rightarrow> verdict" where
  "private_verdict levels i =
     (if is_stripped i then DescendQuiet
      else if can_be_reexported (item_inner i) \<and> is_local (item_def_id i) \<and> \<not> is_exported levels (item_def_id i) then Drop
      else if is_field (item_inner i) \<and> item_visibility i \<noteq> Public then StripHere
      else if is_module (item_inner i) \<and> is_local (item_def_id i) \<and> item_visibility i \<noteq> Public then DescendStripped
      else if fastreturn (item_inner i) then Leave
      else Descend)"

definition hidden_verdict :: "clean_item \<Rightarrow> verdict" where
  "hidden_verdict i =
     (if \<not> is_hidden (item_attrs i) then Descend
      else if is_field (item_inner i) \<or> is_module (item_inner i) then DescendStripped else Drop)"

definition import_verdict :: "clean_item \<Rightarrow> verdict" where
  "import_verdict i = (if is_import (item_inner i) \<and> item_visibility i \<noteq> Public then Drop else Descend)"

definition impl_verdict :: "(primitive_type \<Rightarrow> def_id option) \<Rightarrow> def_id set \<Rightarrow> clean_item \<Rightarrow> verdict" where
  "impl_verdict pl kept i =
     (if (case item_inner i of ImplItem imp \<Rightarrow> impl_stripped pl kept imp | _ \<Rightarrow> False) then Drop else Descend)"

text \<open>
  The law of a stripper: if the items under an item are treated as its decisions say, so is the
  item. A stripper is then a folder.
\<close>

locale stripping =
  fixes fold_item :: "'s folder"
    and verdict :: "clean_item \<Rightarrow> verdict"
    and effect :: "clean_item \<Rightarrow> 's \<Rightarrow> 's"
  assumes step: "flat_here i \<Longrightarrow>
      (\<And>x s. x \<in> set (item_children i) \<Longrightarrow> fold_item x s = Done (prune verdict x, effect x s)) \<Longrightarrow>
      fold_item i s = Done (prune verdict i, effect i s)"
begin

lemma fold_item_prune: "item_flat i \<Longrightarrow> fold_item i s = Done (prune verdict i, effect i s)"
proof (induction i arbitrary: s rule: item_flat.induct)
  case (1 i)
  then have "flat_here i" "\<And>x. x \<in> set (item_children i) \<Longrightarrow> item_flat x"
    by (simp_all add: item_flat.simps [of i] list_all_iff)
  then show ?case using "1.IH" by (blast intro: step)
qed

end

sublocale stripping \<subseteq> folder: item_folder fold_item "prune verdict" effect "\<lambda>_. True"
  by unfold_locales (simp_all add: fold_item_prune)

definition note_kept :: "(clean_item \<Rightarrow> verdict) \<Rightarrow> clean_item \<Rightarrow> stripper \<Rightarrow> stripper" where
  "note_kept v i s = (if update_retained s then s\<lparr>retained := retained s \<union> kept_ids v i\<rparr> else s)"

lemma fold_note_kept:
  "fold (note_kept v) xs s =
     (if update_retained s then s\<lparr>retained := retained s \<union> (\<Union>x \<in> set xs. kept_ids v x)\<rparr> else s)"
  by (induction xs arbitrary: s) (auto simp: note_kept_def Un_assoc)

lemma recur_prune:
  assumes "flat_here i" "\<And>x s. x \<in> set (item_children i) \<Longrightarrow> f x s = Done (prune v x, effect x s)"
  shows "fold_item_recur f i s =
    Done (Some (rebuild_item i (List.map_filter (prune v) (item_children i))), fold effect (item_children i) s)"
  using fold_list_spec [of "item_children i" "\<lambda>_. True" f "prune v" effect s] assms
  by (simp add: fold_item_recur_eq)

interpretation private_items: stripping "private_stripper levels" "private_verdict levels" "note_kept (private_verdict levels)"
  for levels
proof unfold_locales
  fix i s assume "flat_here i" and "\<And>x s. x \<in> set (item_children i) \<Longrightarrow>
    private_stripper levels x s = Done (prune (private_verdict levels) x, note_kept (private_verdict levels) x s)"
  then have recur: "fold_item_recur (private_stripper levels) i s = Done
      (Some (rebuild_item i (List.map_filter (prune (private_verdict levels)) (item_children i))), fold (note_kept (private_verdict levels)) (item_children i) s)" for s
    by (rule recur_prune)
  show "private_stripper levels i s = Done (prune (private_verdict levels) i, note_kept (private_verdict levels) i s)"
    by (auto simp: private_stripper.simps [of levels i s] prune.simps [of _ i] kept_ids.simps [of _ i] recur fold_note_kept
        private_verdict_def note_kept_def retain_def Let_def)
qed

interpretation hidden_items: stripping hidden_stripper hidden_verdict "note_kept hidden_verdict"
proof unfold_locales
  fix i s assume "flat_here i" and "\<And>x s. x \<in> set (item_children i) \<Longrightarrow>
    hidden_stripper x s = Done (prune hidden_verdict x, note_kept hidden_verdict x s)"
  then have recur: "fold_item_recur hidden_stripper i s = Done
      (Some (rebuild_item i (List.map_filter (prune hidden_verdict) (item_children i))), fold (note_kept hidden_verdict) (item_children i) s)" for s
    by (rule recur_prune)
  show "hidden_stripper i s = Done (prune hidden_verdict i, note_kept hidden_verdict i s)"
    by (simp add: hidden_stripper.simps [of i s] prune.simps [of _ i] kept_ids.simps [of _ i] recur fold_note_kept
        hidden_verdict_def note_kept_def retain_def Let_def)
qed

lemma fold_unit: "fold (\<lambda>_ _. ()) xs s = ()"
  by (rule old.unit.exhaust) auto

interpretation import_items: stripping import_stripper import_verdict "\<lambda>_ _. ()"
proof unfold_locales
  fix i and s :: unit assume "flat_here i" and "\<And>x s. x \<in> set (item_children i) \<Longrightarrow>
    import_stripper x s = Done (prune import_verdict x, ())"
  note recur = recur_prune [OF this]
  show "import_stripper i s = Done (prune import_verdict i, ())"
    by (simp add: import_stripper.simps [of i "()"] prune.simps [of _ i] recur import_verdict_def)
qed

interpretation impl_blocks: stripping "impl_stripper pl kept" "impl_verdict pl kept" "\<lambda>_ _. ()" for pl kept
proof unfold_locales
  fix i and s :: unit assume "flat_here i" and "\<And>x s. x \<in> set (item_children i) \<Longrightarrow>
    impl_stripper pl kept x s = Done (prune (impl_verdict pl kept) x, ())"
  note recur = recur_prune [OF this]
  show "impl_stripper pl kept i s = Done (prune (impl_verdict pl kept) i, ())"
    by (simp add: impl_stripper.simps [of pl kept i "()"] prune.simps [of _ i] recur impl_verdict_def)
qed

section \<open>What is left after a stripper\<close>

definition bare :: "item_inner \<Rightarrow> item_inner" where
  "bare inner = (case inner of StrippedItem i \<Rightarrow> i | _ \<Rightarrow> inner)"

text \<open>The items that are the root or in the root's modules, stripped ones included.\<close>

inductive in_modules :: "clean_item \<Rightarrow> clean_item \<Rightarrow> bool" for root :: clean_item where
  root: "in_modules root root"
| inside: "in_modules root m \<Longrightarrow> is_module (bare (item_inner m)) \<Longrightarrow> x \<in> set (item_children m) \<Longrightarrow> in_modules root x"

lemma strip_Some:
  assumes "strip i = Some j"
  shows "item_children j = item_children i" "flat_here i \<Longrightarrow> flat_here j" "is_stripped j"
    "item_def_id j = item_def_id i" "item_name j = item_name i" "item_visibility j = item_visibility i"
    "bare (item_inner j) = bare (item_inner i)" "item_attrs j = item_attrs i"
proof -
  show "item_attrs j = item_attrs i" "item_children j = item_children i" "is_stripped j" "bare (item_inner j) = bare (item_inner i)"
      "item_def_id j = item_def_id i" "item_name j = item_name i" "item_visibility j = item_visibility i"
    using assms
    by (cases "item_inner i"; auto simp: strip_def item_children_def set_inner_def bare_def is_stripped_def)+
  show "flat_here j" if "flat_here i"
    using assms that by (cases "item_inner i") (auto simp: strip_def set_inner_def flat_here_def)
qed

lemma is_module_rebuild: "is_module (rebuild inner xs) = is_module inner"
  by (cases inner) (auto simp: is_module_def split: variant_kind.split)

lemma bare_rebuild: "bare (rebuild inner xs) = rebuild (bare inner) xs"
  by (cases inner) (auto simp: bare_def split: variant_kind.split)

lemma flat_rebuild: "flat_here (rebuild_item i xs) = flat_here i"
proof (cases "item_inner i")
  case (StrippedItem k)
  then show ?thesis by (cases k) (auto simp: flat_here_def split: variant_kind.split)
qed (auto simp: flat_here_def split: variant_kind.split)

lemma stripped_rebuild: "is_stripped (rebuild_item i xs) = is_stripped i"
  by (cases "item_inner i") (auto simp: is_stripped_def split: variant_kind.split)

lemmas rebuild_bare = is_module_rebuild bare_rebuild flat_rebuild stripped_rebuild

lemma children_rebuild_item:
  "item_children (rebuild_item i (List.map_filter k (item_children i))) = List.map_filter k (item_children i)"
  by (simp add: item_children_def children_rebuild)

lemma prune_Some:
  assumes "prune v i = Some j" "flat_here i"
  shows "v i \<noteq> Drop" "flat_here j" "item_def_id j = item_def_id i" "item_name j = item_name i"
    "item_visibility j = item_visibility i" "is_module (bare (item_inner j)) = is_module (bare (item_inner i))"
    "item_children j = (if v i \<in> {Leave, StripHere} then item_children i
       else List.map_filter (prune v) (item_children i))"
    "\<not> is_stripped j \<Longrightarrow> item_inner j = (if v i = Leave then item_inner i else rebuild (item_inner i) (item_children j))"
    "\<not> is_stripped j \<Longrightarrow> \<not> is_stripped i" "item_attrs j = item_attrs i"
    "v i \<in> {StripHere, DescendStripped} \<Longrightarrow> is_stripped j"
proof -
  let ?k = "rebuild_item i (List.map_filter (prune v) (item_children i))"
  consider (leave) "v i = Leave" "j = i" | (strip) "v i = StripHere" "strip i = Some j"
    | (descend) "v i \<in> {Descend, DescendQuiet}" "j = ?k" | (stripped) "v i = DescendStripped" "strip ?k = Some j"
    using assms(1) by (cases "v i") (auto simp: prune.simps [of v i])
  note cases = this
  note facts = rebuild_bare children_rebuild_item assms(2)
  show "v i \<noteq> Drop" by (rule cases) auto
  show "flat_here j" by (rule cases) (use facts strip_Some(2) in auto)
  show "item_def_id j = item_def_id i" by (rule cases) (use strip_Some(4) in auto)
  show "item_name j = item_name i" by (rule cases) (use strip_Some(5) in auto)
  show "item_visibility j = item_visibility i" by (rule cases) (use strip_Some(6) in auto)
  show "is_module (bare (item_inner j)) = is_module (bare (item_inner i))"
    by (rule cases) (use facts strip_Some(7) in auto)
  show "item_children j = (if v i \<in> {Leave, StripHere} then item_children i
       else List.map_filter (prune v) (item_children i))"
    by (rule cases) (use facts strip_Some(1) in auto)
  show "item_inner j = (if v i = Leave then item_inner i else rebuild (item_inner i) (item_children j))"
    if "\<not> is_stripped j"
    by (rule cases) (use that facts strip_Some(3) in auto)
  show "item_attrs j = item_attrs i" by (rule cases) (use strip_Some(8) in auto)
  show "is_stripped j" if "v i \<in> {StripHere, DescendStripped}"
    by (rule cases) (use that strip_Some(3) in auto)
  show "\<not> is_stripped i" if "\<not> is_stripped j"
    by (rule cases) (use that facts strip_Some(3) in auto)
qed

lemma item_flat_parts:
  "item_flat i \<Longrightarrow> flat_here i" "item_flat i \<Longrightarrow> x \<in> set (item_children i) \<Longrightarrow> item_flat x"
  by (simp_all add: item_flat.simps [of i] list_all_iff)

lemma prune_flat: "item_flat i \<Longrightarrow> prune v i = Some j \<Longrightarrow> item_flat j"
proof (induction i arbitrary: j rule: item_flat.induct)
  case (1 i)
  have i: "flat_here i" "\<forall>x \<in> set (item_children i). item_flat x"
    using "1.prems"(1) by (simp_all add: item_flat.simps [of i] list_all_iff)
  note facts = prune_Some [OF "1.prems"(2) i(1)]
  have "\<forall>x \<in> set (item_children j). item_flat x"
    using "1.IH" i(2) by (auto simp: facts(7) set_map_filter)
  then show ?case using facts(2) by (simp add: item_flat.simps [of j] list_all_iff)
qed

lemma crate_items_with: "crate_items (crate_with keep c) = List.map_filter keep (crate_items c)"
proof -
  have "concat (map (trait_items \<circ> snd) (map (\<lambda>(k, t). (k, trait_with keep t)) ts)) =
      List.map_filter keep (concat (map (trait_items \<circ> snd) ts))" for ts :: "(def_id \<times> item_trait) list"
    by (induction ts) (auto simp: trait_with_def map_filter_def)
  then show ?thesis
    by (cases "krate_module c"; cases "Option.bind (krate_module c) keep")
      (auto simp: crate_items_def crate_with_def map_filter_def)
qed

lemma crate_with_flat: "crate_flat c \<Longrightarrow> crate_flat (crate_with (prune v) c)"
  using prune_flat by (auto simp: crate_flat_def list_all_iff crate_items_with set_map_filter)

lemma in_modules_flat: "in_modules root x \<Longrightarrow> item_flat root \<Longrightarrow> item_flat x"
proof (induction rule: in_modules.induct)
  case (inside m x)
  then show ?case by (simp add: list_all_iff item_flat.simps [of m])
qed

text \<open>Every item in the modules of a pruned root is what the stripper made of an item there before.\<close>

lemma prune_origin:
  assumes "in_modules j y" "prune v i = Some j" "item_flat i"
    and modules: "\<And>m. is_module (bare (item_inner m)) \<Longrightarrow> v m \<notin> {Leave, StripHere}"
  shows "\<exists>x. in_modules i x \<and> prune v x = Some y"
  using assms(1)
proof (induction rule: in_modules.induct)
  case root
  then show ?case using assms(2) in_modules.root by blast
next
  case (inside m y)
  then obtain x where x: "in_modules i x" "prune v x = Some m" by blast
  have flat: "flat_here x" using in_modules_flat [OF x(1) assms(3)] by (simp add: item_flat.simps [of x])
  note facts = prune_Some [OF x(2) flat]
  have mod: "is_module (bare (item_inner x))" using inside facts(6) by simp
  then have "item_children m = List.map_filter (prune v) (item_children x)" using modules facts(7) by simp
  then obtain z where "z \<in> set (item_children x)" "prune v z = Some y"
    using inside by (auto simp: set_map_filter)
  then show ?case using in_modules.inside [OF x(1) mod] by blast
qed

lemma verdict_modules:
  "is_module (bare (item_inner m)) \<Longrightarrow> private_verdict levels m \<notin> {Leave, StripHere}"
  "hidden_verdict m \<notin> {Leave, StripHere}" "import_verdict m \<notin> {Leave, StripHere}"
  "impl_verdict pl kept m \<notin> {Leave, StripHere}"
  by (cases "item_inner m";
      auto simp: private_verdict_def hidden_verdict_def import_verdict_def impl_verdict_def is_module_def bare_def
        is_field_def fastreturn_def is_stripped_def)+

section \<open>The passes as filters\<close>

definition crate_kept_ids :: "(clean_item \<Rightarrow> verdict) \<Rightarrow> clean_crate \<Rightarrow> def_id set" where
  "crate_kept_ids v c = (\<Union>x \<in> set (crate_items c). kept_ids v x)"

lemma stripper_crate:
  assumes "crate_flat c"
  shows "fold_crate (private_stripper levels) c \<lparr>retained = {}, update_retained = True\<rparr> =
      Done (crate_with (prune (private_verdict levels)) c,
        \<lparr>retained = crate_kept_ids (private_verdict levels) c, update_retained = True\<rparr>)"
    "fold_crate hidden_stripper c \<lparr>retained = {}, update_retained = True\<rparr> =
      Done (crate_with (prune hidden_verdict) c,
        \<lparr>retained = crate_kept_ids hidden_verdict c, update_retained = True\<rparr>)"
    "fold_crate import_stripper c () = Done (crate_with (prune import_verdict) c, ())"
    "fold_crate (impl_stripper pl kept) c () = Done (crate_with (prune (impl_verdict pl kept)) c, ())"
  using assms private_items.folder.fold_crate_eq hidden_items.folder.fold_crate_eq
    import_items.folder.fold_crate_eq impl_blocks.folder.fold_crate_eq
  by (simp_all add: fold_note_kept crate_kept_ids_def)

definition private_filtered :: "(primitive_type \<Rightarrow> def_id option) \<Rightarrow> access_levels \<Rightarrow> clean_crate \<Rightarrow> clean_crate" where
  "private_filtered pl levels c =
     crate_with (prune (impl_verdict pl (crate_kept_ids (private_verdict levels) c)))
       (crate_with (prune import_verdict) (crate_with (prune (private_verdict levels)) c))"

definition hidden_filtered :: "(primitive_type \<Rightarrow> def_id option) \<Rightarrow> clean_crate \<Rightarrow> clean_crate" where
  "hidden_filtered pl c =
     crate_with (prune (impl_verdict pl (crate_kept_ids hidden_verdict c))) (crate_with (prune hidden_verdict) c)"

lemma strip_private_eq: "crate_flat c \<Longrightarrow> strip_private pl levels c = Done (private_filtered pl levels c)"
  by (simp add: strip_private_def stripper_crate crate_with_flat private_filtered_def)

lemma strip_hidden_eq: "crate_flat c \<Longrightarrow> strip_hidden pl c = Done (hidden_filtered pl c)"
  by (simp add: strip_hidden_def stripper_crate crate_with_flat hidden_filtered_def)

lemma strip_priv_imports_eq:
  "crate_flat c \<Longrightarrow> strip_priv_imports c = Done (crate_with (prune import_verdict) c)"
  by (simp add: strip_priv_imports_def stripper_crate)

section \<open>What the passes guarantee\<close>

text \<open>The local ids an impl block mentions are among the retained ones.\<close>

definition refers_to_kept :: "(primitive_type \<Rightarrow> def_id option) \<Rightarrow> def_id set \<Rightarrow> item_impl \<Rightarrow> bool" where
  "refers_to_kept pl kept imp \<longleftrightarrow>
     (type_is_generic (impl_for imp) \<or> \<not> stripped_id kept (type_def_id pl (impl_for imp))) \<and>
     \<not> stripped_id kept (Option.bind (impl_trait imp) (type_def_id pl)) \<and>
     (\<forall>generics. Option.bind (impl_trait imp) type_generics = Some generics \<longrightarrow>
        list_all (\<lambda>t. \<not> stripped_id kept (type_def_id pl t)) generics)"

lemma kind_rebuild:
  "can_be_reexported (rebuild inner xs) = can_be_reexported inner"
  "is_import (rebuild inner xs) = is_import inner"
  by (cases inner; auto simp: can_be_reexported_def is_import_def split: variant_kind.split)+

lemma stripped_kind: "is_stripped i \<Longrightarrow> \<not> can_be_reexported (item_inner i) \<and> \<not> is_import (item_inner i)"
  by (cases "item_inner i") (auto simp: can_be_reexported_def is_import_def is_stripped_def)

lemma rebuild_impl:
  assumes "rebuild inner xs = ImplItem imp"
  shows "\<exists>imp'. inner = ImplItem imp' \<and> impl_trait imp' = impl_trait imp \<and> impl_for imp' = impl_for imp"
proof (cases inner)
  case (VariantItem v)
  then show ?thesis using assms by (cases "variant_kind v") auto
qed (use assms in auto)

lemma prune_kind:
  assumes "prune v i = Some j" "flat_here i"
  shows "can_be_reexported (item_inner j) \<Longrightarrow> \<not> is_stripped i \<and> can_be_reexported (item_inner i)"
    "is_import (item_inner j) \<Longrightarrow> is_import (item_inner i)"
    "item_inner j = ImplItem imp \<Longrightarrow> \<exists>imp'. item_inner i = ImplItem imp' \<and> impl_trait imp' = impl_trait imp \<and>
       impl_for imp' = impl_for imp"
proof -
  note facts = prune_Some [OF assms]
  show "\<not> is_stripped i \<and> can_be_reexported (item_inner i)" if "can_be_reexported (item_inner j)"
  proof -
    have "\<not> is_stripped j" using that stripped_kind by blast
    then show ?thesis using facts(8,9) that by (simp add: kind_rebuild split: if_splits)
  qed
  show "is_import (item_inner i)" if "is_import (item_inner j)"
  proof -
    have "\<not> is_stripped j" using that stripped_kind by blast
    then show ?thesis using facts(8) that by (simp add: kind_rebuild split: if_splits)
  qed
  show "\<exists>imp'. item_inner i = ImplItem imp' \<and> impl_trait imp' = impl_trait imp \<and> impl_for imp' = impl_for imp"
    if "item_inner j = ImplItem imp"
  proof -
    have "\<not> is_stripped j" using that by (simp add: is_stripped_def)
    then have "item_inner j = item_inner i \<or> (\<exists>xs. item_inner j = rebuild (item_inner i) xs)" using facts(8) by metis
    then show ?thesis using that rebuild_impl by metis
  qed
qed

lemma private_kept:
  "prune (private_verdict levels) x = Some y \<Longrightarrow> flat_here x \<Longrightarrow> can_be_reexported (item_inner y) \<Longrightarrow>
     is_local (item_def_id y) \<Longrightarrow> is_exported levels (item_def_id y)"
  using prune_Some(1,3) [of "private_verdict levels" x y] prune_kind(1) [of "private_verdict levels" x y]
  by (auto simp: private_verdict_def split: if_splits)

lemma not_stripped_refers: "\<not> impl_stripped pl kept imp \<Longrightarrow> refers_to_kept pl kept imp"
  by (auto simp: impl_stripped_def refers_to_kept_def list_ex_iff list_all_iff split: option.splits)

lemma prune_children:
  assumes "prune v i = Some j" "flat_here i" "v i \<notin> {Leave, StripHere}" "z \<in> set (item_children j)"
  shows "\<exists>x \<in> set (item_children i). prune v x = Some z"
  using prune_Some(7) [OF assms(1,2)] assms(3,4) by (auto simp: set_map_filter)

lemma impl_children: "item_inner i = ImplItem imp \<Longrightarrow> item_children i = impl_items imp"
  by (simp add: item_children_def)

definition kept_private_item :: "(primitive_type \<Rightarrow> def_id option) \<Rightarrow> access_levels \<Rightarrow> def_id set \<Rightarrow> clean_item \<Rightarrow> bool" where
  "kept_private_item pl levels kept y \<longleftrightarrow>
     (can_be_reexported (item_inner y) \<longrightarrow> is_local (item_def_id y) \<longrightarrow> is_exported levels (item_def_id y)) \<and>
     (is_import (item_inner y) \<longrightarrow> item_visibility y = Public) \<and>
     (\<forall>imp. item_inner y = ImplItem imp \<longrightarrow> refers_to_kept pl kept imp \<and>
        (impl_trait imp = None \<longrightarrow> (\<forall>z \<in> set (impl_items imp).
           can_be_reexported (item_inner z) \<longrightarrow> is_local (item_def_id z) \<longrightarrow> is_exported levels (item_def_id z))))"

text \<open>
  An item of the stripped crate goes back through the three strippers to an item of the crate.
\<close>

lemma private_origin:
  assumes "crate_flat c" "krate_module (private_filtered pl levels c) = Some m'" "in_modules m' y"
  obtains m x x1 x2 where "krate_module c = Some m" "in_modules m x" "item_flat x" "item_flat x1" "item_flat x2"
    "prune (private_verdict levels) x = Some x1" "prune import_verdict x1 = Some x2"
    "prune (impl_verdict pl (crate_kept_ids (private_verdict levels) c)) x2 = Some y"
proof -
  let ?v3 = "impl_verdict pl (crate_kept_ids (private_verdict levels) c)"
  obtain m m1 m2 where m: "krate_module c = Some m" "prune (private_verdict levels) m = Some m1"
      "prune import_verdict m1 = Some m2" "prune ?v3 m2 = Some m'"
    using assms(2) by (auto simp: private_filtered_def crate_with_def bind_eq_Some_conv)
  have flat: "item_flat m" using assms(1) m(1) by (simp add: crate_flat_def crate_items_def)
  have flat1: "item_flat m1" by (rule prune_flat [OF flat m(2)])
  have flat2: "item_flat m2" by (rule prune_flat [OF flat1 m(3)])
  obtain x2 where x2: "in_modules m2 x2" "prune ?v3 x2 = Some y"
    using prune_origin [OF assms(3) m(4) flat2 verdict_modules(4)] by blast
  obtain x1 where x1: "in_modules m1 x1" "prune import_verdict x1 = Some x2"
    using prune_origin [OF x2(1) m(3) flat1 verdict_modules(3)] by blast
  obtain x where x: "in_modules m x" "prune (private_verdict levels) x = Some x1"
    using prune_origin [OF x1(1) m(2) flat verdict_modules(1)] by blast
  show thesis
    using that m(1) x x1 x2 in_modules_flat flat flat1 flat2 by blast
qed

lemma method_kept:
  assumes flat: "item_flat x" "item_flat x1" "item_flat x2" and x: "prune (private_verdict levels) x = Some x1"
    "prune import_verdict x1 = Some x2" "prune (impl_verdict pl kept) x2 = Some y"
    and imp: "item_inner y = ImplItem imp" "impl_trait imp = None" "z \<in> set (impl_items imp)"
    and z: "can_be_reexported (item_inner z)" "is_local (item_def_id z)"
  shows "is_exported levels (item_def_id z)"
proof -
  note here = flat [THEN item_flat_parts(1)]
  obtain imp2 where imp2: "item_inner x2 = ImplItem imp2" "impl_trait imp2 = None"
    using prune_kind(3) [OF x(3) here(3) imp(1)] imp(2) by auto
  obtain imp1 where imp1: "item_inner x1 = ImplItem imp1" "impl_trait imp1 = None"
    using prune_kind(3) [OF x(2) here(2) imp2(1)] imp2(2) by auto
  obtain imp0 where imp0: "item_inner x = ImplItem imp0" "impl_trait imp0 = None"
    using prune_kind(3) [OF x(1) here(1) imp1(1)] imp1(2) by auto
  obtain z2 where z2: "z2 \<in> set (item_children x2)" "prune (impl_verdict pl kept) z2 = Some z"
    using prune_children [OF x(3) here(3) verdict_modules(4)] imp(1,3) by (auto simp: impl_children)
  obtain z1 where z1: "z1 \<in> set (item_children x1)" "prune import_verdict z1 = Some z2"
    using prune_children [OF x(2) here(2) verdict_modules(3) z2(1)] by blast
  have "private_verdict levels x \<notin> {Leave, StripHere}"
    using imp0 by (simp add: private_verdict_def fastreturn_def is_field_def)
  from prune_children [OF x(1) here(1) this z1(1)] obtain z0 where
    z0: "z0 \<in> set (item_children x)" "prune (private_verdict levels) z0 = Some z1" by blast
  have here': "flat_here z0" "flat_here z1" "flat_here z2"
    using z0(1) z1(1) z2(1) flat item_flat_parts by blast+
  have "can_be_reexported (item_inner z1)"
    using prune_kind(1) [OF z2(2) here'(3)] prune_kind(1) [OF z1(2) here'(2)] z(1) by blast
  moreover have "item_def_id z = item_def_id z1"
    using prune_Some(3) [OF z2(2) here'(3)] prune_Some(3) [OF z1(2) here'(2)] by simp
  ultimately show ?thesis using private_kept [OF z0(2) here'(1)] z(2) by simp
qed

lemma private_filtered_kept:
  assumes "crate_flat c" "krate_module (private_filtered pl levels c) = Some m" "in_modules m y"
  shows "kept_private_item pl levels (crate_kept_ids (private_verdict levels) c) y"
proof -
  let ?kept = "crate_kept_ids (private_verdict levels) c"
  obtain x x1 x2 where flat: "item_flat x" "item_flat x1" "item_flat x2" and
    x: "prune (private_verdict levels) x = Some x1" "prune import_verdict x1 = Some x2"
      "prune (impl_verdict pl ?kept) x2 = Some y"
    by (rule private_origin [OF assms])
  note here = flat [THEN item_flat_parts(1)]
  have ids: "item_def_id y = item_def_id x1" "item_visibility y = item_visibility x1"
    using prune_Some(3,5) [OF x(3) here(3)] prune_Some(3,5) [OF x(2) here(2)] by simp_all
  have exported: "is_exported levels (item_def_id y)"
    if "can_be_reexported (item_inner y)" "is_local (item_def_id y)"
  proof -
    have "can_be_reexported (item_inner x1)"
      using prune_kind(1) [OF x(3) here(3)] prune_kind(1) [OF x(2) here(2)] that(1) by blast
    then show ?thesis using private_kept [OF x(1) here(1)] that(2) ids(1) by simp
  qed
  have visible: "item_visibility y = Public" if "is_import (item_inner y)"
  proof -
    have "is_import (item_inner x1)"
      using prune_kind(2) [OF x(3) here(3)] prune_kind(2) [OF x(2) here(2)] that by blast
    then show ?thesis using prune_Some(1) [OF x(2) here(2)] ids(2) by (auto simp: import_verdict_def split: if_splits)
  qed
  have refers: "refers_to_kept pl ?kept imp" if imp: "item_inner y = ImplItem imp" for imp
  proof -
    obtain imp2 where imp2: "item_inner x2 = ImplItem imp2" "impl_trait imp2 = impl_trait imp" "impl_for imp2 = impl_for imp"
      using prune_kind(3) [OF x(3) here(3) imp] by blast
    have "\<not> impl_stripped pl ?kept imp2"
      using prune_Some(1) [OF x(3) here(3)] imp2(1) by (auto simp: impl_verdict_def split: if_splits)
    from not_stripped_refers [OF this] show ?thesis using imp2(2,3) by (simp add: refers_to_kept_def)
  qed
  show ?thesis
    unfolding kept_private_item_def using exported visible refers method_kept [OF flat x] by blast
qed

text \<open>
  C22: the pass \<open>strip_private\<close> returns for a crate with at most one layer of stripped items. It
  is the composition of three filters without state, and in the modules of its result (stripped
  ones included) every local item that can be re-exported is exported, every import is public, and
  every impl block mentions only local ids that were retained, its methods being exported when it
  is not an impl of a trait.
\<close>

theorem strip_private_sound:
  assumes "crate_flat c"
  shows "strip_private pl levels c = Done (private_filtered pl levels c) \<and> crate_flat (private_filtered pl levels c) \<and>
     (\<forall>m y. krate_module (private_filtered pl levels c) = Some m \<longrightarrow> in_modules m y \<longrightarrow>
        kept_private_item pl levels (crate_kept_ids (private_verdict levels) c) y)"
  using strip_private_eq private_filtered_kept assms crate_with_flat by (auto simp: private_filtered_def)

section \<open>The functions that are left\<close>

definition function_items :: "clean_crate \<Rightarrow> clean_item set" where
  "function_items c = {x. \<exists>m f. krate_module c = Some m \<and> in_modules m x \<and> item_inner x = FunctionItem f}"

lemma prune_None: "prune v i = None \<longleftrightarrow> v i = Drop"
proof -
  have "strip j \<noteq> None" for j by (cases "item_inner j") (simp_all add: strip_def)
  then show ?thesis by (cases "v i") (simp_all add: prune.simps [of v i] Let_def)
qed

lemma prune_complete:
  assumes "in_modules i x" "prune v i = Some j" "item_flat i" "v x \<noteq> Drop"
    and modules: "\<And>m. in_modules i m \<Longrightarrow> is_module (bare (item_inner m)) \<Longrightarrow> v m \<notin> {Drop, Leave, StripHere}"
  shows "\<exists>y. in_modules j y \<and> prune v x = Some y"
  using assms(1,4)
proof (induction rule: in_modules.induct)
  case root
  then show ?case using assms(2) in_modules.root by blast
next
  case (inside m x)
  obtain m' where m': "in_modules j m'" "prune v m = Some m'" using inside modules by blast
  have "flat_here m" using inside.hyps(1) in_modules_flat [OF _ assms(3)] item_flat_parts(1) by blast
  note facts = prune_Some [OF m'(2) this]
  have "item_children m' = List.map_filter (prune v) (item_children m)"
    using facts(7) modules [OF inside.hyps(1,2)] by simp
  moreover obtain y where y: "prune v x = Some y" using prune_None inside.prems by blast
  ultimately have "y \<in> set (item_children m')" using inside.hyps(3) by (auto simp: set_map_filter)
  then show ?case using in_modules.inside [OF m'(1)] facts(6) inside.hyps(2) y by blast
qed

lemma prune_function:
  assumes "item_inner x = FunctionItem f" "v x \<in> {Drop, Descend}"
  shows "prune v x = (if v x = Drop then None else Some x)"
proof -
  have "rebuild_item x xs = x" for xs using assms(1) by (cases x) (simp add: rebuild_item_def set_inner_def)
  then show ?thesis using assms(2) by (auto simp: prune.simps [of v x])
qed

lemma rebuild_function: "rebuild inner xs = FunctionItem f \<Longrightarrow> inner = FunctionItem f"
proof (cases inner)
  case (VariantItem v)
  then show "rebuild inner xs = FunctionItem f \<Longrightarrow> inner = FunctionItem f" by (cases "variant_kind v") auto
qed auto

lemma function_origin:
  assumes "prune v x = Some y" "flat_here x" "item_inner y = FunctionItem f"
    and bare_functions: "\<And>x f. item_inner x = FunctionItem f \<Longrightarrow> v x \<in> {Drop, Descend}"
  shows "y = x \<and> v x \<noteq> Drop"
proof -
  have "\<not> is_stripped y" using assms(3) by (simp add: is_stripped_def)
  then have x: "item_inner x = FunctionItem f"
    using prune_Some(8) [OF assms(1,2)] assms(3) rebuild_function by (metis (no_types))
  show ?thesis using prune_function [of x f v, OF x bare_functions [OF x]] assms(1) by (auto split: if_splits)
qed

lemma functions_with:
  assumes "crate_flat c"
    and kept: "\<And>r m. krate_module c = Some r \<Longrightarrow> in_modules r m \<Longrightarrow> is_module (bare (item_inner m)) \<Longrightarrow> v m \<noteq> Drop"
    and modules: "\<And>m. is_module (bare (item_inner m)) \<Longrightarrow> v m \<notin> {Leave, StripHere}"
    and bare_functions: "\<And>x f. item_inner x = FunctionItem f \<Longrightarrow> v x \<in> {Drop, Descend}"
  shows "function_items (crate_with (prune v) c) = {x \<in> function_items c. v x \<noteq> Drop}"
proof (cases "krate_module c")
  case (Some m)
  have flat: "item_flat m" using assms(1) Some by (simp add: crate_flat_def crate_items_def)
  show ?thesis
  proof (cases "prune v m")
    case None
    then have "\<not> is_module (bare (item_inner m))" using kept [OF Some in_modules.root] prune_None by blast
    note leaf = this
    have "x = m" if "in_modules m x" for x
      using that by (induction rule: in_modules.induct) (use leaf in auto)
    moreover have "v m = Drop" using None prune_None by blast
    ultimately show ?thesis using None Some by (auto simp: function_items_def crate_with_def)
  next
    case (Some m')
    have "x \<in> function_items c \<and> v x \<noteq> Drop" if x: "in_modules m' x" "item_inner x = FunctionItem f" for x f
    proof -
      obtain z where z: "in_modules m z" "prune v z = Some x"
        using prune_origin [OF x(1) Some flat modules] by blast
      have "flat_here z" using in_modules_flat [OF z(1) flat] item_flat_parts(1) by blast
      from function_origin [OF z(2) this x(2) bare_functions] z(1) x(2) \<open>krate_module c = Some m\<close>
      show ?thesis by (auto simp: function_items_def)
    qed
    moreover have "in_modules m' x" if x: "in_modules m x" "item_inner x = FunctionItem f" "v x \<noteq> Drop" for x f
    proof -
      have "v n \<notin> {Drop, Leave, StripHere}" if "in_modules m n" "is_module (bare (item_inner n))" for n
        using kept [OF \<open>krate_module c = Some m\<close> that] modules [OF that(2)] by simp
      then obtain y where "in_modules m' y" "prune v x = Some y"
        using prune_complete [OF x(1) Some flat x(3)] by blast
      then show ?thesis using prune_function [of x f v, OF x(2) bare_functions [OF x(2)]] x(3) by auto
    qed
    ultimately show ?thesis using Some \<open>krate_module c = Some m\<close>
      by (fastforce simp: function_items_def crate_with_def)
  qed
qed (simp add: function_items_def crate_with_def)

lemma verdict_functions:
  assumes "item_inner x = FunctionItem f"
  shows "private_verdict levels x = (if is_local (item_def_id x) \<and> \<not> is_exported levels (item_def_id x) then Drop else Descend)"
    "hidden_verdict x = (if is_hidden (item_attrs x) then Drop else Descend)"
    "import_verdict x = Descend" "impl_verdict pl kept x = Descend"
  using assms by (simp_all add: private_verdict_def hidden_verdict_def import_verdict_def impl_verdict_def
      is_stripped_def can_be_reexported_def is_field_def is_module_def fastreturn_def is_import_def)

lemma verdict_keeps_modules:
  "is_module (bare (item_inner m)) \<Longrightarrow> private_verdict levels m \<noteq> Drop"
  "is_module (bare (item_inner m)) \<Longrightarrow> import_verdict m \<noteq> Drop"
  "is_module (bare (item_inner m)) \<Longrightarrow> impl_verdict pl kept m \<noteq> Drop"
  by (cases "item_inner m";
      auto simp: private_verdict_def import_verdict_def impl_verdict_def is_module_def bare_def
        is_import_def can_be_reexported_def is_stripped_def)+

lemma functions_with_rest:
  assumes "crate_flat c"
  shows "function_items (crate_with (prune import_verdict) c) = function_items c"
    "function_items (crate_with (prune (impl_verdict pl kept)) c) = function_items c"
proof -
  have "function_items (crate_with (prune import_verdict) c) = {x \<in> function_items c. import_verdict x \<noteq> Drop}"
    "function_items (crate_with (prune (impl_verdict pl kept)) c) = {x \<in> function_items c. impl_verdict pl kept x \<noteq> Drop}"
    using verdict_modules(3,4) verdict_keeps_modules(2,3) verdict_functions(3,4)
    by (intro functions_with assms; blast)+
  moreover have "{x \<in> function_items c. import_verdict x \<noteq> Drop} = function_items c"
    "{x \<in> function_items c. impl_verdict pl kept x \<noteq> Drop} = function_items c"
    by (auto simp: function_items_def verdict_functions)
  ultimately show "function_items (crate_with (prune import_verdict) c) = function_items c"
    "function_items (crate_with (prune (impl_verdict pl kept)) c) = function_items c" by simp_all
qed

text \<open>
  After \<open>strip_private\<close> the functions in the modules of the crate are exactly those that were
  there and are exported or not of this crate, unchanged, those in private modules included.
\<close>

lemma private_functions_lemma:
  assumes "crate_flat c" "strip_private pl levels c = Done c'"
  shows "function_items c' = {x \<in> function_items c. is_local (item_def_id x) \<longrightarrow> is_exported levels (item_def_id x)}"
proof -
  have "function_items (crate_with (prune (private_verdict levels)) c) =
      {x \<in> function_items c. private_verdict levels x \<noteq> Drop}"
    using verdict_modules(1) verdict_keeps_modules(1) verdict_functions(1) by (intro functions_with assms(1)) auto
  also have "\<dots> = {x \<in> function_items c. is_local (item_def_id x) \<longrightarrow> is_exported levels (item_def_id x)}"
    by (auto simp: function_items_def verdict_functions split: if_splits)
  finally show ?thesis
    using assms strip_private_eq by (auto simp: private_filtered_def functions_with_rest crate_with_flat)
qed

definition unstripped_crate :: "clean_crate \<Rightarrow> bool" where
  "unstripped_crate c \<longleftrightarrow> (\<forall>m x. krate_module c = Some m \<longrightarrow> in_modules m x \<longrightarrow> \<not> is_stripped x)"

lemma hidden_left:
  assumes "crate_flat c" "krate_module (hidden_filtered pl c) = Some m'" "in_modules m' y" "is_hidden (item_attrs y)"
  shows "is_stripped y"
proof -
  let ?v2 = "impl_verdict pl (crate_kept_ids hidden_verdict c)"
  obtain m m1 where m: "krate_module c = Some m" "prune hidden_verdict m = Some m1" "prune ?v2 m1 = Some m'"
    using assms(2) by (auto simp: hidden_filtered_def crate_with_def bind_eq_Some_conv)
  have flat: "item_flat m" using assms(1) m(1) by (simp add: crate_flat_def crate_items_def)
  have flat1: "item_flat m1" by (rule prune_flat [OF flat m(2)])
  obtain x1 where x1: "in_modules m1 x1" "prune ?v2 x1 = Some y"
    using prune_origin [OF assms(3) m(3) flat1 verdict_modules(4)] by blast
  obtain x where x: "in_modules m x" "prune hidden_verdict x = Some x1"
    using prune_origin [OF x1(1) m(2) flat verdict_modules(2)] by blast
  have here: "flat_here x" "flat_here x1"
    using in_modules_flat x(1) x1(1) flat flat1 item_flat_parts(1) by blast+
  have "is_hidden (item_attrs x)"
    using prune_Some(10) [OF x1(2) here(2)] prune_Some(10) [OF x(2) here(1)] assms(4) by simp
  then have "is_stripped x1"
    using prune_Some(1,11) [OF x(2) here(1)] by (auto simp: hidden_verdict_def split: if_splits)
  then show ?thesis using prune_Some(9) [OF x1(2) here(2)] by blast
qed

lemma hidden_functions_lemma:
  assumes "crate_flat c" "unstripped_crate c" "strip_hidden pl c = Done c'"
  shows "function_items c' = {x \<in> function_items c. \<not> is_hidden (item_attrs x)} \<and>
    (\<forall>m y. krate_module c' = Some m \<longrightarrow> in_modules m y \<longrightarrow> is_hidden (item_attrs y) \<longrightarrow> is_stripped y)"
proof -
  have c': "c' = hidden_filtered pl c" using assms(1,3) strip_hidden_eq by simp
  have "hidden_verdict m \<noteq> Drop"
    if "krate_module c = Some r" "in_modules r m" "is_module (bare (item_inner m))" for r m
  proof -
    have "bare (item_inner m) = item_inner m"
      using assms(2) that(1,2) by (cases "item_inner m") (auto simp: unstripped_crate_def is_stripped_def bare_def)
    then show ?thesis using that(3) by (simp add: hidden_verdict_def)
  qed
  then have "function_items (crate_with (prune hidden_verdict) c) = {x \<in> function_items c. hidden_verdict x \<noteq> Drop}"
    using verdict_modules(2) verdict_functions(2) by (intro functions_with assms(1)) auto
  also have "\<dots> = {x \<in> function_items c. \<not> is_hidden (item_attrs x)}"
    by (auto simp: function_items_def verdict_functions split: if_splits)
  finally have "function_items c' = \<dots>"
    by (simp add: c' hidden_filtered_def functions_with_rest crate_with_flat assms(1))
  then show ?thesis using hidden_left [OF assms(1)] c' by blast
qed

section \<open>A crate to strip\<close>

definition example_item :: "string option \<Rightarrow> nat \<Rightarrow> visibility \<Rightarrow> item_inner \<Rightarrow> clean_item" where
  "example_item name did vis inner = CleanItem
     \<lparr>span_filename = ''lib.rs'', span_cnum = 0, span_lo = (0, 0), span_hi = (0, 0), span_original = 0\<rparr> name
     \<lparr>doc_strings = [], other_attrs = [], attrs_cfg = None, attrs_span = None, attrs_links = [], inner_docs = True\<rparr>
     inner vis \<lparr>krate = 0, index = did\<rparr> None None"

definition hide :: "clean_item \<Rightarrow> clean_item" where
  "hide i = CleanItem (item_source i) (item_name i) (item_attrs i\<lparr>other_attrs := [\<lparr>attr_kind =
     AttrNormal [''doc''] (Some (MetaList [NestedMeta (MetaItem [''hidden''] MetaWord 0)])), attr_id = 0,
     attr_style = OuterAttr, attr_span = 0\<rparr>]\<rparr>)
     (item_inner i) (item_visibility i) (item_def_id i) (item_stability i) (item_deprecation i)"

definition example_function :: "clean_type argument list \<Rightarrow> clean_function" where
  "example_function args = \<lparr>fn_decl = FnDecl (Arguments args) (Return (Primitive U8)) False (Attributes 0),
     fn_generics = \<lparr>gen_params = [], where_predicates = []\<rparr>,
     fn_header = \<lparr>header_unsafety = HirNormal, header_constness = NotConstFn, header_asyncness = NotAsyncFn, header_abi = AbiRust\<rparr>,
     fn_all_types = [], fn_ret_types = []\<rparr>"

definition example_crate :: "clean_item list \<Rightarrow> clean_crate" where
  "example_crate items = \<lparr>krate_name = ''c'', krate_version = None, krate_src = ''lib.rs'',
     krate_module = Some (example_item None 0 Public (ModuleItem (Module items True))),
     krate_externs = [], krate_primitives = [], external_traits = [], masked_crates = [], krate_collapsed = False\<rparr>"

lemma example_crate_flat: "crate_flat (example_crate items) \<longleftrightarrow> list_all item_flat items"
proof -
  let ?root = "example_item None 0 Public (ModuleItem (Module items True))"
  have "item_children ?root = items" "flat_here ?root"
    by (simp_all add: example_item_def item_children_def flat_here_def)
  then show ?thesis by (simp add: crate_flat_def crate_items_def example_crate_def item_flat.simps [of ?root])
qed

lemma example_function_flat:
  assumes "item_inner i = FunctionItem f"
  shows "item_flat i"
  using assms by (simp add: item_flat.simps [of i] item_children_def flat_here_def)

lemma example_modules:
  assumes "list_all (\<lambda>i. \<exists>f. item_inner i = FunctionItem f) items"
  shows "in_modules (example_item None 0 Public (ModuleItem (Module items True))) x \<longleftrightarrow>
    x = example_item None 0 Public (ModuleItem (Module items True)) \<or> x \<in> set items" (is "in_modules ?root x \<longleftrightarrow> _")
proof
  have leaf: "\<not> is_module (bare (item_inner m))" if "m \<in> set items" for m
    using assms that by (force simp: list_all_iff is_module_def bare_def)
  have root: "item_children ?root = items" by (simp add: example_item_def item_children_def)
  show "x = ?root \<or> x \<in> set items" if "in_modules ?root x"
    using that by (induction rule: in_modules.induct) (use leaf root in auto)
  show "in_modules ?root x" if "x = ?root \<or> x \<in> set items"
    using that in_modules.root in_modules.inside [OF in_modules.root, of ?root x] root
    by (auto simp: example_item_def is_module_def bare_def)
qed

lemma example_function_items:
  assumes "list_all (\<lambda>i. \<exists>f. item_inner i = FunctionItem f) items"
  shows "function_items (example_crate items) = set items" "unstripped_crate (example_crate items)"
proof -
  have f: "\<exists>f. item_inner i = FunctionItem f" if "i \<in> set items" for i using assms that by (simp add: list_all_iff)
  show "function_items (example_crate items) = set items"
    using f by (auto simp: function_items_def example_crate_def example_modules [OF assms]) (auto simp: example_item_def)
  show "unstripped_crate (example_crate items)"
    unfolding unstripped_crate_def
  proof (intro allI impI)
    fix m x assume "krate_module (example_crate items) = Some m" "in_modules m x"
    then have "x = example_item None 0 Public (ModuleItem (Module items True)) \<or> x \<in> set items"
      using example_modules [OF assms] by (auto simp: example_crate_def)
    then show "\<not> is_stripped x" using f [of x] by (auto simp: is_stripped_def example_item_def)
  qed
qed

definition example_f :: clean_item where
  "example_f = example_item (Some ''f'') 1 Public (FunctionItem (example_function []))"

definition example_g :: clean_item where
  "example_g = hide (example_item (Some ''g'') 2 Public (FunctionItem (example_function [])))"

definition example_levels :: access_levels where
  "example_levels did = (if index did = 1 then Some Reachable else Some PublicLevel)"

lemma example_fns_ok:
  "crate_flat (example_crate [example_f, example_g])" "function_items (example_crate [example_f, example_g]) = {example_f, example_g}"
  "unstripped_crate (example_crate [example_f, example_g])"
proof -
  have fns: "list_all (\<lambda>i. \<exists>f. item_inner i = FunctionItem f) [example_f, example_g]"
    by (simp add: example_f_def example_g_def example_item_def hide_def)
  then show "crate_flat (example_crate [example_f, example_g])"
    using example_function_flat by (fastforce simp: example_crate_flat list_all_iff)
  show "function_items (example_crate [example_f, example_g]) = {example_f, example_g}" "unstripped_crate (example_crate [example_f, example_g])"
    using example_function_items [OF fns] by simp_all
qed

theorem strip_private_sound_witness:
  "\<exists>c'. strip_private (\<lambda>_. None) example_levels (example_crate [example_f, example_g]) = Done c' \<and> crate_flat c' \<and>
     (\<forall>m y. krate_module c' = Some m \<longrightarrow> in_modules m y \<longrightarrow> item_def_id y \<noteq> \<lparr>krate = 0, index = 1\<rparr> \<or> \<not> can_be_reexported (item_inner y))"
proof -
  have "\<not> is_exported example_levels \<lparr>krate = 0, index = 1\<rparr>"
    by (simp add: is_exported_def example_levels_def less_eq_access_level_def)
  moreover have "is_local \<lparr>krate = 0, index = 1\<rparr>" by (simp add: is_local_def local_crate_def)
  ultimately show ?thesis
    using strip_private_sound [OF example_fns_ok(1), of "\<lambda>_. None" example_levels]
    unfolding kept_private_item_def by metis
qed

end
