(* ===== verification/Doc_Cache.thy ===== *)
theory Doc_Cache
  imports Strip_Passes "HOL-Library.AList"
begin

text \<open>
  \<^verbatim>\<open>librustdoc/html/render/cache.rs\<close>: the cache the generator reads its impl blocks and the paths of
  types from. \<open>Cache\<close> is a folder: it goes through the stripped crate, records the path of every
  item, takes the impl blocks out of the crate and builds the search index. Tables that are
  iterated later are association lists with distinct keys, the others are functions.

  Arguments of the model, in \<open>cache_env\<close>: the primitive locations of the thread-local cache
  (which \<open>def_id\<close> of a type reads; it is empty until the run stores the finished cache), the
  summary of a doc comment (its first paragraph through the Markdown parser, shortened), the
  Unicode lower-case of an alias, the directory of a source file, the external URLs and whether
  documentation of a crate is in the output directory.
\<close>

section \<open>The cache\<close>

datatype external_location = Remote string | LocalDoc | UnknownLocation

record index_generic =
  ig_name :: string
  ig_defid :: "def_id option"
  ig_idx :: "nat option"

record render_type =
  rt_ty :: "def_id option"
  rt_idx :: "nat option"
  rt_name :: "string option"
  rt_generics :: "index_generic list option"

record type_with_kind =
  twk_ty :: render_type
  twk_kind :: type_kind

record index_item_function_type =
  ift_inputs :: "type_with_kind list"
  ift_output :: "type_with_kind list option"

record index_item =
  ii_ty :: item_type
  ii_name :: string
  ii_path :: string
  ii_desc :: string
  ii_parent :: "def_id option"
  ii_parent_idx :: "nat option"
  ii_search_type :: "index_item_function_type option"

record doc_cache =
  cache_impls :: "(def_id \<times> clean_item list) list"
  cache_paths :: "(def_id \<times> string list \<times> item_type) list"
  cache_external_paths :: "(def_id \<times> string list \<times> item_type) list"
  cache_exact_paths :: "def_id \<Rightarrow> string list option"
  cache_traits :: "def_id \<Rightarrow> item_trait option"
  cache_implementors :: "def_id \<Rightarrow> clean_item list"
  extern_locations :: "nat \<Rightarrow> (string \<times> string \<times> external_location) option"
  cache_primitive_locations :: "primitive_type \<Rightarrow> def_id option"
  cache_access_levels :: access_levels
  cache_crate_version :: "string option"
  cache_document_private :: bool
  cache_stack :: "string list"
  parent_stack :: "def_id list"
  parent_is_trait_impl :: bool
  search_index :: "index_item list"
  stripped_mod :: bool
  deref_trait_did :: "def_id option"
  deref_mut_trait_did :: "def_id option"
  owned_box_did :: "def_id option"
  cache_masked_crates :: "nat list"
  orphan_impl_items :: "(def_id \<times> clean_item) list"
  orphan_trait_impls :: "(def_id \<times> def_id list \<times> clean_item) list"
  cache_aliases :: "string \<Rightarrow> nat list option"

record cache_env =
  tls_locations :: "primitive_type \<Rightarrow> def_id option"
  summary :: "string option \<Rightarrow> string"
  unicode_lower :: "string \<Rightarrow> string"
  source_dir :: "string \<Rightarrow> string"
  extern_html_root_urls :: "string \<Rightarrow> string option"
  local_docs :: "string \<Rightarrow> bool"

text \<open>\<open>Impl\<close> of \<^verbatim>\<open>render.rs\<close> wraps an item; \<open>inner_impl\<close> panics on other items.\<close>

definition inner_impl :: "clean_item \<Rightarrow> item_impl outcome" where
  "inner_impl item =
     (case item_inner item of ImplItem i \<Rightarrow> Done i | _ \<Rightarrow> Panic (ExplicitPanic ''non-impl item found in impl''))"

definition trait_did :: "cache_env \<Rightarrow> item_impl \<Rightarrow> def_id option" where
  "trait_did env i = Option.bind (impl_trait i) (type_def_id (tls_locations env))"

text \<open>\<open>entry(k).or_insert(vec![]).push(x)\<close>.\<close>

definition push_entry :: "'k \<Rightarrow> 'v \<Rightarrow> ('k \<times> 'v list) list \<Rightarrow> ('k \<times> 'v list) list" where
  "push_entry k x m = AList.update k ((case map_of m k of None \<Rightarrow> [] | Some xs \<Rightarrow> xs) @ [x]) m"

section \<open>Types in the search index\<close>

definition to_ascii_lowercase :: "string \<Rightarrow> string" where
  "to_ascii_lowercase s =
     map (\<lambda>c. let n = (of_char c :: nat) in if 65 \<le> n \<and> n \<le> 90 then char_of (n + 32) else c) s"

text \<open>The derived \<open>Debug\<close> text of a primitive type: the name of its constructor.\<close>

fun primitive_debug :: "primitive_type \<Rightarrow> string" where
  "primitive_debug Isize = ''Isize''"
| "primitive_debug I8 = ''I8''"
| "primitive_debug I16 = ''I16''"
| "primitive_debug I32 = ''I32''"
| "primitive_debug I64 = ''I64''"
| "primitive_debug I128 = ''I128''"
| "primitive_debug Usize = ''Usize''"
| "primitive_debug U8 = ''U8''"
| "primitive_debug U16 = ''U16''"
| "primitive_debug U32 = ''U32''"
| "primitive_debug U64 = ''U64''"
| "primitive_debug U128 = ''U128''"
| "primitive_debug F32 = ''F32''"
| "primitive_debug F64 = ''F64''"
| "primitive_debug Char = ''Char''"
| "primitive_debug Bool = ''Bool''"
| "primitive_debug Str = ''Str''"
| "primitive_debug PrimSlice = ''Slice''"
| "primitive_debug PrimArray = ''Array''"
| "primitive_debug PrimTuple = ''Tuple''"
| "primitive_debug PrimUnit = ''Unit''"
| "primitive_debug PrimRawPointer = ''RawPointer''"
| "primitive_debug PrimReference = ''Reference''"
| "primitive_debug PrimFn = ''Fn''"
| "primitive_debug PrimNever = ''Never''"

fun get_index_type_name :: "clean_type \<Rightarrow> bool \<Rightarrow> string option outcome" where
  "get_index_type_name (ResolvedPath path _ _ _) accept_generic =
     (if path_segments path = [] then Panic (ExplicitPanic ''had length zero path'')
      else Done (Some (seg_name (last (path_segments path)))))"
| "get_index_type_name (Generic s) accept_generic = Done (if accept_generic then Some s else None)"
| "get_index_type_name (Primitive p) accept_generic = Done (Some (primitive_debug p))"
| "get_index_type_name (BorrowedRef _ _ ty) accept_generic = get_index_type_name ty accept_generic"
| "get_index_type_name _ accept_generic = Done None"

text \<open>\<open>filter_map\<close> with a closure that may panic.\<close>

fun ofilter_map :: "('a \<Rightarrow> 'b option outcome) \<Rightarrow> 'a list \<Rightarrow> 'b list outcome" where
  "ofilter_map f [] = Done []"
| "ofilter_map f (x # xs) =
     obind (f x) (\<lambda>y. obind (ofilter_map f xs) (\<lambda>ys. Done (case y of None \<Rightarrow> ys | Some y \<Rightarrow> y # ys)))"

definition get_generics :: "cache_env \<Rightarrow> clean_type \<Rightarrow> index_generic list option outcome" where
  "get_generics env t =
     (case type_generics t of
        None \<Rightarrow> Done None
      | Some types \<Rightarrow>
          obind (ofilter_map (\<lambda>t. obind (get_index_type_name t False) (\<lambda>name.
              Done (map_option (\<lambda>name. \<lparr>ig_name = to_ascii_lowercase name,
                ig_defid = type_def_id (tls_locations env) t, ig_idx = None\<rparr>) name))) types)
            (\<lambda>r. Done (if r = [] then None else Some r)))"

definition get_index_type :: "cache_env \<Rightarrow> clean_type \<Rightarrow> render_type outcome" where
  "get_index_type env t =
     obind (get_index_type_name t True) (\<lambda>name.
     obind (get_generics env t) (\<lambda>generics.
       Done \<lparr>rt_ty = type_def_id (tls_locations env) t, rt_idx = None,
             rt_name = map_option to_ascii_lowercase name, rt_generics = generics\<rparr>))"

definition index_types :: "cache_env \<Rightarrow> (clean_type \<times> type_kind) list \<Rightarrow> type_with_kind list outcome" where
  "index_types env types =
     obind (omapM (\<lambda>(ty, kind). obind (get_index_type env ty) (\<lambda>ty. Done \<lparr>twk_ty = ty, twk_kind = kind\<rparr>)) types)
       (\<lambda>l. Done (filter (\<lambda>a. rt_name (twk_ty a) \<noteq> None) l))"

definition get_index_search_type :: "cache_env \<Rightarrow> clean_item \<Rightarrow> index_item_function_type option outcome" where
  "get_index_search_type env item =
     (let search = (\<lambda>all_types ret_types.
        obind (index_types env all_types) (\<lambda>ins.
        obind (index_types env ret_types) (\<lambda>out.
          Done (Some \<lparr>ift_inputs = ins, ift_output = if out = [] then None else Some out\<rparr>))))
      in case item_inner item of
           FunctionItem f \<Rightarrow> search (fn_all_types f) (fn_ret_types f)
         | MethodItem m \<Rightarrow> search (fn_all_types m) (fn_ret_types m)
         | TyMethodItem m \<Rightarrow> search (fn_all_types m) (fn_ret_types m)
         | _ \<Rightarrow> Done None)"

section \<open>One item\<close>

definition enter_stripped_mod :: "clean_item \<Rightarrow> doc_cache \<Rightarrow> doc_cache" where
  "enter_stripped_mod item c =
     (case item_inner item of StrippedItem (ModuleItem _) \<Rightarrow> c\<lparr>stripped_mod := True\<rparr> | _ \<Rightarrow> c)"

definition is_masked :: "cache_env \<Rightarrow> clean_item \<Rightarrow> doc_cache \<Rightarrow> bool" where
  "is_masked env item c =
     (case item_inner item of
        ImplItem i \<Rightarrow>
          (let masked = (\<lambda>did. case did of None \<Rightarrow> False | Some d \<Rightarrow> krate d \<in> set (cache_masked_crates c))
           in krate (item_def_id item) \<in> set (cache_masked_crates c) \<or> masked (trait_did env i) \<or>
              masked (type_def_id (tls_locations env) (impl_for i)))
      | _ \<Rightarrow> False)"

definition note_trait :: "clean_item \<Rightarrow> doc_cache \<Rightarrow> doc_cache" where
  "note_trait item c =
     (case item_inner item of
        TraitItem t \<Rightarrow>
          if cache_traits c (item_def_id item) = None
          then c\<lparr>cache_traits := (cache_traits c)(item_def_id item \<mapsto> t)\<rparr> else c
      | _ \<Rightarrow> c)"

definition note_implementor :: "cache_env \<Rightarrow> clean_item \<Rightarrow> doc_cache \<Rightarrow> doc_cache" where
  "note_implementor env item c =
     (case item_inner item of
        ImplItem i \<Rightarrow>
          (case trait_did env i of
             Some did \<Rightarrow>
               if blanket_impl i = None
               then c\<lparr>cache_implementors := (cache_implementors c)(did := cache_implementors c did @ [item])\<rparr> else c
           | None \<Rightarrow> c)
      | _ \<Rightarrow> c)"

text \<open>\<open>xs[..xs.len() - 1]\<close> and \<open>last().expect(..)\<close>.\<close>

definition all_but_last :: "'a list \<Rightarrow> 'a list outcome" where
  "all_but_last xs = (if xs = [] then Panic SubOverflow else Done (butlast xs))"

definition last_of :: "'a list \<Rightarrow> 'a outcome" where
  "last_of xs = (if xs = [] then Panic UnwrapNone else Done (last xs))"

definition index_parent :: "clean_item \<Rightarrow> doc_cache \<Rightarrow> ((def_id option \<times> string list option) \<times> bool) outcome" where
  "index_parent item c =
     (let member = obind (last_of (parent_stack c)) (\<lambda>p.
            obind (all_but_last (cache_stack c)) (\<lambda>path. Done ((Some p, Some path), False)));
          associated = (if parent_stack c = [] then Done ((None, None), False)
            else let did = last (parent_stack c) in
              obind (case map_of (cache_paths c) did of
                  Some (fqp, ty) \<Rightarrow>
                    if ty \<in> {ItTrait, ItStruct, ItUnion, ItEnum} then omap Some (all_but_last fqp)
                    else Done (Some (cache_stack c))
                | None \<Rightarrow> Done None)
                (\<lambda>path. Done ((Some did, path), True)));
          other = Done ((None, Some (cache_stack c)), False)
      in case item_inner item of
           StrippedItem _ \<Rightarrow> Done ((None, None), False)
         | AssocConstItem _ _ \<Rightarrow> if parent_is_trait_impl c then Done ((None, None), False) else associated
         | TypedefItem _ is_assoc \<Rightarrow> if is_assoc \<and> parent_is_trait_impl c then Done ((None, None), False) else other
         | AssocTypeItem _ _ \<Rightarrow> member
         | TyMethodItem _ \<Rightarrow> member
         | StructFieldItem _ \<Rightarrow> member
         | VariantItem _ \<Rightarrow> member
         | MethodItem _ \<Rightarrow> associated
         | _ \<Rightarrow> other)"

definition add_alias :: "cache_env \<Rightarrow> nat \<Rightarrow> string \<Rightarrow> (string \<Rightarrow> nat list option) \<Rightarrow> string \<Rightarrow> nat list option" where
  "add_alias env i alias aliases =
     (let k = unicode_lower env alias
      in aliases(k \<mapsto> (case aliases k of None \<Rightarrow> [] | Some l \<Rightarrow> l) @ [i]))"

definition push_index_item ::
  "cache_env \<Rightarrow> clean_item \<Rightarrow> string \<Rightarrow> string list \<Rightarrow> def_id option \<Rightarrow> doc_cache \<Rightarrow> doc_cache outcome" where
  "push_index_item env item name path parent c =
     obind (item_type_of (item_inner item)) (\<lambda>ty.
     obind (get_index_search_type env item) (\<lambda>search.
       let entry = \<lparr>ii_ty = ty, ii_name = name, ii_path = str_join ''::'' path,
             ii_desc = summary env (doc_value (item_attrs item)), ii_parent = parent,
             ii_parent_idx = None, ii_search_type = search\<rparr>
       in Done (c\<lparr>search_index := search_index c @ [entry],
            cache_aliases := fold (add_alias env (length (search_index c))) (get_doc_aliases (item_attrs item)) (cache_aliases c)\<rparr>)))"

definition index_for_search :: "cache_env \<Rightarrow> clean_item \<Rightarrow> doc_cache \<Rightarrow> doc_cache outcome" where
  "index_for_search env item c =
     (case item_name item of
        None \<Rightarrow> Done c
      | Some name \<Rightarrow>
          obind (index_parent item c) (\<lambda>((parent, path), is_inherent_impl_item).
            case path of
              Some path \<Rightarrow>
                if is_inherent_impl_item \<or> \<not> stripped_mod c
                then if index (item_def_id item) \<noteq> crate_def_index
                  then push_index_item env item name path parent c else Done c
                else Done c
            | None \<Rightarrow>
                (case parent of
                   Some parent \<Rightarrow>
                     if is_inherent_impl_item
                     then Done (c\<lparr>orphan_impl_items := orphan_impl_items c @ [(parent, item)]\<rparr>) else Done c
                 | None \<Rightarrow> Done c)))"

definition pushes_name :: "clean_item \<Rightarrow> bool" where
  "pushes_name item = (case item_name item of Some n \<Rightarrow> n \<noteq> '''' | None \<Rightarrow> False)"

definition push_name :: "clean_item \<Rightarrow> doc_cache \<Rightarrow> doc_cache" where
  "push_name item c =
     (if pushes_name item then c\<lparr>cache_stack := cache_stack c @ [the (item_name item)]\<rparr> else c)"

definition has_path :: "item_inner \<Rightarrow> bool" where
  "has_path inner =
     (case inner of
        StructItem _ \<Rightarrow> True | EnumItem _ \<Rightarrow> True | TypedefItem _ _ \<Rightarrow> True | TraitItem _ \<Rightarrow> True
      | FunctionItem _ \<Rightarrow> True | ModuleItem _ \<Rightarrow> True | ForeignFunctionItem _ \<Rightarrow> True
      | ForeignStaticItem _ \<Rightarrow> True | ConstantItem _ \<Rightarrow> True | StaticItem _ \<Rightarrow> True | UnionItem _ \<Rightarrow> True
      | ForeignTypeItem \<Rightarrow> True | MacroItem _ \<Rightarrow> True | ProcMacroItem _ \<Rightarrow> True | VariantItem _ \<Rightarrow> True
      | _ \<Rightarrow> False)"

definition insert_path :: "clean_item \<Rightarrow> doc_cache \<Rightarrow> doc_cache outcome" where
  "insert_path item c =
     obind (item_type_of (item_inner item)) (\<lambda>ty.
       Done (c\<lparr>cache_paths := AList.update (item_def_id item) (cache_stack c, ty) (cache_paths c)\<rparr>))"

definition note_path :: "clean_item \<Rightarrow> doc_cache \<Rightarrow> doc_cache outcome" where
  "note_path item c =
     (if has_path (item_inner item) \<and> \<not> stripped_mod c then
        if map_of (cache_paths c) (item_def_id item) = None \<or> is_public (cache_access_levels c) (item_def_id item)
        then insert_path item c else Done c
      else case item_inner item of PrimitiveItem _ \<Rightarrow> insert_path item c | _ \<Rightarrow> Done c)"

text \<open>The id pushed on the parent stack, and whether the parent is an impl of a trait.\<close>

definition new_parent :: "clean_item \<Rightarrow> doc_cache \<Rightarrow> def_id option" where
  "new_parent item c =
     (case item_inner item of
        TraitItem _ \<Rightarrow> Some (item_def_id item)
      | EnumItem _ \<Rightarrow> Some (item_def_id item)
      | ForeignTypeItem \<Rightarrow> Some (item_def_id item)
      | StructItem _ \<Rightarrow> Some (item_def_id item)
      | UnionItem _ \<Rightarrow> Some (item_def_id item)
      | VariantItem _ \<Rightarrow> Some (item_def_id item)
      | ImplItem i \<Rightarrow>
          (case impl_for i of
             ResolvedPath _ _ did _ \<Rightarrow> Some did
           | t \<Rightarrow> Option.bind (type_primitive_type t) (cache_primitive_locations c))
      | _ \<Rightarrow> None)"

definition enter_parent :: "clean_item \<Rightarrow> doc_cache \<Rightarrow> doc_cache" where
  "enter_parent item c =
     (let c = (case new_parent item c of Some did \<Rightarrow> c\<lparr>parent_stack := parent_stack c @ [did]\<rparr> | None \<Rightarrow> c)
      in case item_inner item of
           ImplItem i \<Rightarrow> c\<lparr>parent_is_trait_impl := impl_trait i \<noteq> None\<rparr>
         | _ \<Rightarrow> if new_parent item c \<noteq> None then c\<lparr>parent_is_trait_impl := False\<rparr> else c)"

text \<open>The ids an impl block is stored under: its type, and the type arguments of its trait.\<close>

definition impl_dids :: "cache_env \<Rightarrow> doc_cache \<Rightarrow> item_impl \<Rightarrow> def_id list" where
  "impl_dids env c i =
     (let dids = (case impl_for i of
            ResolvedPath _ _ did _ \<Rightarrow> [did]
          | BorrowedRef _ _ (ResolvedPath _ _ did _) \<Rightarrow> [did]
          | t \<Rightarrow> (case Option.bind (type_primitive_type t) (cache_primitive_locations c) of
                   Some did \<Rightarrow> [did] | None \<Rightarrow> []))
      in case Option.bind (impl_trait i) type_generics of
           Some generics \<Rightarrow>
             fold hs_insert (List.map_filter (type_def_id (tls_locations env)) generics) dids
         | None \<Rightarrow> dids)"

definition hoard_impl :: "cache_env \<Rightarrow> clean_item option \<Rightarrow> doc_cache \<Rightarrow> clean_item option \<times> doc_cache" where
  "hoard_impl env r c =
     (case r of
        Some item \<Rightarrow>
          (case item_inner item of
             ImplItem i \<Rightarrow>
               (None,
                case trait_did env i of
                  Some d \<Rightarrow>
                    if cache_traits c d \<noteq> None
                    then c\<lparr>cache_impls := fold (\<lambda>did. push_entry did item) (impl_dids env c i) (cache_impls c)\<rparr>
                    else c\<lparr>orphan_trait_impls := orphan_trait_impls c @ [(d, impl_dids env c i, item)]\<rparr>
                | None \<Rightarrow> c\<lparr>cache_impls := fold (\<lambda>did. push_entry did item) (impl_dids env c i) (cache_impls c)\<rparr>)
           | _ \<Rightarrow> (Some item, c))
      | None \<Rightarrow> (None, c))"

definition pop :: "'a list \<Rightarrow> 'a list outcome" where
  "pop xs = (if xs = [] then Panic UnwrapNone else Done (butlast xs))"

definition leave_item :: "bool \<Rightarrow> bool \<Rightarrow> bool \<Rightarrow> bool \<Rightarrow> doc_cache \<Rightarrow> doc_cache outcome" where
  "leave_item pushed parent_pushed orig_stripped_mod orig_parent_is_trait_impl c =
     obind (if pushed then pop (cache_stack c) else Done (cache_stack c)) (\<lambda>stack.
     obind (if parent_pushed then pop (parent_stack c) else Done (parent_stack c)) (\<lambda>parents.
       Done (c\<lparr>cache_stack := stack, parent_stack := parents, stripped_mod := orig_stripped_mod,
         parent_is_trait_impl := orig_parent_is_trait_impl\<rparr>)))"

definition before_item :: "cache_env \<Rightarrow> clean_item \<Rightarrow> doc_cache \<Rightarrow> doc_cache outcome" where
  "before_item env item c =
     obind (index_for_search env item (note_implementor env item (note_trait item c))) (\<lambda>c.
       note_path item (push_name item c))"

function cache_fold_item :: "cache_env \<Rightarrow> doc_cache folder" where
  "cache_fold_item env item c0 =
     (let c = enter_stripped_mod item c0 in
      if is_masked env item c then Done (None, c)
      else
        obind (before_item env item c) (\<lambda>c.
        obind (fold_item_recur (cache_fold_item env) item (enter_parent item c)) (\<lambda>(r, c').
          case hoard_impl env r c' of (ret, c') \<Rightarrow>
            obind (leave_item (pushes_name item) (new_parent item c \<noteq> None) (stripped_mod c0)
              (parent_is_trait_impl c) c') (\<lambda>c'. Done (ret, c')))))"
  by pat_completeness auto
termination
  by (relation "measure (\<lambda>(env, item, c). size item)") (auto simp: size_item_children)

declare cache_fold_item.simps [simp del]

section \<open>The search index\<close>

text \<open>Items of types whose path was learned after their methods were seen.\<close>

definition attach_orphan :: "cache_env \<Rightarrow> def_id \<times> clean_item \<Rightarrow> doc_cache \<Rightarrow> doc_cache outcome" where
  "attach_orphan env orphan c =
     (case orphan of (did, item) \<Rightarrow>
        case map_of (cache_paths c) did of
          Some (fqp, _) \<Rightarrow>
            obind (unwrap (item_name item)) (\<lambda>name.
            obind (all_but_last fqp) (\<lambda>path. push_index_item env item name path (Some did) c))
        | None \<Rightarrow> Done c)"

record index_state =
  defid_to_pathid :: "def_id \<Rightarrow> nat option"
  lastpathid :: nat
  crate_paths :: "(item_type \<times> string) list"
  lastpath :: string
  crate_items_done :: "index_item list"

definition parent_index ::
  "(def_id \<times> string list \<times> item_type) list \<Rightarrow> def_id option \<Rightarrow> index_state \<Rightarrow> (nat option \<times> index_state) outcome" where
  "parent_index paths parent s =
     (case parent of
        None \<Rightarrow> Done (None, s)
      | Some defid \<Rightarrow>
          (case defid_to_pathid s defid of
             Some pathid \<Rightarrow> Done (Some pathid, s)
           | None \<Rightarrow>
               let pathid = lastpathid s;
                   s = s\<lparr>defid_to_pathid := (defid_to_pathid s)(defid \<mapsto> pathid), lastpathid := pathid + 1\<rparr>
               in case map_of paths defid of
                    Some (fqp, short) \<Rightarrow>
                      obind (last_of fqp) (\<lambda>name.
                        Done (Some pathid, s\<lparr>crate_paths := crate_paths s @ [(short, name)]\<rparr>))
                  | None \<Rightarrow> Done (None, s)))"

definition number_item ::
  "(def_id \<times> string list \<times> item_type) list \<Rightarrow> index_item \<Rightarrow> index_state \<Rightarrow> index_state outcome" where
  "number_item paths item s =
     obind (parent_index paths (ii_parent item) s) (\<lambda>(idx, s).
       let item = item\<lparr>ii_parent_idx := idx\<rparr> in
       if lastpath s = ii_path item
       then Done (s\<lparr>crate_items_done := crate_items_done s @ [item\<lparr>ii_path := ''''\<rparr>]\<rparr>)
       else Done (s\<lparr>lastpath := ii_path item, crate_items_done := crate_items_done s @ [item]\<rparr>))"

text \<open>
  The data of the index; its JSON text is not modelled, but the assertion in the serialisation of
  every item is.
\<close>

record index_data =
  idx_crate :: string
  idx_doc :: string
  idx_items :: "index_item list"
  idx_paths :: "(item_type \<times> string) list"
  idx_aliases :: "string \<Rightarrow> nat list option"

definition serialize_item :: "index_item \<Rightarrow> unit outcome" where
  "serialize_item item =
     (if (ii_parent item \<noteq> None) = (ii_parent_idx item \<noteq> None) then Done ()
      else Panic (ExplicitPanic (ii_name item @ '' is missing idx'')))"

definition build_index :: "cache_env \<Rightarrow> clean_crate \<Rightarrow> doc_cache \<Rightarrow> (index_data \<times> doc_cache) outcome" where
  "build_index env k c =
     obind (ofold (attach_orphan env) (orphan_impl_items c) c) (\<lambda>c.
     obind (ofold (number_item (cache_paths c)) (search_index c)
         \<lparr>defid_to_pathid = (\<lambda>_. None), lastpathid = 0, crate_paths = [], lastpath = '''', crate_items_done = []\<rparr>) (\<lambda>s.
       let doc = (case krate_module k of Some m \<Rightarrow> summary env (doc_value (item_attrs m)) | None \<Rightarrow> '''') in
       obind (ofold (\<lambda>item _. serialize_item item) (crate_items_done s) ()) (\<lambda>_.
         Done (\<lparr>idx_crate = krate_name k, idx_doc = doc, idx_items = crate_items_done s,
                idx_paths = crate_paths s, idx_aliases = cache_aliases c\<rparr>,
               c\<lparr>search_index := crate_items_done s\<rparr>))))"

section \<open>Building the cache of a crate\<close>

record render_info =
  ri_external_paths :: "(def_id \<times> string list \<times> type_kind) list"
  ri_exact_paths :: "def_id \<Rightarrow> string list option"
  ri_access_levels :: access_levels
  ri_deref_trait_did :: "def_id option"
  ri_deref_mut_trait_did :: "def_id option"
  ri_owned_box_did :: "def_id option"

definition with_slash :: "string \<Rightarrow> string" where
  "with_slash url = (if url \<noteq> [] \<and> last url = CHR ''/'' then url else url @ ''/'')"

definition extern_location :: "cache_env \<Rightarrow> external_crate \<Rightarrow> external_location" where
  "extern_location env e =
     (if local_docs env (ext_name e) then LocalDoc
      else case extern_html_root_urls env (ext_name e) of
             Some url \<Rightarrow> Remote (with_slash url)
           | None \<Rightarrow>
               (case List.map_filter nested_value_str
                    (filter (\<lambda>a. nested_check_name a ''html_root_url'') (attr_lists (other_attrs (ext_attrs e)) ''doc'')) of
                  url # _ \<Rightarrow> Remote (with_slash url)
                | [] \<Rightarrow> UnknownLocation))"

definition add_extern :: "cache_env \<Rightarrow> nat \<times> external_crate \<Rightarrow> doc_cache \<Rightarrow> doc_cache" where
  "add_extern env ne c =
     (case ne of (n, e) \<Rightarrow>
        c\<lparr>extern_locations := (extern_locations c)(n \<mapsto> (ext_name e, source_dir env (ext_src e), extern_location env e)),
          cache_external_paths := AList.update \<lparr>krate = n, index = crate_def_index\<rparr> ([ext_name e], ItModule) (cache_external_paths c)\<rparr>)"

definition add_primitive :: "def_id \<times> primitive_type \<times> item_attributes \<Rightarrow> doc_cache \<Rightarrow> doc_cache" where
  "add_primitive p c =
     (case p of (did, prim, _) \<Rightarrow>
        c\<lparr>cache_primitive_locations := (cache_primitive_locations c)(prim \<mapsto> did)\<rparr>)"

definition initial_cache :: "render_info \<Rightarrow> bool \<Rightarrow> clean_crate \<Rightarrow> doc_cache" where
  "initial_cache ri doc_private k =
     \<lparr>cache_impls = [], cache_paths = [],
      cache_external_paths = map (\<lambda>(d, v, t). (d, v, item_type_of_kind t)) (ri_external_paths ri),
      cache_exact_paths = ri_exact_paths ri, cache_traits = map_of (external_traits k),
      cache_implementors = (\<lambda>_. []), extern_locations = (\<lambda>_. None), cache_primitive_locations = (\<lambda>_. None),
      cache_access_levels = ri_access_levels ri, cache_crate_version = krate_version k,
      cache_document_private = doc_private, cache_stack = [], parent_stack = [], parent_is_trait_impl = False,
      search_index = [], stripped_mod = False, deref_trait_did = ri_deref_trait_did ri,
      deref_mut_trait_did = ri_deref_mut_trait_did ri, owned_box_did = ri_owned_box_did ri,
      cache_masked_crates = masked_crates k, orphan_impl_items = [], orphan_trait_impls = [],
      cache_aliases = (\<lambda>_. None)\<rparr>"

definition start_cache :: "cache_env \<Rightarrow> render_info \<Rightarrow> bool \<Rightarrow> clean_crate \<Rightarrow> doc_cache" where
  "start_cache env ri doc_private k =
     (let c = fold (add_extern env) (krate_externs k) (initial_cache ri doc_private k);
          c = fold (\<lambda>(_, e). fold add_primitive (ext_primitives e)) (rev (krate_externs k)) c;
          c = fold add_primitive (krate_primitives k) c
      in c\<lparr>cache_stack := cache_stack c @ [krate_name k]\<rparr>)"

text \<open>The impl blocks of traits that were not known when the block was seen.\<close>

definition attach_orphan_trait_impl :: "def_id \<times> def_id list \<times> clean_item \<Rightarrow> doc_cache \<Rightarrow> doc_cache" where
  "attach_orphan_trait_impl orphan c =
     (case orphan of (trait, dids, i) \<Rightarrow>
        if cache_traits c trait \<noteq> None
        then c\<lparr>cache_impls := fold (\<lambda>did. push_entry did i) dids (cache_impls c)\<rparr> else c)"

definition from_krate ::
  "cache_env \<Rightarrow> render_info \<Rightarrow> bool \<Rightarrow> clean_crate \<Rightarrow> (clean_crate \<times> index_data \<times> doc_cache) outcome" where
  "from_krate env ri doc_private k =
     obind (fold_crate (cache_fold_item env)
         (k\<lparr>krate_version := None, external_traits := [], masked_crates := []\<rparr>) (start_cache env ri doc_private k)) (\<lambda>(k, c).
       let c = fold attach_orphan_trait_impl (orphan_trait_impls c) (c\<lparr>orphan_trait_impls := []\<rparr>)
       in obind (build_index env k c) (\<lambda>(idx, c). Done (k, idx, c)))"

section \<open>Items the cache can be built from\<close>

fun type_named :: "clean_type \<Rightarrow> bool" where
  "type_named (ResolvedPath path _ _ _) = (path_segments path \<noteq> [])"
| "type_named (BorrowedRef _ _ ty) = type_named ty"
| "type_named _ = True"

definition types_named :: "(clean_type \<times> type_kind) list \<Rightarrow> bool" where
  "types_named types = list_all (\<lambda>(t, _). type_named t \<and>
     (case type_generics t of None \<Rightarrow> True | Some ts \<Rightarrow> list_all type_named ts)) types"

definition search_types_named :: "item_inner \<Rightarrow> bool" where
  "search_types_named inner =
     (case inner of
        FunctionItem f \<Rightarrow> types_named (fn_all_types f) \<and> types_named (fn_ret_types f)
      | MethodItem m \<Rightarrow> types_named (fn_all_types m) \<and> types_named (fn_ret_types m)
      | TyMethodItem m \<Rightarrow> types_named (fn_all_types m) \<and> types_named (fn_ret_types m)
      | _ \<Rightarrow> True)"

text \<open>Items that are members of the item they are in, and items that have members.\<close>

definition is_member :: "item_inner \<Rightarrow> bool" where
  "is_member inner =
     (case inner of AssocTypeItem _ _ \<Rightarrow> True | TyMethodItem _ \<Rightarrow> True | StructFieldItem _ \<Rightarrow> True
      | VariantItem _ \<Rightarrow> True | _ \<Rightarrow> False)"

definition has_members :: "item_inner \<Rightarrow> bool" where
  "has_members inner =
     (case inner of TraitItem _ \<Rightarrow> True | EnumItem _ \<Rightarrow> True | StructItem _ \<Rightarrow> True | UnionItem _ \<Rightarrow> True
      | VariantItem _ \<Rightarrow> True | _ \<Rightarrow> False)"

text \<open>
  \<open>item_wf member item\<close>: at most one layer of \<open>StrippedItem\<close>, members only where \<open>member\<close> says that
  the item is in an item with members, and paths with segments in the types of functions.
\<close>

function item_wf :: "bool \<Rightarrow> clean_item \<Rightarrow> bool" where
  "item_wf member item \<longleftrightarrow> flat_here item \<and> (is_member (item_inner item) \<longrightarrow> member) \<and>
     search_types_named (item_inner item) \<and> list_all (item_wf (has_members (item_inner item))) (item_children item)"
  by pat_completeness auto
termination
  by (relation "measure (\<lambda>(member, item). size item)") (auto simp: size_item_children)

declare item_wf.simps [simp del]

lemma item_wf_parts:
  assumes "item_wf member item"
  shows "flat_here item" "is_member (item_inner item) \<Longrightarrow> member" "search_types_named (item_inner item)"
    "x \<in> set (item_children item) \<Longrightarrow> item_wf (has_members (item_inner item)) x"
  using assms by (auto simp: item_wf.simps [of member item] list_all_iff)

lemma index_type_name_Done: "type_named t \<Longrightarrow> \<exists>name. get_index_type_name t b = Done name"
  by (induction t b rule: get_index_type_name.induct) auto

lemma ofilter_map_Done: "(\<And>x. x \<in> set xs \<Longrightarrow> \<exists>y. f x = Done y) \<Longrightarrow> \<exists>ys. ofilter_map f xs = Done ys"
  by (induction xs) fastforce+

lemma omapM_Done: "(\<And>x. x \<in> set xs \<Longrightarrow> \<exists>y. f x = Done y) \<Longrightarrow> \<exists>ys. omapM f xs = Done ys"
  by (induction xs) fastforce+

lemma index_types_Done:
  assumes "types_named types"
  shows "\<exists>l. index_types env types = Done l"
proof -
  have "\<exists>ty. get_index_type env t = Done ty" if "(t, kind) \<in> set types" for t kind
  proof -
    have t: "type_named t" "case type_generics t of None \<Rightarrow> True | Some ts \<Rightarrow> list_all type_named ts"
      using assms that by (auto simp: types_named_def list_all_iff)
    obtain name where "get_index_type_name t True = Done name" using index_type_name_Done [OF t(1)] by blast
    moreover have "\<exists>gs. get_generics env t = Done gs"
    proof (cases "type_generics t")
      case (Some ts)
      have "\<exists>gs. ofilter_map (\<lambda>t. obind (get_index_type_name t False) (\<lambda>name.
              Done (map_option (\<lambda>name. \<lparr>ig_name = to_ascii_lowercase name,
                ig_defid = type_def_id (tls_locations env) t, ig_idx = None\<rparr>) name))) ts = Done gs"
      proof (rule ofilter_map_Done)
        fix g assume "g \<in> set ts"
        then have "type_named g" using t(2) Some by (simp add: list_all_iff)
        from index_type_name_Done [OF this, of False]
        show "\<exists>y. obind (get_index_type_name g False) (\<lambda>name.
              Done (map_option (\<lambda>name. \<lparr>ig_name = to_ascii_lowercase name,
                ig_defid = type_def_id (tls_locations env) g, ig_idx = None\<rparr>) name)) = Done y" by auto
      qed
      then show ?thesis using Some by (auto simp: get_generics_def)
    qed (simp add: get_generics_def)
    ultimately show ?thesis by (auto simp: get_index_type_def)
  qed
  then have "\<exists>l. omapM (\<lambda>(ty, kind). obind (get_index_type env ty) (\<lambda>ty. Done \<lparr>twk_ty = ty, twk_kind = kind\<rparr>)) types = Done l"
    by (intro omapM_Done) fastforce
  then show ?thesis by (auto simp: index_types_def)
qed

lemma search_type_Done:
  assumes "search_types_named (item_inner item)"
  shows "\<exists>t. get_index_search_type env item = Done t"
proof -
  have "\<exists>t. obind (index_types env ins) (\<lambda>ins. obind (index_types env outs) (\<lambda>out.
      Done (Some \<lparr>ift_inputs = ins, ift_output = if out = [] then None else Some out\<rparr>))) = Done t"
    if "types_named ins" "types_named outs" for ins outs
    using index_types_Done [OF that(1), of env] index_types_Done [OF that(2), of env] by auto
  then show ?thesis
    using assms by (cases "item_inner item") (simp_all add: get_index_search_type_def search_types_named_def)
qed

lemma item_type_Done: "flat_here item \<Longrightarrow> \<exists>ty. item_type_of (item_inner item) = Done ty"
proof (cases "item_inner item")
  case (StrippedItem i)
  then show "flat_here item \<Longrightarrow> ?thesis" by (cases i) (simp_all add: flat_here_def item_type_of_def)
qed (simp_all add: item_type_of_def)

section \<open>The invariant of the cache\<close>

definition entries :: "('k \<times> 'v list) list \<Rightarrow> ('k \<times> 'v) set" where
  "entries m = {(k, x). \<exists>xs. map_of m k = Some xs \<and> x \<in> set xs}"

lemma entries_push: "entries (push_entry k x m) = insert (k, x) (entries m)"
  by (auto simp: entries_def push_entry_def update_conv' split: option.splits if_splits)

lemma entries_fold: "entries (fold (\<lambda>k. push_entry k x) ks m) = entries m \<union> {(k, x) |k. k \<in> set ks}"
  by (induction ks arbitrary: m) (auto simp: entries_push)

lemma distinct_fold_push:
  "distinct (map fst m) \<Longrightarrow> distinct (map fst (fold (\<lambda>k. push_entry k x) ks m))"
  by (induction ks arbitrary: m) (auto simp: push_entry_def distinct_update)

definition known_path :: "doc_cache \<Rightarrow> def_id \<Rightarrow> bool" where
  "known_path c did \<longleftrightarrow> map_of (cache_paths c) did \<noteq> None"

definition paths_ok :: "(def_id \<times> string list \<times> item_type) list \<Rightarrow> bool" where
  "paths_ok ps \<longleftrightarrow> distinct (map fst ps) \<and> (\<forall>did fqp ty. map_of ps did = Some (fqp, ty) \<longrightarrow> fqp \<noteq> [])"

definition index_ok :: "doc_cache \<Rightarrow> bool" where
  "index_ok c \<longleftrightarrow> (\<forall>e \<in> set (search_index c). \<forall>did. ii_parent e = Some did \<longrightarrow> known_path c did) \<and>
     (\<forall>(did, item) \<in> set (orphan_impl_items c).
        item_name item \<noteq> None \<and> flat_here item \<and> search_types_named (item_inner item))"

text \<open>An impl block in the table: its trait, if it has one, is known.\<close>

definition trait_known :: "cache_env \<Rightarrow> doc_cache \<Rightarrow> clean_item \<Rightarrow> bool" where
  "trait_known env c item \<longleftrightarrow>
     (\<exists>i. item_inner item = ImplItem i \<and> (\<forall>d. trait_did env i = Some d \<longrightarrow> cache_traits c d \<noteq> None))"

definition impls_ok :: "cache_env \<Rightarrow> doc_cache \<Rightarrow> bool" where
  "impls_ok env c \<longleftrightarrow> distinct (map fst (cache_impls c)) \<and>
     (\<forall>(did, item) \<in> entries (cache_impls c). trait_known env c item) \<and>
     (\<forall>(d, dids, item) \<in> set (orphan_trait_impls c). \<exists>i. item_inner item = ImplItem i \<and> trait_did env i = Some d)"

definition cache_inv :: "cache_env \<Rightarrow> doc_cache \<Rightarrow> bool" where
  "cache_inv env c \<longleftrightarrow> cache_stack c \<noteq> [] \<and> paths_ok (cache_paths c) \<and> index_ok c \<and> impls_ok env c"

text \<open>What handling an item leaves as it was; paths are only added.\<close>

definition same_frame :: "doc_cache \<Rightarrow> doc_cache \<Rightarrow> bool" where
  "same_frame c c' \<longleftrightarrow> parent_stack c' = parent_stack c \<and> stripped_mod c' = stripped_mod c \<and>
     parent_is_trait_impl c' = parent_is_trait_impl c \<and>
     cache_primitive_locations c' = cache_primitive_locations c \<and> cache_masked_crates c' = cache_masked_crates c \<and>
     cache_external_paths c' = cache_external_paths c \<and> (\<forall>did. known_path c did \<longrightarrow> known_path c' did)"

lemma same_frame_refl [simp]: "same_frame c c"
  by (simp add: same_frame_def)

lemma same_frame_trans: "same_frame c c' \<Longrightarrow> same_frame c' c'' \<Longrightarrow> same_frame c c''"
  by (simp add: same_frame_def)

definition parent_ok :: "doc_cache \<Rightarrow> bool" where
  "parent_ok c \<longleftrightarrow> parent_stack c \<noteq> [] \<and> (\<not> stripped_mod c \<longrightarrow> known_path c (last (parent_stack c)))"

text \<open>What the cache learns: impl blocks under the ids of their types, and traits.\<close>

datatype cache_fact = StoredImpl def_id clean_item | KnownTrait def_id

definition cache_facts :: "doc_cache \<Rightarrow> cache_fact set" where
  "cache_facts c = {StoredImpl did i |did i. (did, i) \<in> entries (cache_impls c)} \<union>
     {StoredImpl did i |did i. \<exists>d dids. (d, dids, i) \<in> set (orphan_trait_impls c) \<and> did \<in> set dids} \<union>
     {KnownTrait d |d. cache_traits c d \<noteq> None}"

definition trait_facts :: "clean_item \<Rightarrow> cache_fact set" where
  "trait_facts item = (case item_inner item of TraitItem _ \<Rightarrow> {KnownTrait (item_def_id item)} | _ \<Rightarrow> {})"

lemma note_traits_ok:
  fixes item :: clean_item
  assumes "cache_inv env c"
  defines "n \<equiv> note_implementor env item (note_trait item c)"
  shows "cache_inv env n \<and> same_frame c n \<and> cache_stack n = cache_stack c \<and>
    cache_facts n = cache_facts c \<union> trait_facts item"
proof -
  obtain tr im where n: "n = c\<lparr>cache_traits := tr, cache_implementors := im\<rparr>"
      "{d. tr d \<noteq> None} = {d. cache_traits c d \<noteq> None} \<union> {d. KnownTrait d \<in> trait_facts item}"
  proof (rule that)
    show "n = c\<lparr>cache_traits := cache_traits n, cache_implementors := cache_implementors n\<rparr>"
      by (cases "item_inner item") (simp_all add: n_def note_implementor_def note_trait_def split: option.split)
    show "{d. cache_traits n d \<noteq> None} = {d. cache_traits c d \<noteq> None} \<union> {d. KnownTrait d \<in> trait_facts item}"
      by (cases "item_inner item")
        (auto simp: n_def note_implementor_def note_trait_def trait_facts_def split: option.split)
  qed
  have tr: "tr d \<noteq> None" if "cache_traits c d \<noteq> None" for d using n(2) that by blast
  have "trait_known env n i" if "trait_known env c i" for i
    using that tr by (fastforce simp: trait_known_def n(1))
  then have "cache_inv env n"
    using assms(1) by (fastforce simp: cache_inv_def impls_ok_def index_ok_def known_path_def n(1))
  moreover have "cache_facts n = cache_facts c \<union> trait_facts item"
  proof -
    have "\<exists>d. x = KnownTrait d" if "x \<in> trait_facts item" for x
      using that by (auto simp: trait_facts_def split: item_enum.splits)
    then have "{KnownTrait d |d. tr d \<noteq> None} = {KnownTrait d |d. cache_traits c d \<noteq> None} \<union> trait_facts item"
      using n(2) by blast
    then show ?thesis unfolding cache_facts_def n(1) by auto
  qed
  ultimately show ?thesis by (simp add: same_frame_def known_path_def n(1))
qed

lemma push_index_item_ok:
  assumes "flat_here item" "search_types_named (item_inner item)"
  shows "\<exists>e al. push_index_item env item name path parent c =
      Done (c\<lparr>search_index := search_index c @ [e], cache_aliases := al\<rparr>) \<and> ii_parent e = parent"
proof -
  obtain ty t where t: "item_type_of (item_inner item) = Done ty" "get_index_search_type env item = Done t"
    using item_type_Done [OF assms(1)] search_type_Done [OF assms(2), of env] by blast
  let ?e = "\<lparr>ii_ty = ty, ii_name = name, ii_path = str_join ''::'' path,
      ii_desc = summary env (doc_value (item_attrs item)), ii_parent = parent, ii_parent_idx = None, ii_search_type = t\<rparr>"
  have "push_index_item env item name path parent c = Done (c\<lparr>search_index := search_index c @ [?e],
      cache_aliases := fold (add_alias env (length (search_index c))) (get_doc_aliases (item_attrs item)) (cache_aliases c)\<rparr>)"
    by (simp add: push_index_item_def t Let_def)
  moreover have "ii_parent ?e = parent" by simp
  ultimately show ?thesis by blast
qed

text \<open>The parent of an indexed item has a path.\<close>

lemma index_parent_ok:
  assumes inv: "cache_inv env c" and member: "is_member (item_inner item) \<Longrightarrow> parent_ok c"
  shows "\<exists>parent path inherent. index_parent item c = Done ((parent, path), inherent) \<and>
    (\<forall>did. parent = Some did \<longrightarrow> path \<noteq> None \<longrightarrow> (inherent \<or> \<not> stripped_mod c) \<longrightarrow> known_path c did)"
proof -
  have stack: "cache_stack c \<noteq> []" and paths: "\<And>did fqp ty. map_of (cache_paths c) did = Some (fqp, ty) \<Longrightarrow> fqp \<noteq> []"
    using inv unfolding cache_inv_def paths_ok_def by blast+
  have associated: "\<exists>parent path inherent. (if parent_stack c = [] then Done ((None, None), False)
            else let did = last (parent_stack c) in
              obind (case map_of (cache_paths c) did of
                  Some (fqp, ty) \<Rightarrow>
                    if ty \<in> {ItTrait, ItStruct, ItUnion, ItEnum} then omap Some (all_but_last fqp)
                    else Done (Some (cache_stack c))
                | None \<Rightarrow> Done None)
                (\<lambda>path. Done ((Some did, path), True))) = Done ((parent, path), inherent) \<and>
      (\<forall>did. parent = Some did \<longrightarrow> path \<noteq> None \<longrightarrow> (inherent \<or> \<not> stripped_mod c) \<longrightarrow> known_path c did)"
  proof (cases "map_of (cache_paths c) (last (parent_stack c))")
    case (Some p)
    obtain fqp ty where "p = (fqp, ty)" by (cases p)
    with paths Some show ?thesis by (auto simp: all_but_last_def known_path_def Let_def)
  qed (auto simp: Let_def)
  have member: "\<exists>p path. obind (last_of (parent_stack c)) (\<lambda>p.
            obind (all_but_last (cache_stack c)) (\<lambda>path. Done ((Some p, Some path), False))) = Done ((Some p, Some path), False) \<and>
      (\<not> stripped_mod c \<longrightarrow> known_path c p)" if "is_member (item_inner item)"
    using member [OF that] stack by (simp add: parent_ok_def last_of_def all_but_last_def)
  show ?thesis
    by (cases "item_inner item")
      (use associated member in \<open>auto simp: index_parent_def is_member_def Let_def\<close>)
qed

lemma index_for_search_ok:
  assumes inv: "cache_inv env c" and item: "flat_here item" "search_types_named (item_inner item)"
    and member: "is_member (item_inner item) \<Longrightarrow> parent_ok c"
  shows "\<exists>c'. index_for_search env item c = Done c' \<and> cache_inv env c' \<and> same_frame c c' \<and>
    cache_stack c' = cache_stack c \<and> cache_facts c' = cache_facts c"
proof -
  have si: "cache_inv env (c\<lparr>search_index := search_index c @ [e], cache_aliases := al\<rparr>)"
    if "\<forall>did. ii_parent e = Some did \<longrightarrow> known_path c did" for e al
    using inv that by (fastforce simp: cache_inv_def index_ok_def impls_ok_def trait_known_def known_path_def)
  have oi: "cache_inv env (c\<lparr>orphan_impl_items := orphan_impl_items c @ [(did, item)]\<rparr>)" if "item_name item \<noteq> None" for did
    using inv item that by (fastforce simp: cache_inv_def index_ok_def impls_ok_def trait_known_def known_path_def)
  have frame: "same_frame c (c\<lparr>search_index := s, cache_aliases := al\<rparr>)"
      "same_frame c (c\<lparr>orphan_impl_items := os\<rparr>)" for s al os
    by (simp_all add: same_frame_def known_path_def)
  show ?thesis
  proof (cases "item_name item")
    case (Some name)
    obtain parent path inherent where p: "index_parent item c = Done ((parent, path), inherent)"
        "\<forall>did. parent = Some did \<longrightarrow> path \<noteq> None \<longrightarrow> (inherent \<or> \<not> stripped_mod c) \<longrightarrow> known_path c did"
      using index_parent_ok [OF inv member] by blast
    show ?thesis
    proof (cases path)
      case None
      show ?thesis
      proof (cases "parent \<noteq> None \<and> inherent")
        case True
        then obtain did where "parent = Some did" by blast
        then have "index_for_search env item c = Done (c\<lparr>orphan_impl_items := orphan_impl_items c @ [(did, item)]\<rparr>)"
          using Some None True p(1) by (simp add: index_for_search_def)
        then show ?thesis using oi Some frame(2) by (auto simp: cache_facts_def)
      next
        case False
        then have "index_for_search env item c = Done c"
          using Some None p(1) by (auto simp: index_for_search_def split: option.split)
        then show ?thesis using inv by simp
      qed
    next
      case (Some path')
      show ?thesis
      proof (cases "(inherent \<or> \<not> stripped_mod c) \<and> index (item_def_id item) \<noteq> crate_def_index")
        case True
        obtain e al where "push_index_item env item name path' parent c =
            Done (c\<lparr>search_index := search_index c @ [e], cache_aliases := al\<rparr>)" "ii_parent e = parent"
          using push_index_item_ok [OF item] by blast
        then have "index_for_search env item c = Done (c\<lparr>search_index := search_index c @ [e], cache_aliases := al\<rparr>)"
            "\<forall>did. ii_parent e = Some did \<longrightarrow> known_path c did"
          using \<open>item_name item = Some name\<close> Some p True by (auto simp: index_for_search_def)
        then show ?thesis using si frame(1) by (auto simp: cache_facts_def)
      next
        case False
        then have "index_for_search env item c = Done c"
          using \<open>item_name item = Some name\<close> Some p(1) by (auto simp: index_for_search_def)
        then show ?thesis using inv by simp
      qed
    qed
  qed (use inv in \<open>simp add: index_for_search_def\<close>)
qed

lemma note_path_ok:
  assumes inv: "cache_inv env c" and item: "flat_here item"
  shows "\<exists>c'. note_path item c = Done c' \<and> cache_inv env c' \<and> same_frame c c' \<and> cache_stack c' = cache_stack c \<and>
    cache_facts c' = cache_facts c \<and> (has_path (item_inner item) \<longrightarrow> \<not> stripped_mod c \<longrightarrow> known_path c' (item_def_id item))"
proof -
  obtain ty where ty: "item_type_of (item_inner item) = Done ty" using item_type_Done [OF item] by blast
  let ?c = "c\<lparr>cache_paths := AList.update (item_def_id item) (cache_stack c, ty) (cache_paths c)\<rparr>"
  have insert: "insert_path item c = Done ?c" by (simp add: insert_path_def ty)
  have kp: "known_path ?c did \<longleftrightarrow> did = item_def_id item \<or> known_path c did" for did
    by (simp add: known_path_def update_conv')
  have "paths_ok (cache_paths ?c)"
    using inv by (auto simp: cache_inv_def paths_ok_def update_conv' distinct_update)
  moreover have "index_ok ?c" using inv kp unfolding cache_inv_def index_ok_def by simp
  ultimately have "cache_inv env ?c"
    using inv by (simp add: cache_inv_def impls_ok_def trait_known_def)
  then have c: "cache_inv env ?c \<and> same_frame c ?c \<and> cache_stack ?c = cache_stack c \<and> cache_facts ?c = cache_facts c"
    using kp by (auto simp: same_frame_def cache_facts_def)
  have "note_path item c = Done ?c \<or> note_path item c = Done c \<and>
      (has_path (item_inner item) \<longrightarrow> \<not> stripped_mod c \<longrightarrow> known_path c (item_def_id item))"
  proof (cases "has_path (item_inner item) \<and> \<not> stripped_mod c")
    case True
    then show ?thesis by (simp add: note_path_def insert known_path_def)
  next
    case False
    have "note_path item c = (case item_inner item of PrimitiveItem _ \<Rightarrow> insert_path item c | _ \<Rightarrow> Done c)"
      unfolding note_path_def using False by (rule if_not_P)
    then show ?thesis using False insert by (cases "item_inner item") simp_all
  qed
  then show ?thesis
  proof (elim disjE conjE)
    assume "note_path item c = Done ?c"
    then show ?thesis using c kp by auto
  qed (use inv in simp)
qed

lemma before_item_ok:
  assumes inv: "cache_inv env c" and wf: "item_wf member item" and parent: "member \<Longrightarrow> parent_ok c"
  shows "\<exists>c'. before_item env item c = Done c' \<and> cache_inv env c' \<and> same_frame c c' \<and>
    cache_stack c' = cache_stack (push_name item c) \<and> cache_facts c' = cache_facts c \<union> trait_facts item \<and>
    (has_path (item_inner item) \<longrightarrow> \<not> stripped_mod c \<longrightarrow> known_path c' (item_def_id item))"
proof -
  note item = item_wf_parts [OF wf]
  let ?n = "note_implementor env item (note_trait item c)"
  have n: "cache_inv env ?n" "same_frame c ?n" "cache_stack ?n = cache_stack c"
      "cache_facts ?n = cache_facts c \<union> trait_facts item"
    using note_traits_ok [OF inv, of item] by simp_all
  have "parent_ok ?n" if "is_member (item_inner item)"
    using parent [OF item(2) [OF that]] n(2) by (auto simp: parent_ok_def same_frame_def)
  from index_for_search_ok [OF n(1) item(1,3) this] obtain c1 where
    c1: "index_for_search env item ?n = Done c1" "cache_inv env c1" "same_frame ?n c1" "cache_stack c1 = cache_stack ?n"
      "cache_facts c1 = cache_facts ?n" by blast
  let ?c2 = "push_name item c1"
  have c2: "cache_inv env ?c2" "same_frame c1 ?c2" "cache_facts ?c2 = cache_facts c1"
    using c1(2) by (simp_all add: push_name_def cache_inv_def index_ok_def impls_ok_def trait_known_def
        known_path_def same_frame_def cache_facts_def)
  from note_path_ok [OF c2(1) item(1)] obtain c3 where
    c3: "note_path item ?c2 = Done c3" "cache_inv env c3" "same_frame ?c2 c3" "cache_stack c3 = cache_stack ?c2"
      "cache_facts c3 = cache_facts ?c2"
      "has_path (item_inner item) \<longrightarrow> \<not> stripped_mod ?c2 \<longrightarrow> known_path c3 (item_def_id item)" by blast
  have frame: "same_frame c c3" using n(2) c1(3) c2(2) c3(3) same_frame_trans by blast
  have stack: "cache_stack ?c2 = cache_stack (push_name item c)" using c1(4) n(3) by (simp add: push_name_def)
  have sm: "stripped_mod ?c2 = stripped_mod c" using n(2) c1(3) c2(2) by (simp add: same_frame_def)
  have "before_item env item c = Done c3" by (simp add: before_item_def c1(1) c3(1))
  then show ?thesis
    using c3 frame stack sm c2(3) c1(5) n(4) by auto
qed

text \<open>The function the cache is on items: impl blocks are taken out.\<close>

definition is_impl :: "item_inner \<Rightarrow> bool" where
  "is_impl inner = (case inner of ImplItem _ \<Rightarrow> True | _ \<Rightarrow> False)"

definition cache_verdict :: "clean_item \<Rightarrow> verdict" where
  "cache_verdict i = (if is_impl (item_inner i) then Drop else Descend)"

definition without_impls :: "clean_item \<Rightarrow> clean_item" where
  "without_impls i = rebuild_item i (List.map_filter (prune cache_verdict) (item_children i))"

lemma prune_cache: "prune cache_verdict i = (if is_impl (item_inner i) then None else Some (without_impls i))"
  by (simp add: prune.simps [of cache_verdict i] cache_verdict_def without_impls_def Let_def)

text \<open>What the cache learns from an item.\<close>

definition impl_facts :: "cache_env \<Rightarrow> doc_cache \<Rightarrow> clean_item \<Rightarrow> cache_fact set" where
  "impl_facts env c item =
     (case item_inner item of
        ImplItem i \<Rightarrow> {StoredImpl did (without_impls item) |did. did \<in> set (impl_dids env c i)}
      | _ \<Rightarrow> {})"

function item_facts :: "cache_env \<Rightarrow> doc_cache \<Rightarrow> clean_item \<Rightarrow> cache_fact set" where
  "item_facts env c item =
     (if is_masked env item c then {}
      else trait_facts item \<union> impl_facts env c item \<union> (\<Union>x \<in> set (item_children item). item_facts env c x))"
  by pat_completeness auto
termination
  by (relation "measure (\<lambda>(env, c, item). size item)") (auto simp: size_item_children)

declare item_facts.simps [simp del]

definition same_tables :: "doc_cache \<Rightarrow> doc_cache \<Rightarrow> bool" where
  "same_tables c c' \<longleftrightarrow> cache_primitive_locations c' = cache_primitive_locations c \<and>
     cache_masked_crates c' = cache_masked_crates c"

lemma same_tables_facts: "same_tables c c' \<Longrightarrow> item_facts env c' item = item_facts env c item"
proof (induction env c item rule: item_facts.induct)
  case (1 env c item)
  have eqs: "cache_primitive_locations c' = cache_primitive_locations c" "cache_masked_crates c' = cache_masked_crates c"
    using "1.prems" by (simp_all add: same_tables_def)
  have "is_masked env item c' = is_masked env item c" "impl_facts env c' item = impl_facts env c item"
    by (unfold is_masked_def impl_facts_def impl_dids_def eqs) (rule refl)+
  then show ?case using 1 by (simp add: item_facts.simps [of env _ item])
qed

lemma fold_list_steps:
  assumes "\<And>x s. x \<in> set xs \<Longrightarrow> P s \<Longrightarrow> \<exists>s'. f x s = Done (keep x, s') \<and> P s' \<and> g s' = g s \<union> h x" and "P s"
  shows "\<exists>s'. fold_list f xs s = Done (List.map_filter keep xs, s') \<and> P s' \<and> g s' = g s \<union> (\<Union>x \<in> set xs. h x)"
  using assms
proof (induction xs arbitrary: s)
  case (Cons x xs)
  from Cons.prems obtain s1 where s1: "f x s = Done (keep x, s1)" "P s1" "g s1 = g s \<union> h x"
    by (meson list.set_intros(1))
  from Cons.IH [of s1] Cons.prems(1) s1(2) obtain s2 where
    "fold_list f xs s1 = Done (List.map_filter keep xs, s2)" "P s2" "g s2 = g s1 \<union> (\<Union>x \<in> set xs. h x)"
    by (meson list.set_intros(2))
  then show ?case using s1 by (auto simp: map_filter_simps split: option.split)
qed (simp add: map_filter_simps)

lemma without_impls_inner:
  "item_inner item = ImplItem i \<Longrightarrow> \<exists>i'. item_inner (without_impls item) = ImplItem i' \<and>
     impl_trait i' = impl_trait i \<and> impl_for i' = impl_for i"
  "\<not> is_impl (item_inner item) \<Longrightarrow> \<not> is_impl (item_inner (without_impls item))"
proof -
  show "\<exists>i'. item_inner (without_impls item) = ImplItem i' \<and> impl_trait i' = impl_trait i \<and> impl_for i' = impl_for i"
    if "item_inner item = ImplItem i" using that by (simp add: without_impls_def)
  show "\<not> is_impl (item_inner (without_impls item))" if "\<not> is_impl (item_inner item)"
    using that rebuild_impl [of "item_inner item"]
    by (auto simp only: is_impl_def without_impls_def rebuild_item_simps split: item_enum.splits)
qed

lemma hoard_other: "\<not> is_impl (item_inner j) \<Longrightarrow> hoard_impl env (Some j) c = (Some j, c)"
  by (cases "item_inner j") (simp_all add: hoard_impl_def is_impl_def)

lemma hoard_ok:
  assumes inv: "cache_inv env c" and j: "item_inner j = ImplItem i"
  shows "\<exists>c'. hoard_impl env (Some j) c = (None, c') \<and> cache_inv env c' \<and> same_frame c c' \<and> cache_stack c' = cache_stack c \<and>
    cache_facts c' = cache_facts c \<union> {StoredImpl did j |did. did \<in> set (impl_dids env c i)}"
proof (cases "\<exists>d. trait_did env i = Some d \<and> cache_traits c d = None")
  case True
  then obtain d where d: "trait_did env i = Some d" "cache_traits c d = None" by blast
  let ?c = "c\<lparr>orphan_trait_impls := orphan_trait_impls c @ [(d, impl_dids env c i, j)]\<rparr>"
  have "hoard_impl env (Some j) c = (None, ?c)" by (simp add: hoard_impl_def j d)
  moreover have "cache_inv env ?c"
    using inv d(1) j by (auto simp: cache_inv_def index_ok_def impls_ok_def trait_known_def known_path_def)
  moreover have "{StoredImpl did i |did i. \<exists>d dids. (d, dids, i) \<in> set (orphan_trait_impls ?c) \<and> did \<in> set dids} =
      {StoredImpl did i |did i. \<exists>d dids. (d, dids, i) \<in> set (orphan_trait_impls c) \<and> did \<in> set dids} \<union>
      {StoredImpl did j |did. did \<in> set (impl_dids env c i)}"
    by (simp add: set_eq_iff) blast
  then have "cache_facts ?c = cache_facts c \<union> {StoredImpl did j |did. did \<in> set (impl_dids env c i)}"
    by (simp add: cache_facts_def Un_ac)
  ultimately show ?thesis by (intro exI [of _ ?c]) (simp add: same_frame_def known_path_def)
next
  case False
  let ?c = "c\<lparr>cache_impls := fold (\<lambda>did. push_entry did j) (impl_dids env c i) (cache_impls c)\<rparr>"
  have "hoard_impl env (Some j) c = (None, ?c)"
    using False by (cases "trait_did env i") (simp_all add: hoard_impl_def j)
  moreover have "trait_known env c j" using False j by (auto simp: trait_known_def)
  then have "cache_inv env ?c"
    using inv by (auto simp: cache_inv_def index_ok_def impls_ok_def trait_known_def known_path_def
        entries_fold distinct_fold_push)
  moreover have "cache_facts ?c = cache_facts c \<union> {StoredImpl did j |did. did \<in> set (impl_dids env c i)}"
    by (auto simp: cache_facts_def entries_fold)
  ultimately show ?thesis by (intro exI [of _ ?c]) (simp add: same_frame_def known_path_def)
qed

lemma impl_dids_cong:
  assumes "same_tables c c'" "impl_for i' = impl_for i" "impl_trait i' = impl_trait i"
  shows "impl_dids env c' i' = impl_dids env c i"
proof -
  have eq: "cache_primitive_locations c' = cache_primitive_locations c" using assms(1) by (simp add: same_tables_def)
  show ?thesis by (unfold impl_dids_def assms(2,3) eq) (rule refl)
qed

text \<open>After the items under an item: its impl block is stored, other items stay.\<close>

lemma after_item_ok:
  assumes inv: "cache_inv env c" and tables: "same_tables c0 c"
  shows "\<exists>c'. hoard_impl env (Some (without_impls item)) c = (prune cache_verdict item, c') \<and> cache_inv env c' \<and>
    same_frame c c' \<and> cache_stack c' = cache_stack c \<and> cache_facts c' = cache_facts c \<union> impl_facts env c0 item"
proof (cases "is_impl (item_inner item)")
  case True
  then obtain i where i: "item_inner item = ImplItem i" by (auto simp: is_impl_def split: item_enum.splits)
  obtain i' where i': "item_inner (without_impls item) = ImplItem i'" "impl_trait i' = impl_trait i" "impl_for i' = impl_for i"
    using without_impls_inner(1) [OF i] by blast
  have "impl_dids env c i' = impl_dids env c0 i" by (rule impl_dids_cong [OF tables i'(3,2)])
  with hoard_ok [OF inv i'(1)] True show ?thesis by (simp add: prune_cache impl_facts_def i)
next
  case False
  have "impl_facts env c0 item = {}"
    using False by (auto simp: impl_facts_def is_impl_def split: item_enum.splits)
  then show ?thesis
    using hoard_other [OF without_impls_inner(2) [OF False], of env c] False inv by (simp add: prune_cache)
qed

section \<open>Going through the items\<close>

lemma enter_parent_eq:
  "\<exists>b. enter_parent item c = c\<lparr>parent_stack := parent_stack c @ (case new_parent item c of Some did \<Rightarrow> [did] | None \<Rightarrow> []),
     parent_is_trait_impl := b\<rparr>"
  by (cases "item_inner item"; cases "new_parent item c")
    (auto simp: enter_parent_def Let_def intro: exI [of _ "parent_is_trait_impl c"])

lemma enter_parent_simps:
  "cache_stack (enter_parent item c) = cache_stack c" "stripped_mod (enter_parent item c) = stripped_mod c"
  "cache_paths (enter_parent item c) = cache_paths c"
  "parent_stack (enter_parent item c) = parent_stack c @ (case new_parent item c of Some did \<Rightarrow> [did] | None \<Rightarrow> [])"
  "same_tables c (enter_parent item c)"
  "cache_facts (enter_parent item c) = cache_facts c" "cache_inv env (enter_parent item c) = cache_inv env c"
    "cache_external_paths (enter_parent item c) = cache_external_paths c"
proof -
  obtain ps b where "enter_parent item c = c\<lparr>parent_stack := ps, parent_is_trait_impl := b\<rparr>"
      "ps = parent_stack c @ (case new_parent item c of Some did \<Rightarrow> [did] | None \<Rightarrow> [])"
    using enter_parent_eq by blast
  note c = this
  show "cache_stack (enter_parent item c) = cache_stack c" "stripped_mod (enter_parent item c) = stripped_mod c"
    "cache_paths (enter_parent item c) = cache_paths c"
    "parent_stack (enter_parent item c) = parent_stack c @ (case new_parent item c of Some did \<Rightarrow> [did] | None \<Rightarrow> [])"
    "same_tables c (enter_parent item c)"
    "cache_facts (enter_parent item c) = cache_facts c" "cache_inv env (enter_parent item c) = cache_inv env c"
    "cache_external_paths (enter_parent item c) = cache_external_paths c"
    by (simp_all add: c same_tables_def cache_facts_def cache_inv_def index_ok_def impls_ok_def
        trait_known_def known_path_def)
qed

lemma enter_other:
  assumes "\<nexists>m. item_inner item = StrippedItem (ModuleItem m)"
  shows "enter_stripped_mod item c = c"
proof (cases "item_inner item")
  case (StrippedItem i)
  with assms show ?thesis by (cases i) (simp_all add: enter_stripped_mod_def)
qed (simp_all add: enter_stripped_mod_def)

lemma enter_stripped_mod_simps:
  "cache_stack (enter_stripped_mod item c) = cache_stack c" "parent_stack (enter_stripped_mod item c) = parent_stack c"
  "parent_is_trait_impl (enter_stripped_mod item c) = parent_is_trait_impl c"
  "same_tables c (enter_stripped_mod item c)" "known_path (enter_stripped_mod item c) = known_path c"
  "cache_facts (enter_stripped_mod item c) = cache_facts c" "cache_inv env (enter_stripped_mod item c) = cache_inv env c"
  "parent_ok c \<Longrightarrow> parent_ok (enter_stripped_mod item c)"
  "cache_external_paths (enter_stripped_mod item c) = cache_external_paths c"
proof -
  obtain b where b: "enter_stripped_mod item c = c\<lparr>stripped_mod := b\<rparr>" "stripped_mod c \<Longrightarrow> b"
  proof (cases "\<exists>m. item_inner item = StrippedItem (ModuleItem m)")
    case True
    then show thesis by (intro that [of True]) (auto simp: enter_stripped_mod_def)
  next
    case False
    then have "enter_stripped_mod item c = c" by (rule enter_other)
    then show thesis by (intro that [of "stripped_mod c"]) simp_all
  qed
  show "cache_stack (enter_stripped_mod item c) = cache_stack c" "parent_stack (enter_stripped_mod item c) = parent_stack c"
    "parent_is_trait_impl (enter_stripped_mod item c) = parent_is_trait_impl c"
    "same_tables c (enter_stripped_mod item c)" "known_path (enter_stripped_mod item c) = known_path c"
    "cache_facts (enter_stripped_mod item c) = cache_facts c" "cache_inv env (enter_stripped_mod item c) = cache_inv env c"
    by (simp_all add: b(1) same_tables_def cache_facts_def cache_inv_def index_ok_def impls_ok_def
        trait_known_def known_path_def fun_eq_iff)
  show "cache_external_paths (enter_stripped_mod item c) = cache_external_paths c" by (simp add: b(1))
  show "parent_ok c \<Longrightarrow> parent_ok (enter_stripped_mod item c)"
    using b(2) by (auto simp: b(1) parent_ok_def known_path_def)
qed

lemma masked_impl:
  assumes "is_masked env item c"
  shows "is_impl (item_inner item)" "enter_stripped_mod item c0 = c0"
proof -
  obtain i where "item_inner item = ImplItem i" using assms by (cases "item_inner item") (simp_all add: is_masked_def)
  then show "is_impl (item_inner item)" "enter_stripped_mod item c0 = c0"
    by (simp_all add: is_impl_def enter_stripped_mod_def)
qed

lemma same_frame_tables: "same_frame c c' \<Longrightarrow> same_tables c c'"
  by (simp add: same_frame_def same_tables_def)

lemma same_tables_trans: "same_tables c c' \<Longrightarrow> same_tables c' c'' \<Longrightarrow> same_tables c c''"
  by (simp add: same_tables_def)

lemma members_parent_ok:
  assumes "has_members (item_inner item)"
    and "has_path (item_inner item) \<longrightarrow> \<not> stripped_mod c \<longrightarrow> known_path c (item_def_id item)"
  shows "parent_ok (enter_parent item c)"
proof -
  have "has_path (item_inner item)" "new_parent item c = Some (item_def_id item)"
    using assms(1) by (cases "item_inner item"; simp add: has_members_def has_path_def new_parent_def)+
  then show ?thesis using assms(2) by (simp add: parent_ok_def enter_parent_simps known_path_def)
qed

lemma leave_item_Done:
  assumes "parent_stack c = ps @ (case np of Some did \<Rightarrow> [did] | None \<Rightarrow> [])"
    and "cache_stack c = st @ (if pushed then [n] else [])"
  shows "leave_item pushed (np \<noteq> None) sm ti c =
    Done (c\<lparr>cache_stack := st, parent_stack := ps, stripped_mod := sm, parent_is_trait_impl := ti\<rparr>)"
  using assms by (cases np) (auto simp: leave_item_def pop_def)

text \<open>What handling an item gives.\<close>

definition folds_item :: "cache_env \<Rightarrow> clean_item \<Rightarrow> doc_cache \<Rightarrow> bool" where
  "folds_item env item c \<longleftrightarrow>
     (\<exists>c'. cache_fold_item env item c = Done (prune cache_verdict item, c') \<and> cache_inv env c' \<and> same_frame c c' \<and>
        cache_stack c' = cache_stack c \<and> cache_facts c' = cache_facts c \<union> item_facts env c item)"

lemma children_ok:
  assumes wf: "item_wf member item" and inv: "cache_inv env c" and parent: "has_members (item_inner item) \<Longrightarrow> parent_ok c"
    and IH: "\<And>x s. x \<in> set (item_children item) \<Longrightarrow> cache_inv env s \<Longrightarrow>
      (has_members (item_inner item) \<Longrightarrow> parent_ok s) \<Longrightarrow>
      folds_item env x s"
  shows "\<exists>c'. fold_item_recur (cache_fold_item env) item c = Done (Some (without_impls item), c') \<and> cache_inv env c' \<and>
    same_frame c c' \<and> cache_stack c' = cache_stack c \<and>
    cache_facts c' = cache_facts c \<union> (\<Union>x \<in> set (item_children item). item_facts env c x)"
proof -
  let ?P = "\<lambda>s. cache_inv env s \<and> same_frame c s \<and> cache_stack s = cache_stack c"
  have "\<exists>s'. cache_fold_item env x s = Done (prune cache_verdict x, s') \<and> ?P s' \<and>
      cache_facts s' = cache_facts s \<union> item_facts env c x"
    if "x \<in> set (item_children item)" and s: "?P s" for x s
  proof -
    have "parent_ok s" if "has_members (item_inner item)"
      using parent [OF that] s by (auto simp: parent_ok_def same_frame_def)
    from IH [OF \<open>x \<in> _\<close> conjunct1 [OF s] this, unfolded folds_item_def]
    obtain s' where "cache_fold_item env x s = Done (prune cache_verdict x, s')" "cache_inv env s'" "same_frame s s'"
        "cache_stack s' = cache_stack s" "cache_facts s' = cache_facts s \<union> item_facts env s x" by blast
    moreover have "item_facts env s x = item_facts env c x"
      using s same_tables_facts same_frame_tables by blast
    ultimately show ?thesis using s same_frame_trans by fastforce
  qed
  from fold_list_steps [where P = ?P and g = cache_facts and h = "item_facts env c" and xs = "item_children item" and s = c, OF this] inv
  obtain c' where c': "fold_list (cache_fold_item env) (item_children item) c =
      Done (List.map_filter (prune cache_verdict) (item_children item), c')" "?P c'"
      "cache_facts c' = cache_facts c \<union> (\<Union>x \<in> set (item_children item). item_facts env c x)"
    by auto
  have "fold_item_recur (cache_fold_item env) item c = Done (Some (without_impls item), c')"
    by (simp add: fold_item_recur_eq [OF item_wf_parts(1) [OF wf]] c'(1) without_impls_def)
  with c'(2,3) show ?thesis by blast
qed

lemma cache_fold_item_ok:
  assumes "item_wf member item" "cache_inv env c0" "member \<Longrightarrow> parent_ok c0"
  shows "folds_item env item c0"
  using assms
proof (induction member item arbitrary: c0 rule: item_wf.induct)
  case (1 member item)
  let ?c = "enter_stripped_mod item c0"
  have masked: "is_masked env item ?c = is_masked env item c0"
    using enter_stripped_mod_simps(4) [of c0 item] by (unfold is_masked_def same_tables_def) metis
  show ?case
  proof (cases "is_masked env item c0")
    case True
    then have "cache_fold_item env item c0 = Done (None, c0)"
      using masked by (simp add: cache_fold_item.simps [of env item c0] Let_def masked_impl(2))
    then show ?thesis
      using True "1.prems"(2) masked_impl(1)
      by (simp add: folds_item_def prune_cache item_facts.simps [of env c0 item])
  next
    case False
    have c: "cache_inv env ?c" "member \<Longrightarrow> parent_ok ?c"
      using "1.prems"(2,3) enter_stripped_mod_simps(7,8) by blast+
    from before_item_ok [OF c(1) "1.prems"(1) c(2)] obtain c1 where
      c1: "before_item env item ?c = Done c1" "cache_inv env c1" "same_frame ?c c1"
        "cache_stack c1 = cache_stack (push_name item ?c)" "cache_facts c1 = cache_facts ?c \<union> trait_facts item"
        "has_path (item_inner item) \<longrightarrow> \<not> stripped_mod ?c \<longrightarrow> known_path c1 (item_def_id item)" by blast
    let ?c2 = "enter_parent item c1"
    have "stripped_mod c1 = stripped_mod ?c" using c1(3) by (simp add: same_frame_def)
    with c1(6) have p2: "has_members (item_inner item) \<Longrightarrow> parent_ok ?c2" by (intro members_parent_ok) simp_all
    have i2: "cache_inv env ?c2" using c1(2) by (simp add: enter_parent_simps)
    note IH = "1.IH" [OF _ item_wf_parts(4) [OF "1.prems"(1)]]
    from children_ok [OF "1.prems"(1) i2 p2 IH]
    obtain c3 where c3: "fold_item_recur (cache_fold_item env) item ?c2 = Done (Some (without_impls item), c3)"
        "cache_inv env c3" "same_frame ?c2 c3" "cache_stack c3 = cache_stack ?c2"
        "cache_facts c3 = cache_facts ?c2 \<union> (\<Union>x \<in> set (item_children item). item_facts env ?c2 x)"
      by blast
    have tables: "same_tables c0 c1" "same_tables c0 ?c2" "same_tables c0 c3"
      using enter_stripped_mod_simps(4) [of c0 item] enter_parent_simps(5) [of c1 item] c1(3) c3(3)
      by (simp_all add: same_tables_def same_frame_def)
    from after_item_ok [OF c3(2) tables(3), of item] obtain c4 where
      c4: "hoard_impl env (Some (without_impls item)) c3 = (prune cache_verdict item, c4)" "cache_inv env c4"
        "same_frame c3 c4" "cache_stack c4 = cache_stack c3" "cache_facts c4 = cache_facts c3 \<union> impl_facts env c0 item"
      by blast
    let ?c5 = "c4\<lparr>cache_stack := cache_stack c0, parent_stack := parent_stack c0, stripped_mod := stripped_mod c0,
      parent_is_trait_impl := parent_is_trait_impl c0\<rparr>"
    have "parent_stack c1 = parent_stack c0" "parent_is_trait_impl c1 = parent_is_trait_impl c0"
      using c1(3) by (simp_all add: same_frame_def enter_stripped_mod_simps)
    moreover have "parent_stack c4 = parent_stack c1 @ (case new_parent item c1 of Some did \<Rightarrow> [did] | None \<Rightarrow> [])"
      using c3(3) c4(3) by (simp add: same_frame_def enter_parent_simps)
    moreover have "cache_stack c4 = cache_stack c0 @ (if pushes_name item then [the (item_name item)] else [])"
      using c1(4) c3(4) c4(4) by (simp add: enter_parent_simps enter_stripped_mod_simps push_name_def)
    ultimately have "cache_fold_item env item c0 = Done (prune cache_verdict item, ?c5)"
      using False masked c1(1) c3(1) c4(1)
        leave_item_Done [of c4 "parent_stack c0" "new_parent item c1" "cache_stack c0" "pushes_name item"]
      by (simp add: cache_fold_item.simps [of env item c0] Let_def)
    moreover have "cache_inv env ?c5"
      using c4(2) "1.prems"(2) by (simp add: cache_inv_def index_ok_def impls_ok_def trait_known_def known_path_def)
    moreover have "same_frame c0 ?c5"
    proof -
      have "known_path c4 did" if "known_path c0 did" for did
        using that c1(3) c3(3) c4(3) enter_stripped_mod_simps(5) [of item c0]
        by (simp add: same_frame_def known_path_def enter_parent_simps)
      moreover have "same_tables c0 c4" using tables(3) c4(3) same_frame_tables same_tables_trans by blast
      moreover have "cache_external_paths c4 = cache_external_paths c0"
        using c1(3) c3(3) c4(3) by (simp add: same_frame_def enter_parent_simps enter_stripped_mod_simps)
      ultimately show ?thesis by (simp add: same_frame_def same_tables_def known_path_def)
    qed
    moreover have "cache_facts ?c5 = cache_facts c0 \<union> item_facts env c0 item"
    proof -
      have "item_facts env ?c2 x = item_facts env c0 x" for x using tables(2) by (rule same_tables_facts)
      moreover have "cache_facts ?c5 = cache_facts c4" by (simp add: cache_facts_def)
      ultimately show ?thesis
        using False c1(5) c3(5) c4(5)
        by (auto simp: item_facts.simps [of env c0 item] enter_parent_simps enter_stripped_mod_simps)
    qed
    ultimately show ?thesis unfolding folds_item_def by (intro exI [of _ ?c5]) simp
  qed
qed

section \<open>The search index\<close>

definition has_parent_path :: "(def_id \<times> string list \<times> item_type) list \<Rightarrow> index_item \<Rightarrow> bool" where
  "has_parent_path paths e \<longleftrightarrow> (\<forall>did. ii_parent e = Some did \<longrightarrow> map_of paths did \<noteq> None)"

text \<open>The number of an entry's parent is the place of the parent's name in the table of paths.\<close>

definition numbered :: "(def_id \<times> string list \<times> item_type) list \<Rightarrow> (item_type \<times> string) list \<Rightarrow> def_id \<Rightarrow> nat \<Rightarrow> bool" where
  "numbered paths cps did j \<longleftrightarrow> j < length cps \<and> (\<exists>fqp ty. map_of paths did = Some (fqp, ty) \<and> cps ! j = (ty, last fqp))"

definition entry_numbered :: "(def_id \<times> string list \<times> item_type) list \<Rightarrow> (item_type \<times> string) list \<Rightarrow> index_item \<Rightarrow> bool" where
  "entry_numbered paths cps e \<longleftrightarrow>
     (case ii_parent e of
        None \<Rightarrow> ii_parent_idx e = None
      | Some did \<Rightarrow> (case ii_parent_idx e of Some j \<Rightarrow> numbered paths cps did j | None \<Rightarrow> False))"

definition numbering_ok :: "(def_id \<times> string list \<times> item_type) list \<Rightarrow> index_state \<Rightarrow> bool" where
  "numbering_ok paths s \<longleftrightarrow> lastpathid s = length (crate_paths s) \<and>
     (\<forall>did j. defid_to_pathid s did = Some j \<longrightarrow> numbered paths (crate_paths s) did j) \<and>
     (\<forall>e \<in> set (crate_items_done s). entry_numbered paths (crate_paths s) e)"

lemma numbered_append: "numbered paths cps did j \<Longrightarrow> numbered paths (cps @ x) did j"
  by (auto simp: numbered_def nth_append)

lemma entry_numbered_append: "entry_numbered paths cps e \<Longrightarrow> entry_numbered paths (cps @ x) e"
  by (auto simp: entry_numbered_def numbered_append split: option.splits)

lemma paths_nonempty: "paths_ok ps \<Longrightarrow> map_of ps did = Some (fqp, ty) \<Longrightarrow> fqp \<noteq> []"
  unfolding paths_ok_def by blast

lemma parent_index_ok:
  assumes "paths_ok paths" "numbering_ok paths s" and known: "\<And>did. parent = Some did \<Longrightarrow> map_of paths did \<noteq> None"
  shows "\<exists>idx s'. parent_index paths parent s = Done (idx, s') \<and> numbering_ok paths s' \<and>
    crate_items_done s' = crate_items_done s \<and>
    (case parent of None \<Rightarrow> idx = None | Some did \<Rightarrow> \<exists>j. idx = Some j \<and> numbered paths (crate_paths s') did j)"
proof (cases parent)
  case None
  then show ?thesis using assms(2) by (simp add: parent_index_def)
next
  case (Some did)
  show ?thesis
  proof (cases "defid_to_pathid s did")
    case (Some j)
    then show ?thesis
      using \<open>parent = Some did\<close> assms(2) by (auto simp: parent_index_def numbering_ok_def)
  next
    case None
    obtain fqp ty where p: "map_of paths did = Some (fqp, ty)" using known [OF Some] by fastforce
    then have "fqp \<noteq> []" by (rule paths_nonempty [OF assms(1)])
    let ?s = "s\<lparr>defid_to_pathid := (defid_to_pathid s)(did \<mapsto> lastpathid s), lastpathid := lastpathid s + 1,
      crate_paths := crate_paths s @ [(ty, last fqp)]\<rparr>"
    have "parent_index paths parent s = Done (Some (lastpathid s), ?s)"
      using Some None p \<open>fqp \<noteq> []\<close> by (simp add: parent_index_def Let_def last_of_def)
    moreover have n: "numbered paths (crate_paths ?s) did (lastpathid s)"
      using assms(2) p by (simp add: numbered_def numbering_ok_def)
    moreover have "numbering_ok paths ?s"
      using assms(2) n by (auto simp: numbering_ok_def numbered_append entry_numbered_append)
    ultimately show ?thesis using Some by auto
  qed
qed

lemma number_item_ok:
  assumes "paths_ok paths" "numbering_ok paths s" "has_parent_path paths e"
  shows "\<exists>s'. number_item paths e s = Done s' \<and> numbering_ok paths s'"
proof -
  obtain idx s1 where s1: "parent_index paths (ii_parent e) s = Done (idx, s1)" "numbering_ok paths s1"
      "case ii_parent e of None \<Rightarrow> idx = None | Some did \<Rightarrow> \<exists>j. idx = Some j \<and> numbered paths (crate_paths s1) did j"
    using parent_index_ok [OF assms(1,2), of "ii_parent e"] assms(3) by (auto simp: has_parent_path_def)
  have "entry_numbered paths (crate_paths s1) (e\<lparr>ii_parent_idx := idx, ii_path := p\<rparr>)" for p
    using s1(3) by (auto simp: entry_numbered_def split: option.splits)
  then have "entry_numbered paths (crate_paths s1) (e\<lparr>ii_parent_idx := idx, ii_path := ''''\<rparr>)"
      "entry_numbered paths (crate_paths s1) (e\<lparr>ii_parent_idx := idx\<rparr>)"
    using s1(3) by (auto simp: entry_numbered_def split: option.splits)
  then show ?thesis using s1(1,2) by (auto simp: number_item_def Let_def numbering_ok_def)
qed

lemma number_items_ok:
  assumes "paths_ok paths" "numbering_ok paths s" "\<forall>e \<in> set es. has_parent_path paths e"
  shows "\<exists>s'. ofold (number_item paths) es s = Done s' \<and> numbering_ok paths s'"
  using assms(2,3)
proof (induction es arbitrary: s)
  case (Cons e es)
  then obtain s1 where "number_item paths e s = Done s1" "numbering_ok paths s1"
    using number_item_ok [OF assms(1)] by fastforce
  with Cons show ?case by simp
qed simp

lemma serialize_items:
  "\<forall>e \<in> set es. entry_numbered paths cps e \<Longrightarrow> ofold (\<lambda>item _. serialize_item item) es () = Done ()"
  by (induction es) (auto simp: serialize_item_def entry_numbered_def split: option.splits)

lemma attach_orphans_ok:
  assumes "paths_ok (cache_paths c)" "\<forall>e \<in> set (search_index c). has_parent_path (cache_paths c) e"
    and "\<forall>(did, item) \<in> set os. item_name item \<noteq> None \<and> flat_here item \<and> search_types_named (item_inner item)"
  shows "\<exists>es al. ofold (attach_orphan env) os c = Done (c\<lparr>search_index := es, cache_aliases := al\<rparr>) \<and>
    (\<forall>e \<in> set es. has_parent_path (cache_paths c) e)"
  using assms
proof (induction os arbitrary: c)
  case Nil
  have "c = c\<lparr>search_index := search_index c, cache_aliases := cache_aliases c\<rparr>" by simp
  then show ?case using Nil by (metis ofold.simps(1))
next
  case (Cons o' os)
  obtain did item where o': "o' = (did, item)" by (cases o')
  obtain name where item: "item_name item = Some name" "flat_here item" "search_types_named (item_inner item)"
    using Cons.prems(3) o' by auto
  have "\<exists>es al. attach_orphan env o' c = Done (c\<lparr>search_index := es, cache_aliases := al\<rparr>) \<and>
      (\<forall>e \<in> set es. has_parent_path (cache_paths c) e)"
  proof (cases "map_of (cache_paths c) did")
    case None
    then have "attach_orphan env o' c = Done (c\<lparr>search_index := search_index c, cache_aliases := cache_aliases c\<rparr>)"
      by (simp add: attach_orphan_def o')
    then show ?thesis using Cons.prems(2) by blast
  next
    case (Some p)
    obtain fqp ty where p: "p = (fqp, ty)" by (cases p)
    then have "fqp \<noteq> []" using paths_nonempty [OF Cons.prems(1)] Some by blast
    obtain e al where e: "push_index_item env item name (butlast fqp) (Some did) c =
        Done (c\<lparr>search_index := search_index c @ [e], cache_aliases := al\<rparr>)" "ii_parent e = Some did"
      using push_index_item_ok [OF item(2,3)] by blast
    have "attach_orphan env o' c = Done (c\<lparr>search_index := search_index c @ [e], cache_aliases := al\<rparr>)"
      using Some p \<open>fqp \<noteq> []\<close> item(1) e(1) by (simp add: attach_orphan_def o' all_but_last_def)
    moreover have "has_parent_path (cache_paths c) e" using e(2) Some by (simp add: has_parent_path_def)
    moreover from this have "\<forall>e \<in> set (search_index c @ [e]). has_parent_path (cache_paths c) e"
      using Cons.prems(2) by simp
    ultimately show ?thesis by blast
  qed
  then obtain es al where c1: "attach_orphan env o' c = Done (c\<lparr>search_index := es, cache_aliases := al\<rparr>)"
      "\<forall>e \<in> set es. has_parent_path (cache_paths c) e" by blast
  with Cons.IH [of "c\<lparr>search_index := es, cache_aliases := al\<rparr>"] Cons.prems(1,3) show ?case by simp
qed

lemma build_index_ok:
  assumes "paths_ok (cache_paths c)" "index_ok c"
  shows "\<exists>idx es al. build_index env k c = Done (idx, c\<lparr>search_index := es, cache_aliases := al\<rparr>) \<and> idx_items idx = es \<and>
    (\<forall>e \<in> set es. entry_numbered (cache_paths c) (idx_paths idx) e)"
proof -
  have "\<forall>e \<in> set (search_index c). has_parent_path (cache_paths c) e"
    using assms(2) by (simp add: index_ok_def known_path_def has_parent_path_def)
  from attach_orphans_ok [OF assms(1) this, of "orphan_impl_items c" env] assms(2)
  obtain es al where o': "ofold (attach_orphan env) (orphan_impl_items c) c = Done (c\<lparr>search_index := es, cache_aliases := al\<rparr>)"
      "\<forall>e \<in> set es. has_parent_path (cache_paths c) e"
    by (auto simp: index_ok_def)
  let ?s = "\<lparr>defid_to_pathid = (\<lambda>_. None), lastpathid = 0, crate_paths = [], lastpath = '''', crate_items_done = []\<rparr>"
  have "numbering_ok (cache_paths c) ?s" by (simp add: numbering_ok_def)
  from number_items_ok [OF assms(1) this o'(2)] obtain s where
    s: "ofold (number_item (cache_paths c)) es ?s = Done s" "numbering_ok (cache_paths c) s" by blast
  then have n: "\<forall>e \<in> set (crate_items_done s). entry_numbered (cache_paths c) (crate_paths s) e"
    by (simp add: numbering_ok_def)
  obtain idx where "build_index env k c = Done (idx, c\<lparr>search_index := crate_items_done s, cache_aliases := al\<rparr>)"
      "idx_items idx = crate_items_done s" "idx_paths idx = crate_paths s"
    by (simp add: build_index_def o'(1) s(1) serialize_items [OF n] Let_def)
  with n show ?thesis by auto
qed

section \<open>The cache of a crate\<close>

definition crate_wf :: "clean_crate \<Rightarrow> bool" where
  "crate_wf k \<longleftrightarrow> (case krate_module k of Some m \<Rightarrow> item_wf False m | None \<Rightarrow> True)"

text \<open>What the cache learns from a crate: the external traits, and what its items have.\<close>

definition crate_facts :: "cache_env \<Rightarrow> doc_cache \<Rightarrow> clean_crate \<Rightarrow> cache_fact set" where
  "crate_facts env c k = {KnownTrait d |d. map_of (external_traits k) d \<noteq> None} \<union>
     (case krate_module k of Some m \<Rightarrow> item_facts env c m | None \<Rightarrow> {})"

definition prim_entry :: "def_id \<times> primitive_type \<times> item_attributes \<Rightarrow> primitive_type \<times> def_id" where
  "prim_entry p = (fst (snd p), fst p)"

lemma add_primitives:
  "fold add_primitive ps c = c\<lparr>cache_primitive_locations := cache_primitive_locations c ++ map_of (rev (map prim_entry ps))\<rparr>"
  by (induction ps arbitrary: c) (simp_all add: add_primitive_def prim_entry_def split_beta)

lemma add_extern_primitives:
  "fold (\<lambda>(_, e). fold add_primitive (ext_primitives e)) es c =
     c\<lparr>cache_primitive_locations := cache_primitive_locations c ++
       map_of (rev (map prim_entry (concat (map (ext_primitives \<circ> snd) es))))\<rparr>"
  by (induction es arbitrary: c) (simp_all add: add_primitives split_beta)

lemma add_externs: "\<exists>ls ps. fold (add_extern env) es c = c\<lparr>extern_locations := ls, cache_external_paths := ps\<rparr>"
proof (induction es arbitrary: c)
  case Nil
  have "fold (add_extern env) [] c =
      c\<lparr>extern_locations := extern_locations c, cache_external_paths := cache_external_paths c\<rparr>" by simp
  then show ?case by blast
next
  case (Cons e es)
  from Cons.IH [of "add_extern env e c"] obtain ls ps where
    "fold (add_extern env) (e # es) c = (add_extern env e c)\<lparr>extern_locations := ls, cache_external_paths := ps\<rparr>" by auto
  also have "\<dots> = c\<lparr>extern_locations := ls, cache_external_paths := ps\<rparr>" by (simp add: add_extern_def split_beta)
  finally show ?case by blast
qed

text \<open>Primitive types are looked up in the crate first, then in the external crates in their order.\<close>

lemma start_cache_eq:
  "\<exists>ls ps. start_cache env ri dp k = (initial_cache ri dp k)\<lparr>extern_locations := ls, cache_external_paths := ps,
     cache_primitive_locations := map_of (rev (map prim_entry (concat (map (ext_primitives \<circ> snd) (rev (krate_externs k))) @
       krate_primitives k))), cache_stack := [krate_name k]\<rparr>"
proof -
  obtain ls ps where "fold (add_extern env) (krate_externs k) (initial_cache ri dp k) =
      (initial_cache ri dp k)\<lparr>extern_locations := ls, cache_external_paths := ps\<rparr>"
    using add_externs by blast
  then show ?thesis
    by (intro exI [of _ ls] exI [of _ ps])
      (simp add: start_cache_def Let_def add_primitives add_extern_primitives initial_cache_def)
qed

lemma start_cache_ok:
  "cache_inv env (start_cache env ri dp k)"
  "cache_facts (start_cache env ri dp k) = {KnownTrait d |d. map_of (external_traits k) d \<noteq> None}"
proof -
  obtain ls ps pl where c: "start_cache env ri dp k = (initial_cache ri dp k)\<lparr>extern_locations := ls,
      cache_external_paths := ps, cache_primitive_locations := pl, cache_stack := [krate_name k]\<rparr>"
    using start_cache_eq by blast
  show "cache_inv env (start_cache env ri dp k)"
    by (simp add: c initial_cache_def cache_inv_def paths_ok_def index_ok_def impls_ok_def entries_def)
  show "cache_facts (start_cache env ri dp k) = {KnownTrait d |d. map_of (external_traits k) d \<noteq> None}"
    by (simp add: c initial_cache_def cache_facts_def entries_def)
qed

lemma attach_orphan_trait_impls:
  "\<exists>m. fold attach_orphan_trait_impl os c = c\<lparr>cache_impls := m\<rparr> \<and>
     (distinct (map fst (cache_impls c)) \<longrightarrow> distinct (map fst m)) \<and>
     entries m = entries (cache_impls c) \<union>
       {(did, i). \<exists>d dids. (d, dids, i) \<in> set os \<and> did \<in> set dids \<and> cache_traits c d \<noteq> None}"
proof (induction os arbitrary: c)
  case Nil
  have "fold attach_orphan_trait_impl [] c = c\<lparr>cache_impls := cache_impls c\<rparr>" by simp
  then show ?case by (intro exI [of _ "cache_impls c"]) simp
next
  case (Cons o' os)
  obtain d dids i where o': "o' = (d, dids, i)" by (cases o') 
  let ?m = "if cache_traits c d \<noteq> None then fold (\<lambda>did. push_entry did i) dids (cache_impls c) else cache_impls c"
  have c1: "attach_orphan_trait_impl o' c = c\<lparr>cache_impls := ?m\<rparr>"
    by (simp add: attach_orphan_trait_impl_def o')
  obtain m where m: "fold attach_orphan_trait_impl os (c\<lparr>cache_impls := ?m\<rparr>) = c\<lparr>cache_impls := m\<rparr>"
      "distinct (map fst ?m) \<longrightarrow> distinct (map fst m)"
      "entries m = entries ?m \<union> {(did, i). \<exists>d dids. (d, dids, i) \<in> set os \<and> did \<in> set dids \<and> cache_traits c d \<noteq> None}"
    using Cons.IH [of "c\<lparr>cache_impls := ?m\<rparr>"] by auto
  have "entries ?m = entries (cache_impls c) \<union> {(did, j). j = i \<and> did \<in> set dids \<and> cache_traits c d \<noteq> None}"
    by (auto simp: entries_fold)
  then have "entries m = entries (cache_impls c) \<union>
      {(did, i). \<exists>d dids. (d, dids, i) \<in> set (o' # os) \<and> did \<in> set dids \<and> cache_traits c d \<noteq> None}"
    unfolding m(3) o' by (auto simp del: not_None_eq)
  moreover have "distinct (map fst (cache_impls c)) \<longrightarrow> distinct (map fst ?m)" by (simp add: distinct_fold_push)
  ultimately show ?case using m(1,2) c1 by (intro exI [of _ m]) simp
qed

definition stored_impls :: "cache_env \<Rightarrow> cache_fact set \<Rightarrow> (def_id \<times> clean_item) set" where
  "stored_impls env facts = {(did, item). StoredImpl did item \<in> facts \<and>
     (\<exists>i. item_inner item = ImplItem i \<and> (\<forall>d. trait_did env i = Some d \<longrightarrow> KnownTrait d \<in> facts))}"

lemma known_trait_fact: "KnownTrait d \<in> cache_facts c \<longleftrightarrow> cache_traits c d \<noteq> None"
  by (simp add: cache_facts_def)

lemma stored_impls_eq:
  assumes "impls_ok env c"
  shows "stored_impls env (cache_facts c) = entries (cache_impls c) \<union>
    {(did, i). \<exists>d dids. (d, dids, i) \<in> set (orphan_trait_impls c) \<and> did \<in> set dids \<and> cache_traits c d \<noteq> None}"
    (is "_ = ?E \<union> ?O")
proof -
  have stored: "StoredImpl did item \<in> cache_facts c \<longleftrightarrow> (did, item) \<in> ?E \<or>
      (\<exists>d dids. (d, dids, item) \<in> set (orphan_trait_impls c) \<and> did \<in> set dids)" for did item
    by (simp add: cache_facts_def)
  have known: "(did, item) \<in> stored_impls env (cache_facts c) \<longleftrightarrow> StoredImpl did item \<in> cache_facts c \<and> trait_known env c item"
    for did item
    by (simp add: stored_impls_def trait_known_def known_trait_fact)
  have e: "trait_known env c item" if "(did, item) \<in> ?E" for did item
    using assms that by (auto simp: impls_ok_def)
  have o': "trait_known env c item \<longleftrightarrow> cache_traits c d \<noteq> None" if "(d, dids, item) \<in> set (orphan_trait_impls c)" for d dids item
    using assms that by (fastforce simp: impls_ok_def trait_known_def)
  have "(did, item) \<in> stored_impls env (cache_facts c) \<longleftrightarrow> (did, item) \<in> ?E \<union> ?O" for did item
    using e o' unfolding known stored by blast
  then show ?thesis by auto
qed

lemma from_krate_ok:
  fixes env ri dp
  assumes "crate_wf k"
  defines "start \<equiv> start_cache env ri dp k"
  shows "\<exists>k' idx c. from_krate env ri dp k = Done (k', idx, c) \<and>
    krate_module k' = Option.bind (krate_module k) (prune cache_verdict) \<and> krate_name k' = krate_name k \<and>
    distinct (map fst (cache_impls c)) \<and> entries (cache_impls c) = stored_impls env (crate_facts env start k) \<and>
    distinct (map fst (cache_paths c)) \<and> cache_external_paths c = cache_external_paths start \<and>
    cache_primitive_locations c = cache_primitive_locations start \<and>
    (\<forall>e \<in> set (idx_items idx). entry_numbered (cache_paths c) (idx_paths idx) e)"
proof -
  let ?k = "k\<lparr>krate_version := None, external_traits := [], masked_crates := []\<rparr>"
  have start: "cache_inv env start" "cache_facts start = {KnownTrait d |d. map_of (external_traits k) d \<noteq> None}"
    unfolding start_def by (rule start_cache_ok)+
  obtain c where c: "fold_crate (cache_fold_item env) ?k start =
      Done (?k\<lparr>krate_module := Option.bind (krate_module k) (prune cache_verdict)\<rparr>, c)"
      "cache_inv env c" "same_frame start c" "cache_facts c = crate_facts env start k"
  proof (cases "krate_module k")
    case None
    then show thesis using start by (intro that [of start]) (simp_all add: fold_crate_def crate_facts_def)
  next
    case (Some m)
    then have "item_wf False m" using assms(1) by (simp add: crate_wf_def)
    from cache_fold_item_ok [OF this start(1)] obtain c where "cache_fold_item env m start = Done (prune cache_verdict m, c)"
        "cache_inv env c" "same_frame start c" "cache_facts c = cache_facts start \<union> item_facts env start m"
      by (auto simp: folds_item_def)
    then show thesis using Some start(2) by (intro that [of c]) (simp_all add: fold_crate_def crate_facts_def)
  qed
  let ?c = "c\<lparr>orphan_trait_impls := []\<rparr>"
  obtain m where m: "fold attach_orphan_trait_impl (orphan_trait_impls c) ?c = ?c\<lparr>cache_impls := m\<rparr>"
      "distinct (map fst m)" "entries m = stored_impls env (crate_facts env start k)"
    using attach_orphan_trait_impls [of "orphan_trait_impls c" ?c] stored_impls_eq [of env c] c(2,4)
    by (auto simp: cache_inv_def impls_ok_def)
  have "paths_ok (cache_paths (?c\<lparr>cache_impls := m\<rparr>))" "index_ok (?c\<lparr>cache_impls := m\<rparr>)"
    using c(2) by (simp_all add: cache_inv_def index_ok_def known_path_def)
  from build_index_ok [OF this] obtain idx es al where
    idx: "build_index env (?k\<lparr>krate_module := Option.bind (krate_module k) (prune cache_verdict)\<rparr>) (?c\<lparr>cache_impls := m\<rparr>) =
        Done (idx, ?c\<lparr>cache_impls := m, search_index := es, cache_aliases := al\<rparr>)"
      "idx_items idx = es" "\<forall>e \<in> set es. entry_numbered (cache_paths c) (idx_paths idx) e"
    by fastforce
  have "from_krate env ri dp k = Done (?k\<lparr>krate_module := Option.bind (krate_module k) (prune cache_verdict)\<rparr>, idx,
      ?c\<lparr>cache_impls := m, search_index := es, cache_aliases := al\<rparr>)"
    using c(1) m(1) idx(1) by (simp add: from_krate_def start_def Let_def)
  moreover have "distinct (map fst (cache_paths c))" "cache_primitive_locations c = cache_primitive_locations start"
      "cache_external_paths c = cache_external_paths start"
    using c(2,3) by (simp_all add: cache_inv_def paths_ok_def same_frame_def)
  ultimately show ?thesis using m(2,3) idx(2,3) by simp
qed

lemma add_extern_paths:
  "distinct (map fst (cache_external_paths c)) \<Longrightarrow>
     distinct (map fst (cache_external_paths (fold (add_extern env) es c)))"
  by (induction es arbitrary: c) (auto simp: add_extern_def distinct_update)

lemma start_external_paths:
  assumes "distinct (map fst (ri_external_paths ri))"
  shows "distinct (map fst (cache_external_paths (start_cache env ri dp k)))"
proof -
  have "fst \<circ> (\<lambda>(d, v :: string list, t). (d, v, item_type_of_kind t)) = (fst :: def_id \<times> _ \<Rightarrow> _)" by auto
  then have "distinct (map fst (cache_external_paths (initial_cache ri dp k)))"
    using assms by (simp add: initial_cache_def)
  from add_extern_paths [OF this] show ?thesis
    by (simp add: start_cache_def Let_def add_primitives add_extern_primitives)
qed

text \<open>
  C14: building the cache returns for every well-formed crate, although every index, \<open>expect\<close> and
  assertion of it can panic. The crate it leaves is the old one without its impl blocks. The table
  of impl blocks has distinct keys and holds, for every type, exactly the blocks found under the
  type's id (or under an id among the arguments of the block's trait) whose trait, if any, is known
  in the end, whether the trait came before or after the block. Every entry of the search index has
  the number of its parent's name in the table of paths.
\<close>

theorem from_krate_correct:
  fixes env ri dp
  assumes "crate_wf k"
  shows "\<exists>k' idx c. from_krate env ri dp k = Done (k', idx, c) \<and>
    krate_module k' = Option.bind (krate_module k) (prune cache_verdict) \<and> krate_name k' = krate_name k \<and>
    distinct (map fst (cache_impls c)) \<and>
    entries (cache_impls c) = stored_impls env (crate_facts env (start_cache env ri dp k) k) \<and>
    distinct (map fst (cache_paths c)) \<and>
    (\<forall>e \<in> set (idx_items idx). entry_numbered (cache_paths c) (idx_paths idx) e)"
  using from_krate_ok [OF assms] by blast

section \<open>A crate to build the cache of\<close>

lemma example_crate_wf: "crate_wf ((example_crate items)\<lparr>krate_name := n\<rparr>) \<longleftrightarrow> list_all (item_wf False) items"
proof -
  let ?root = "example_item None 0 Public (ModuleItem (Module items True))"
  have "item_children ?root = items" "flat_here ?root" "has_members (item_inner ?root) = False"
    "is_member (item_inner ?root) = False" "search_types_named (item_inner ?root)"
    by (simp_all add: example_item_def item_children_def flat_here_def has_members_def is_member_def
        search_types_named_def)
  then show ?thesis
    unfolding crate_wf_def example_crate_def by (simp add: item_wf.simps [of False ?root])
qed

lemma example_function_wf: "item_wf member (example_item name did vis (FunctionItem (example_function args)))"
proof -
  let ?i = "example_item name did vis (FunctionItem (example_function args))"
  have "item_children ?i = []" "flat_here ?i" "is_member (item_inner ?i) = False" "search_types_named (item_inner ?i)"
    by (simp_all add: example_item_def item_children_def flat_here_def is_member_def
        search_types_named_def example_function_def types_named_def)
  then show ?thesis by (simp add: item_wf.simps [of member ?i])
qed

lemma example_crate_facts:
  "crate_facts env c ((example_crate items)\<lparr>krate_name := n\<rparr>) = (\<Union>x \<in> set items. item_facts env c x)"
  "item_facts env c (example_item name did vis (FunctionItem f)) = {}"
proof -
  let ?root = "example_item None 0 Public (ModuleItem (Module items True))"
    and ?i = "example_item name did vis (FunctionItem f)"
  have "\<not> is_masked env ?root c" "trait_facts ?root = {}" "impl_facts env c ?root = {}" "item_children ?root = items"
    "\<not> is_masked env ?i c" "trait_facts ?i = {}" "impl_facts env c ?i = {}" "item_children ?i = []"
    by (simp_all add: example_item_def is_masked_def trait_facts_def impl_facts_def item_children_def)
  then show "crate_facts env c ((example_crate items)\<lparr>krate_name := n\<rparr>) = (\<Union>x \<in> set items. item_facts env c x)"
    "item_facts env c ?i = {}"
    by (simp_all add: crate_facts_def example_crate_def item_facts.simps [of env c ?root] item_facts.simps [of env c ?i])
qed

text \<open>A block without items for the struct with id 5.\<close>

definition example_block :: clean_item where
  "example_block = example_item None 6 Inherited (ImplItem (Impl HirNormal \<lparr>gen_params = [], where_predicates = []\<rparr> []
     None (ResolvedPath (Path False (ResDef DKStruct \<lparr>krate = 0, index = 5\<rparr>) []) None \<lparr>krate = 0, index = 5\<rparr> False)
     [] None False None))"

definition example_doc_env :: cache_env where
  "example_doc_env = \<lparr>tls_locations = (\<lambda>_. None), summary = (\<lambda>_. ''''), unicode_lower = to_ascii_lowercase,
     source_dir = (\<lambda>s. s), extern_html_root_urls = (\<lambda>_. None), local_docs = (\<lambda>_. False)\<rparr>"

definition example_render_info :: render_info where
  "example_render_info = \<lparr>ri_external_paths = [(\<lparr>krate = 1, index = 0\<rparr>, [''core'', ''option'', ''Option''], TkEnum),
       (\<lparr>krate = 1, index = 1\<rparr>, [''alloc'', ''rc'', ''Rc''], TkStruct)],
     ri_exact_paths = (\<lambda>_. None), ri_access_levels = (\<lambda>_. Some PublicLevel), ri_deref_trait_did = None,
     ri_deref_mut_trait_did = None, ri_owned_box_did = None\<rparr>"

theorem from_krate_correct_witness:
  "\<exists>k' idx c. from_krate example_doc_env example_render_info False ((example_crate [example_block])\<lparr>krate_name := ''k''\<rparr>) = Done (k', idx, c) \<and>
     (\<lparr>krate = 0, index = 5\<rparr>, without_impls example_block) \<in> entries (cache_impls c)"
proof -
  let ?k = "(example_crate [example_block])\<lparr>krate_name := ''k''\<rparr>" 
  let ?start = "start_cache example_doc_env example_render_info False ?k"
  have b: "item_children example_block = []" "flat_here example_block" "is_member (item_inner example_block) = False"
    "search_types_named (item_inner example_block)"
    by (simp_all add: example_block_def example_item_def item_children_def flat_here_def is_member_def search_types_named_def)
  have wf: "crate_wf ?k" by (simp add: example_crate_wf item_wf.simps [of False example_block] b)
  obtain i where i: "item_inner example_block = ImplItem i" "impl_trait i = None"
      "impl_for i = ResolvedPath (Path False (ResDef DKStruct \<lparr>krate = 0, index = 5\<rparr>) []) None \<lparr>krate = 0, index = 5\<rparr> False"
    by (simp add: example_block_def example_item_def)
  have "cache_masked_crates ?start = []"
    using start_cache_eq [of example_doc_env example_render_info False ?k] by (auto simp: initial_cache_def example_crate_def)
  then have "\<not> is_masked example_doc_env example_block ?start"
    using i by (simp add: is_masked_def trait_did_def split: option.split)
  moreover have "StoredImpl \<lparr>krate = 0, index = 5\<rparr> (without_impls example_block) \<in> impl_facts example_doc_env ?start example_block"
    using i by (simp add: impl_facts_def impl_dids_def)
  ultimately have fact: "StoredImpl \<lparr>krate = 0, index = 5\<rparr> (without_impls example_block) \<in> crate_facts example_doc_env ?start ?k"
    by (simp add: example_crate_facts item_facts.simps [of example_doc_env ?start example_block])
  obtain i' where "item_inner (without_impls example_block) = ImplItem i'" "impl_trait i' = impl_trait i"
    using without_impls_inner(1) [OF i(1)] by blast
  then have "(\<lparr>krate = 0, index = 5\<rparr>, without_impls example_block) \<in> stored_impls example_doc_env (crate_facts example_doc_env ?start ?k)"
    using fact i(2) by (simp add: stored_impls_def trait_did_def)
  then show ?thesis using from_krate_correct [OF wf, of example_doc_env example_render_info False] by metis
qed

end
