(* ===== verification/Impl_Util.thy ===== *)
theory Impl_Util
  imports Api_Graph Doc_Cache
begin

text \<open>
  \<^verbatim>\<open>fuzz_target/impl_util.rs\<close>: the functions of a crate that stand in \<open>impl\<close> blocks. The name table
  is filled from the documentation cache, the blocks are collected, and every method becomes an
  API function with \<open>Self\<close> replaced by the type of the block. The tables of the cache are lists in
  the order their hash maps are iterated.
\<close>

section \<open>Impl blocks\<close>

record crate_impl_collection =
  impl_types :: "item_impl list"
  impl_trait_for_types :: "item_impl list"
  generic_impl :: "item_impl list"
  generic_impl_for_traits :: "item_impl list"

definition collection_new :: crate_impl_collection where
  "collection_new =
     \<lparr>impl_types = [], impl_trait_for_types = [], generic_impl = [], generic_impl_for_traits = []\<rparr>"

definition add_impl :: "item_impl \<Rightarrow> crate_impl_collection \<Rightarrow> crate_impl_collection" where
  "add_impl i c =
     (case impl_trait i of
        None \<Rightarrow> c\<lparr>impl_types := impl_types c @ [i]\<rparr>
      | Some _ \<Rightarrow> c\<lparr>impl_trait_for_types := impl_trait_for_types c @ [i]\<rparr>)"

definition full_path :: "string list \<Rightarrow> string outcome" where
  "full_path paths =
     (case paths of
        [] \<Rightarrow> Done ''''
      | path # _ \<Rightarrow>
          ofold (\<lambda>i full. obind (get_index paths i) (\<lambda>current_path. Done (full @ ''::'' @ current_path)))
            [1..<length paths] path)"

section \<open>The self type\<close>

function is_param_self_type :: "clean_type \<Rightarrow> bool" where
  "is_param_self_type (Generic name) = is_self_type (Generic name)"
| "is_param_self_type (BorrowedRef lt m inner_ty) = is_param_self_type inner_ty"
| "is_param_self_type (ResolvedPath path pn did g) =
     list_ex
       (\<lambda>path_segment. case seg_args path_segment of
          AngleBracketed as _ \<Rightarrow>
            list_ex (\<lambda>a. case a of ArgType generic_ty \<Rightarrow> is_param_self_type generic_ty | _ \<Rightarrow> False) as
        | Parenthesized ins out \<Rightarrow>
            list_ex is_param_self_type ins \<or>
            (case out of Some output_type \<Rightarrow> is_param_self_type output_type | None \<Rightarrow> False))
       (path_segments path)"
| "is_param_self_type (Primitive p) = False"
| "is_param_self_type (BareFunction d) = False"
| "is_param_self_type (Tuple ts) = False"
| "is_param_self_type (Slice t) = False"
| "is_param_self_type (Array t n) = False"
| "is_param_self_type Never = False"
| "is_param_self_type (RawPointer m t) = False"
| "is_param_self_type (QPath n s t) = False"
| "is_param_self_type Infer = False"
| "is_param_self_type (ImplTrait bs) = False"
  by pat_completeness auto
termination
  by (relation "measure size")
    (auto simp: termination_simp size_list_elem less_Suc_eq intro: trans_less_add1)

function replace_self_type :: "clean_type \<Rightarrow> clean_type \<Rightarrow> clean_type" where
  "replace_self_type (Generic name) impl_type =
     (if is_self_type (Generic name) then impl_type else Generic name)"
| "replace_self_type (BorrowedRef lt m inner_type) impl_type =
     (if is_param_self_type inner_type then BorrowedRef lt m (replace_self_type inner_type impl_type)
      else BorrowedRef lt m inner_type)"
| "replace_self_type (ResolvedPath path pn did g) impl_type =
     (if \<not> is_param_self_type (ResolvedPath path pn did g) then ResolvedPath path pn did g
      else ResolvedPath
        (Path (path_global path) (path_res path)
          (map (\<lambda>path_segment. PathSegment (seg_name path_segment)
              (case seg_args path_segment of
                 AngleBracketed as bindings \<Rightarrow>
                   AngleBracketed
                     (map (\<lambda>generic_arg. case generic_arg of
                          ArgType generic_type \<Rightarrow>
                            if is_param_self_type generic_type
                            then ArgType (replace_self_type generic_type impl_type) else generic_arg
                        | _ \<Rightarrow> generic_arg) as) bindings
               | Parenthesized ins out \<Rightarrow>
                   Parenthesized
                     (map (\<lambda>input_type. if is_param_self_type input_type
                          then replace_self_type input_type impl_type else input_type) ins)
                     (case out of
                        None \<Rightarrow> None
                      | Some output_type \<Rightarrow>
                          Some (if is_param_self_type output_type
                                then replace_self_type output_type impl_type else output_type))))
            (path_segments path))) pn did g)"
| "replace_self_type (Primitive p) impl_type = Primitive p"
| "replace_self_type (BareFunction d) impl_type = BareFunction d"
| "replace_self_type (Tuple ts) impl_type = Tuple ts"
| "replace_self_type (Slice t) impl_type = Slice t"
| "replace_self_type (Array t n) impl_type = Array t n"
| "replace_self_type Never impl_type = Never"
| "replace_self_type (RawPointer m t) impl_type = RawPointer m t"
| "replace_self_type (QPath n s t) impl_type = QPath n s t"
| "replace_self_type Infer impl_type = Infer"
| "replace_self_type (ImplTrait bs) impl_type = ImplTrait bs"
  by pat_completeness auto
termination
  by (relation "measure (\<lambda>(t, _). size t)")
    (auto simp: termination_simp size_list_elem less_Suc_eq intro: trans_less_add1)

section \<open>Analysing an impl block\<close>

text \<open>
  One item of a block: \<open>Inl\<close> is the \<open>return\<close> of the source, which leaves the rest of the block.
\<close>

definition method_types :: "clean_type \<Rightarrow> clean_method \<Rightarrow> bool \<times> clean_type list \<times> clean_type option" where
  "method_types impl_ty m =
     (let ins = extract_input_types (fd_inputs (fn_decl m));
          out = extract_output_type (fd_output (fn_decl m));
          contains_self_type = list_ex is_param_self_type ins;
          ins = map (\<lambda>ty. if is_param_self_type ty then replace_self_type ty impl_ty else ty) ins;
          out = (case out of
              None \<Rightarrow> None
            | Some ty \<Rightarrow> if is_param_self_type ty then Some (replace_self_type ty impl_ty) else Some ty)
      in (contains_self_type, ins, out))"

definition analyse_method ::
  "string option \<Rightarrow> string option \<Rightarrow> item_impl \<Rightarrow> string option \<Rightarrow> clean_method \<Rightarrow> api_graph \<Rightarrow>
     (unit + api_graph) outcome" where
  "analyse_method trait_full_name type_full_name i name m g =
     (case method_types (impl_for i) m of (contains_self_type, ins, out) \<Rightarrow>
        let method_type_name =
              (if contains_self_type
               then (case trait_full_name of Some trait_name \<Rightarrow> Some trait_name | None \<Rightarrow> type_full_name)
               else type_full_name)
        in case method_type_name of
             None \<Rightarrow> Done (Inl ())
           | Some real_type_name \<Rightarrow>
               obind (unwrap name) (\<lambda>method.
                 let add = (\<lambda>trait_path. Done (Inr (add_api_function
                       \<lparr>full_name = real_type_name @ ''::'' @ method, af_generics = fn_generics m, inputs = ins,
                        output_ty = out, trait_full_path = trait_path,
                        unsafe_tag = get_unsafety_from_fnheader (header_unsafety (fn_header m))\<rparr> g)))
                 in case impl_trait i of
                      None \<Rightarrow> add None
                    | Some _ \<Rightarrow>
                        (case trait_full_name of
                           Some real_trait_name \<Rightarrow> add (Some real_trait_name)
                         | None \<Rightarrow> Done (Inl ()))))"

fun analyse_items ::
  "string option \<Rightarrow> string option \<Rightarrow> item_impl \<Rightarrow> clean_item list \<Rightarrow> api_graph \<Rightarrow> api_graph outcome" where
  "analyse_items trait_full_name type_full_name i [] g = Done g"
| "analyse_items trait_full_name type_full_name i (item # items) g =
     (case item_inner item of
        MethodItem m \<Rightarrow>
          obind (analyse_method trait_full_name type_full_name i (item_name item) m g) (\<lambda>r.
            (case r of
               Inl _ \<Rightarrow> Done g
             | Inr g \<Rightarrow> analyse_items trait_full_name type_full_name i items g))
      | _ \<Rightarrow> analyse_items trait_full_name type_full_name i items g)"

definition analyse_impl ::
  "(primitive_type \<Rightarrow> def_id option) \<Rightarrow> full_name_map \<Rightarrow> item_impl \<Rightarrow> api_graph \<Rightarrow> api_graph outcome" where
  "analyse_impl pl names i g =
     obind (case impl_trait i of
              None \<Rightarrow> Done None
            | Some t \<Rightarrow> obind (unwrap (type_def_id pl t)) (\<lambda>did. Done (get_full_name names did)))
       (\<lambda>trait_full_name.
          let type_full_name = (case type_def_id pl (impl_for i) of
                Some did \<Rightarrow> get_full_name names did | None \<Rightarrow> None)
          in analyse_items trait_full_name type_full_name i (impl_items i) g)"

definition extract_impls_from_cache ::
  "(primitive_type \<Rightarrow> def_id option) \<Rightarrow> doc_cache \<Rightarrow> full_name_map \<Rightarrow> api_graph \<Rightarrow>
     (full_name_map \<times> api_graph) outcome" where
  "extract_impls_from_cache pl cache names g =
     obind (ofold (\<lambda>(did, strings, it) names.
              obind (full_path strings) (\<lambda>full_name. Done (push_mapping did full_name it names)))
              (cache_paths cache) names) (\<lambda>names.
     obind (ofold (\<lambda>(did, strings, it) names.
              obind (full_path strings) (\<lambda>full_name.
                Done (if is_preluded_type full_name then push_mapping did full_name it names else names)))
              (cache_external_paths cache) names) (\<lambda>names.
       let g = set_full_name_map names g
       in obind (ofold (\<lambda>(did, impls) c.
              if get_full_name names did \<noteq> None
              then ofold (\<lambda>impl c. obind (inner_impl impl) (\<lambda>i. Done (add_impl i c))) impls c else Done c)
            (cache_impls cache) collection_new) (\<lambda>collection.
          obind (ofold (analyse_impl pl names) (impl_types collection) g) (\<lambda>g.
          obind (ofold (analyse_impl pl names) (impl_trait_for_types collection) g) (\<lambda>g.
            Done (names, g))))))"

section \<open>Replacing the self type is a substitution\<close>

text \<open>The type arguments of the segments of a path, and a map over them.\<close>

definition args_types :: "ctype_args \<Rightarrow> clean_type list" where
  "args_types a = (case a of
     AngleBracketed as _ \<Rightarrow> List.map_filter (\<lambda>a. case a of ArgType t \<Rightarrow> Some t | _ \<Rightarrow> None) as
   | Parenthesized ins out \<Rightarrow> ins @ (case out of Some t \<Rightarrow> [t] | None \<Rightarrow> []))"

definition map_args_types :: "(clean_type \<Rightarrow> clean_type) \<Rightarrow> ctype_args \<Rightarrow> ctype_args" where
  "map_args_types f a = (case a of
     AngleBracketed as bs \<Rightarrow> AngleBracketed (map (\<lambda>a. case a of ArgType t \<Rightarrow> ArgType (f t) | _ \<Rightarrow> a) as) bs
   | Parenthesized ins out \<Rightarrow> Parenthesized (map f ins) (map_option f out))"

definition path_types :: "ctype_path \<Rightarrow> clean_type list" where
  "path_types p = concat (map (\<lambda>seg. args_types (seg_args seg)) (path_segments p))"

definition map_path_types :: "(clean_type \<Rightarrow> clean_type) \<Rightarrow> ctype_path \<Rightarrow> ctype_path" where
  "map_path_types f p = Path (path_global p) (path_res p)
     (map (\<lambda>seg. PathSegment (seg_name seg) (map_args_types f (seg_args seg))) (path_segments p))"

lemma set_args_types:
  "t \<in> set (args_types (AngleBracketed as bs)) \<longleftrightarrow> ArgType t \<in> set as"
  "t \<in> set (args_types (Parenthesized ins out)) \<longleftrightarrow> t \<in> set ins \<or> out = Some t"
proof -
  have "t \<in> set (List.map_filter (\<lambda>a. case a of ArgType t \<Rightarrow> Some t | _ \<Rightarrow> None) as) \<longleftrightarrow> ArgType t \<in> set as"
    by (induction as) (auto simp: map_filter_simps split: generic_arg.split option.split)
  then show "t \<in> set (args_types (AngleBracketed as bs)) \<longleftrightarrow> ArgType t \<in> set as"
    by (simp add: args_types_def)
qed (auto simp: args_types_def split: option.split)

lemma args_types_map: "args_types (map_args_types f a) = map f (args_types a)"
proof (cases a)
  case (AngleBracketed as bs)
  have "List.map_filter (\<lambda>a. case a of ArgType t \<Rightarrow> Some t | _ \<Rightarrow> None)
      (map (\<lambda>a. case a of ArgType t \<Rightarrow> ArgType (f t) | _ \<Rightarrow> a) as) =
    map f (List.map_filter (\<lambda>a. case a of ArgType t \<Rightarrow> Some t | _ \<Rightarrow> None) as)"
    by (induction as) (auto simp: map_filter_simps split: generic_arg.split option.split)
  then show ?thesis by (simp add: AngleBracketed args_types_def map_args_types_def)
qed (auto simp: args_types_def map_args_types_def split: option.split)

lemma map_args_types_cong:
  "(\<And>t. t \<in> set (args_types a) \<Longrightarrow> f t = g t) \<Longrightarrow> map_args_types f a = map_args_types g a"
  by (cases a) (auto simp: set_args_types map_args_types_def intro: option.map_cong split: generic_arg.split)

lemma path_types_map: "path_types (map_path_types f p) = map f (path_types p)"
  by (simp add: path_types_def map_path_types_def map_concat comp_def args_types_map)

lemma map_path_types_cong [fundef_cong]:
  "p = q \<Longrightarrow> (\<And>t. t \<in> set (path_types q) \<Longrightarrow> f t = g t) \<Longrightarrow> map_path_types f p = map_path_types g q"
  by (auto simp: map_path_types_def path_types_def intro!: map_args_types_cong)

lemma map_path_types_id: "map_path_types (\<lambda>t. t) p = p"
proof -
  have "map_args_types (\<lambda>t. t) a = a" for a
    by (cases a) (auto simp: map_args_types_def option.map_ident intro!: map_idI split: generic_arg.split)
  then show ?thesis by (cases p) (auto simp: map_path_types_def intro!: map_idI)
qed

lemma path_types_size: "t \<in> set (path_types p) \<Longrightarrow> f t < size_path f p"
proof -
  assume "t \<in> set (path_types p)"
  then obtain seg where seg: "seg \<in> set (path_segments p)" "t \<in> set (args_types (seg_args seg))"
    by (auto simp: path_types_def)
  show ?thesis
  proof (cases "seg_args seg")
    case (AngleBracketed as bs)
    then show ?thesis using seg size_angle_arg [OF seg(1) AngleBracketed, of t f] by (simp add: set_args_types)
  next
    case (Parenthesized ins out)
    then consider "t \<in> set ins" | "out = Some t" using seg(2) by (auto simp: set_args_types)
    then show ?thesis
      by cases (use seg(1) Parenthesized in \<open>auto intro: size_paren_input size_paren_output\<close>)
  qed
qed

lemma is_param_self_path:
  "is_param_self_type (ResolvedPath p pn did g) \<longleftrightarrow> list_ex is_param_self_type (path_types p)"
proof -
  have "(case a of
          AngleBracketed as bs \<Rightarrow>
            list_ex (\<lambda>a. case a of ArgType generic_ty \<Rightarrow> is_param_self_type generic_ty | _ \<Rightarrow> False) as
        | Parenthesized ins out \<Rightarrow> list_ex is_param_self_type ins \<or>
            (case out of Some output_type \<Rightarrow> is_param_self_type output_type | None \<Rightarrow> False)) \<longleftrightarrow>
      list_ex is_param_self_type (args_types a)" for a
  proof (cases a)
    case (AngleBracketed as bs)
    have "list_ex (\<lambda>a. case a of ArgType t \<Rightarrow> is_param_self_type t | _ \<Rightarrow> False) as \<longleftrightarrow>
        (\<exists>t. ArgType t \<in> set as \<and> is_param_self_type t)"
      by (induction as) (auto split: generic_arg.split)
    then show ?thesis by (auto simp: AngleBracketed list_ex_iff set_args_types)
  qed (auto simp: list_ex_iff set_args_types split: option.split)
  then show ?thesis by (simp add: path_types_def list_ex_iff)
qed

lemma replace_self_path:
  "replace_self_type (ResolvedPath p pn did g) i =
     (if is_param_self_type (ResolvedPath p pn did g)
      then ResolvedPath (map_path_types (\<lambda>t. if is_param_self_type t then replace_self_type t i else t) p) pn did g
      else ResolvedPath p pn did g)"
proof -
  have "(case a of
          AngleBracketed as bindings \<Rightarrow>
            AngleBracketed (map (\<lambda>generic_arg. case generic_arg of
                 ArgType generic_type \<Rightarrow>
                   if is_param_self_type generic_type then ArgType (replace_self_type generic_type i)
                   else generic_arg
               | _ \<Rightarrow> generic_arg) as) bindings
        | Parenthesized ins out \<Rightarrow>
            Parenthesized (map (\<lambda>t. if is_param_self_type t then replace_self_type t i else t) ins)
              (case out of None \<Rightarrow> None
               | Some t \<Rightarrow> Some (if is_param_self_type t then replace_self_type t i else t))) =
      map_args_types (\<lambda>t. if is_param_self_type t then replace_self_type t i else t) a" for a
    by (cases a) (auto simp: map_args_types_def split: generic_arg.split option.split)
  then show ?thesis by (simp add: map_path_types_def)
qed

text \<open>The substitution of a type for \<open>Self\<close>, below references and in the arguments of paths.\<close>

function subst_self :: "clean_type \<Rightarrow> clean_type \<Rightarrow> clean_type" where
  "subst_self (Generic name) i = (if name = ''Self'' then i else Generic name)"
| "subst_self (BorrowedRef lt m t) i = BorrowedRef lt m (subst_self t i)"
| "subst_self (ResolvedPath p pn did g) i = ResolvedPath (map_path_types (\<lambda>t. subst_self t i) p) pn did g"
| "subst_self (Primitive p) i = Primitive p"
| "subst_self (BareFunction d) i = BareFunction d"
| "subst_self (Tuple ts) i = Tuple ts"
| "subst_self (Slice t) i = Slice t"
| "subst_self (Array t n) i = Array t n"
| "subst_self Never i = Never"
| "subst_self (RawPointer m t) i = RawPointer m t"
| "subst_self (QPath n s t) i = QPath n s t"
| "subst_self Infer i = Infer"
| "subst_self (ImplTrait bs) i = ImplTrait bs"
  by pat_completeness auto
termination
  by (relation "measure (\<lambda>(t, _). size t)") (auto dest: path_types_size [of _ _ size])

lemma replace_self_none: "\<not> is_param_self_type t \<Longrightarrow> replace_self_type t i = t"
  by (cases t) (simp_all add: replace_self_path del: is_param_self_type.simps(3) replace_self_type.simps(3))

lemma replace_self_subst: "replace_self_type t i = subst_self t i"
proof (induction t i rule: subst_self.induct)
  case (2 lt m t i)
  then show ?case using replace_self_none [of t i] by auto
next
  case (3 p pn did g i)
  have arg: "(if is_param_self_type t then replace_self_type t i else t) = subst_self t i"
    if "t \<in> set (path_types p)" for t
    using 3 [OF that] replace_self_none [of t i] by auto
  show ?case
  proof (cases "is_param_self_type (ResolvedPath p pn did g)")
    case True
    then show ?thesis unfolding replace_self_path using arg by (auto intro: map_path_types_cong)
  next
    case False
    then have "subst_self t i = t" if "t \<in> set (path_types p)" for t
      using arg [OF that] that unfolding is_param_self_path list_ex_iff by simp
    then have "map_path_types (\<lambda>t. subst_self t i) p = p"
      using map_path_types_cong [OF refl, of p "\<lambda>t. subst_self t i" "\<lambda>t. t"] map_path_types_id by simp
    then show ?thesis unfolding replace_self_path using False by simp
  qed
qed auto

lemma subst_self_gone: "\<not> is_param_self_type i \<Longrightarrow> \<not> is_param_self_type (subst_self t i)"
proof (induction t i rule: subst_self.induct)
  case (3 p pn did g i)
  then show ?case
    by (simp add: is_param_self_path path_types_map list_ex_iff del: is_param_self_type.simps(3))
qed auto

text \<open>
  C30: \<open>replace_self_type\<close> is the substitution of the type of the impl block for \<open>Self\<close>: the tests by
  \<open>is_param_self_type\<close> only skip what the substitution leaves alone. Once the type of the block
  has no \<open>Self\<close>, neither has the result.
\<close>

theorem replace_self_type_substitutes:
  "replace_self_type t i = subst_self t i \<and>
   (is_param_self_type (replace_self_type t i) \<longrightarrow> is_param_self_type i)"
  using replace_self_subst subst_self_gone by metis

theorem replace_self_type_substitutes_witness:
  "replace_self_type (BorrowedRef None Mut (Generic ''Self'')) example_struct =
     BorrowedRef None Mut example_struct"
  using replace_self_type_substitutes [of "BorrowedRef None Mut (Generic ''Self'')" example_struct]
  by simp

section \<open>What an impl block adds\<close>

text \<open>The function a method becomes, \<open>None\<close> if it has no name it can be called by.\<close>

definition method_function ::
  "string option \<Rightarrow> string option \<Rightarrow> item_impl \<Rightarrow> string \<Rightarrow> clean_method \<Rightarrow> api_function option" where
  "method_function trait_name ty_name i name m =
     (case method_types (impl_for i) m of (self, ins, out) \<Rightarrow>
        (case (if self \<and> trait_name \<noteq> None then trait_name else ty_name) of
           None \<Rightarrow> None
         | Some scope \<Rightarrow>
             if impl_trait i \<noteq> None \<and> trait_name = None then None
             else Some \<lparr>full_name = scope @ ''::'' @ name, af_generics = fn_generics m, inputs = ins,
                    output_ty = out, trait_full_path = (if impl_trait i = None then None else trait_name),
                    unsafe_tag = get_unsafety_from_fnheader (header_unsafety (fn_header m))\<rparr>))"

fun item_methods :: "clean_item list \<Rightarrow> (string \<times> clean_method) list" where
  "item_methods [] = []"
| "item_methods (item # items) =
     (case (item_name item, item_inner item) of
        (Some name, MethodItem m) \<Rightarrow> (name, m) # item_methods items
      | _ \<Rightarrow> item_methods items)"

text \<open>The functions of the leading methods that have a name.\<close>

definition impl_functions ::
  "(primitive_type \<Rightarrow> def_id option) \<Rightarrow> full_name_map \<Rightarrow> item_impl \<Rightarrow> api_function list" where
  "impl_functions pl names i =
     (let name_of = (\<lambda>t. Option.bind (type_def_id pl t) (get_full_name names));
          functions = map (\<lambda>(name, m). method_function (Option.bind (impl_trait i) name_of)
              (name_of (impl_for i)) i name m) (item_methods (impl_items i))
      in map the (takeWhile (\<lambda>f. f \<noteq> None) functions))"

text \<open>Methods have names, and the trait of a block has a definition id.\<close>

definition impl_ok :: "(primitive_type \<Rightarrow> def_id option) \<Rightarrow> item_impl \<Rightarrow> bool" where
  "impl_ok pl i \<longleftrightarrow> (\<forall>t. impl_trait i = Some t \<longrightarrow> type_def_id pl t \<noteq> None) \<and>
     list_all (\<lambda>item. case item_inner item of MethodItem _ \<Rightarrow> item_name item \<noteq> None | _ \<Rightarrow> True) (impl_items i)"

lemma analyse_method_eq:
  assumes "impl_trait i = None \<Longrightarrow> trait_name = None"
  shows "analyse_method trait_name ty_name i (Some name) m g =
     Done (case method_function trait_name ty_name i name m of
       None \<Rightarrow> Inl () | Some f \<Rightarrow> Inr (add_api_function f g))"
  using assms
  by (cases "method_types (impl_for i) m"; cases trait_name; cases ty_name; cases "impl_trait i")
    (simp_all add: analyse_method_def method_function_def)

lemma analyse_items_eq:
  assumes "impl_trait i = None \<Longrightarrow> trait_name = None"
    and "list_all (\<lambda>item. case item_inner item of MethodItem _ \<Rightarrow> item_name item \<noteq> None | _ \<Rightarrow> True) items"
  shows "analyse_items trait_name ty_name i items g =
     Done (fold add_api_function (map the (takeWhile (\<lambda>f. f \<noteq> None)
       (map (\<lambda>(name, m). method_function trait_name ty_name i name m) (item_methods items)))) g)"
  using assms(2)
proof (induction items arbitrary: g)
  case (Cons item items)
  show ?case
  proof (cases "item_inner item")
    case (MethodItem m)
    then obtain name where "item_name item = Some name" using Cons.prems by auto
    then show ?thesis
      using MethodItem Cons
      by (cases "method_function trait_name ty_name i name m") (simp_all add: analyse_method_eq [OF assms(1)])
  qed (use Cons in \<open>auto split: option.split\<close>)
qed simp

lemma analyse_impl_eq:
  assumes "impl_ok pl i"
  shows "analyse_impl pl names i g = Done (fold add_api_function (impl_functions pl names i) g)"
proof (cases "impl_trait i")
  case None
  then show ?thesis
    using assms analyse_items_eq [of i None "impl_items i"]
    by (simp add: analyse_impl_def impl_functions_def impl_ok_def Let_def Option.bind_def split: option.split)
next
  case (Some t)
  then obtain did where "type_def_id pl t = Some did" using assms by (auto simp: impl_ok_def)
  then show ?thesis
    using Some assms analyse_items_eq [of i "get_full_name names did" "impl_items i"]
    by (simp add: analyse_impl_def impl_functions_def impl_ok_def Let_def Option.bind_def split: option.split)
qed

text \<open>
  C29: an impl block adds the functions of its methods in order, with \<open>Self\<close> replaced and named
  after the trait or the type, up to the first method that has no name it can be called by;
  that method and all methods after it are dropped.
\<close>

theorem analyse_impl_exact:
  assumes "impl_ok pl i"
  shows "analyse_impl pl names i g = Done (fold add_api_function (impl_functions pl names i) g)"
  by (rule analyse_impl_eq [OF assms])

text \<open>
  An impl of the crate's own trait for a type without a name in the table: \<open>make()\<close>, which has
  no \<open>self\<close>, hides \<open>use_(&self)\<close> when it comes first.
\<close>

definition example_trait :: clean_type where
  "example_trait = ResolvedPath (Path False (ResDef DKTrait \<lparr>krate = 0, index = 9\<rparr>) []) None \<lparr>krate = 0, index = 9\<rparr> False"

definition example_names :: full_name_map where
  "example_names = push_mapping \<lparr>krate = 0, index = 9\<rparr> ''c::T'' ItTrait fnm_new"

definition example_method :: "clean_type argument list \<Rightarrow> clean_method" where
  "example_method args = clean_function.extend (example_function args) \<lparr>method_defaultness = None\<rparr>"

definition example_impl :: "string list \<Rightarrow> item_impl" where
  "example_impl names = Impl HirNormal \<lparr>gen_params = [], where_predicates = []\<rparr> [] (Some example_trait) (Tuple [Primitive U8])
     (map (\<lambda>name. example_item (Some name) 20 Public (MethodItem (example_method
       (if name = ''make'' then [] else [Argument (BorrowedRef None NotMut (Generic ''Self'')) ''self''])))) names)
     None False None"

lemma example_impl_ok: "impl_ok (\<lambda>_. None) (example_impl names)"
  by (simp add: impl_ok_def example_impl_def example_trait_def list_all_iff example_item_def)

theorem analyse_impl_exact_witness:
  "analyse_impl (\<lambda>_. None) example_names (example_impl [''make'', ''use_'']) example_graph = Done example_graph \<and>
   (\<exists>f. analyse_impl (\<lambda>_. None) example_names (example_impl [''use_'', ''make'']) example_graph =
      Done (add_api_function f example_graph) \<and> full_name f = ''c::T::use_'')"
proof -
  have make: "impl_functions (\<lambda>_. None) example_names (example_impl [''make'', ''use_'']) = []"
    by (simp add: impl_functions_def example_impl_def example_trait_def method_function_def method_types_def
        example_method_def example_function_def clean_function.extend_def example_item_def extract_input_types_def Let_def)
  have use_: "\<exists>f. impl_functions (\<lambda>_. None) example_names (example_impl [''use_'', ''make'']) = [f] \<and>
      full_name f = ''c::T::use_''"
    by (simp add: impl_functions_def example_impl_def example_trait_def method_function_def method_types_def
        example_method_def example_function_def clean_function.extend_def example_item_def extract_input_types_def Let_def example_names_def push_mapping_def get_full_name_def)
  show ?thesis
    using analyse_impl_exact [OF example_impl_ok, of example_names "[''make'', ''use_'']" example_graph]
      analyse_impl_exact [OF example_impl_ok, of example_names "[''use_'', ''make'']" example_graph] make use_
    by auto
qed

section \<open>What the cache gives\<close>

lemma full_path_eq: "full_path paths = Done (str_join ''::'' paths)"
proof (cases paths)
  case (Cons path rest)
  have "ofold (\<lambda>i full. obind (get_index paths i) (\<lambda>current_path. Done (full @ ''::'' @ current_path)))
      [1..<Suc n] path = Done (str_join ''::'' (take (Suc n) paths))" if "n < length paths" for n
    using that
  proof (induction n)
    case 0
    then show ?case by (simp add: Cons)
  next
    case (Suc n)
    then have "take (Suc (Suc n)) paths = take (Suc n) paths @ [paths ! Suc n]" "take (Suc n) paths \<noteq> []"
      by (simp_all add: take_Suc_conv_app_nth Cons)
    then have "str_join ''::'' (take (Suc (Suc n)) paths) = str_join ''::'' (take (Suc n) paths) @ ''::'' @ paths ! Suc n"
      by (simp add: str_join_append)
    then show ?case using Suc by (simp add: ofold_append)
  qed
  from this [of "length rest"] show ?thesis by (simp add: full_path_def Cons del: upt_Suc)
qed (simp add: full_path_def)

lemma push_names_eq:
  assumes "distinct (map fst ps)"
  shows "\<exists>names'. ofold (\<lambda>(did, strings, it) names.
        obind (full_path strings) (\<lambda>full_name. Done (if keep full_name then push_mapping did full_name it names else names)))
      ps names = Done names' \<and>
     (\<forall>did. get_full_name names' did = (case map_of ps did of
        Some (strings, it) \<Rightarrow> if keep (str_join ''::'' strings) then Some (str_join ''::'' strings) else get_full_name names did
      | None \<Rightarrow> get_full_name names did))"
  using assms
proof (induction ps arbitrary: names)
  case (Cons p ps)
  obtain did strings it where p: "p = (did, strings, it)" by (cases p)
  let ?names = "if keep (str_join ''::'' strings) then push_mapping did (str_join ''::'' strings) it names else names"
  obtain names' where "ofold (\<lambda>(did, strings, it) names.
        obind (full_path strings) (\<lambda>full_name. Done (if keep full_name then push_mapping did full_name it names else names)))
      ps ?names = Done names'"
      "\<forall>did. get_full_name names' did = (case map_of ps did of
        Some (strings, it) \<Rightarrow> if keep (str_join ''::'' strings) then Some (str_join ''::'' strings) else get_full_name ?names did
      | None \<Rightarrow> get_full_name ?names did)"
    using Cons.IH [of ?names] Cons.prems by auto
  moreover have "map_of ps did = None" using Cons.prems p by (auto simp: map_of_eq_None_iff)
  ultimately show ?case
    by (intro exI [of _ names'])
      (auto simp: p full_path_eq push_mapping_def get_full_name_def split: option.split)
qed simp

definition path_name :: "(def_id \<times> string list \<times> item_type) list \<Rightarrow> def_id \<Rightarrow> string option" where
  "path_name ps did = map_option (\<lambda>(strings, _). str_join ''::'' strings) (map_of ps did)"

definition cache_name :: "doc_cache \<Rightarrow> def_id \<Rightarrow> string option" where
  "cache_name c did =
     (case path_name (cache_external_paths c) did of
        Some name \<Rightarrow> if is_preluded_type name then Some name else path_name (cache_paths c) did
      | None \<Rightarrow> path_name (cache_paths c) did)"

text \<open>The impl blocks that are analysed, those without a trait first.\<close>

definition impl_block :: "clean_item \<Rightarrow> item_impl option" where
  "impl_block item = (case item_inner item of ImplItem i \<Rightarrow> Some i | _ \<Rightarrow> None)"

definition named_impls :: "full_name_map \<Rightarrow> doc_cache \<Rightarrow> item_impl list" where
  "named_impls names c = List.map_filter impl_block
     (concat (map snd (filter (\<lambda>(did, _). get_full_name names did \<noteq> None) (cache_impls c))))"

definition impl_item_ok :: "(primitive_type \<Rightarrow> def_id option) \<Rightarrow> clean_item \<Rightarrow> bool" where
  "impl_item_ok pl item \<longleftrightarrow> (case impl_block item of Some i \<Rightarrow> impl_ok pl i | None \<Rightarrow> False)"

definition analysed_impls :: "full_name_map \<Rightarrow> doc_cache \<Rightarrow> item_impl list" where
  "analysed_impls names c =
     filter (\<lambda>i. impl_trait i = None) (named_impls names c) @
     filter (\<lambda>i. impl_trait i \<noteq> None) (named_impls names c)"

definition usable_function :: "full_name_map \<Rightarrow> api_function \<Rightarrow> bool" where
  "usable_function names f \<longleftrightarrow> \<not> is_generic_function f \<and> \<not> contains_unsupported_fuzzable_type names f"

lemma add_functions:
  "api_functions (fold add_api_function fs g) = api_functions g @ filter (usable_function (graph_names g)) fs"
  "graph_names (fold add_api_function fs g) = graph_names g"
  "graph_mods (fold add_api_function fs g) = graph_mods g"
  "crate_name (fold add_api_function fs g) = crate_name g"
  by (induction fs arbitrary: g) (auto simp: add_api_function_def usable_function_def)

lemma collect_impls:
  "impl_types (fold add_impl is c) = impl_types c @ filter (\<lambda>i. impl_trait i = None) is \<and>
   impl_trait_for_types (fold add_impl is c) = impl_trait_for_types c @ filter (\<lambda>i. impl_trait i \<noteq> None) is"
  by (induction "is" arbitrary: c) (auto simp: add_impl_def split: option.split)

lemma inner_impl_block: "impl_block item = Some i \<Longrightarrow> inner_impl item = Done i"
  by (cases "item_inner item") (simp_all add: impl_block_def inner_impl_def)

lemma collect_items:
  "list_all (impl_item_ok pl) items \<Longrightarrow>
     ofold (\<lambda>impl c. obind (inner_impl impl) (\<lambda>i. Done (add_impl i c))) items c =
     Done (fold add_impl (List.map_filter impl_block items) c)"
  by (induction items arbitrary: c)
    (auto simp: impl_item_ok_def map_filter_simps inner_impl_block split: option.splits)

lemma collect_named:
  assumes "list_all (\<lambda>(did, items). list_all (impl_item_ok pl) items) es"
  shows "ofold (\<lambda>(did, impls) c.
      if get_full_name names did \<noteq> None
      then ofold (\<lambda>impl c. obind (inner_impl impl) (\<lambda>i. Done (add_impl i c))) impls c else Done c) es c =
    Done (fold add_impl (List.map_filter impl_block
      (concat (map snd (filter (\<lambda>(did, _). get_full_name names did \<noteq> None) es)))) c)"
  using assms
proof (induction es arbitrary: c)
  case (Cons e es)
  have "List.map_filter f (xs @ ys) = List.map_filter f xs @ List.map_filter f ys" for f :: "clean_item \<Rightarrow> item_impl option" and xs ys
    by (simp add: List.map_filter_def)
  then show ?case using Cons by (cases e) (simp add: collect_items [of pl] del: not_None_eq)
qed (simp add: map_filter_simps)

lemma analyse_impls_eq:
  "list_all (impl_ok pl) is \<Longrightarrow> ofold (analyse_impl pl names) is g =
     Done (fold add_api_function (concat (map (impl_functions pl names) is)) g)"
  by (induction "is" arbitrary: g) (simp_all add: analyse_impl_eq)

lemma extract_impls_lemma:
  assumes "distinct (map fst (cache_paths c))" "distinct (map fst (cache_external_paths c))"
    and "list_all (\<lambda>(did, items). list_all (impl_item_ok pl) items) (cache_impls c)"
  shows "\<exists>names g'. extract_impls_from_cache pl c fnm_new g = Done (names, g') \<and>
     get_full_name names = cache_name c \<and> graph_names g' = names \<and> crate_name g' = crate_name g \<and>
     graph_mods g' = graph_mods g \<and>
     api_functions g' = api_functions g @
       filter (usable_function names) (concat (map (impl_functions pl names) (analysed_impls names c)))"
proof -
  obtain names1 where names1: "ofold (\<lambda>(did, strings, it) names.
        obind (full_path strings) (\<lambda>full_name. Done (push_mapping did full_name it names)))
      (cache_paths c) fnm_new = Done names1" "get_full_name names1 = path_name (cache_paths c)"
    using push_names_eq [OF assms(1), of "\<lambda>_. True" fnm_new]
    by (fastforce simp: path_name_def fnm.lookup_empty fun_eq_iff split: option.splits)
  obtain names where names: "ofold (\<lambda>(did, strings, it) names.
        obind (full_path strings) (\<lambda>full_name.
          Done (if is_preluded_type full_name then push_mapping did full_name it names else names)))
      (cache_external_paths c) names1 = Done names" "get_full_name names = cache_name c"
    using push_names_eq [OF assms(2), of is_preluded_type names1] names1(2)
    by (fastforce simp: path_name_def cache_name_def fun_eq_iff split: option.splits)
  let ?coll = "fold add_impl (named_impls names c) collection_new"
  let ?g = "set_full_name_map names g"
  have ok: "list_all (impl_ok pl) (named_impls names c)"
    using assms(3) by (fastforce simp: list_all_iff named_impls_def set_map_filter impl_item_ok_def)
  have coll: "impl_types ?coll = filter (\<lambda>i. impl_trait i = None) (named_impls names c)"
      "impl_trait_for_types ?coll = filter (\<lambda>i. impl_trait i \<noteq> None) (named_impls names c)"
    using collect_impls [of "named_impls names c" collection_new] by (simp_all add: collection_new_def)
  have "list_all (impl_ok pl) (impl_types ?coll)" "list_all (impl_ok pl) (impl_trait_for_types ?coll)"
    using ok by (auto simp: coll list_all_iff)
  note run = analyse_impls_eq [OF this(1), of names ?g] analyse_impls_eq [OF this(2), of names]
  have "extract_impls_from_cache pl c fnm_new g = Done (names,
      fold add_api_function (concat (map (impl_functions pl names) (analysed_impls names c))) ?g)"
    unfolding extract_impls_from_cache_def Let_def collect_named [OF assms(3)] names1(1) obind.simps names(1)
      named_impls_def [symmetric] run
    by (simp add: coll [symmetric] analysed_impls_def del: not_None_eq)
  then show ?thesis
    using names(2) by (auto simp: add_functions set_full_name_map_def)
qed

text \<open>
  C28: extracting the impl blocks of a crate returns, for tables with distinct keys and
  well-formed blocks: a type has the path of the crate's own table, or of the external table if
  it is a prelude type; the graph gets this table and the usable functions of the blocks of
  named types, blocks without a trait first, and nothing else.
\<close>

theorem extract_impls_correct:
  assumes "distinct (map fst (cache_paths c))" "distinct (map fst (cache_external_paths c))"
    and "list_all (\<lambda>(did, items). list_all (impl_item_ok pl) items) (cache_impls c)"
  shows "\<exists>names g'. extract_impls_from_cache pl c fnm_new g = Done (names, g') \<and>
     get_full_name names = cache_name c \<and> graph_names g' = names \<and> crate_name g' = crate_name g \<and>
     graph_mods g' = graph_mods g \<and>
     api_functions g' = api_functions g @
       filter (usable_function names) (concat (map (impl_functions pl names) (analysed_impls names c)))"
  using assms by (rule extract_impls_lemma)

definition example_cache :: doc_cache where
  "example_cache = (initial_cache example_render_info False (example_crate []))
     \<lparr>cache_paths := [(\<lparr>krate = 0, index = 9\<rparr>, [''c'', ''T''], ItTrait)],
      cache_impls := [(\<lparr>krate = 0, index = 9\<rparr>, [example_item None 21 Inherited (ImplItem (example_impl [''use_'']))]),
       (\<lparr>krate = 1, index = 1\<rparr>, [example_item None 21 Inherited (ImplItem (example_impl [''use_'']))])]\<rparr>"

lemmas example_cache_defs = example_cache_def initial_cache_def example_render_info_def example_crate_def

lemma example_cache_ok:
  "distinct (map fst (cache_paths example_cache))" "distinct (map fst (cache_external_paths example_cache))"
  "list_all (\<lambda>(did, items). list_all (impl_item_ok (\<lambda>_. None)) items) (cache_impls example_cache)"
  by (simp_all add: example_cache_defs impl_item_ok_def impl_block_def example_item_def example_impl_ok)

theorem extract_impls_correct_witness:
  "\<exists>names g'. extract_impls_from_cache (\<lambda>_. None) example_cache fnm_new example_graph = Done (names, g') \<and>
     get_full_name names \<lparr>krate = 0, index = 9\<rparr> = Some ''c::T'' \<and>
     get_full_name names \<lparr>krate = 1, index = 0\<rparr> = Some ''core::option::Option'' \<and>
     get_full_name names \<lparr>krate = 1, index = 1\<rparr> = None"
proof -
  obtain names g' where "extract_impls_from_cache (\<lambda>_. None) example_cache fnm_new example_graph = Done (names, g')"
      "get_full_name names = cache_name example_cache"
    using extract_impls_correct [OF example_cache_ok, of example_graph] by blast
  then show ?thesis
    by (simp add: cache_name_def path_name_def example_cache_defs is_preluded_type_def preluded_type_table_def)
qed

end
