(* ===== verification/Krate_Walk.thy ===== *)
theory Krate_Walk
  imports Impl_Util
begin

text \<open>
  The walk over the modules of a crate (\<^verbatim>\<open>html/render.rs\<close>, \<open>analyse_clean_krate\<close> and
  \<open>another_analyse_item\<close>): an explicit stack of items, from which every module is recorded with
  its visibility and every bare function is added to the graph. The walk is related to
  \<open>item_events\<close>, the modules and functions of an item by recursion on it.
\<close>

lemma set_name_simps [simp]:
  "item_name (set_name n item) = n" "item_inner (set_name n item) = item_inner item"
  "item_visibility (set_name n item) = item_visibility item" "item_def_id (set_name n item) = item_def_id item"
  "item_attrs (set_name n item) = item_attrs item"
  by (simp_all add: set_name_def)

section \<open>Definitions\<close>

definition item_full_path :: "string list \<Rightarrow> clean_item \<Rightarrow> string outcome" where
  "item_full_path current item =
     obind (unwrap (item_name item)) (\<lambda>name. Done (str_join ''::'' current @ ''::'' @ name))"

definition bare_function :: "string \<Rightarrow> clean_function \<Rightarrow> api_function" where
  "bare_function path f =
     \<lparr>full_name = path, af_generics = fn_generics f,
      inputs = extract_input_types (fd_inputs (fn_decl f)),
      output_ty = extract_output_type (fd_output (fn_decl f)),
      trait_full_path = None, unsafe_tag = get_unsafety_from_fnheader (header_unsafety (fn_header f))\<rparr>"

text \<open>
  One item: the new graph, and the items handed to the callback, in that order, each with the
  module path (\<open>cx.current\<close>) it is analysed under.
\<close>

definition another_analyse_item ::
  "string list \<Rightarrow> clean_item \<Rightarrow> api_graph \<Rightarrow> (api_graph \<times> (string list \<times> clean_item) list) outcome" where
  "another_analyse_item current item g =
     obind (is_mod item) (\<lambda>m.
       if m then
         obind (unwrap (item_name item)) (\<lambda>name.
           if name = '''' then Panic (ExplicitPanic ''empty name'')
           else
             let current = current @ [name];
                 g = add_mod_visibility (str_join ''::'' current) (item_visibility item) g
             in case item_inner item of
                  StrippedItem (ModuleItem m) \<Rightarrow> Done (g, map (Pair current) (module_items m))
                | ModuleItem m \<Rightarrow> Done (g, map (Pair current) (module_items m))
                | _ \<Rightarrow> Panic (ExplicitPanic ''unreachable''))
       else if item_name item \<noteq> None then
         obind (item_type_of (item_inner item)) (\<lambda>item_type.
           if item_type = ItFunction then
             obind (item_full_path current item) (\<lambda>path.
               case item_inner item of
                 FunctionItem f \<Rightarrow> Done (add_api_function (bare_function path f) g, [])
               | _ \<Rightarrow> Done (g, []))
           else Done (g, []))
       else Done (g, []))"

text \<open>The items under a module are smaller than it, so the walk ends.\<close>

definition work_size :: "(string list \<times> clean_item) list \<Rightarrow> nat" where
  "work_size work = sum_list (map (\<lambda>(_, item). Suc (size item)) work)"

lemma work_size_simps [simp]:
  "work_size [] = 0"
  "work_size (w # work) = Suc (size (snd w)) + work_size work"
  "work_size (xs @ ys) = work_size xs + work_size ys"
  "work_size (rev xs) = work_size xs"
  by (auto simp: work_size_def split: prod.split simp flip: rev_map)

lemma work_size_module: "work_size (map (Pair current) items) = size_list size items"
  by (induction items) auto

text \<open>The items of a module, also of a stripped one.\<close>

fun mod_items :: "item_inner \<Rightarrow> clean_item list option" where
  "mod_items (ModuleItem m) = Some (module_items m)"
| "mod_items (StrippedItem (ModuleItem m)) = Some (module_items m)"
| "mod_items _ = None"

lemma mod_items_cases:
  assumes "mod_items inner = Some items"
  obtains m where "inner = ModuleItem m" "items = module_items m"
    | m where "inner = StrippedItem (ModuleItem m)" "items = module_items m"
proof (cases inner)
  case (StrippedItem i)
  with assms that show thesis by (cases i) auto
qed (use assms that in auto)

lemma is_mod_eq:
  assumes "flat_here item"
  shows "is_mod item = Done (mod_items (item_inner item) \<noteq> None)"
proof (cases "item_inner item")
  case (StrippedItem i)
  with assms show ?thesis
    by (cases i) (simp_all add: is_mod_def item_type_of_def flat_here_def split: macro_kind.split)
qed (simp_all add: is_mod_def item_type_of_def split: macro_kind.split)

lemma not_mod:
  assumes "mod_items (item_inner item) = None"
  shows "is_mod item \<noteq> Done True"
proof (cases "flat_here item")
  case True
  then show ?thesis using assms by (simp add: is_mod_eq)
next
  case False
  obtain i where "item_inner item = StrippedItem (StrippedItem i)"
  proof (cases "item_inner item")
    case (StrippedItem j)
    with False that show thesis by (cases j) (simp_all add: flat_here_def)
  qed (use False in \<open>simp_all add: flat_here_def\<close>)
  then show ?thesis by (simp add: is_mod_def item_type_of_def)
qed

text \<open>
  The items of a cleaned crate: at most one layer of \<open>StrippedItem\<close>, modules have a name that is
  not empty.
\<close>

definition item_here_ok :: "clean_item \<Rightarrow> bool" where
  "item_here_ok item \<longleftrightarrow> flat_here item \<and>
     (mod_items (item_inner item) \<noteq> None \<longrightarrow> item_name item \<noteq> None \<and> item_name item \<noteq> Some '''')"

lemma function_item_eq:
  assumes "flat_here item" "item_name item = Some name"
  shows "obind (item_type_of (item_inner item)) (\<lambda>item_type.
       if item_type = ItFunction then
         obind (item_full_path current item) (\<lambda>path.
           case item_inner item of
             FunctionItem f \<Rightarrow> Done (add_api_function (bare_function path f) g, [])
           | _ \<Rightarrow> Done (g, []))
       else Done (g, [])) =
     Done (case item_inner item of
         FunctionItem f \<Rightarrow> (add_api_function (bare_function (str_join ''::'' current @ ''::'' @ name) f) g, [])
       | _ \<Rightarrow> (g, []))"
proof -
  obtain ty where ty: "item_type_of (item_inner item) = Done ty" using item_type_Done [OF assms(1)] by blast
  have "ty = ItFunction" if "item_inner item = FunctionItem f" for f
    using ty that by (simp add: item_type_of_def)
  then show ?thesis
    using assms(2) ty by (cases "item_inner item") (auto simp: item_full_path_def)
qed

lemma another_analyse_item_eq:
  assumes "item_here_ok item"
  shows "another_analyse_item current item g =
     Done (case (mod_items (item_inner item), item_inner item, item_name item) of
         (Some items, _, Some name) \<Rightarrow>
           (add_mod_visibility (str_join ''::'' (current @ [name])) (item_visibility item) g,
            map (Pair (current @ [name])) items)
       | (None, FunctionItem f, Some name) \<Rightarrow>
           (add_api_function (bare_function (str_join ''::'' current @ ''::'' @ name) f) g, [])
       | _ \<Rightarrow> (g, []))"
proof (cases "mod_items (item_inner item)")
  case None
  show ?thesis
  proof (cases "item_name item")
    case (Some name)
    then show ?thesis
      using assms None function_item_eq [of item name current g]
      by (cases "item_inner item") (auto simp: another_analyse_item_def item_here_ok_def is_mod_eq)
  qed (use assms None in \<open>cases "item_inner item"; simp add: another_analyse_item_def item_here_ok_def is_mod_eq\<close>)
next
  case (Some items)
  obtain name where "item_name item = Some name" "name \<noteq> ''''"
    using assms Some by (auto simp: item_here_ok_def)
  with Some assms show ?thesis
    by (elim mod_items_cases) (simp_all add: another_analyse_item_def item_here_ok_def is_mod_eq Let_def)
qed

lemma mod_items_size:
  "mod_items (item_inner item) = Some items \<Longrightarrow> size_list size items \<le> size item"
proof (elim mod_items_cases)
  show "size_list size items \<le> size item" if "item_inner item = ModuleItem m" "items = module_items m" for m
    using that by (cases item; cases m) simp
  show "size_list size items \<le> size item" if "item_inner item = StrippedItem (ModuleItem m)" "items = module_items m" for m
    using that by (cases item; cases m) simp
qed

lemma another_analyse_item_smaller:
  assumes "another_analyse_item current item g = Done (g', pushed)"
  shows "work_size pushed \<le> size item"
proof (cases "is_mod item = Done True")
  case True
  then obtain items where items: "mod_items (item_inner item) = Some items" using not_mod by fastforce
  obtain name where name: "item_name item = Some name" "name \<noteq> ''''"
    using assms True by (cases "item_name item") (auto simp: another_analyse_item_def split: if_splits)
  have "pushed = map (Pair (current @ [name])) items"
    using items assms True name by (elim mod_items_cases) (simp_all add: another_analyse_item_def Let_def)
  then show ?thesis using mod_items_size [OF items] by (simp add: work_size_module)
next
  case False
  then have "pushed = []"
    using assms
    by (cases "is_mod item"; cases "item_name item"; cases "item_type_of (item_inner item)"; cases "item_inner item")
      (auto simp: another_analyse_item_def item_full_path_def split: if_splits)
  then show ?thesis by simp
qed

text \<open>
  \<open>work\<close> is the vector \<open>work\<close> of the source from its end: \<open>pop\<close> takes the head, and the items
  pushed one after the other end up in front of it in reverse.
\<close>

function walk_items :: "(string list \<times> clean_item) list \<Rightarrow> api_graph \<Rightarrow> api_graph outcome" where
  "walk_items [] g = Done g"
| "walk_items ((current, item) # work) g =
     obind (another_analyse_item current item g) (\<lambda>(g, pushed). walk_items (rev pushed @ work) g)"
  by pat_completeness auto
termination
  by (relation "measure (work_size \<circ> fst)") (auto dest: another_analyse_item_smaller)

definition analyse_clean_krate :: "clean_crate \<Rightarrow> api_graph \<Rightarrow> api_graph outcome" where
  "analyse_clean_krate k g =
     (case krate_module k of
        None \<Rightarrow> Done g
      | Some item \<Rightarrow> walk_items [([], set_name (Some (krate_name k)) item)] g)"

section \<open>The modules and functions of an item\<close>

datatype walk_event = SeenModule "string list" visibility | SeenFunction "string list" string clean_function

fun apply_event :: "walk_event \<Rightarrow> api_graph \<Rightarrow> api_graph" where
  "apply_event (SeenModule path vis) g = add_mod_visibility (str_join ''::'' path) vis g"
| "apply_event (SeenFunction path name f) g =
     add_api_function (bare_function (str_join ''::'' (path @ [name])) f) g"

definition function_event :: "string list \<Rightarrow> clean_item \<Rightarrow> walk_event list" where
  "function_event current item =
     (case (item_inner item, item_name item) of
        (FunctionItem f, Some name) \<Rightarrow> [SeenFunction current name f]
      | _ \<Rightarrow> [])"

lemma mod_items_smaller [termination_simp]:
  "mod_items (item_inner item) = Some items \<Longrightarrow> child \<in> set items \<Longrightarrow> size child < size item"
  using mod_items_size [of item items] size_list_elem [of child items size] by simp

text \<open>A module before the items in it, and these from the last one to the first.\<close>

function item_events :: "string list \<Rightarrow> clean_item \<Rightarrow> walk_event list" where
  "item_events current item =
     (case mod_items (item_inner item) of
        None \<Rightarrow> function_event current item
      | Some items \<Rightarrow>
          let current = current @ [the (item_name item)]
          in SeenModule current (item_visibility item) #
             concat (map (item_events current) (rev items)))"
  by pat_completeness auto
termination
  by (relation "measure (size \<circ> snd)") (auto simp: mod_items_smaller)

function item_ok :: "clean_item \<Rightarrow> bool" where
  "item_ok item \<longleftrightarrow> item_here_ok item \<and>
     (case mod_items (item_inner item) of None \<Rightarrow> True | Some items \<Rightarrow> list_all item_ok items)"
  by pat_completeness auto
termination
  by (relation "measure size") (auto simp: mod_items_smaller)

declare item_events.simps [simp del] item_ok.simps [simp del]

lemma function_path:
  "current \<noteq> [] \<Longrightarrow> str_join ''::'' (current @ [name]) = str_join ''::'' current @ ''::'' @ name"
  by (simp add: str_join_append)

text \<open>The stack walk is the recursive one: every item on it stands for the events of its subtree.\<close>

definition work_events :: "(string list \<times> clean_item) list \<Rightarrow> walk_event list" where
  "work_events work = concat (map (\<lambda>(current, item). item_events current item) work)"

definition work_ok :: "(string list \<times> clean_item) list \<Rightarrow> bool" where
  "work_ok work \<longleftrightarrow> (\<forall>(current, item) \<in> set work. item_ok item \<and>
     (current = [] \<longrightarrow> mod_items (item_inner item) \<noteq> None))"

lemma walk_items_eq:
  "work_ok work \<Longrightarrow> walk_items work g = Done (fold apply_event (work_events work) g)"
proof (induction work g rule: walk_items.induct)
  case (2 current item work g)
  have ok: "item_ok item" "current = [] \<longrightarrow> mod_items (item_inner item) \<noteq> None" "work_ok work"
    using "2.prems" by (auto simp: work_ok_def)
  have here: "item_here_ok item" using ok(1) by (simp add: item_ok.simps [of item])
  show ?case
  proof (cases "mod_items (item_inner item)")
    case None
    let ?g = "fold apply_event (function_event current item) g"
    have step: "another_analyse_item current item g = Done (?g, [])"
      using ok(2) None
      by (cases "item_inner item"; cases "item_name item")
        (simp_all add: another_analyse_item_eq [OF here] function_event_def function_path)
    have "walk_items work ?g = Done (fold apply_event (work_events work) ?g)"
      using "2.IH" [OF step refl] ok(3) by simp
    then show ?thesis
      by (simp add: step work_events_def item_events.simps [of current item] None)
  next
    case (Some items)
    obtain name where name: "item_name item = Some name"
      using here Some by (auto simp: item_here_ok_def)
    let ?cur = "current @ [name]"
    let ?g = "add_mod_visibility (str_join ''::'' ?cur) (item_visibility item) g"
    have step: "another_analyse_item current item g = Done (?g, map (Pair ?cur) items)"
      by (simp add: another_analyse_item_eq [OF here] Some name)
    have "work_ok (rev (map (Pair ?cur) items) @ work)"
      using ok(1,3) by (auto simp: work_ok_def list_all_iff item_ok.simps [of item] Some)
    then have "walk_items (rev (map (Pair ?cur) items) @ work) ?g =
        Done (fold apply_event (work_events (rev (map (Pair ?cur) items) @ work)) ?g)"
      using "2.IH" [OF step refl] by simp
    then show ?thesis
      by (simp add: step work_events_def item_events.simps [of current item] Some name Let_def
          rev_map o_def)
  qed
qed (simp add: work_events_def)

section \<open>What the walk leaves in the graph\<close>

definition event_functions :: "walk_event list \<Rightarrow> api_function list" where
  "event_functions es =
     concat (map (\<lambda>e. case e of
        SeenFunction path name f \<Rightarrow> [bare_function (str_join ''::'' (path @ [name])) f]
      | SeenModule _ _ \<Rightarrow> []) es)"

definition event_modules :: "walk_event list \<Rightarrow> string list set" where
  "event_modules es = {path. \<exists>vis. SeenModule path vis \<in> set es}"

lemma event_lists [simp]:
  "event_functions [] = []" "event_modules [] = {}"
  "event_functions (SeenModule path vis # es) = event_functions es"
  "event_functions (SeenFunction path name f # es) =
     bare_function (str_join ''::'' (path @ [name])) f # event_functions es"
  "event_modules (SeenModule path vis # es) = insert path (event_modules es)"
  "event_modules (SeenFunction path name f # es) = event_modules es"
  by (auto simp: event_functions_def event_modules_def)

lemma apply_events:
  fixes g :: api_graph and es :: "walk_event list"
  defines "g' \<equiv> fold apply_event es g"
  shows "api_functions g' = api_functions g @ filter (usable_function (graph_names g)) (event_functions es)"
    "graph_names g' = graph_names g" "crate_name g' = crate_name g"
    "mv_crate_name (graph_mods g') = mv_crate_name (graph_mods g)"
    "fst ` set (mv_inner (graph_mods g')) =
       fst ` set (mv_inner (graph_mods g)) \<union> str_join ''::'' ` event_modules es"
    "distinct (map fst (mv_inner (graph_mods g))) \<Longrightarrow> distinct (map fst (mv_inner (graph_mods g')))"
  unfolding g'_def
proof (induction es arbitrary: g)
  case (Cons e es)
  have mods: "fst ` set (AList.update k v xs) = insert k (fst ` set xs)" for k :: string and v :: visibility and xs
    by (simp add: dom_update)
  {
    case 1 show ?case using Cons(1,2)
      by (cases e) (auto simp: add_api_function_def add_mod_visibility_def usable_function_def)
  next
    case 2 show ?case using Cons(2)
      by (cases e) (auto simp: add_api_function_def add_mod_visibility_def)
  next
    case 3 show ?case using Cons(3)
      by (cases e) (auto simp: add_api_function_def add_mod_visibility_def)
  next
    case 4 show ?case using Cons(4)
      by (cases e) (auto simp: add_api_function_def add_mod_visibility_def add_one_mod_def)
  next
    case 5 show ?case using Cons(5)
      by (cases e) (auto simp: add_api_function_def add_mod_visibility_def add_one_mod_def mods)
  next
    case 6 then show ?case using Cons(6)
      by (cases e) (auto simp: add_api_function_def add_mod_visibility_def add_one_mod_def distinct_update)
  }
qed simp_all

section \<open>Module paths\<close>

text \<open>A name without a colon, as every Rust identifier is.\<close>

definition plain :: "string \<Rightarrow> bool" where
  "plain name \<longleftrightarrow> CHR '':'' \<notin> set name"

lemma split_acc_plain:
  "plain x \<Longrightarrow> str_split_acc ''::'' acc (x @ rest) = str_split_acc ''::'' (acc @ x) rest"
  by (induction x arbitrary: acc) (auto simp: plain_def starts_with_def)

lemma split_join_plain:
  "xs \<noteq> [] \<Longrightarrow> list_all plain xs \<Longrightarrow> str_split (str_join ''::'' xs) ''::'' = xs"
proof (induction xs rule: induct_list012)
  case (2 x)
  then show ?case using split_acc_plain [of x "[]" "[]"] by (simp add: str_split_def)
next
  case (3 x y zs)
  then show ?case using split_acc_plain [of x "[]" "''::'' @ str_join ''::'' (y # zs)"]
    by (simp add: str_split_def starts_with_def)
qed simp

lemma parent_of_path:
  assumes "xs \<noteq> []" "list_all plain (xs @ [x])"
  shows "get_parent_mod_name (str_join ''::'' (xs @ [x])) = Some (str_join ''::'' xs)"
proof -
  have "str_contains (str_join ''::'' (xs @ [x])) ''::''"
    using assms(1) str_contains_iff by (auto simp: function_path simp del: append.simps)
  then show ?thesis using assms split_join_plain [of "xs @ [x]"] by (simp add: get_parent_mod_name_def)
qed

fun event_path :: "walk_event \<Rightarrow> string list" where
  "event_path (SeenModule path vis) = path"
| "event_path (SeenFunction path name f) = path"

text \<open>Every module on the path of an event is an event too.\<close>

lemma events_chain:
  "e \<in> set (item_events current item) \<Longrightarrow>
     \<exists>ms. event_path e = current @ ms \<and>
       (\<forall>i. 0 < i \<longrightarrow> i \<le> length ms \<longrightarrow> current @ take i ms \<in> event_modules (item_events current item))"
proof (induction current item arbitrary: e rule: item_events.induct)
  case (1 current item)
  show ?case
  proof (cases "mod_items (item_inner item)")
    case None
    then have "event_path e = current"
      using "1.prems"
      by (cases "item_inner item"; cases "item_name item")
        (auto simp: item_events.simps [of current item] function_event_def)
    then show ?thesis by auto
  next
    case (Some items)
    let ?name = "the (item_name item)" and ?cur = "current @ [the (item_name item)]"
    have ev: "item_events current item =
        SeenModule ?cur (item_visibility item) # concat (map (item_events ?cur) (rev items))"
      by (simp add: item_events.simps [of current item] Some Let_def)
    have here: "?cur \<in> event_modules (item_events current item)" by (simp add: ev)
    consider "e = SeenModule ?cur (item_visibility item)"
      | child where "child \<in> set items" "e \<in> set (item_events ?cur child)"
      using "1.prems" by (auto simp: ev)
    then show ?thesis
    proof cases
      case 1
      then have "event_path e = current @ [?name] \<and> (\<forall>i. 0 < i \<longrightarrow> i \<le> length [?name] \<longrightarrow>
          current @ take i [?name] \<in> event_modules (item_events current item))"
        using here by (auto simp: take_Cons' le_Suc_eq)
      then show ?thesis by blast
    next
      case 2
      obtain ms where ms: "event_path e = ?cur @ ms" "\<And>i. 0 < i \<Longrightarrow> i \<le> length ms \<Longrightarrow>
          ?cur @ take i ms \<in> event_modules (item_events ?cur child)"
        using "1.IH" [OF Some refl, of child e] 2 by auto
      have sub: "event_modules (item_events ?cur child) \<subseteq> event_modules (item_events current item)"
        using 2(1) by (auto simp: ev event_modules_def)
      have "current @ take i (?name # ms) \<in> event_modules (item_events current item)"
        if "0 < i" "i \<le> length (?name # ms)" for i
        using that here ms(2) [of "i - 1"] sub by (cases "i = 1") (auto simp: take_Cons')
      moreover have "event_path e = current @ ?name # ms" using ms(1) by simp
      ultimately show ?thesis by blast
    qed
  qed
qed

section \<open>The walk over a crate\<close>

definition crate_root :: "clean_crate \<Rightarrow> clean_item option" where
  "crate_root k = map_option
     (set_name (Some (krate_name k))) (krate_module k)"

definition crate_events :: "clean_crate \<Rightarrow> walk_event list" where
  "crate_events k = (case crate_root k of None \<Rightarrow> [] | Some item \<Rightarrow> item_events [] item)"

definition crate_ok :: "clean_crate \<Rightarrow> bool" where
  "crate_ok k \<longleftrightarrow>
     (case crate_root k of None \<Rightarrow> True | Some item \<Rightarrow> item_ok item \<and> mod_items (item_inner item) \<noteq> None)"

lemma analyse_clean_krate_eq:
  "crate_ok k \<Longrightarrow> analyse_clean_krate k g = Done (fold apply_event (crate_events k) g)"
  by (auto simp: analyse_clean_krate_def crate_ok_def crate_events_def crate_root_def walk_items_eq
      work_ok_def work_events_def split: option.splits simp del: walk_items.simps)

lemma crate_module_path:
  assumes "crate_root k \<noteq> None" "crate_ok k" "e \<in> set (crate_events k)"
  shows "\<exists>ms. event_path e = krate_name k # ms \<and>
    (\<forall>i \<le> length ms. krate_name k # take i ms \<in> event_modules (crate_events k))"
proof -
  obtain item items where item: "crate_root k = Some item" "mod_items (item_inner item) = Some items"
      "item_name item = Some (krate_name k)"
    using assms(1,2) by (auto simp: crate_ok_def crate_root_def)
  obtain ms where ms: "event_path e = ms" "\<And>i. 0 < i \<Longrightarrow> i \<le> length ms \<Longrightarrow>
      take i ms \<in> event_modules (crate_events k)"
    using events_chain [of e "[]" item] assms(3) item(1) by (auto simp: crate_events_def)
  have ev: "crate_events k = SeenModule [krate_name k] (item_visibility item) #
      concat (map (item_events [krate_name k]) (rev items))"
    by (simp add: crate_events_def item item_events.simps [of "[]"] Let_def)
  have "\<exists>rest. ms = krate_name k # rest"
    using assms(3) ms(1) events_chain [of e "[krate_name k]"] by (auto simp: ev)
  then obtain rest where rest: "ms = krate_name k # rest" ..
  have "krate_name k # take i rest \<in> event_modules (crate_events k)" if "i \<le> length rest" for i
    using ms(2) [of "Suc i"] that by (simp add: rest)
  with ms(1) rest show ?thesis by blast
qed

lemma path_shape:
  "path \<in> event_modules (crate_events k) \<Longrightarrow> crate_ok k \<Longrightarrow> \<exists>ms. path = krate_name k # ms \<and>
    (\<forall>i \<le> length ms. krate_name k # take i ms \<in> event_modules (crate_events k))"
  using crate_module_path [of k "SeenModule path _"]
  by (cases "crate_root k") (auto simp: event_modules_def crate_events_def)

lemma crate_mods_ok:
  assumes "crate_ok k" "crate_root k \<noteq> None" "graph_mods g = mv_new (krate_name k)"
  shows "mods_ok (graph_mods (fold apply_event (crate_events k) g))"
proof -
  let ?g = "fold apply_event (crate_events k) g"
  have keys: "fst ` set (mv_inner (graph_mods ?g)) = str_join ''::'' ` event_modules (crate_events k)"
    using apply_events(5) [where es = "crate_events k" and g = g] assms(3) by (simp add: mv_new_def)
  have "crate_events k \<noteq> []"
    using assms(1,2) by (auto simp: crate_events_def crate_ok_def item_events.simps [of "[]"] Let_def)
  then obtain e where "e \<in> set (crate_events k)" by (meson last_in_set)
  then have "[krate_name k] \<in> event_modules (crate_events k)"
    using crate_module_path [OF assms(2,1)] by force
  moreover have "get_parent_mod_name (str_join ''::'' path) \<noteq> None"
    if path: "path \<in> event_modules (crate_events k)" and no: "str_join ''::'' path \<noteq> krate_name k" for path
  proof -
    obtain ms where ms: "path = krate_name k # ms" using path_shape [OF path assms(1)] by blast
    with no have "ms \<noteq> []" by auto
    then have "str_join ''::'' path = krate_name k @ ''::'' @ str_join ''::'' ms"
      by (cases ms) (auto simp: ms)
    then show ?thesis using str_contains_iff by (auto simp: get_parent_mod_name_def simp del: append.simps)
  qed
  ultimately show ?thesis
    using apply_events(4,6) [where es = "crate_events k" and g = g] assms(3)
    by (auto simp: mods_ok_def keys mv_new_def image_iff intro!: bexI [of _ "[krate_name k]"])
qed

text \<open>A module and all modules above it but the crate are declared public.\<close>

definition publicly_reachable :: "(string \<Rightarrow> visibility option) \<Rightarrow> string list \<Rightarrow> bool" where
  "publicly_reachable decl path \<longleftrightarrow>
     (\<forall>i \<in> {2..length path}. decl (str_join ''::'' (take i path)) = Some Public)"

lemma publicly_reachable_snoc:
  "xs \<noteq> [] \<Longrightarrow> publicly_reachable decl (xs @ [x]) \<longleftrightarrow>
     publicly_reachable decl xs \<and> decl (str_join ''::'' (xs @ [x])) = Some Public"
proof -
  assume "xs \<noteq> []"
  then have "{2..length (xs @ [x])} = insert (Suc (length xs)) {2..length xs}" by (cases xs) auto
  then show ?thesis unfolding publicly_reachable_def by auto
qed

lemma status_of_path:
  assumes "\<And>i. i \<le> length ms \<Longrightarrow> decl (str_join ''::'' (crate # take i ms)) \<noteq> None"
    and "list_all plain (crate # ms)"
  shows "mod_status decl crate (str_join ''::'' (crate # ms)) =
     Some (publicly_reachable decl (crate # ms))"
  using assms
proof (induction ms rule: rev_induct)
  case Nil
  then show ?case by (simp add: publicly_reachable_def)
next
  case (snoc m ms)
  let ?path = "(crate # ms) @ [m]"
  have IH: "mod_status decl crate (str_join ''::'' (crate # ms)) = Some (publicly_reachable decl (crate # ms))"
  proof (rule snoc.IH)
    show "decl (str_join ''::'' (crate # take i ms)) \<noteq> None" if "i \<le> length ms" for i
      using snoc.prems(1) [of i] that by simp
  qed (use snoc.prems(2) in simp)
  obtain vis where vis: "decl (str_join ''::'' ?path) = Some vis"
    using snoc.prems(1) [of "length (ms @ [m])"] by auto
  have "str_join ''::'' ?path \<noteq> crate"
  proof
    assume "str_join ''::'' ?path = crate"
    then have "length (str_join ''::'' ?path) = length crate" by simp
    moreover have "length crate \<le> length (str_join ''::'' (crate # ms))" by (cases ms) auto
    ultimately show False by (subst (asm) function_path) auto
  qed
  then have "mod_status decl crate (str_join ''::'' ?path) =
      Some (vis = Public \<and> publicly_reachable decl (crate # ms))"
    using mod_status_child [of "str_join ''::'' ?path" crate decl, OF _ vis parent_of_path] snoc.prems(2) IH
    by simp
  then show ?case using publicly_reachable_snoc [of "crate # ms" decl m] vis by auto
qed

text \<open>
  C24: the stack walk over a crate visits every item once: it returns without panic, the graph gets
  the usable bare functions of all modules (a stripped function is none) in the order of the
  recursive traversal, its module table has exactly the module paths of the crate, and the table
  has the form the visibility analysis needs.
\<close>

theorem analyse_clean_krate_exact:
  assumes "crate_ok k" "crate_root k \<noteq> None" "graph_mods g = mv_new (krate_name k)"
  shows "\<exists>g'. analyse_clean_krate k g = Done g' \<and>
     api_functions g' = api_functions g @
       filter (usable_function (graph_names g)) (event_functions (crate_events k)) \<and>
     fst ` set (mv_inner (graph_mods g')) = str_join ''::'' ` event_modules (crate_events k) \<and>
     mods_ok (graph_mods g') \<and> graph_names g' = graph_names g \<and> crate_name g' = crate_name g"
  using analyse_clean_krate_eq [OF assms(1)] crate_mods_ok [OF assms]
    apply_events(1,2,3,5) [where es = "crate_events k" and g = g] assms(3)
  by (auto simp: mv_new_def)

definition hidden_module :: "mod_visibility \<Rightarrow> string \<Rightarrow> bool" where
  "hidden_module mv m \<longleftrightarrow> mod_status (map_of (mv_inner mv)) (mv_crate_name mv) m = Some False"

definition hidden_function :: "mod_visibility \<Rightarrow> api_function \<Rightarrow> bool" where
  "hidden_function mv f \<longleftrightarrow> (\<exists>m. hidden_module mv m \<and> (starts_with (full_name f) m \<or>
     (\<exists>trait. trait_full_path f = Some trait \<and> starts_with trait m)))"

definition kept_function :: "mod_visibility \<Rightarrow> api_function \<Rightarrow> bool" where
  "kept_function mv f \<longleftrightarrow>
     is_defined_on_prelude_type (set get_all_preluded_type) f \<and> \<not> hidden_function mv f"

lemma filter_functions_eq:
  assumes "hash_order it" "hash_order it'" "mods_ok (graph_mods g)"
  shows "filter_functions (it, it') g =
     Done (g\<lparr>api_functions := filter (kept_function (graph_mods g)) (api_functions g)\<rparr>)"
proof -
  let ?g = "filter_functions_defined_on_prelude_type g"
  obtain bad where bad: "get_invisible_mods it it' (graph_mods g) = Done bad"
      "\<And>m. m \<in> set bad \<longleftrightarrow> hidden_module (graph_mods g) m"
    using invisible_mods_lemma [OF assms] by (auto simp: hidden_module_def)
  have inv: "invisible_function bad f = hidden_function (graph_mods g) f" for f
    by (auto simp: invisible_function_def hidden_function_def list_ex_iff bad(2) split: option.splits)
  have g: "?g = g\<lparr>api_functions :=
      filter (is_defined_on_prelude_type (set get_all_preluded_type)) (api_functions g)\<rparr>"
    by (simp add: filter_functions_defined_on_prelude_type_def Let_def get_all_preluded_type_def
        preluded_type_table_def)
  have none: "\<not> hidden_function (graph_mods g) f" if "bad = []" for f
    using inv [of f] that by (simp add: invisible_function_def)
  show ?thesis
    using bad(1) none
    by (auto simp: filter_functions_def filter_api_functions_by_mod_visibility_def g inv
        kept_function_def filter_filter conj_commute cong: filter_cong)
qed

section \<open>Which functions are visible\<close>

text \<open>
  The modules in the tree of an item with their paths, read off the items themselves, and the functions
  in them.
\<close>

inductive module_in :: "string list \<Rightarrow> clean_item \<Rightarrow> string list \<Rightarrow> clean_item \<Rightarrow> bool" for current root where
  top: "mod_items (item_inner root) \<noteq> None \<Longrightarrow> module_in current root (current @ [the (item_name root)]) root"
| below: "module_in current root path m \<Longrightarrow> mod_items (item_inner m) = Some items \<Longrightarrow> x \<in> set items \<Longrightarrow>
    mod_items (item_inner x) \<noteq> None \<Longrightarrow> module_in current root (path @ [the (item_name x)]) x"

definition module_at :: "clean_crate \<Rightarrow> string list \<Rightarrow> clean_item \<Rightarrow> bool" where
  "module_at k path m \<longleftrightarrow> (\<exists>root. crate_root k = Some root \<and> module_in [] root path m)"

definition function_at :: "clean_crate \<Rightarrow> string list \<Rightarrow> string \<Rightarrow> clean_function \<Rightarrow> bool" where
  "function_at k path name f \<longleftrightarrow> (\<exists>m items x. module_at k path m \<and> mod_items (item_inner m) = Some items \<and> x \<in> set items \<and>
     item_inner x = FunctionItem f \<and> item_name x = Some name)"

text \<open>A module and all modules above it but the crate are declared public.\<close>

definition public_path :: "clean_crate \<Rightarrow> string list \<Rightarrow> bool" where
  "public_path k path \<longleftrightarrow> (\<forall>i \<in> {2..length path}. \<forall>m. module_at k (take i path) m \<longrightarrow> item_visibility m = Public)"

definition private_module :: "clean_crate \<Rightarrow> string \<Rightarrow> bool" where
  "private_module k name \<longleftrightarrow> (\<exists>path m. module_at k path m \<and> \<not> public_path k path \<and> name = str_join ''::'' path)"

definition visible_function :: "clean_crate \<Rightarrow> api_function \<Rightarrow> bool" where
  "visible_function k f \<longleftrightarrow> is_defined_on_prelude_type (set get_all_preluded_type) f \<and>
     \<not> (\<exists>m. private_module k m \<and> (starts_with (full_name f) m \<or> (\<exists>trait. trait_full_path f = Some trait \<and> starts_with trait m)))"

text \<open>Rust's rules for the names of modules: no colon in them, and one visibility for each path.\<close>

definition modules_named :: "clean_crate \<Rightarrow> bool" where
  "modules_named k \<longleftrightarrow> (\<forall>path m m'. module_at k path m \<longrightarrow> list_all plain path \<and>
     (module_at k path m' \<longrightarrow> item_visibility m = item_visibility m'))"

lemma module_in_lift:
  assumes "module_in (current @ [the (item_name item)]) child path m" "mod_items (item_inner item) = Some items" "child \<in> set items"
  shows "module_in current item path m"
  using assms(1)
proof (induction rule: module_in.induct)
  case top
  then show ?case using module_in.below [OF module_in.top assms(2,3)] assms(2) by simp
next
  case (below path m items x)
  then show ?case by (auto intro: module_in.below)
qed

lemma event_module: "SeenModule path vis \<in> set (item_events current item) \<Longrightarrow> \<exists>m. module_in current item path m \<and> item_visibility m = vis"
proof (induction current item arbitrary: path rule: item_events.induct)
  case (1 current item)
  show ?case
  proof (cases "mod_items (item_inner item)")
    case None
    then show ?thesis
      using "1.prems" by (auto simp: item_events.simps [of current item] function_event_def split: item_enum.splits option.splits)
  next
    case (Some items)
    let ?cur = "current @ [the (item_name item)]"
    consider "path = ?cur" "vis = item_visibility item" | child where "child \<in> set items" "SeenModule path vis \<in> set (item_events ?cur child)"
      using "1.prems" by (auto simp: item_events.simps [of current item] Some Let_def)
    then show ?thesis
    proof cases
      case 1
      then show ?thesis using module_in.top [of item current] Some by auto
    next
      case 2
      then show ?thesis using "1.IH" [OF Some refl, of child path] module_in_lift [OF _ Some] by force
    qed
  qed
qed

lemma module_events:
  "module_in current item path m \<Longrightarrow> mod_items (item_inner m) \<noteq> None \<and>
     (\<exists>p. path = p @ [the (item_name m)] \<and> set (item_events p m) \<subseteq> set (item_events current item))"
proof (induction rule: module_in.induct)
  case (below path m items x)
  then obtain p where p: "path = p @ [the (item_name m)]" "set (item_events p m) \<subseteq> set (item_events current item)" by blast
  have "set (item_events path x) \<subseteq> set (item_events p m)"
    using below by (auto simp: item_events.simps [of p m] Let_def p(1))
  then show ?case using p(2) below by blast
qed auto

lemma crate_module_events:
  "SeenModule path vis \<in> set (crate_events k) \<longleftrightarrow> (\<exists>m. module_at k path m \<and> item_visibility m = vis)"
proof
  assume "SeenModule path vis \<in> set (crate_events k)"
  then obtain root where "crate_root k = Some root" "SeenModule path vis \<in> set (item_events [] root)"
    by (cases "crate_root k") (auto simp: crate_events_def)
  then show "\<exists>m. module_at k path m \<and> item_visibility m = vis"
    using event_module [of path vis "[]" root] by (auto simp: module_at_def)
next
  assume "\<exists>m. module_at k path m \<and> item_visibility m = vis"
  then obtain root m where m: "crate_root k = Some root" "module_in [] root path m" "item_visibility m = vis"
    by (auto simp: module_at_def)
  then obtain p where "mod_items (item_inner m) \<noteq> None" "path = p @ [the (item_name m)]" "set (item_events p m) \<subseteq> set (item_events [] root)"
    using module_events by blast
  then show "SeenModule path vis \<in> set (crate_events k)"
    using m by (auto simp: crate_events_def item_events.simps [of p m] Let_def)
qed

lemma module_at_events: "(\<exists>m. module_at k path m) \<longleftrightarrow> path \<in> event_modules (crate_events k)"
  using crate_module_events by (auto simp: event_modules_def)

text \<open>The table holds the visibility of the module.\<close>

lemma table_lookup:
  assumes "\<And>p v. SeenModule p v \<in> set es \<Longrightarrow> str_join ''::'' p = name \<Longrightarrow> v = vis"
    and "(\<exists>p v. SeenModule p v \<in> set es \<and> str_join ''::'' p = name) \<or> map_of (mv_inner (graph_mods g)) name = Some vis"
  shows "map_of (mv_inner (graph_mods (fold apply_event es g))) name = Some vis"
  using assms
proof (induction es arbitrary: g)
  case (Cons e es)
  show ?case
  proof (cases e)
    case (SeenModule p v)
    have "map_of (mv_inner (graph_mods (apply_event e g))) = (map_of (mv_inner (graph_mods g)))(str_join ''::'' p \<mapsto> v)"
      by (simp add: SeenModule add_mod_visibility_def add_one_mod_def update_conv')
    moreover have "v = vis" if "str_join ''::'' p = name" using Cons.prems(1) [of p v] that by (simp add: SeenModule)
    ultimately have "map_of (mv_inner (graph_mods (fold apply_event es (apply_event e g)))) name = Some vis"
      using Cons.prems(2) by (intro Cons.IH Cons.prems(1)) (auto simp: SeenModule)
    then show ?thesis by simp
  next
    case (SeenFunction p n f)
    then have "graph_mods (apply_event e g) = graph_mods g" by (simp add: add_api_function_def)
    then have "map_of (mv_inner (graph_mods (fold apply_event es (apply_event e g)))) name = Some vis"
      using Cons.prems(2) by (intro Cons.IH Cons.prems(1)) (auto simp: SeenFunction)
    then show ?thesis by simp
  qed
qed simp

lemma recorded_visibility:
  assumes "modules_named k" "module_at k path m" "path \<noteq> []"
  shows "map_of (mv_inner (graph_mods (fold apply_event (crate_events k) g))) (str_join ''::'' path) = Some (item_visibility m)"
proof (rule table_lookup)
  show "(\<exists>p v. SeenModule p v \<in> set (crate_events k) \<and> str_join ''::'' p = str_join ''::'' path) \<or>
      map_of (mv_inner (graph_mods g)) (str_join ''::'' path) = Some (item_visibility m)"
    using assms(2) crate_module_events by blast
  fix p v
  assume "SeenModule p v \<in> set (crate_events k)" and eq: "str_join ''::'' p = str_join ''::'' path"
  then obtain m' where m': "module_at k p m'" "item_visibility m' = v" using crate_module_events by blast
  then have "p \<noteq> []" by (auto simp: module_at_def elim: module_in.cases)
  moreover have "list_all plain p" "list_all plain path" using assms(1,2) m'(1) unfolding modules_named_def by blast+
  ultimately have "p = path" using eq assms(3) by (metis split_join_plain)
  then show "v = item_visibility m" using assms(1,2) m' unfolding modules_named_def by blast
qed

lemma hidden_private:
  assumes k: "crate_ok k" "crate_root k \<noteq> None" "graph_mods g = mv_new (krate_name k)" and named: "modules_named k"
  shows "hidden_module (graph_mods (fold apply_event (crate_events k) g)) name \<longleftrightarrow> private_module k name"
proof -
  let ?g = "fold apply_event (crate_events k) g"
  let ?decl = "map_of (mv_inner (graph_mods ?g))"
  have table: "fst ` set (mv_inner (graph_mods ?g)) = str_join ''::'' ` event_modules (crate_events k)"
      "mv_crate_name (graph_mods ?g) = krate_name k"
    using apply_events(4,5) [where es = "crate_events k" and g = g] k(3) by (auto simp: mv_new_def)
  have status: "mod_status ?decl (krate_name k) (str_join ''::'' path) = Some (public_path k path)" if m: "module_at k path m" for path m
  proof -
    have "path \<in> event_modules (crate_events k)" using m module_at_events by blast
    then obtain ms where ms: "path = krate_name k # ms"
        "\<And>i. i \<le> length ms \<Longrightarrow> krate_name k # take i ms \<in> event_modules (crate_events k)"
      using path_shape k(1) by blast
    have pre: "\<exists>x. module_at k (krate_name k # take i ms) x \<and>
        ?decl (str_join ''::'' (krate_name k # take i ms)) = Some (item_visibility x)" if "i \<le> length ms" for i
      using ms(2) [OF that] recorded_visibility [OF named] module_at_events by blast
    have "list_all plain path" using named m by (auto simp: modules_named_def)
    then have "mod_status ?decl (krate_name k) (str_join ''::'' path) = Some (publicly_reachable ?decl path)"
      using status_of_path [of ms ?decl "krate_name k"] pre by (auto simp: ms(1))
    moreover have "?decl (str_join ''::'' (take i path)) = Some Public \<longleftrightarrow> (\<forall>x. module_at k (take i path) x \<longrightarrow> item_visibility x = Public)"
      if "i \<in> {2..length path}" for i
    proof -
      have "take i path = krate_name k # take (i - 1) ms" using that by (cases i) (auto simp: ms(1))
      moreover have "i - 1 \<le> length ms" using that by (auto simp: ms(1))
      ultimately obtain x where x: "module_at k (take i path) x" "?decl (str_join ''::'' (take i path)) = Some (item_visibility x)"
        using pre [of "i - 1"] by auto
      then show ?thesis using named unfolding modules_named_def by (metis option.inject)
    qed
    ultimately show ?thesis by (simp add: publicly_reachable_def public_path_def)
  qed
  show ?thesis
  proof
    assume "hidden_module (graph_mods ?g) name"
    then have no: "mod_status ?decl (krate_name k) name = Some False" by (simp add: hidden_module_def table(2))
    then have "?decl name \<noteq> None" by (subst (asm) mod_status.simps) (auto split: if_splits option.splits)
    then have "name \<in> fst ` set (mv_inner (graph_mods ?g))" by (metis domIff dom_map_of_conv_image_fst)
    then obtain path where path: "path \<in> event_modules (crate_events k)" "name = str_join ''::'' path"
      unfolding table(1) by blast
    obtain m where "module_at k path m" using path(1) module_at_events by blast
    then show "private_module k name" using no path(2) status unfolding private_module_def by force
  next
    assume "private_module k name"
    then show "hidden_module (graph_mods ?g) name" using status by (auto simp: private_module_def hidden_module_def table(2))
  qed
qed

text \<open>
  C23: after the walk and the filters, which return for every iteration order of the hash maps, the
  functions of the graph are exactly those before that are not on a prelude type and whose path (or
  whose trait's path) does not begin with the path of a module that is not public up to the crate;
  and so every remaining bare function lies in modules whose items are declared public up to the
  crate. The module names have no colon and each module path has one visibility.
\<close>

theorem filtered_functions_visible:
  assumes "crate_ok k" "crate_root k \<noteq> None" "graph_mods g = mv_new (krate_name k)"
    and "hash_order it" "hash_order it'" "modules_named k"
  shows "\<exists>g1 g2. analyse_clean_krate k g = Done g1 \<and> filter_functions (it, it') g1 = Done g2 \<and>
     api_functions g2 = filter (visible_function k) (api_functions g1) \<and>
     (\<forall>path name f. function_at k path name f \<longrightarrow>
        bare_function (str_join ''::'' (path @ [name])) f \<in> set (api_functions g2) \<longrightarrow> public_path k path)"
proof -
  let ?g = "fold apply_event (crate_events k) g"
  have "kept_function (graph_mods ?g) = visible_function k"
    using hidden_private [OF assms(1-3,6)] by (auto simp: fun_eq_iff kept_function_def visible_function_def hidden_function_def)
  then have g2: "filter_functions (it, it') ?g = Done (?g\<lparr>api_functions := filter (visible_function k) (api_functions ?g)\<rparr>)"
    using filter_functions_eq [OF assms(4,5) crate_mods_ok [OF assms(1-3)]] by simp
  have "public_path k path" if f: "function_at k path name f"
      and vis: "visible_function k (bare_function (str_join ''::'' (path @ [name])) f)" for path name f
  proof (rule ccontr)
    assume "\<not> public_path k path"
    moreover obtain m where m: "module_at k path m" using f by (auto simp: function_at_def)
    ultimately have "private_module k (str_join ''::'' path)" by (auto simp: private_module_def)
    moreover have "path \<noteq> []" using m by (auto simp: module_at_def elim: module_in.cases)
    then have "starts_with (str_join ''::'' (path @ [name])) (str_join ''::'' path)" by (simp add: function_path)
    ultimately show False using vis by (auto simp: visible_function_def bare_function_def)
  qed
  then show ?thesis using analyse_clean_krate_eq [OF assms(1), of g] g2 by auto
qed

text \<open>A crate with a public module, a private one, and a function in each and at the top.\<close>

definition example_fn :: "string \<Rightarrow> clean_item" where
  "example_fn name = example_item (Some name) 30 Public (FunctionItem (example_function []))"

definition example_krate :: clean_crate where
  "example_krate = example_crate
     [example_fn ''f'',
      example_item (Some ''a'') 31 Public (ModuleItem (Module [example_fn ''g''] False)),
      example_item (Some ''b'') 32 Inherited (StrippedItem (ModuleItem (Module [example_fn ''h''] False)))]"

lemmas example_krate_defs = example_krate_def example_crate_def example_fn_def example_item_def set_name_def

lemma example_krate_events:
  "crate_events example_krate =
     [SeenModule [''c''] Public, SeenModule [''c'', ''b''] Inherited,
      SeenFunction [''c'', ''b''] ''h'' (example_function []),
      SeenModule [''c'', ''a''] Public, SeenFunction [''c'', ''a''] ''g'' (example_function []),
      SeenFunction [''c''] ''f'' (example_function [])]"
  by (simp add: crate_events_def crate_root_def example_krate_defs function_event_def
      item_events.simps Let_def)

lemma example_krate_ok:
  "crate_ok example_krate" "crate_root example_krate \<noteq> None"
  "graph_mods (graph_new ''c'') = mv_new (krate_name example_krate)"
  by (simp_all add: crate_ok_def crate_root_def example_krate_defs item_ok.simps
      item_here_ok_def flat_here_def graph_new_def)

theorem analyse_clean_krate_exact_witness:
  "\<exists>g'. analyse_clean_krate example_krate (graph_new ''c'') = Done g' \<and> mods_ok (graph_mods g') \<and>
     fst ` set (mv_inner (graph_mods g')) = {''c'', ''c::a'', ''c::b''}"
proof -
  have "str_join ''::'' ` event_modules (crate_events example_krate) = {''c'', ''c::a'', ''c::b''}"
    by (auto simp: example_krate_events)
  then show ?thesis using analyse_clean_krate_exact [OF example_krate_ok] by metis
qed

lemma example_krate_named: "modules_named example_krate"
proof -
  have shape: "path \<in> {[''c''], [''c'', ''b''], [''c'', ''a'']} \<and> item_visibility m = (if path = [''c'', ''b''] then Inherited else Public)"
    if "module_at example_krate path m" for path m
    using that crate_module_events [of path "item_visibility m" example_krate] by (auto simp: example_krate_events)
  show ?thesis
    unfolding modules_named_def
  proof (intro allI impI conjI)
    fix path m
    assume m: "module_at example_krate path m"
    show "list_all plain path" using shape [OF m] by (auto simp: plain_def)
    show "item_visibility m = item_visibility m'" if "module_at example_krate path m'" for m'
      using shape [OF m] shape [OF that] by simp
  qed
qed

theorem filtered_functions_visible_witness:
  "\<exists>g1 g2. analyse_clean_krate example_krate (graph_new ''c'') = Done g1 \<and>
     filter_functions (rev, rev) g1 = Done g2 \<and>
     bare_function ''c::b::h'' (example_function []) \<notin> set (api_functions g2)"
proof -
  obtain m where m: "module_at example_krate [''c'', ''b''] m" "item_visibility m = Inherited"
    using crate_module_events [of "[''c'', ''b'']" Inherited example_krate] by (auto simp: example_krate_events)
  have "\<not> public_path example_krate [''c'', ''b'']"
    using m by (auto simp: public_path_def intro!: bexI [of _ 2])
  then have "private_module example_krate ''c::b''" using m(1) by (auto simp: private_module_def)
  then have "\<not> visible_function example_krate (bare_function ''c::b::h'' (example_function []))"
    by (auto simp: visible_function_def bare_function_def starts_with_def intro!: exI [of _ "''c::b''"])
  then show ?thesis
    using filtered_functions_visible [OF example_krate_ok hash_order_rev hash_order_rev example_krate_named] by fastforce
qed

end
