(* ===== verification/Crate_Api.thy ===== *)
theory Crate_Api
  imports Krate_Walk
begin

text \<open>
  The documentation cache, the walk over the modules and the impl blocks put together: the crate
  that is left when the cache has taken the impl blocks out of it has the same modules and bare
  functions, the functions the walk finds are those of the crate's function items, and the blocks
  in the cache are those the analysis of impl blocks needs.
\<close>

section \<open>The crate after the cache\<close>

lemma mod_items_rebuild: "mod_items (rebuild inner xs) = (if mod_items inner = None then None else Some xs)"
proof (cases inner)
  case (VariantItem v)
  then show ?thesis by (cases "variant_kind v") simp_all
next
  case (StrippedItem i)
  show ?thesis
  proof (cases i)
    case (VariantItem v)
    then show ?thesis using StrippedItem by (cases "variant_kind v") simp_all
  qed (simp_all add: StrippedItem)
qed simp_all

lemma mod_items_children: "mod_items (item_inner item) = Some items \<Longrightarrow> item_children item = items"
  by (elim mod_items_cases) (simp_all add: item_children_def)

lemma mod_items_without_impls:
  "mod_items (item_inner (without_impls item)) =
     map_option (List.map_filter (prune cache_verdict)) (mod_items (item_inner item))"
  by (cases "mod_items (item_inner item)")
    (simp_all add: without_impls_def mod_items_rebuild mod_items_children)

lemma inner_without_impls:
  "item_inner (without_impls item) = FunctionItem f \<longleftrightarrow> item_inner item = FunctionItem f"
  "item_inner (without_impls item) = MethodItem m \<longleftrightarrow> item_inner item = MethodItem m"
proof -
  let ?inner = "item_inner item" and ?xs = "List.map_filter (prune cache_verdict) (item_children item)"
  have "(rebuild ?inner ?xs = FunctionItem f) = (?inner = FunctionItem f) \<and>
      (rebuild ?inner ?xs = MethodItem m) = (?inner = MethodItem m)"
  proof (cases ?inner)
    case (VariantItem v)
    then show ?thesis by (cases "variant_kind v") simp_all
  qed simp_all
  then show "item_inner (without_impls item) = FunctionItem f \<longleftrightarrow> item_inner item = FunctionItem f"
    "item_inner (without_impls item) = MethodItem m \<longleftrightarrow> item_inner item = MethodItem m"
    by (simp_all add: without_impls_def)
qed

lemma without_impls_simps:
  "item_name (without_impls item) = item_name item" "item_visibility (without_impls item) = item_visibility item"
  "set_name n (without_impls item) = without_impls (set_name n item)"
  by (simp_all add: without_impls_def rebuild_item_def set_inner_def set_name_def item_children_def)

lemma function_event_eq:
  "function_event current item = List.map_filter
     (\<lambda>f. map_option (\<lambda>name. SeenFunction current name f) (item_name item))
     (case item_inner item of FunctionItem f \<Rightarrow> [f] | _ \<Rightarrow> [])"
  by (cases "item_inner item"; cases "item_name item") (simp_all add: function_event_def map_filter_simps)

lemma function_event_without_impls: "function_event current (without_impls item) = function_event current item"
proof (cases "\<exists>f. item_inner item = FunctionItem f")
  case True
  then obtain f where "item_inner item = FunctionItem f" ..
  then show ?thesis using inner_without_impls(1) [of item f] by (simp add: function_event_def without_impls_simps)
next
  case False
  then have none: "\<nexists>f. item_inner (without_impls item) = FunctionItem f" by (simp add: inner_without_impls)
  have "function_event current i = []" if "\<nexists>f. item_inner i = FunctionItem f" for i
    using that by (cases "item_inner i") (simp_all add: function_event_def)
  then show ?thesis using False none by simp
qed

lemma concat_map_filter:
  assumes "\<And>x. x \<in> set xs \<Longrightarrow> (case keep x of None \<Rightarrow> g x = [] | Some y \<Rightarrow> f y = g x)"
  shows "concat (map f (rev (List.map_filter keep xs))) = concat (map g (rev xs))"
  using assms
proof (induction xs)
  case (Cons x xs)
  have "case keep x of None \<Rightarrow> g x = [] | Some y \<Rightarrow> f y = g x" using Cons.prems by simp
  then show ?case using Cons by (cases "keep x") (simp_all add: map_filter_simps)
qed (simp add: map_filter_simps)

lemma impl_no_events: "is_impl (item_inner item) \<Longrightarrow> item_events current item = []"
  by (cases "item_inner item") (simp_all add: is_impl_def item_events.simps [of current item] function_event_def)

text \<open>Taking the impl blocks out of a crate leaves its modules and bare functions as they are.\<close>

lemma events_without_impls: "item_events current (without_impls item) = item_events current item"
proof (induction current item rule: item_events.induct)
  case (1 current item)
  show ?case
  proof (cases "mod_items (item_inner item)")
    case None
    then show ?thesis
      by (simp add: item_events.simps [of current] mod_items_without_impls function_event_without_impls)
  next
    case (Some items)
    let ?cur = "current @ [the (item_name item)]"
    have "concat (map (item_events ?cur) (rev (List.map_filter (prune cache_verdict) items))) =
        concat (map (item_events ?cur) (rev items))"
      using "1" [OF Some refl] by (intro concat_map_filter) (simp add: prune_cache impl_no_events)
    then show ?thesis
      by (simp add: item_events.simps [of current] mod_items_without_impls without_impls_simps Some Let_def)
  qed
qed

lemma flat_without_impls: "flat_here item \<Longrightarrow> flat_here (without_impls item)"
proof (cases "item_inner item")
  case (StrippedItem i)
  show "flat_here item \<Longrightarrow> flat_here (without_impls item)"
  proof (cases i)
    case (VariantItem v)
    then show ?thesis using StrippedItem by (cases "variant_kind v") (simp_all add: flat_here_def without_impls_def)
  qed (simp_all add: StrippedItem flat_here_def without_impls_def)
next
  case (VariantItem v)
  then show ?thesis by (cases "variant_kind v") (simp_all add: flat_here_def without_impls_def)
qed (simp_all add: flat_here_def without_impls_def)

lemma ok_without_impls: "item_ok item \<Longrightarrow> item_ok (without_impls item)"
proof (induction item rule: item_ok.induct)
  case (1 item)
  have here: "item_here_ok (without_impls item)"
    using "1.prems" flat_without_impls
    by (simp add: item_ok.simps [of item] item_here_ok_def mod_items_without_impls without_impls_simps)
  show ?case
  proof (cases "mod_items (item_inner item)")
    case None
    then show ?thesis using here by (simp add: item_ok.simps [of "without_impls item"] mod_items_without_impls)
  next
    case (Some items)
    have "item_ok y" if y: "y \<in> set (List.map_filter (prune cache_verdict) items)" for y
    proof -
      obtain x where "x \<in> set items" "y = without_impls x"
        using y by (auto simp: set_map_filter prune_cache split: if_splits)
      then show ?thesis using "1.IH" [OF Some] "1.prems" Some by (simp add: item_ok.simps [of item] list_all_iff)
    qed
    then show ?thesis
      using here Some by (simp add: item_ok.simps [of "without_impls item"] mod_items_without_impls list_all_iff)
  qed
qed

lemma cached_crate:
  assumes "crate_ok k" "crate_root k \<noteq> None" "krate_name k' = krate_name k"
    and "krate_module k' = Option.bind (krate_module k) (prune cache_verdict)"
  shows "crate_ok k'" "crate_root k' \<noteq> None" "crate_events k' = crate_events k"
proof -
  obtain m where m: "krate_module k = Some m" using assms(2) by (auto simp: crate_root_def)
  let ?root = "set_name (Some (krate_name k)) m"
  have root: "crate_root k = Some ?root" "item_ok ?root" "mod_items (item_inner m) \<noteq> None"
    using assms(1) m by (auto simp: crate_root_def crate_ok_def)
  then have "\<not> is_impl (item_inner m)" by (cases "item_inner m") (simp_all add: is_impl_def)
  then have root': "crate_root k' = Some (without_impls ?root)"
    using assms(3,4) m by (simp add: crate_root_def prune_cache without_impls_simps)
  then show "crate_root k' \<noteq> None" by simp
  show "crate_ok k'"
    using root' ok_without_impls [OF root(2)] root(3) by (simp add: crate_ok_def mod_items_without_impls)
  show "crate_events k' = crate_events k" using root(1) root' by (simp add: crate_events_def events_without_impls)
qed

section \<open>Function items and functions of the walk\<close>

lemma mod_items_module: "mod_items inner \<noteq> None \<longleftrightarrow> is_module (bare inner)"
proof (cases inner)
  case (StrippedItem i)
  then show ?thesis by (cases i) (simp_all add: bare_def is_module_def)
qed (simp_all add: bare_def is_module_def)

lemma in_modules_trans: "in_modules y x \<Longrightarrow> in_modules root y \<Longrightarrow> in_modules root x"
  by (induction rule: in_modules.induct) (auto intro: in_modules.inside)

lemma in_modules_renamed:
  assumes "in_modules r x" "item_inner r' = item_inner r"
  shows "x = r \<or> in_modules r' x"
  using assms(1)
proof (induction rule: in_modules.induct)
  case (inside m x)
  have "item_children r = item_children r'" by (simp add: item_children_def assms(2))
  then show ?case
    using inside in_modules.inside [OF in_modules.root, of r' x] in_modules.inside [of r' m x] assms(2) by auto
qed simp

lemma events_in_modules:
  "SeenFunction path name f \<in> set (item_events current item) \<Longrightarrow>
     \<exists>x. in_modules item x \<and> item_inner x = FunctionItem f \<and> item_name x = Some name"
proof (induction current item rule: item_events.induct)
  case (1 current item)
  show ?case
  proof (cases "mod_items (item_inner item)")
    case None
    then have "item_inner item = FunctionItem f \<and> item_name item = Some name"
      using "1.prems" by (cases "item_inner item"; cases "item_name item")
        (simp_all add: item_events.simps [of current item] function_event_def)
    then show ?thesis using in_modules.root by blast
  next
    case (Some items)
    obtain y where y: "y \<in> set items" "SeenFunction path name f \<in> set (item_events (current @ [the (item_name item)]) y)"
      using "1.prems" Some by (auto simp: item_events.simps [of current item] Let_def)
    from "1.IH" [OF Some refl, of y] y obtain x where
      x: "in_modules y x" "item_inner x = FunctionItem f" "item_name x = Some name" by auto
    have "in_modules item y"
      using in_modules.inside [OF in_modules.root, of item y] y(1) Some mod_items_module [of "item_inner item"]
      by (simp add: mod_items_children)
    then have "in_modules item x" by (rule in_modules_trans [OF x(1)])
    then show ?thesis using x(2,3) by blast
  qed
qed

lemma in_modules_events:
  "in_modules item x \<Longrightarrow> \<exists>cur. set (item_events cur x) \<subseteq> set (item_events current item)"
proof (induction rule: in_modules.induct)
  case (inside m x)
  then obtain cur where cur: "set (item_events cur m) \<subseteq> set (item_events current item)" by blast
  obtain items where items: "mod_items (item_inner m) = Some items"
    using inside.hyps(2) mod_items_module [of "item_inner m"] by auto
  have "set (item_events (cur @ [the (item_name m)]) x) \<subseteq> set (item_events cur m)"
    using inside.hyps(3) items by (auto simp: item_events.simps [of cur m] Let_def mod_items_children)
  then show ?case using cur by blast
qed blast

definition seen_functions :: "clean_crate \<Rightarrow> (string \<times> clean_function) set" where
  "seen_functions k = {(name, f). \<exists>path. SeenFunction path name f \<in> set (crate_events k)}"

lemma seen_functions_eq:
  assumes "crate_ok k"
  shows "seen_functions k =
    {(name, f). \<exists>x \<in> function_items k. item_inner x = FunctionItem f \<and> item_name x = Some name}"
proof (cases "krate_module k")
  case None
  then show ?thesis by (simp add: seen_functions_def crate_events_def crate_root_def function_items_def)
next
  case (Some m)
  let ?root = "set_name (Some (krate_name k)) m"
  have ev: "crate_events k = item_events [] ?root" using Some by (simp add: crate_events_def crate_root_def)
  have root: "item_inner m \<noteq> FunctionItem f" for f
    using assms Some by (auto simp: crate_ok_def crate_root_def)
  have same: "in_modules ?root x \<longleftrightarrow> in_modules m x" if "item_inner x = FunctionItem f" for x f
    using in_modules_renamed [of ?root x m] in_modules_renamed [of m x ?root] that root by auto
  have "(\<exists>path. SeenFunction path name f \<in> set (crate_events k)) \<longleftrightarrow>
      (\<exists>x. in_modules m x \<and> item_inner x = FunctionItem f \<and> item_name x = Some name)" for name f
  proof
    assume "\<exists>path. SeenFunction path name f \<in> set (crate_events k)"
    then show "\<exists>x. in_modules m x \<and> item_inner x = FunctionItem f \<and> item_name x = Some name"
      using events_in_modules [of _ name f "[]" ?root] ev same by metis
  next
    assume "\<exists>x. in_modules m x \<and> item_inner x = FunctionItem f \<and> item_name x = Some name"
    then obtain x where x: "in_modules ?root x" "item_inner x = FunctionItem f" "item_name x = Some name"
      using same by blast
    obtain cur where "set (item_events cur x) \<subseteq> set (crate_events k)"
      using in_modules_events [OF x(1)] ev by auto
    then show "\<exists>path. SeenFunction path name f \<in> set (crate_events k)"
      using x(2,3) by (auto simp: item_events.simps [of cur x] function_event_def)
  qed
  then show ?thesis using Some by (auto simp: seen_functions_def function_items_def)
qed

section \<open>The impl blocks of the cache\<close>

function all_items :: "(clean_item \<Rightarrow> bool) \<Rightarrow> clean_item \<Rightarrow> bool" where
  "all_items P item \<longleftrightarrow> P item \<and> list_all (all_items P) (item_children item)"
  by pat_completeness auto
termination
  by (relation "measure (size \<circ> snd)") (auto simp: size_item_children)

declare all_items.simps [simp del]

text \<open>The blocks of a cleaned crate: the trait is a path, and methods have names.\<close>

definition block_ok :: "clean_item \<Rightarrow> bool" where
  "block_ok item = (case item_inner item of ImplItem i \<Rightarrow> impl_ok (\<lambda>_. None) i | _ \<Rightarrow> True)"

lemma block_ok_without_impls:
  assumes "block_ok item" "item_inner item = ImplItem i"
  shows "impl_item_ok (\<lambda>_. None) (without_impls item)"
proof -
  let ?items = "List.map_filter (prune cache_verdict) (impl_items i)"
  have ok: "impl_ok (\<lambda>_. None) i" using assms by (simp add: block_ok_def)
  have "(case item_inner y of MethodItem _ \<Rightarrow> item_name y \<noteq> None | _ \<Rightarrow> True)" if y: "y \<in> set ?items" for y
  proof -
    obtain x where x: "x \<in> set (impl_items i)" "y = without_impls x"
      using y by (auto simp: set_map_filter prune_cache split: if_splits)
    have "item_name x \<noteq> None" if "item_inner x = MethodItem m" for m
      using ok x(1) that by (fastforce simp: impl_ok_def list_all_iff)
    then have "item_name y \<noteq> None" if "item_inner y = MethodItem m" for m
      using that x(2) inner_without_impls(2) without_impls_simps(1) by simp
    then show ?thesis by (cases "item_inner y") simp_all
  qed
  then show ?thesis
    using ok assms(2)
    by (simp add: impl_item_ok_def impl_block_def without_impls_def impl_ok_def list_all_iff item_children_def)
qed

lemma facts_blocks_ok:
  assumes "all_items block_ok item" "StoredImpl did x \<in> item_facts env c item"
  shows "impl_item_ok (\<lambda>_. None) x"
  using assms
proof (induction env c item rule: item_facts.induct)
  case (1 env c item)
  note parts = "1.prems"(1) [unfolded all_items.simps [of block_ok item]]
  consider "StoredImpl did x \<in> impl_facts env c item"
    | y where "y \<in> set (item_children item)" "StoredImpl did x \<in> item_facts env c y" "\<not> is_masked env item c"
  proof -
    have "StoredImpl did x \<notin> trait_facts item" by (cases "item_inner item") (simp_all add: trait_facts_def)
    then show thesis
      using "1.prems"(2) that by (auto simp: item_facts.simps [of env c item] split: if_splits)
  qed
  then show ?case
  proof cases
    case 1
    then obtain i where "item_inner item = ImplItem i" "x = without_impls item"
      by (cases "item_inner item") (auto simp: impl_facts_def)
    then show ?thesis using block_ok_without_impls parts by simp
  next
    case 2
    then show ?thesis using "1.IH" [OF 2(3,1)] parts by (simp add: list_all_iff)
  qed
qed

definition blocks_ok :: "clean_crate \<Rightarrow> bool" where
  "blocks_ok k \<longleftrightarrow> (case krate_module k of Some m \<Rightarrow> all_items block_ok m | None \<Rightarrow> True)"

lemma stored_blocks_ok:
  assumes "blocks_ok k" "entries m = stored_impls env (crate_facts env c k)" "distinct (map fst m)"
  shows "list_all (\<lambda>(did, items). list_all (impl_item_ok (\<lambda>_. None)) items) m"
proof -
  have "impl_item_ok (\<lambda>_. None) x" if e: "(did, xs) \<in> set m" "x \<in> set xs" for did xs x
  proof -
    have "(did, x) \<in> entries m" using e assms(3) by (auto simp: entries_def)
    then have "StoredImpl did x \<in> crate_facts env c k" using assms(2) by (simp add: stored_impls_def)
    then show ?thesis
      using assms(1) facts_blocks_ok by (auto simp: crate_facts_def blocks_ok_def split: option.splits)
  qed
  then show ?thesis by (auto simp: list_all_iff)
qed

section \<open>Example crates\<close>

lemma example_blocks_ok:
  "blocks_ok ((example_crate items)\<lparr>krate_name := n\<rparr>) \<longleftrightarrow> list_all (all_items block_ok) items"
  "all_items block_ok (example_item name did vis (FunctionItem (example_function args)))"
proof -
  let ?root = "example_item None 0 Public (ModuleItem (Module items True))"
    and ?i = "example_item name did vis (FunctionItem (example_function args))"
  have "item_children ?root = items" "block_ok ?root" "item_children ?i = []" "block_ok ?i"
    by (simp_all add: example_item_def item_children_def block_ok_def)
  then show "blocks_ok ((example_crate items)\<lparr>krate_name := n\<rparr>) \<longleftrightarrow> list_all (all_items block_ok) items"
    "all_items block_ok ?i"
    unfolding blocks_ok_def example_crate_def
    by (simp_all add: all_items.simps [of block_ok ?root] all_items.simps [of block_ok ?i])
qed

lemma example_crate_ok:
  "crate_root ((example_crate items)\<lparr>krate_name := n\<rparr>) \<noteq> None"
  "crate_ok ((example_crate items)\<lparr>krate_name := n\<rparr>) \<longleftrightarrow> n \<noteq> '''' \<and> list_all item_ok items"
  "crate_events ((example_crate items)\<lparr>krate_name := n\<rparr>) =
     SeenModule [n] Public # concat (map (item_events [n]) (rev items))"
proof -
  let ?root = "set_name (Some n) (example_item None 0 Public (ModuleItem (Module items True)))"
  have root: "crate_root ((example_crate items)\<lparr>krate_name := n\<rparr>) = Some ?root"
    by (simp add: crate_root_def example_crate_def)
  have facts: "mod_items (item_inner ?root) = Some items" "flat_here ?root" "item_visibility ?root = Public"
    by (simp_all add: example_item_def flat_here_def)
  show "crate_root ((example_crate items)\<lparr>krate_name := n\<rparr>) \<noteq> None" by (simp add: root)
  show "crate_ok ((example_crate items)\<lparr>krate_name := n\<rparr>) \<longleftrightarrow> n \<noteq> '''' \<and> list_all item_ok items"
    unfolding crate_ok_def root by (simp add: item_ok.simps [of ?root] facts item_here_ok_def del: set_name_simps(2))
  show "crate_events ((example_crate items)\<lparr>krate_name := n\<rparr>) =
     SeenModule [n] Public # concat (map (item_events [n]) (rev items))"
    unfolding crate_events_def root
    by (simp add: item_events.simps [of "[]" ?root] facts Let_def del: set_name_simps(2,3))
qed

lemma example_function_events:
  "item_ok (example_item name did vis (FunctionItem f))"
  "item_events current (example_item (Some n) did vis (FunctionItem f)) = [SeenFunction current n f]"
proof -
  let ?i = "\<lambda>name. example_item name did vis (FunctionItem f)"
  have "mod_items (item_inner (?i name)) = None" "flat_here (?i name)" "item_inner (?i name) = FunctionItem f"
    "item_name (?i name) = name" for name by (simp_all add: example_item_def flat_here_def)
  then show "item_ok (?i name)" "item_events current (?i (Some n)) = [SeenFunction current n f]"
    by (simp_all add: item_ok.simps [of "?i name"] item_here_ok_def item_events.simps [of current "?i (Some n)"] function_event_def)
qed

end
