(* ===== verification/Public_Api.thy ===== *)
theory Public_Api
  imports Crate_Api
begin

text \<open>
  The passes that strip hidden and private items keep a crate well-formed for everything after
  them (\<open>front_ok\<close>), so that the cache, the walk and the analysis of impl blocks return on what the
  passes leave.
\<close>

section \<open>Strippers keep items well-formed\<close>

text \<open>A stripper wraps only fields and modules in \<open>StrippedItem\<close>.\<close>

definition strips_leaves :: "(clean_item \<Rightarrow> verdict) \<Rightarrow> bool" where
  "strips_leaves v \<longleftrightarrow> (\<forall>i. v i \<in> {StripHere, DescendStripped} \<longrightarrow> is_field (item_inner i) \<or> is_module (item_inner i))"

lemma verdicts_strip_leaves:
  "strips_leaves (private_verdict levels)" "strips_leaves hidden_verdict"
  "strips_leaves import_verdict" "strips_leaves (impl_verdict pl kept)"
  by (auto simp: strips_leaves_def private_verdict_def hidden_verdict_def import_verdict_def impl_verdict_def
      split: if_splits)

lemma rebuild_keeps_kind:
  "is_member (rebuild inner xs) = is_member inner" "has_members (rebuild inner xs) = has_members inner"
  "search_types_named (rebuild inner xs) = search_types_named inner"
  "rebuild inner xs = MethodItem m \<longleftrightarrow> inner = MethodItem m"
proof -
  have "is_member (rebuild inner xs) = is_member inner \<and> has_members (rebuild inner xs) = has_members inner \<and>
      search_types_named (rebuild inner xs) = search_types_named inner \<and>
      (rebuild inner xs = MethodItem m \<longleftrightarrow> inner = MethodItem m)"
  proof (cases inner)
    case (VariantItem v)
    then show ?thesis
      by (cases "variant_kind v") (simp_all add: is_member_def has_members_def search_types_named_def)
  qed (simp_all add: is_member_def has_members_def search_types_named_def)
  then show "is_member (rebuild inner xs) = is_member inner" "has_members (rebuild inner xs) = has_members inner"
    "search_types_named (rebuild inner xs) = search_types_named inner"
    "rebuild inner xs = MethodItem m \<longleftrightarrow> inner = MethodItem m" by simp_all
qed

lemma stripped_is_leaf:
  assumes "is_stripped i"
  shows "\<not> is_member (item_inner i)" "\<not> has_members (item_inner i)" "search_types_named (item_inner i)"
    "item_inner i \<noteq> MethodItem m" "item_inner i \<noteq> ImplItem imp"
  using assms by (cases "item_inner i"; simp add: is_stripped_def is_member_def has_members_def search_types_named_def)+

lemma pruned_kind:
  assumes "strips_leaves v" "prune v i = Some j" "flat_here i"
  shows "is_member (item_inner j) \<Longrightarrow> is_member (item_inner i)" "has_members (item_inner j) = has_members (item_inner i)"
    "search_types_named (item_inner i) \<Longrightarrow> search_types_named (item_inner j)"
    "item_inner j = MethodItem m \<Longrightarrow> item_inner i = MethodItem m"
proof -
  note facts = prune_Some [OF assms(2,3)]
  have same: "item_inner j = item_inner i \<or> item_inner j = rebuild (item_inner i) (item_children j)" if "\<not> is_stripped j"
    using facts(8) [OF that] by (auto split: if_splits)
  have members: "\<not> has_members (item_inner i)" if "is_stripped j"
  proof (cases "is_stripped i")
    case False
    then have "v i \<in> {StripHere, DescendStripped}"
    proof -
      have "is_stripped j \<longrightarrow> v i \<in> {StripHere, DescendStripped} \<or> is_stripped i"
        using assms(2) by (cases "v i") (auto simp: prune.simps [of v i] stripped_rebuild)
      then show ?thesis using that False by blast
    qed
    then have "is_field (item_inner i) \<or> is_module (item_inner i)" using assms(1) unfolding strips_leaves_def by blast
    then show ?thesis by (cases "item_inner i") (simp_all add: is_field_def is_module_def has_members_def)
  qed (rule stripped_is_leaf)
  show "is_member (item_inner i)" if "is_member (item_inner j)"
    using that same stripped_is_leaf(1) rebuild_keeps_kind(1) by metis
  show "has_members (item_inner j) = has_members (item_inner i)"
    using same members stripped_is_leaf(2) rebuild_keeps_kind(2) by metis
  show "search_types_named (item_inner j)" if "search_types_named (item_inner i)"
    using that same stripped_is_leaf(3) rebuild_keeps_kind(3) by metis
  show "item_inner i = MethodItem m" if "item_inner j = MethodItem m"
    using that same stripped_is_leaf(4) rebuild_keeps_kind(4) by metis
qed

lemma method_case: "(case inner of MethodItem _ \<Rightarrow> P | _ \<Rightarrow> True) \<longleftrightarrow> (\<forall>m. inner = MethodItem m \<longrightarrow> P)"
  by (cases inner) simp_all

lemma pruned_child:
  assumes "prune v i = Some j" "flat_here i" "y \<in> set (item_children j)"
  shows "\<exists>x \<in> set (item_children i). y = x \<or> prune v x = Some y"
  using prune_Some(7) [OF assms(1,2)] assms(3) by (auto simp: set_map_filter split: if_splits)

lemma prune_wf:
  assumes "strips_leaves v" "item_wf member i" "prune v i = Some j"
  shows "item_wf member j"
  using assms(2,3)
proof (induction member i arbitrary: j rule: item_wf.induct)
  case (1 member i)
  note wf = item_wf_parts [OF "1.prems"(1)]
  note facts = prune_Some [OF "1.prems"(2) wf(1)] and kind = pruned_kind [OF assms(1) "1.prems"(2) wf(1)]
  have "item_wf (has_members (item_inner j)) y" if "y \<in> set (item_children j)" for y
    using pruned_child [OF "1.prems"(2) wf(1) that] "1.IH" wf(4) by (auto simp: kind(2))
  then show ?case
    using facts(2) kind(1,3) wf(2,3) by (auto simp: item_wf.simps [of member j] list_all_iff)
qed

lemma prune_item_ok:
  assumes "item_ok i" "prune v i = Some j"
  shows "item_ok j"
  using assms
proof (induction i arbitrary: j rule: item_ok.induct)
  case (1 i)
  have here: "item_here_ok i" and flat: "flat_here i"
    using "1.prems"(1) by (simp_all add: item_ok.simps [of i] item_here_ok_def)
  note facts = prune_Some [OF "1.prems"(2) flat]
  have mods: "mod_items (item_inner j) \<noteq> None \<longleftrightarrow> mod_items (item_inner i) \<noteq> None"
    unfolding mod_items_module by (rule facts(6))
  have "item_ok y" if j: "mod_items (item_inner j) = Some items" and y: "y \<in> set items" for items y
  proof -
    obtain is' where is': "mod_items (item_inner i) = Some is'" using mods j by auto
    obtain x where x: "x \<in> set is'" "y = x \<or> prune v x = Some y"
      using pruned_child [OF "1.prems"(2) flat] y mod_items_children [OF j] mod_items_children [OF is'] by auto
    have "item_ok x" using "1.prems"(1) x(1) is' by (simp add: item_ok.simps [of i] list_all_iff)
    then show ?thesis using x "1.IH" [OF is' x(1)] by blast
  qed
  moreover have "item_here_ok j" using here facts(2,4) mods by (simp add: item_here_ok_def)
  ultimately show ?case by (simp add: item_ok.simps [of j] list_all_iff split: option.split)
qed

lemma prune_blocks:
  assumes "strips_leaves v" "item_flat i" "all_items block_ok i" "prune v i = Some j"
  shows "all_items block_ok j"
  using assms(2-4)
proof (induction i arbitrary: j rule: item_flat.induct)
  case (1 i)
  note flat = item_flat_parts [OF "1.prems"(1)]
  have i: "block_ok i" "\<And>x. x \<in> set (item_children i) \<Longrightarrow> all_items block_ok x"
    using "1.prems"(2) by (simp_all add: all_items.simps [of block_ok i] list_all_iff)
  have "block_ok j"
  proof (cases "\<exists>imp. item_inner j = ImplItem imp")
    case True
    then obtain imp where imp: "item_inner j = ImplItem imp" ..
    obtain imp0 where imp0: "item_inner i = ImplItem imp0" "impl_trait imp0 = impl_trait imp"
      using prune_kind(3) [OF "1.prems"(3) flat(1) imp] by blast
    have "item_name y \<noteq> None" if y: "y \<in> set (impl_items imp)" "item_inner y = MethodItem m" for y m
    proof -
      obtain x where x: "x \<in> set (item_children i)" "y = x \<or> prune v x = Some y"
        using pruned_child [OF "1.prems"(3) flat(1)] y(1) imp by (auto simp: item_children_def)
      have here: "flat_here x" using flat(2) [OF x(1)] by (rule item_flat_parts)
      have "item_inner x = MethodItem m" "item_name y = item_name x"
        using x(2) y(2) pruned_kind(4) [OF assms(1) _ here] prune_Some(4) [OF _ here] by auto
      then show ?thesis
        using i(1) imp0(1) x(1) by (fastforce simp: block_ok_def impl_ok_def list_all_iff item_children_def)
    qed
    then have "list_all (\<lambda>item. case item_inner item of MethodItem _ \<Rightarrow> item_name item \<noteq> None | _ \<Rightarrow> True) (impl_items imp)"
      unfolding list_all_iff method_case by blast
    then show ?thesis using i(1) imp imp0 by (simp add: block_ok_def impl_ok_def)
  next
    case False
    then show ?thesis by (cases "item_inner j") (simp_all add: block_ok_def)
  qed
  moreover have "all_items block_ok y" if "y \<in> set (item_children j)" for y
    using pruned_child [OF "1.prems"(3) flat(1) that] "1.IH" flat(2) i(2) by blast
  ultimately show ?case by (simp add: all_items.simps [of block_ok j] list_all_iff)
qed

section \<open>Passes keep crates well-formed\<close>

text \<open>What the steps after the passes need of a crate.\<close>

definition front_ok :: "clean_crate \<Rightarrow> bool" where
  "front_ok k \<longleftrightarrow> crate_flat k \<and> crate_wf k \<and> blocks_ok k \<and> crate_ok k \<and> crate_root k \<noteq> None"

lemma root_ok:
  "crate_ok k \<Longrightarrow> krate_module k = Some m \<Longrightarrow>
     is_module (bare (item_inner m)) \<and> flat_here m \<and> krate_name k \<noteq> '''' \<and> list_all item_ok (item_children m)"
proof -
  assume k: "crate_ok k" "krate_module k = Some m"
  let ?r = "set_name (Some (krate_name k)) m"
  have r: "item_ok ?r" "mod_items (item_inner m) \<noteq> None"
    using k by (auto simp: crate_ok_def crate_root_def)
  obtain items where items: "mod_items (item_inner m) = Some items" using r(2) by blast
  have "flat_here ?r" "krate_name k \<noteq> ''''" "list_all item_ok items"
    using r(1) items by (auto simp: item_ok.simps [of ?r] item_here_ok_def)
  then show ?thesis
    using r(2) mod_items_module mod_items_children [OF items] by (auto simp: flat_here_def)
qed

lemma ok_of_root:
  assumes "krate_module k = Some m" "is_module (bare (item_inner m))" "flat_here m" "krate_name k \<noteq> ''''"
    "list_all item_ok (item_children m)"
  shows "crate_ok k" "crate_root k \<noteq> None"
proof -
  let ?r = "set_name (Some (krate_name k)) m"
  obtain items where items: "mod_items (item_inner m) = Some items"
    using assms(2) mod_items_module [of "item_inner m"] by auto
  have "flat_here ?r" using assms(3) by (simp add: flat_here_def)
  then have "item_ok ?r"
    using assms(4,5) items mod_items_children [OF items] by (simp add: item_ok.simps [of ?r] item_here_ok_def)
  then show "crate_ok k" using assms(1) items by (simp add: crate_ok_def crate_root_def)
  show "crate_root k \<noteq> None" using assms(1) by (simp add: crate_root_def)
qed

lemma prune_front_ok:
  assumes "strips_leaves v" "front_ok k"
    and keeps: "\<And>m. krate_module k = Some m \<Longrightarrow> is_module (bare (item_inner m)) \<Longrightarrow> v m \<noteq> Drop"
  shows "front_ok (crate_with (prune v) k)"
proof -
  have k: "crate_flat k" "crate_wf k" "blocks_ok k" "crate_ok k" "crate_root k \<noteq> None"
    using assms(2) by (simp_all add: front_ok_def)
  obtain m where m: "krate_module k = Some m" using k(5) by (auto simp: crate_root_def)
  note root = root_ok [OF k(4) m]
  have "prune v m \<noteq> None" using keeps [OF m] root prune_None by blast
  then obtain m' where m': "prune v m = Some m'" by blast
  note facts = prune_Some [OF m' conjunct1 [OF conjunct2 [OF root]]]
  have k': "krate_module (crate_with (prune v) k) = Some m'" "krate_name (crate_with (prune v) k) = krate_name k"
    using m m' by (simp_all add: crate_with_def)
  have "item_ok y" if "y \<in> set (item_children m')" for y
    using pruned_child [OF m' _ that] root prune_item_ok by (auto simp: list_all_iff)
  then have "crate_ok (crate_with (prune v) k)" "crate_root (crate_with (prune v) k) \<noteq> None"
    using ok_of_root [OF k'(1)] root facts(2,6) k'(2) by (auto simp: list_all_iff)
  moreover have "crate_wf (crate_with (prune v) k)"
    using prune_wf [OF assms(1) _ m'] k(2) m k'(1) by (simp add: crate_wf_def)
  moreover have "item_flat m" using k(1) m by (simp add: crate_flat_def crate_items_def)
  then have "blocks_ok (crate_with (prune v) k)"
    using prune_blocks [OF assms(1) _ _ m'] k(3) m k'(1) by (simp add: blocks_ok_def)
  ultimately show ?thesis using crate_with_flat [OF k(1)] by (simp add: front_ok_def)
qed

lemma private_front_ok:
  assumes "front_ok k"
  shows "front_ok (private_filtered pl levels k)"
  unfolding private_filtered_def
  by (intro prune_front_ok verdicts_strip_leaves assms verdict_keeps_modules)

lemma hidden_front_ok:
  assumes "front_ok k" "unstripped_crate k"
  shows "front_ok (hidden_filtered pl k)"
proof -
  have "hidden_verdict m \<noteq> Drop" if "krate_module k = Some m" "is_module (bare (item_inner m))" for m
  proof -
    have "\<not> is_stripped m" using assms(2) that(1) in_modules.root by (auto simp: unstripped_crate_def)
    then have "is_module (item_inner m)"
      using that(2) by (cases "item_inner m") (simp_all add: is_stripped_def bare_def is_module_def)
    then show ?thesis by (simp add: hidden_verdict_def)
  qed
  then show ?thesis
    unfolding hidden_filtered_def by (intro prune_front_ok verdicts_strip_leaves assms(1) verdict_keeps_modules)
qed

section \<open>A crate to run the passes on\<close>

lemma function_front_ok:
  assumes "item_inner i = FunctionItem (example_function args)"
  shows "item_wf member i" "all_items block_ok i" "item_ok i"
  using assms by (simp_all add: item_wf.simps [of member i] all_items.simps [of block_ok i] item_ok.simps [of i]
      item_here_ok_def item_children_def flat_here_def block_ok_def is_member_def search_types_named_def
      example_function_def types_named_def)

lemma example_fns_front_ok: "front_ok (example_crate [example_f, example_g])"
proof -
  have k: "(example_crate items)\<lparr>krate_name := ''c''\<rparr> = example_crate items" for items by (simp add: example_crate_def)
  have inner: "item_inner example_f = FunctionItem (example_function [])" "item_inner example_g = FunctionItem (example_function [])"
    by (simp_all add: example_f_def example_g_def example_item_def hide_def)
  note ok = inner [THEN function_front_ok(1)] inner [THEN function_front_ok(2)] inner [THEN function_front_ok(3)]
  have "crate_wf (example_crate [example_f, example_g])" "blocks_ok (example_crate [example_f, example_g])"
    "crate_ok (example_crate [example_f, example_g])" "crate_root (example_crate [example_f, example_g]) \<noteq> None"
    using example_crate_wf [where items = "[example_f, example_g]" and n = "''c''"] example_blocks_ok(1) [where items = "[example_f, example_g]" and n = "''c''"]
      example_crate_ok(1,2) [where items = "[example_f, example_g]" and n = "''c''"] ok by (simp_all add: k)
  then show ?thesis using example_fns_ok(1) by (simp add: front_ok_def)
qed

lemma example_public_functions:
  "{(name, f). \<exists>x \<in> function_items (example_crate [example_f, example_g]). item_inner x = FunctionItem f \<and>
     item_name x = Some name \<and> \<not> is_hidden (item_attrs x) \<and>
     (is_local (item_def_id x) \<longrightarrow> is_exported (\<lambda>_. Some PublicLevel) (item_def_id x))} = {(''f'', example_function [])}"
  unfolding example_fns_ok(2)
  by (auto simp: example_f_def example_g_def example_item_def hide_def is_hidden_def has_word_def
      meta_item_list_def attr_check_name_def is_exported_def less_eq_access_level_def)

end
