(* ===== verification/Doc_Comments.thy ===== *)
theory Doc_Comments
  imports Clean_Item
begin

text \<open>
  Documentation comments: how the attributes of an item are read (\<open>Attributes::from_ast\<close> of
  \<^verbatim>\<open>clean/types.rs\<close> with \<open>strip_doc_comment_decoration\<close> of \<^verbatim>\<open>librustc_ast/util/comments.rs\<close>), and what the
  passes \<^verbatim>\<open>collapse_docs.rs\<close> and \<^verbatim>\<open>unindent_comments.rs\<close> make of their texts. Texts are ASCII: a character
  is a byte. The smallest span around two spans is an argument (\<open>span_to\<close>). Errors reported to the
  compiler's handler are a list of positions and messages; \<open>usize::MAX\<close>, where it stands for a number
  that has not been found yet, is \<open>None\<close>.
\<close>

section \<open>Lines\<close>

definition is_whitespace :: "char \<Rightarrow> bool" where
  "is_whitespace c \<longleftrightarrow> c = CHR '' '' \<or> of_char c \<in> {9..13::nat}"

definition blank_line :: "string \<Rightarrow> bool" where
  "blank_line s \<longleftrightarrow> list_all is_whitespace s"

definition trim_start :: "string \<Rightarrow> string" where
  "trim_start s = dropWhile is_whitespace s"

text \<open>\<open>str::lines\<close>: the pieces between newlines, the last one only if it is not empty, without \<open>'\r'\<close> at their ends.\<close>

definition split_terminator :: "string \<Rightarrow> string list" where
  "split_terminator s = (let ps = str_split s newline in if last ps = [] then butlast ps else ps)"

definition strip_cr :: "string \<Rightarrow> string" where
  "strip_cr line = (if line \<noteq> [] \<and> last line = CHR 0x0D then butlast line else line)"

definition str_lines :: "string \<Rightarrow> string list" where
  "str_lines s = map strip_cr (split_terminator s)"

section \<open>Doc comments of the source\<close>

definition all_stars :: "string \<Rightarrow> bool" where
  "all_stars s \<longleftrightarrow> list_all (\<lambda>c. c = CHR ''*'') s"

text \<open>The indices \<open>i\<close> and \<open>j\<close> of the source delimit the lines that are left here.\<close>

definition vertical_trim :: "string list \<Rightarrow> string list" where
  "vertical_trim lines =
     (let ls = (if lines \<noteq> [] \<and> all_stars (hd lines) then tl lines else lines);
          ls = dropWhile blank_line ls;
          ls = (if ls \<noteq> [] \<and> all_stars (drop 1 (last ls)) then butlast ls else ls)
      in rev (dropWhile blank_line (rev ls)))"

record trim_state =
  trim_i :: "nat option"
  can_trim :: bool
  trim_first :: bool

text \<open>The loop over the characters of a line, from the \<open>j\<close>-th one; it ends with a \<open>break\<close>.\<close>

fun trim_line :: "nat \<Rightarrow> string \<Rightarrow> trim_state \<Rightarrow> trim_state" where
  "trim_line j [] st = st"
| "trim_line j (c # cs) st =
     (if (case trim_i st of Some i \<Rightarrow> j > i | None \<Rightarrow> False) \<or> c \<notin> set ''* '' \<union> {CHR 0x09} then st\<lparr>can_trim := False\<rparr>
      else if c = CHR ''*'' then
        if trim_first st then st\<lparr>trim_i := Some j, trim_first := False\<rparr>
        else if trim_i st \<noteq> Some j then st\<lparr>can_trim := False\<rparr> else st
      else trim_line (j + 1) cs st)"

fun trim_lines :: "string list \<Rightarrow> trim_state \<Rightarrow> trim_state" where
  "trim_lines [] st = st"
| "trim_lines (line # lines) st =
     (let st = trim_line 0 line st;
          st = (if (case trim_i st of Some i \<Rightarrow> i \<ge> length line | None \<Rightarrow> True) then st\<lparr>can_trim := False\<rparr> else st)
      in if \<not> can_trim st then st else trim_lines lines st)"

definition horizontal_trim :: "string list \<Rightarrow> string list" where
  "horizontal_trim lines =
     (let st = trim_lines lines \<lparr>trim_i = None, can_trim = True, trim_first = True\<rparr>
      in if can_trim st then map (\<lambda>line. case trim_i st of Some i \<Rightarrow> drop (i + 1) line | None \<Rightarrow> []) lines else lines)"

definition oneliners :: "string list" where
  "oneliners = [''///!'', ''///'', ''//!'', ''//'']"

definition strip_doc_comment_decoration :: "string \<Rightarrow> string outcome" where
  "strip_doc_comment_decoration comment =
     (case find (starts_with comment) oneliners of
        Some prefix \<Rightarrow> Done (drop (length prefix) comment)
      | None \<Rightarrow>
          if starts_with comment ''/*'' then
            if length comment < 5 then Panic IndexOutOfBounds
            else Done (str_join newline (horizontal_trim (vertical_trim
              (str_lines (take (length comment - 5) (drop 3 comment))))))
          else Panic (ExplicitPanic (''not a doc-comment: '' @ comment)))"

section \<open>Reading attributes\<close>

definition attr_doc_str :: "ast_attribute \<Rightarrow> string option" where
  "attr_doc_str attr =
     (case attr_kind attr of
        AttrDocComment s \<Rightarrow> Some s
      | AttrNormal path (Some kind) \<Rightarrow>
          if path = [''doc''] then meta_value_str (MetaItem path kind (attr_span attr)) else None
      | AttrNormal _ None \<Rightarrow> None)"

definition is_doc_comment :: "ast_attribute \<Rightarrow> bool" where
  "is_doc_comment attr = (case attr_kind attr of AttrDocComment _ \<Rightarrow> True | AttrNormal _ _ \<Rightarrow> False)"

definition attr_meta :: "ast_attribute \<Rightarrow> doc_meta option" where
  "attr_meta attr =
     (case attr_kind attr of
        AttrNormal path (Some kind) \<Rightarrow> Some (MetaItem path kind (attr_span attr)) | _ \<Rightarrow> None)"

fun extract_cfg :: "doc_meta \<Rightarrow> doc_meta option" where
  "extract_cfg (MetaItem _ (MetaList [NestedMeta cfg_mi]) _) =
     (if meta_path cfg_mi = [''cfg''] then
        (case meta_kind cfg_mi of MetaList [NestedMeta content_mi] \<Rightarrow> Some content_mi | _ \<Rightarrow> None)
      else None)"
| "extract_cfg _ = None"

definition nested_meta_list :: "nested_meta_item \<Rightarrow> nested_meta_item list option" where
  "nested_meta_list n =
     (case n of
        NestedMeta mi \<Rightarrow> (case meta_kind mi of MetaList l \<Rightarrow> Some l | _ \<Rightarrow> None)
      | NestedLiteral _ \<Rightarrow> None)"

text \<open>The two variables of \<open>extract_include\<close> after the loop over the list.\<close>

fun include_parts :: "nested_meta_item list \<Rightarrow> string option \<times> string option \<Rightarrow> string option \<times> string option" where
  "include_parts [] fc = fc"
| "include_parts (it # items) (filename, contents) =
     (if nested_check_name it ''file'' then
        include_parts items (case nested_value_str it of Some name \<Rightarrow> (Some name, contents) | None \<Rightarrow> (filename, contents))
      else if nested_check_name it ''contents'' then
        include_parts items (case nested_value_str it of Some docs \<Rightarrow> (filename, Some docs) | None \<Rightarrow> (filename, contents))
      else include_parts items (filename, contents))"

definition extract_include :: "doc_meta \<Rightarrow> (string \<times> string) option" where
  "extract_include mi =
     (case find (\<lambda>meta. nested_check_name meta ''include'') (nested_items mi) of
        None \<Rightarrow> None
      | Some meta \<Rightarrow>
          (case nested_meta_list meta of
             None \<Rightarrow> None
           | Some l \<Rightarrow>
               (case include_parts l (None, None) of
                  (Some filename, Some contents) \<Rightarrow> Some (filename, contents) | _ \<Rightarrow> None)))"

type_synonym diagnostic = "nat \<times> string"

definition nested_span :: "nested_meta_item \<Rightarrow> nat" where
  "nested_span n = (case n of NestedMeta mi \<Rightarrow> meta_span mi | NestedLiteral lit \<Rightarrow> lit_span lit)"

definition check_doc_attributes :: "doc_meta \<Rightarrow> diagnostic list" where
  "check_doc_attributes mi =
     map (\<lambda>meta. (nested_span meta, ''doc alias attribute expects a string: #[doc(alias = '' @ quote ''0'' @ '')]''))
       (filter (\<lambda>meta. nested_check_name meta ''alias'' \<and>
          (nested_value_str meta = None \<or> nested_value_str meta = Some '''')) (nested_items mi))"

definition has_doc_flag :: "item_attributes \<Rightarrow> string \<Rightarrow> bool" where
  "has_doc_flag attrs flag =
     list_ex (\<lambda>attr. attr_check_name attr ''doc'' \<and>
       (case meta_item_list attr of Some items \<Rightarrow> list_ex (\<lambda>it. nested_check_name it flag) items | None \<Rightarrow> False))
       (other_attrs attrs)"

text \<open>The variables the closure of \<open>from_ast\<close> changes, and the errors it reports.\<close>

record from_ast_state =
  fa_doc_strings :: "doc_fragment list"
  fa_sp :: "nat option"
  fa_cfg :: doc_cfg
  fa_doc_line :: nat
  fa_errors :: "diagnostic list"

definition read_doc :: "ast_attribute \<Rightarrow> string \<Rightarrow> from_ast_state \<Rightarrow> from_ast_state outcome" where
  "read_doc attr value st =
     obind (if is_doc_comment attr then strip_doc_comment_decoration value else Done value) (\<lambda>text.
       Done (st\<lparr>fa_doc_line := fa_doc_line st + length (str_lines text),
         fa_doc_strings := fa_doc_strings st @ [(if is_doc_comment attr then SugaredDoc else RawDoc) (fa_doc_line st) (attr_span attr) text],
         fa_sp := (case fa_sp st of None \<Rightarrow> Some (attr_span attr) | Some sp \<Rightarrow> Some sp)\<rparr>))"

definition read_meta :: "ast_attribute \<Rightarrow> doc_meta \<Rightarrow> from_ast_state \<Rightarrow> from_ast_state" where
  "read_meta attr mi st =
     (let st = st\<lparr>fa_errors := fa_errors st @ check_doc_attributes mi\<rparr> in
      case extract_cfg mi of
        Some cfg_mi \<Rightarrow>
          (case cfg_parse cfg_mi of
             Inr new_cfg \<Rightarrow> st\<lparr>fa_cfg := cfg_and (fa_cfg st) new_cfg\<rparr>
           | Inl e \<Rightarrow> st\<lparr>fa_errors := fa_errors st @ [(err_span e, err_msg e)]\<rparr>)
      | None \<Rightarrow>
          (case extract_include mi of
             Some (filename, contents) \<Rightarrow>
               st\<lparr>fa_doc_line := fa_doc_line st + length (str_lines contents),
                  fa_doc_strings := fa_doc_strings st @ [Include (fa_doc_line st) (attr_span attr) filename contents]\<rparr>
           | None \<Rightarrow> st))"

definition read_attr :: "ast_attribute \<Rightarrow> from_ast_state \<Rightarrow> from_ast_state outcome" where
  "read_attr attr st =
     (case attr_doc_str attr of
        Some value \<Rightarrow> read_doc attr value st
      | None \<Rightarrow>
          if attr_check_name attr ''doc'' then
            (case attr_meta attr of Some mi \<Rightarrow> Done (read_meta attr mi st) | None \<Rightarrow> Done st)
          else Done st)"

definition read_target_feature :: "nested_meta_item \<Rightarrow> doc_cfg \<Rightarrow> doc_cfg" where
  "read_target_feature attr cfg =
     (if nested_check_name attr ''enable'' then
        (case nested_value_str attr of
           Some feat \<Rightarrow>
             (case cfg_parse (MetaItem [''target_feature''] (MetaNameValue (AstLit (LitStr feat) 0)) 0) of
                Inr feat_cfg \<Rightarrow> cfg_and cfg feat_cfg | Inl _ \<Rightarrow> cfg)
         | None \<Rightarrow> cfg)
      else cfg)"

definition from_ast :: "ast_attribute list \<Rightarrow> (item_attributes \<times> diagnostic list) outcome" where
  "from_ast attrs =
     obind (ofold read_attr attrs \<lparr>fa_doc_strings = [], fa_sp = None, fa_cfg = CfgTrue, fa_doc_line = 0, fa_errors = []\<rparr>) (\<lambda>st.
       let cfg = fold read_target_feature (attr_lists attrs ''target_feature'') (fa_cfg st) in
       Done (\<lparr>doc_strings = fa_doc_strings st,
         other_attrs = filter (\<lambda>attr. attr_doc_str attr = None) attrs,
         attrs_cfg = (if cfg = CfgTrue then None else Some cfg),
         attrs_span = fa_sp st, attrs_links = [],
         inner_docs = (case find (\<lambda>a. attr_doc_str a \<noteq> None) attrs of None \<Rightarrow> True | Some a \<Rightarrow> attr_style a = InnerAttr)\<rparr>,
         fa_errors st))"

section \<open>What the attributes say\<close>

fun fragment_line :: "doc_fragment \<Rightarrow> nat" where
  "fragment_line (SugaredDoc n _ _) = n"
| "fragment_line (RawDoc n _ _) = n"
| "fragment_line (Include n _ _ _) = n"

text \<open>Every fragment starts at the line after the lines of the fragments before it.\<close>

fun lines_numbered :: "nat \<Rightarrow> doc_fragment list \<Rightarrow> bool" where
  "lines_numbered n [] = True"
| "lines_numbered n (f # fs) = (fragment_line f = n \<and> lines_numbered (n + length (str_lines (fragment_as_str f))) fs)"

definition count_lines :: "doc_fragment list \<Rightarrow> nat" where
  "count_lines fs = sum_list (map (length \<circ> str_lines \<circ> fragment_as_str) fs)"

text \<open>The texts \<open>strip_doc_comment_decoration\<close> does not panic on.\<close>

definition decorated :: "string \<Rightarrow> bool" where
  "decorated s \<longleftrightarrow> starts_with s ''//'' \<or> starts_with s ''/*'' \<and> 5 \<le> length s"

definition attr_decorated :: "ast_attribute \<Rightarrow> bool" where
  "attr_decorated attr = (case attr_kind attr of AttrDocComment s \<Rightarrow> decorated s | _ \<Rightarrow> True)"

text \<open>
  The configuration an attribute has, the documentation it has, and when it allows a session: an
  attribute whose configuration is not well-formed allows all.
\<close>

definition attr_cfg_meta :: "ast_attribute \<Rightarrow> doc_meta option" where
  "attr_cfg_meta attr =
     (if attr_doc_str attr = None \<and> attr_check_name attr ''doc'' then Option.bind (attr_meta attr) extract_cfg else None)"

definition attr_text :: "ast_attribute \<Rightarrow> string option" where
  "attr_text attr =
     (case attr_doc_str attr of
        Some value \<Rightarrow>
          if is_doc_comment attr then (case strip_doc_comment_decoration value of Done t \<Rightarrow> Some t | _ \<Rightarrow> None) else Some value
      | None \<Rightarrow>
          if attr_check_name attr ''doc'' \<and> attr_cfg_meta attr = None
          then map_option snd (Option.bind (attr_meta attr) extract_include) else None)"

definition attr_allows :: "(string \<times> string option) set \<Rightarrow> ast_attribute \<Rightarrow> bool" where
  "attr_allows config attr =
     (case attr_cfg_meta attr of
        Some mi \<Rightarrow> cfg_syntax (NestedMeta mi) \<longrightarrow> meta_holds config (NestedMeta mi) | None \<Rightarrow> True)"

definition enabled_features :: "ast_attribute list \<Rightarrow> string list" where
  "enabled_features attrs =
     List.map_filter (\<lambda>a. if nested_check_name a ''enable'' then nested_value_str a else None) (attr_lists attrs ''target_feature'')"

lemma strip_decorated:
  assumes "decorated s"
  shows "\<exists>t. strip_doc_comment_decoration s = Done t"
proof (cases "find (starts_with s) oneliners")
  case None
  then have "\<not> starts_with s ''//''" by (auto simp: oneliners_def split: if_splits)
  then have "starts_with s ''/*''" "5 \<le> length s" using assms by (auto simp: decorated_def)
  then show ?thesis using None by (auto simp: strip_doc_comment_decoration_def)
qed (simp add: strip_doc_comment_decoration_def)

lemma lines_numbered_append: "lines_numbered n (fs @ gs) \<longleftrightarrow> lines_numbered n fs \<and> lines_numbered (n + count_lines fs) gs"
  by (induction fs arbitrary: n) (auto simp: count_lines_def add.assoc)

text \<open>What one attribute does to the state, and what all of them do.\<close>

definition reads_more :: "string list \<Rightarrow> ((string \<times> string option) set \<Rightarrow> bool) \<Rightarrow> from_ast_state \<Rightarrow> from_ast_state \<Rightarrow> bool" where
  "reads_more texts allows st st' \<longleftrightarrow>
     (\<exists>fs. fa_doc_strings st' = fa_doc_strings st @ fs \<and> map fragment_as_str fs = texts \<and>
        lines_numbered (fa_doc_line st) fs \<and> fa_doc_line st' = fa_doc_line st + count_lines fs) \<and>
     (\<forall>config. cfg_matches config (fa_cfg st') \<longleftrightarrow> cfg_matches config (fa_cfg st) \<and> allows config) \<and>
     (cfg_normal (fa_cfg st) \<longrightarrow> cfg_normal (fa_cfg st'))"

lemma reads_more_trans:
  "reads_more ts p st st' \<Longrightarrow> reads_more us q st' st'' \<Longrightarrow> reads_more (ts @ us) (\<lambda>config. p config \<and> q config) st st''"
  unfolding reads_more_def by (fastforce simp: lines_numbered_append count_lines_def)

lemma read_attr_more:
  assumes "attr_decorated attr"
  shows "\<exists>st'. read_attr attr st = Done st' \<and>
    reads_more (case attr_text attr of Some t \<Rightarrow> [t] | None \<Rightarrow> []) (\<lambda>config. attr_allows config attr) st st'"
proof (cases "attr_doc_str attr")
  case (Some v)
  obtain t where t: "(if is_doc_comment attr then strip_doc_comment_decoration v else Done v) = Done t"
    using assms Some strip_decorated
    by (cases "attr_kind attr") (auto simp: attr_decorated_def attr_doc_str_def is_doc_comment_def)
  then have "attr_text attr = Some t" using Some by (auto simp: attr_text_def split: if_splits)
  moreover have "attr_allows config attr" for config using Some by (simp add: attr_allows_def attr_cfg_meta_def)
  ultimately show ?thesis
    using Some t by (simp add: read_attr_def read_doc_def reads_more_def count_lines_def)
next
  case None
  show ?thesis
  proof (cases "attr_check_name attr ''doc'' \<and> attr_meta attr \<noteq> None")
    case False
    then have "read_attr attr st = Done st" "attr_cfg_meta attr = None" "attr_text attr = None"
      using None by (auto simp: read_attr_def attr_cfg_meta_def attr_text_def split: option.split)
    then show ?thesis by (simp add: reads_more_def count_lines_def attr_allows_def)
  next
    case True
    then obtain mi where mi: "attr_meta attr = Some mi" by blast
    have read: "read_attr attr st = Done (read_meta attr mi st)" using None True mi by (simp add: read_attr_def)
    have cfg: "attr_cfg_meta attr = extract_cfg mi" using None True mi by (simp add: attr_cfg_meta_def)
    show ?thesis
    proof (cases "extract_cfg mi")
      case None
      then have "attr_text attr = map_option snd (extract_include mi)"
        using \<open>attr_doc_str attr = None\<close> True mi cfg by (simp add: attr_text_def)
      then show ?thesis
        using read cfg None
        by (auto simp: read_meta_def reads_more_def count_lines_def attr_allows_def split: option.split)
    next
      case (Some cfg_mi)
      then have "attr_text attr = None" using \<open>attr_doc_str attr = None\<close> cfg by (simp add: attr_text_def)
      moreover have "reads_as (NestedMeta cfg_mi) (cfg_parse cfg_mi)"
        using parse_nested_reads [of "NestedMeta cfg_mi"] by (simp add: cfg_parse_def)
      ultimately show ?thesis
        using read cfg Some
        by (cases "cfg_parse cfg_mi")
          (auto simp: read_meta_def Let_def reads_more_def count_lines_def attr_allows_def reads_as_def)
    qed
  qed
qed

lemma read_attrs_more:
  "list_all attr_decorated attrs \<Longrightarrow> \<exists>st'. ofold read_attr attrs st = Done st' \<and>
     reads_more (List.map_filter attr_text attrs) (\<lambda>config. list_all (attr_allows config) attrs) st st'"
proof (induction attrs arbitrary: st)
  case Nil
  then show ?case by (simp add: reads_more_def count_lines_def map_filter_simps)
next
  case (Cons attr attrs)
  obtain st1 where st1: "read_attr attr st = Done st1"
      "reads_more (case attr_text attr of Some t \<Rightarrow> [t] | None \<Rightarrow> []) (\<lambda>config. attr_allows config attr) st st1"
    using read_attr_more [of attr st] Cons.prems by auto
  obtain st2 where st2: "ofold read_attr attrs st1 = Done st2"
      "reads_more (List.map_filter attr_text attrs) (\<lambda>config. list_all (attr_allows config) attrs) st1 st2"
    using Cons.IH [of st1] Cons.prems by auto
  have "List.map_filter attr_text (attr # attrs) = (case attr_text attr of Some t \<Rightarrow> [t] | None \<Rightarrow> []) @ List.map_filter attr_text attrs"
    by (simp add: map_filter_simps split: option.split)
  then show ?case using reads_more_trans [OF st1(2) st2(2)] st1(1) st2(1) by simp
qed

lemma read_features:
  "cfg_matches config (fold read_target_feature l c) \<longleftrightarrow> cfg_matches config c \<and>
     (\<forall>feat \<in> set (List.map_filter (\<lambda>a. if nested_check_name a ''enable'' then nested_value_str a else None) l).
        (''target_feature'', Some feat) \<in> config)"
  "cfg_normal c \<Longrightarrow> cfg_normal (fold read_target_feature l c)"
  by (induction l arbitrary: c)
    (auto simp: map_filter_simps read_target_feature_def cfg_parse_def parse_with_def split: option.split if_splits)

definition allows_session :: "(string \<times> string option) set \<Rightarrow> item_attributes \<Rightarrow> bool" where
  "allows_session config attrs = (case attrs_cfg attrs of Some c \<Rightarrow> cfg_matches config c | None \<Rightarrow> True)"

text \<open>
  C18: \<open>from_ast\<close> returns on all attributes whose doc comments are comments. The fragments have the
  texts of the attributes in their order, and start at the lines they have in the whole
  documentation; the attributes that are no documentation are kept; and the item is marked for
  exactly the sessions all its well-formed configurations and enabled target features allow, by a
  formula in normal form.
\<close>

theorem from_ast_correct:
  assumes "list_all attr_decorated attrs"
  shows "\<exists>a errors. from_ast attrs = Done (a, errors) \<and>
    map fragment_as_str (doc_strings a) = List.map_filter attr_text attrs \<and> lines_numbered 0 (doc_strings a) \<and>
    other_attrs a = filter (\<lambda>attr. attr_doc_str attr = None) attrs \<and>
    (\<forall>config. allows_session config a \<longleftrightarrow>
       list_all (attr_allows config) attrs \<and> (\<forall>feat \<in> set (enabled_features attrs). (''target_feature'', Some feat) \<in> config)) \<and>
    (\<forall>c. attrs_cfg a = Some c \<longrightarrow> cfg_normal c)"
proof -
  let ?st = "\<lparr>fa_doc_strings = [], fa_sp = None, fa_cfg = CfgTrue, fa_doc_line = 0, fa_errors = []\<rparr>"
  obtain st where st: "ofold read_attr attrs ?st = Done st"
      "reads_more (List.map_filter attr_text attrs) (\<lambda>config. list_all (attr_allows config) attrs) ?st st"
    using read_attrs_more [OF assms, of ?st] by blast
  let ?cfg = "fold read_target_feature (attr_lists attrs ''target_feature'') (fa_cfg st)"
  have "cfg_matches config ?cfg \<longleftrightarrow> list_all (attr_allows config) attrs \<and>
      (\<forall>feat \<in> set (enabled_features attrs). (''target_feature'', Some feat) \<in> config)" for config
    using st(2) by (simp add: read_features(1) enabled_features_def reads_more_def)
  moreover have "cfg_normal ?cfg" using st(2) by (intro read_features(2)) (simp add: reads_more_def)
  moreover have "map fragment_as_str (fa_doc_strings st) = List.map_filter attr_text attrs" "lines_numbered 0 (fa_doc_strings st)"
    using st(2) by (auto simp: reads_more_def)
  ultimately show ?thesis
    by (cases "?cfg = CfgTrue") (auto simp: from_ast_def st(1) Let_def allows_session_def)
qed

definition example_attrs :: "ast_attribute list" where
  "example_attrs =
     [\<lparr>attr_kind = AttrDocComment ''/// a'', attr_id = 0, attr_style = OuterAttr, attr_span = 1\<rparr>,
      \<lparr>attr_kind = AttrNormal [''doc''] (Some (MetaList [NestedMeta (MetaItem [''cfg'']
         (MetaList [NestedMeta (MetaItem [''unix''] MetaWord 2)]) 2)])), attr_id = 1, attr_style = OuterAttr, attr_span = 2\<rparr>]"

theorem from_ast_correct_witness:
  "list_all attr_decorated example_attrs \<and>
   (\<exists>a errors. from_ast example_attrs = Done (a, errors) \<and> map fragment_as_str (doc_strings a) = ['' a''] \<and>
      lines_numbered 0 (doc_strings a) \<and> allows_session {(''unix'', None)} a \<and> \<not> allows_session {} a)"
proof
  have attr: "list_all attr_decorated example_attrs" "List.map_filter attr_text example_attrs = ['' a'']"
      "enabled_features example_attrs = []"
      "list_all (attr_allows {(''unix'', None)}) example_attrs" "\<not> list_all (attr_allows {}) example_attrs"
    by (simp_all add: example_attrs_def attr_decorated_def decorated_def starts_with_def map_filter_simps attr_text_def
        attr_doc_str_def is_doc_comment_def strip_doc_comment_decoration_def oneliners_def attr_cfg_meta_def
        attr_check_name_def attr_meta_def meta_value_str_def attr_allows_def enabled_features_def meta_item_list_def)
  show "list_all attr_decorated example_attrs" by (rule attr(1))
  show "\<exists>a errors. from_ast example_attrs = Done (a, errors) \<and> map fragment_as_str (doc_strings a) = ['' a''] \<and>
      lines_numbered 0 (doc_strings a) \<and> allows_session {(''unix'', None)} a \<and> \<not> allows_session {} a"
    using from_ast_correct [OF attr(1)] attr(2-5) by auto
qed

text \<open>
  The last line of a block comment is dropped when everything after its first character is stars,
  so a line of one character is lost.
\<close>

lemma short_block_comment_lost: "strip_doc_comment_decoration ''/**x*/'' = Done ''''"
proof -
  have "str_lines ''x'' = [''x'']"
    by (simp add: str_lines_def split_terminator_def str_split_def newline_def starts_with_def Let_def strip_cr_def)
  moreover have "vertical_trim [''x''] = []" by (simp add: vertical_trim_def all_stars_def blank_line_def is_whitespace_def)
  ultimately show ?thesis
    by (simp add: strip_doc_comment_decoration_def oneliners_def starts_with_def horizontal_trim_def)
qed

section \<open>Collapsing\<close>

datatype doc_fragment_kind = SugaredKind | RawKind | IncludeKind

fun fragment_kind :: "doc_fragment \<Rightarrow> doc_fragment_kind" where
  "fragment_kind (SugaredDoc _ _ _) = SugaredKind"
| "fragment_kind (RawDoc _ _ _) = RawKind"
| "fragment_kind (Include _ _ _ _) = IncludeKind"

fun fragment_span :: "doc_fragment \<Rightarrow> nat" where
  "fragment_span (SugaredDoc _ sp _) = sp"
| "fragment_span (RawDoc _ sp _) = sp"
| "fragment_span (Include _ sp _ _) = sp"

text \<open>\<open>String::from_iter\<close> of fragments.\<close>

definition join_fragments :: "doc_fragment list \<Rightarrow> string" where
  "join_fragments frags =
     foldl (\<lambda>acc frag. (if acc \<noteq> '''' then acc @ newline else acc) @ fragment_as_str frag) '''' frags"

definition collapsed_doc_value :: "item_attributes \<Rightarrow> string option" where
  "collapsed_doc_value attrs = (if doc_strings attrs \<noteq> [] then Some (join_fragments (doc_strings attrs)) else None)"

fun pad_fragment :: "doc_fragment \<Rightarrow> doc_fragment" where
  "pad_fragment (SugaredDoc n sp s) = SugaredDoc n sp (s @ newline)"
| "pad_fragment (RawDoc n sp s) = RawDoc n sp (s @ newline)"
| "pad_fragment f = f"

fun merge_fragment :: "(nat \<Rightarrow> nat \<Rightarrow> nat) \<Rightarrow> doc_fragment \<Rightarrow> doc_fragment \<Rightarrow> doc_fragment outcome" where
  "merge_fragment span_to (SugaredDoc n sp s) frag =
     Done (SugaredDoc n (span_to sp (fragment_span frag)) (s @ newline @ fragment_as_str frag))"
| "merge_fragment span_to (RawDoc n sp s) frag =
     Done (RawDoc n (span_to sp (fragment_span frag)) (s @ newline @ fragment_as_str frag))"
| "merge_fragment span_to _ frag = Panic (ExplicitPanic ''unreachable'')"

text \<open>One round of the loop on \<open>docs\<close> and \<open>last_frag\<close>.\<close>

definition collapse_step ::
  "(nat \<Rightarrow> nat \<Rightarrow> nat) \<Rightarrow> doc_fragment \<Rightarrow> doc_fragment list \<times> doc_fragment option \<Rightarrow>
     (doc_fragment list \<times> doc_fragment option) outcome" where
  "collapse_step span_to frag st =
     (case st of
        (docs, None) \<Rightarrow> Done (docs, Some frag)
      | (docs, Some curr_frag) \<Rightarrow>
          if fragment_kind curr_frag = IncludeKind \<or> fragment_kind curr_frag \<noteq> fragment_kind frag
          then Done (docs @ [pad_fragment curr_frag], Some frag)
          else omap (\<lambda>f. (docs, Some f)) (merge_fragment span_to curr_frag frag))"

definition collapse :: "(nat \<Rightarrow> nat \<Rightarrow> nat) \<Rightarrow> doc_fragment list \<Rightarrow> doc_fragment list outcome" where
  "collapse span_to frags =
     obind (ofold (collapse_step span_to) frags ([], None)) (\<lambda>(docs, last_frag).
       Done (case last_frag of Some frag \<Rightarrow> docs @ [frag] | None \<Rightarrow> docs))"

text \<open>
  The runs of fragments that are put together, and the fragment of a run: its first one with the
  text of all.
\<close>

definition mergeable :: "doc_fragment \<Rightarrow> doc_fragment \<Rightarrow> bool" where
  "mergeable f g \<longleftrightarrow> fragment_kind f \<noteq> IncludeKind \<and> fragment_kind f = fragment_kind g"

fun separated :: "doc_fragment list \<Rightarrow> bool" where
  "separated (f # g # fs) = (\<not> mergeable f g \<and> separated (g # fs))"
| "separated _ = True"

definition visible_text :: "doc_fragment list \<Rightarrow> string" where
  "visible_text frags = concat (map (filter (\<lambda>c. c \<noteq> CHR 0x0A) \<circ> fragment_as_str) frags)"

lemma pad_fragment_simps [simp]:
  "fragment_kind (pad_fragment f) = fragment_kind f"
  "filter (\<lambda>c. c \<noteq> CHR 0x0A) (fragment_as_str (pad_fragment f)) = filter (\<lambda>c. c \<noteq> CHR 0x0A) (fragment_as_str f)"
  by (cases f; simp add: newline_def)+

lemma visible_text_simps [simp]:
  "visible_text [] = []"
  "visible_text (f # fs) = filter (\<lambda>c. c \<noteq> CHR 0x0A) (fragment_as_str f) @ visible_text fs"
  "visible_text (fs @ gs) = visible_text fs @ visible_text gs"
  by (simp_all add: visible_text_def)

lemma separated_append:
  "separated (fs @ [f, g]) \<longleftrightarrow> separated (fs @ [f]) \<and> \<not> mergeable f g"
  by (induction fs rule: separated.induct) auto

lemma separated_last: "fragment_kind f = fragment_kind g \<Longrightarrow> separated (fs @ [f]) = separated (fs @ [g])"
  by (induction fs rule: separated.induct) (auto simp: mergeable_def)

lemma collapse_loop:
  assumes "separated (docs @ [cur])"
  shows "\<exists>docs' cur'. ofold (collapse_step span_to) frags (docs, Some cur) = Done (docs', Some cur') \<and>
    separated (docs' @ [cur']) \<and> visible_text (docs' @ [cur']) = visible_text (docs @ [cur]) @ visible_text frags"
  using assms
proof (induction frags arbitrary: docs cur)
  case Nil
  then show ?case by simp
next
  case (Cons f frags)
  show ?case
  proof (cases "mergeable cur f")
    case False
    then have "collapse_step span_to f (docs, Some cur) = Done (docs @ [pad_fragment cur], Some f)"
      by (auto simp: collapse_step_def mergeable_def)
    moreover have "separated ((docs @ [pad_fragment cur]) @ [f])"
      using False Cons.prems separated_last [of "pad_fragment cur" cur]
      by (simp add: separated_append mergeable_def)
    ultimately show ?thesis using Cons.IH [of "docs @ [pad_fragment cur]" f] by simp
  next
    case True
    then obtain m where m: "merge_fragment span_to cur f = Done m" "fragment_kind m = fragment_kind cur"
        "visible_text [m] = visible_text [cur] @ visible_text [f]"
      by (cases cur) (auto simp: mergeable_def newline_def)
    then have "collapse_step span_to f (docs, Some cur) = Done (docs, Some m)"
      using True by (auto simp: collapse_step_def mergeable_def)
    moreover have "separated (docs @ [m])" using Cons.prems separated_last [OF m(2)] by simp
    ultimately show ?thesis using Cons.IH [of docs m] m(3) by simp
  qed
qed

lemma collapse_run:
  assumes "list_all (mergeable f) frags"
  shows "\<exists>g. ofold (collapse_step span_to) frags (docs, Some f) = Done (docs, Some g) \<and>
    fragment_kind g = fragment_kind f \<and> fragment_line g = fragment_line f \<and>
    fragment_as_str g = str_join newline (map fragment_as_str (f # frags))"
  using assms
proof (induction frags arbitrary: f)
  case (Cons h frags)
  then obtain m where m: "merge_fragment span_to f h = Done m" "fragment_kind m = fragment_kind f"
      "fragment_line m = fragment_line f" "fragment_as_str m = fragment_as_str f @ newline @ fragment_as_str h"
    by (cases f) (auto simp: mergeable_def)
  then have "collapse_step span_to h (docs, Some f) = Done (docs, Some m)"
    using Cons.prems by (auto simp: collapse_step_def mergeable_def)
  moreover have "list_all (mergeable m) frags" using Cons.prems m(2) by (auto simp: mergeable_def list_all_iff)
  ultimately show ?case using Cons.IH [of m] m by (cases frags) auto
qed simp

text \<open>
  C20: \<open>collapse\<close> returns, leaves no two neighbours that could be put together, and changes the text
  only by line breaks. Documentation that is all doc comments, or all \<open>doc\<close> attributes, becomes one
  fragment: its lines are those of the fragments, and it starts where the first one did.
\<close>

theorem collapse_correct:
  "(\<exists>out. collapse span_to frags = Done out \<and> separated out \<and> visible_text out = visible_text frags) \<and>
   (\<forall>f fs. frags = f # fs \<longrightarrow> list_all (mergeable f) fs \<longrightarrow>
      (\<exists>g. collapse span_to frags = Done [g] \<and> fragment_kind g = fragment_kind f \<and> fragment_line g = fragment_line f \<and>
         fragment_as_str g = str_join newline (map fragment_as_str frags)))"
proof
  show "\<exists>out. collapse span_to frags = Done out \<and> separated out \<and> visible_text out = visible_text frags"
  proof (cases frags)
    case Nil
    then show ?thesis by (simp add: collapse_def)
  next
    case (Cons f fs)
    then show ?thesis
      using collapse_loop [of "[]" f span_to fs] by (auto simp: collapse_def collapse_step_def)
  qed
  show "\<forall>f fs. frags = f # fs \<longrightarrow> list_all (mergeable f) fs \<longrightarrow>
      (\<exists>g. collapse span_to frags = Done [g] \<and> fragment_kind g = fragment_kind f \<and> fragment_line g = fragment_line f \<and>
         fragment_as_str g = str_join newline (map fragment_as_str frags))"
  proof (intro allI impI)
    fix f fs assume "frags = f # fs" "list_all (mergeable f) fs"
    with collapse_run [of f fs span_to "[]"]
    show "\<exists>g. collapse span_to frags = Done [g] \<and> fragment_kind g = fragment_kind f \<and> fragment_line g = fragment_line f \<and>
         fragment_as_str g = str_join newline (map fragment_as_str frags)"
      by (auto simp: collapse_def collapse_step_def)
  qed
qed

theorem collapse_correct_witness:
  "\<exists>g. collapse max [SugaredDoc 0 3 ''a'', SugaredDoc 1 7 ''b''] = Done [g] \<and> fragment_kind g = SugaredKind \<and>
     fragment_line g = 0 \<and> fragment_as_str g = ''a'' @ newline @ ''b''"
  using collapse_correct [of max "[SugaredDoc 0 3 ''a'', SugaredDoc 1 7 ''b'']"] by (simp add: mergeable_def)

section \<open>Unindenting\<close>

definition is_indent :: "char \<Rightarrow> bool" where
  "is_indent c \<longleftrightarrow> c = CHR '' '' \<or> c = CHR 0x09"

text \<open>The number \<open>whitespace\<close> of leading spaces and tabs.\<close>

definition indent :: "string \<Rightarrow> nat" where
  "indent line = length (takeWhile is_indent line)"

record indent_state =
  min_indent :: "nat option"
  saw_first_line :: bool
  saw_second_line :: bool

definition indent_step :: "string \<Rightarrow> indent_state \<Rightarrow> indent_state" where
  "indent_step line st =
     (let ignore_previous_indents = saw_first_line st \<and> \<not> saw_second_line st \<and> \<not> blank_line line;
          min_indent' = (if ignore_previous_indents then None else min_indent st);
          st = (if saw_first_line st then st\<lparr>saw_second_line := True\<rparr> else st)
      in if blank_line line then st\<lparr>min_indent := min_indent'\<rparr>
         else st\<lparr>saw_first_line := True,
           min_indent := Some (case min_indent' of None \<Rightarrow> indent line | Some m \<Rightarrow> min m (indent line))\<rparr>)"

text \<open>The minimum the fold over the lines returns.\<close>

definition fold_indent :: "string list \<Rightarrow> nat option" where
  "fold_indent lines =
     min_indent (fold indent_step lines \<lparr>min_indent = None, saw_first_line = False, saw_second_line = False\<rparr>)"

definition unindent_line :: "nat option \<Rightarrow> string \<Rightarrow> string outcome" where
  "unindent_line m line =
     (if blank_line line then Done line
      else case m of
        Some m \<Rightarrow> if length line \<ge> m then Done (drop m line)
                  else Panic (ExplicitPanic ''assertion failed: line.len() >= min_indent'')
      | None \<Rightarrow> Panic (ExplicitPanic ''assertion failed: line.len() >= min_indent''))"

definition unindent :: "string \<Rightarrow> string outcome" where
  "unindent s =
     (case str_lines s of
        [] \<Rightarrow> Done s
      | l # ls \<Rightarrow>
          obind (omapM (unindent_line (fold_indent (l # ls))) ls) (\<lambda>ls.
            Done (str_join newline (trim_start l # ls))))"

fun unindent_fragment :: "doc_fragment \<Rightarrow> doc_fragment outcome" where
  "unindent_fragment (SugaredDoc n sp s) = omap (SugaredDoc n sp) (unindent s)"
| "unindent_fragment (RawDoc n sp s) = omap (RawDoc n sp) (unindent s)"
| "unindent_fragment (Include n sp file s) = omap (Include n sp file) (unindent s)"

definition unindent_fragments :: "doc_fragment list \<Rightarrow> doc_fragment list outcome" where
  "unindent_fragments docs = omapM unindent_fragment docs"

text \<open>After the second line, the fold takes the minimum with every line that is not blank.\<close>

lemma fold_indent_rest:
  assumes "saw_first_line st" "saw_second_line st" "min_indent st = Some m"
  shows "\<exists>m'. min_indent (fold indent_step lines st) = Some m' \<and> m' \<le> m \<and>
    (\<forall>l \<in> set lines. \<not> blank_line l \<longrightarrow> m' \<le> indent l)"
  using assms
proof (induction lines arbitrary: st m)
  case (Cons l lines)
  let ?m = "if blank_line l then m else min m (indent l)"
  have st: "saw_first_line (indent_step l st)" "saw_second_line (indent_step l st)" "min_indent (indent_step l st) = Some ?m"
    using Cons.prems by (simp_all add: indent_step_def Let_def)
  show ?case using Cons.IH [OF st] by (auto split: if_splits intro: order_trans)
qed simp

lemma fold_indent_later:
  assumes "\<not> blank_line l" "x \<in> set ls" "\<not> blank_line x"
  shows "\<exists>m. fold_indent (l # ls) = Some m \<and> (\<forall>y \<in> set ls. \<not> blank_line y \<longrightarrow> m \<le> indent y)"
proof -
  obtain l2 ls2 where ls: "ls = l2 # ls2" using assms(2) by (cases ls) auto
  let ?st = "indent_step l2 (indent_step l \<lparr>min_indent = None, saw_first_line = False, saw_second_line = False\<rparr>)"
  have "saw_first_line ?st" "saw_second_line ?st" "min_indent ?st = Some (if blank_line l2 then indent l else indent l2)"
    using assms(1) by (simp_all add: indent_step_def Let_def)
  from fold_indent_rest [OF this, of ls2] show ?thesis by (auto simp: fold_indent_def ls)
qed

lemma indent_prefix: "m \<le> indent l \<Longrightarrow> m \<le> length l \<and> list_all is_indent (take m l)"
proof
  assume m: "m \<le> indent l"
  show "m \<le> length l" using m length_takeWhile_le [of is_indent l] by (simp add: indent_def)
  have "take m l = take m (takeWhile is_indent l)" using m by (metis indent_def min.absorb1 take_take takeWhile_eq_take)
  then show "list_all is_indent (take m l)" by (metis in_set_takeD list_all_iff set_takeWhileD)
qed

lemma unindent_returns:
  assumes "str_lines s = l # ls" "\<not> blank_line l"
  shows "\<exists>m. unindent s = Done (str_join newline (trim_start l # map (\<lambda>x. if blank_line x then x else drop m x) ls)) \<and>
    (\<forall>x \<in> set ls. \<not> blank_line x \<longrightarrow> m \<le> length x \<and> list_all is_indent (take m x))"
proof (cases "\<exists>x \<in> set ls. \<not> blank_line x")
  case True
  then obtain m where m: "fold_indent (l # ls) = Some m" "\<forall>y \<in> set ls. \<not> blank_line y \<longrightarrow> m \<le> indent y"
    using fold_indent_later [OF assms(2)] by blast
  then have prefix: "\<forall>x \<in> set ls. \<not> blank_line x \<longrightarrow> m \<le> length x \<and> list_all is_indent (take m x)"
    using indent_prefix by blast
  then have "omapM (unindent_line (Some m)) ls = Done (map (\<lambda>x. if blank_line x then x else drop m x) ls)"
    by (intro omapM_Done_map) (simp add: unindent_line_def)
  then show ?thesis using prefix by (auto simp: unindent_def assms(1) m(1))
next
  case False
  then have "omapM (unindent_line m) ls = Done (map (\<lambda>x. if blank_line x then x else drop 0 x) ls)" for m
    by (intro omapM_Done_map) (simp add: unindent_line_def)
  then show ?thesis using False by (auto simp: unindent_def assms(1))
qed

text \<open>
  C19: on documentation whose first line is not blank, \<open>unindent\<close> returns, and it removes only
  indentation: the first line loses its leading whitespace, and from all other lines that are not
  blank the same number of leading spaces and tabs is removed.
\<close>

theorem unindent_keeps_text:
  assumes "str_lines s = l # ls" "\<not> blank_line l"
  shows "\<exists>m. unindent s = Done (str_join newline (trim_start l # map (\<lambda>x. if blank_line x then x else drop m x) ls)) \<and>
    (\<forall>x \<in> set ls. \<not> blank_line x \<longrightarrow> m \<le> length x \<and> list_all is_indent (take m x))"
  using assms by (rule unindent_returns)

lemmas line_simps = str_lines_def split_terminator_def str_split_def newline_def starts_with_def Let_def strip_cr_def
  blank_line_def is_whitespace_def

theorem unindent_keeps_text_witness:
  "\<exists>m. unindent (''  a'' @ newline @ '' b'') = Done (str_join newline [''a'', drop m '' b'']) \<and> m \<le> 2 \<and>
     list_all is_indent (take m '' b'')"
proof -
  have lines: "str_lines (''  a'' @ newline @ '' b'') = ''  a'' # ['' b'']" "\<not> blank_line ''  a''" "\<not> blank_line '' b''" "trim_start ''  a'' = ''a''"
    by (simp_all add: line_simps trim_start_def)
  show ?thesis using unindent_keeps_text [OF lines(1,2)] lines(3,4) by auto
qed

text \<open>
  Behind a blank first line this fails: the first line with text is ignored for the minimum, but
  loses as many characters as the others, or the assertion fails.
\<close>

lemma unindent_panics: "\<exists>p. unindent (newline @ '' a'' @ newline @ ''    b'') = Panic p"
proof -
  have lines: "str_lines (newline @ '' a'' @ newline @ ''    b'') = [[], '' a'', ''    b'']" "blank_line []" "\<not> blank_line '' a''"
      "\<not> blank_line ''    b''"
    by (simp_all add: line_simps)
  moreover have "fold_indent [[], '' a'', ''    b''] = Some 4"
    by (simp add: fold_indent_def indent_step_def lines(2-4) indent_def is_indent_def)
  ultimately show ?thesis by (simp add: unindent_def unindent_line_def)
qed

lemma unindent_loses_text: "unindent (newline @ '' abcd'' @ newline @ ''    b'') = Done (newline @ ''d'' @ newline @ ''b'')"
proof -
  have lines: "str_lines (newline @ '' abcd'' @ newline @ ''    b'') = [[], '' abcd'', ''    b'']" "blank_line []" "\<not> blank_line '' abcd''"
      "\<not> blank_line ''    b''"
    by (simp_all add: line_simps)
  moreover have "fold_indent [[], '' abcd'', ''    b''] = Some 4"
    by (simp add: fold_indent_def indent_step_def lines(2-4) indent_def is_indent_def)
  ultimately show ?thesis by (simp add: unindent_def unindent_line_def trim_start_def)
qed

end
