(* ===== verification/Attr_Folder.thy ===== *)
theory Attr_Folder
  imports Public_Api Doc_Comments
begin

text \<open>
  Passes that change the attributes of items and nothing else. \<open>retagged R i j\<close> says that \<open>j\<close> is \<open>i\<close>
  with other attributes, related by \<open>R\<close>, at every level. The locale \<open>attr_folder\<close> is the contract of
  such a pass; its clients learn that the pass returns and that everything the later steps need of a
  crate (\<open>front_ok\<close>, the functions in its modules) is kept.
\<close>

section \<open>Items with other attributes\<close>

definition set_attrs :: "item_attributes \<Rightarrow> clean_item \<Rightarrow> clean_item" where
  "set_attrs attrs i = CleanItem (item_source i) (item_name i) attrs (item_inner i) (item_visibility i) (item_def_id i)
     (item_stability i) (item_deprecation i)"

lemma set_attrs_simps [simp]:
  "item_inner (set_attrs a i) = item_inner i" "item_name (set_attrs a i) = item_name i"
  "item_def_id (set_attrs a i) = item_def_id i" "item_visibility (set_attrs a i) = item_visibility i"
  "item_attrs (set_attrs a i) = a" "item_children (set_attrs a i) = item_children i"
  "flat_here (set_attrs a i) = flat_here i" "set_attrs (item_attrs i) i = i"
  by (simp_all add: set_attrs_def item_children_def flat_here_def)

definition same_header :: "clean_item \<Rightarrow> clean_item \<Rightarrow> bool" where
  "same_header i j \<longleftrightarrow> item_name j = item_name i \<and> item_def_id j = item_def_id i \<and> item_visibility j = item_visibility i \<and>
     (item_inner j = item_inner i \<or> item_inner j = rebuild (item_inner i) (item_children j))"

inductive retagged :: "(item_attributes \<Rightarrow> item_attributes \<Rightarrow> bool) \<Rightarrow> clean_item \<Rightarrow> clean_item \<Rightarrow> bool"
  for R :: "item_attributes \<Rightarrow> item_attributes \<Rightarrow> bool" where
  retag: "same_header i j \<Longrightarrow> R (item_attrs i) (item_attrs j) \<Longrightarrow>
     list_all2 (retagged R) (item_children i) (item_children j) \<Longrightarrow> retagged R i j"

inductive_simps retagged_iff: "retagged R i j"

lemma children_rebuild_same: "length xs = length (children inner) \<Longrightarrow> children (rebuild inner xs) = xs"
  by (induction inner) (auto split: variant_kind.split)

lemma item_children_rebuild_same:
  "length xs = length (item_children i) \<Longrightarrow> item_children (rebuild_item i xs) = xs"
  by (simp add: item_children_def children_rebuild_same)

lemma retagged_refl:
  assumes "\<And>a. R a a"
  shows "retagged R i i"
proof (induction i rule: item_flat.induct)
  case (1 i)
  then show ?case using assms by (auto intro!: retag simp: same_header_def list_all2_same)
qed

lemma retagged_rebuild:
  assumes "list_all2 (retagged R) (item_children i) xs" "R (item_attrs i) attrs"
  shows "retagged R i (rebuild_item (set_attrs attrs i) xs)"
proof -
  have "item_children (rebuild_item (set_attrs attrs i) xs) = xs"
    using list_all2_lengthD [OF assms(1)] by (intro item_children_rebuild_same) simp
  then show ?thesis using assms by (intro retag) (simp_all add: same_header_def)
qed

lemma retagged_mono: "retagged R i j \<Longrightarrow> (\<And>a b. R a b \<Longrightarrow> S a b) \<Longrightarrow> retagged S i j"
proof (induction rule: retagged.induct)
  case (retag i j)
  then show ?case by (auto intro!: retagged.retag elim!: list_all2_mono)
qed

lemma retagged_parts:
  assumes "retagged R i j"
  shows "same_header i j" "R (item_attrs i) (item_attrs j)" "list_all2 (retagged R) (item_children i) (item_children j)"
  using assms by (simp_all add: retagged_iff [of R i j])

lemma same_header_kind:
  assumes "same_header i j"
  shows "flat_here j = flat_here i" "is_stripped j = is_stripped i" "is_module (bare (item_inner j)) = is_module (bare (item_inner i))"
    "is_member (item_inner j) = is_member (item_inner i)" "has_members (item_inner j) = has_members (item_inner i)"
    "search_types_named (item_inner j) = search_types_named (item_inner i)"
    "item_inner j = MethodItem m \<longleftrightarrow> item_inner i = MethodItem m" "item_inner j = FunctionItem f \<longleftrightarrow> item_inner i = FunctionItem f"
proof -
  have fn: "rebuild inner xs = FunctionItem f \<longleftrightarrow> inner = FunctionItem f" for inner xs
    by (cases inner) (auto split: variant_kind.split)
  have inner: "item_inner j = item_inner i \<or> item_inner j = rebuild (item_inner i) (item_children j)"
    using assms by (simp add: same_header_def)
  have flat: "flat_here (rebuild_item i (item_children j)) = flat_here i" "is_stripped (rebuild_item i (item_children j)) = is_stripped i"
    by (rule flat_rebuild, rule stripped_rebuild)
  show "flat_here j = flat_here i" "is_stripped j = is_stripped i"
    using inner flat by (auto simp: flat_here_def is_stripped_def)
  show "is_module (bare (item_inner j)) = is_module (bare (item_inner i))"
    using inner by (auto simp: bare_rebuild is_module_rebuild)
  show "is_member (item_inner j) = is_member (item_inner i)" "has_members (item_inner j) = has_members (item_inner i)"
    "search_types_named (item_inner j) = search_types_named (item_inner i)"
    "item_inner j = MethodItem m \<longleftrightarrow> item_inner i = MethodItem m" "item_inner j = FunctionItem f \<longleftrightarrow> item_inner i = FunctionItem f"
    using inner by (elim disjE; simp add: rebuild_keeps_kind fn)+
qed

text \<open>A related child for every child, in both directions.\<close>

lemma retagged_child:
  assumes "retagged R i j"
  shows "y \<in> set (item_children j) \<Longrightarrow> \<exists>x \<in> set (item_children i). retagged R x y"
    "x \<in> set (item_children i) \<Longrightarrow> \<exists>y \<in> set (item_children j). retagged R x y"
  using retagged_parts(3) [OF assms] by (metis in_set_conv_nth list_all2_conv_all_nth)+

lemma retagged_all_items:
  assumes "retagged R i j" "all_items P i" "\<And>x y. retagged R x y \<Longrightarrow> P x \<Longrightarrow> Q y"
  shows "all_items Q j"
  using assms(1,2)
proof (induction j arbitrary: i rule: item_flat.induct)
  case (1 j)
  have i: "P i" "\<And>x. x \<in> set (item_children i) \<Longrightarrow> all_items P x"
    using "1.prems"(2) by (simp_all add: all_items.simps [of P i] list_all_iff)
  have "all_items Q y" if "y \<in> set (item_children j)" for y
    using retagged_child(1) [OF "1.prems"(1) that] "1.IH" [OF that] i(2) by blast
  then show ?case using assms(3) [OF "1.prems"(1) i(1)] by (simp add: all_items.simps [of Q j] list_all_iff)
qed

lemma item_flat_all: "item_flat i = all_items flat_here i"
proof (induction i rule: item_flat.induct)
  case (1 i)
  then show ?case by (simp add: item_flat.simps [of i] all_items.simps [of _ i] list_all_iff)
qed

lemma retagged_flat: "retagged R i j \<Longrightarrow> item_flat i \<Longrightarrow> item_flat j"
  unfolding item_flat_all
  by (erule retagged_all_items, assumption) (simp add: same_header_kind(1) [OF retagged_parts(1)])

lemma retagged_wf: "retagged R i j \<Longrightarrow> item_wf member i \<Longrightarrow> item_wf member j"
proof (induction member j arbitrary: i rule: item_wf.induct)
  case (1 member j)
  note kind = same_header_kind [OF retagged_parts(1) [OF "1.prems"(1)]] and wf = item_wf_parts [OF "1.prems"(2)]
  have "item_wf (has_members (item_inner j)) y" if "y \<in> set (item_children j)" for y
    using retagged_child(1) [OF "1.prems"(1) that] "1.IH" [OF that] wf(4) by (auto simp: kind(5))
  then show ?case using wf(1-3) by (simp add: item_wf.simps [of member j] list_all_iff kind)
qed

lemma retagged_ok: "retagged R i j \<Longrightarrow> item_ok i \<Longrightarrow> item_ok j"
proof (induction j arbitrary: i rule: item_ok.induct)
  case (1 j)
  note kind = same_header_kind [OF retagged_parts(1) [OF "1.prems"(1)]]
  have mods: "mod_items (item_inner j) \<noteq> None \<longleftrightarrow> mod_items (item_inner i) \<noteq> None" unfolding mod_items_module by (rule kind(3))
  have here: "item_here_ok i" using "1.prems"(2) by (simp add: item_ok.simps [of i])
  have "item_ok y" if j: "mod_items (item_inner j) = Some items" and y: "y \<in> set items" for items y
  proof -
    obtain is' where is': "mod_items (item_inner i) = Some is'" using mods j by auto
    obtain x where x: "x \<in> set is'" "retagged R x y"
      using retagged_child(1) [OF "1.prems"(1)] y mod_items_children [OF j] mod_items_children [OF is'] by auto
    have "item_ok x" using "1.prems"(2) x(1) is' by (simp add: item_ok.simps [of i] list_all_iff)
    then show ?thesis using "1.IH" [OF j y x(2)] by blast
  qed
  moreover have "item_here_ok j"
    using here mods kind(1) retagged_parts(1) [OF "1.prems"(1)] by (simp add: item_here_ok_def same_header_def)
  ultimately show ?case by (simp add: item_ok.simps [of j] list_all_iff split: option.split)
qed

lemma retagged_impl:
  assumes "same_header i j" "item_inner j = ImplItem imp"
  obtains imp0 where "item_inner i = ImplItem imp0" "impl_trait imp0 = impl_trait imp"
  using assms by (cases "item_inner i") (auto simp: same_header_def split: variant_kind.splits)

lemma retagged_block_ok:
  assumes "retagged R i j" "block_ok i"
  shows "block_ok j"
proof (cases "\<exists>imp. item_inner j = ImplItem imp")
  case True
  then obtain imp where imp: "item_inner j = ImplItem imp" ..
  obtain imp0 where imp0: "item_inner i = ImplItem imp0" "impl_trait imp0 = impl_trait imp"
    using retagged_impl [OF retagged_parts(1) [OF assms(1)] imp] .
  have "item_name y \<noteq> None" if y: "y \<in> set (impl_items imp)" "item_inner y = MethodItem m" for y m
  proof -
    obtain x where x: "x \<in> set (item_children i)" "retagged R x y"
      using retagged_child(1) [OF assms(1)] y(1) imp by (auto simp: item_children_def)
    note header = retagged_parts(1) [OF x(2)]
    have "item_inner x = MethodItem m" using same_header_kind(7) [OF header, of m] y(2) by blast
    moreover have "item_name y = item_name x" using header by (simp add: same_header_def)
    ultimately show ?thesis
      using assms(2) imp0(1) x(1) by (fastforce simp: block_ok_def impl_ok_def list_all_iff item_children_def)
  qed
  then have "list_all (\<lambda>item. case item_inner item of MethodItem _ \<Rightarrow> item_name item \<noteq> None | _ \<Rightarrow> True) (impl_items imp)"
    unfolding list_all_iff method_case by blast
  then show ?thesis using assms(2) imp imp0 by (simp add: block_ok_def impl_ok_def)
next
  case False
  then show ?thesis by (cases "item_inner j") (simp_all add: block_ok_def)
qed

lemma retagged_modules:
  assumes "retagged R m m'"
  shows "in_modules m' y \<Longrightarrow> \<exists>x. in_modules m x \<and> retagged R x y"
    "in_modules m x \<Longrightarrow> \<exists>y. in_modules m' y \<and> retagged R x y"
proof -
  show "\<exists>x. in_modules m x \<and> retagged R x y" if "in_modules m' y"
    using that
  proof (induction rule: in_modules.induct)
    case (inside n y)
    then show ?case
      using same_header_kind(3) [OF retagged_parts(1)] retagged_child(1) in_modules.inside by metis
  qed (use assms in_modules.root in blast)
  show "\<exists>y. in_modules m' y \<and> retagged R x y" if "in_modules m x"
    using that
  proof (induction rule: in_modules.induct)
    case (inside n x)
    then show ?case
      using same_header_kind(3) [OF retagged_parts(1)] retagged_child(2) in_modules.inside by metis
  qed (use assms in_modules.root in blast)
qed

section \<open>Crates with other attributes\<close>

definition retagged_crate :: "(item_attributes \<Rightarrow> item_attributes \<Rightarrow> bool) \<Rightarrow> clean_crate \<Rightarrow> clean_crate \<Rightarrow> bool" where
  "retagged_crate R k k' \<longleftrightarrow> krate_name k' = krate_name k \<and> rel_option (retagged R) (krate_module k) (krate_module k') \<and>
     list_all2 (\<lambda>(d, t) (d', t'). d' = d \<and> list_all2 (retagged R) (trait_items t) (trait_items t'))
       (external_traits k) (external_traits k')"

lemma retagged_crate_items:
  assumes "retagged_crate R k k'"
  shows "list_all2 (retagged R) (crate_items k) (crate_items k')"
proof -
  have "list_all2 (retagged R) (concat (map (trait_items \<circ> snd) ts)) (concat (map (trait_items \<circ> snd) ts'))"
    if "list_all2 (\<lambda>(d, t) (d', t'). d' = d \<and> list_all2 (retagged R) (trait_items t) (trait_items t')) ts ts'" for ts ts'
    using that by (induction rule: list_all2_induct) (auto intro: list_all2_appendI)
  moreover have "list_all2 (retagged R) (case krate_module k of None \<Rightarrow> [] | Some m \<Rightarrow> [m]) (case krate_module k' of None \<Rightarrow> [] | Some m \<Rightarrow> [m])"
    using assms by (cases "krate_module k"; cases "krate_module k'") (auto simp: retagged_crate_def)
  ultimately show ?thesis using assms by (auto simp: crate_items_def retagged_crate_def intro: list_all2_appendI)
qed

lemma retagged_crate_flat: "retagged_crate R k k' \<Longrightarrow> crate_flat k \<Longrightarrow> crate_flat k'"
  unfolding crate_flat_def
  using retagged_crate_items [of R k k'] retagged_flat
  by (fastforce simp: list_all2_conv_all_nth list_all_length)

lemma retagged_front_ok:
  assumes "retagged_crate R k k'" "front_ok k"
  shows "front_ok k'"
proof -
  obtain m where m: "krate_module k = Some m" using assms(2) by (auto simp: front_ok_def crate_root_def)
  obtain m' where m': "krate_module k' = Some m'" "retagged R m m'"
    using assms(1) m by (auto simp: retagged_crate_def option_rel_Some1)
  note root = root_ok [OF _ m] and kind = same_header_kind [OF retagged_parts(1) [OF m'(2)]]
  have k: "crate_ok k" "crate_wf k" "blocks_ok k" "crate_flat k" using assms(2) by (simp_all add: front_ok_def)
  have "list_all item_ok (item_children m')"
    using root [OF k(1)] retagged_child(1) [OF m'(2)] retagged_ok by (fastforce simp: list_all_iff)
  then have "crate_ok k'" "crate_root k' \<noteq> None"
    using ok_of_root [OF m'(1)] root [OF k(1)] kind(1,3) assms(1) by (auto simp: retagged_crate_def)
  moreover have "crate_wf k'" using k(2) m m' retagged_wf by (auto simp: crate_wf_def)
  moreover have "all_items block_ok m'"
    using k(3) m by (intro retagged_all_items [OF m'(2), of block_ok]) (auto simp: blocks_ok_def intro: retagged_block_ok)
  then have "blocks_ok k'" using m'(1) by (simp add: blocks_ok_def)
  ultimately show ?thesis using retagged_crate_flat [OF assms(1) k(4)] by (simp add: front_ok_def)
qed

lemma retagged_unstripped:
  assumes "retagged_crate R k k'" "unstripped_crate k"
  shows "unstripped_crate k'"
  unfolding unstripped_crate_def
proof (intro allI impI)
  fix m' y assume m': "krate_module k' = Some m'" "in_modules m' y"
  then obtain m where m: "krate_module k = Some m" "retagged R m m'"
    using assms(1) by (auto simp: retagged_crate_def option_rel_Some2)
  obtain x where "in_modules m x" "retagged R x y" using retagged_modules(1) [OF m(2) m'(2)] by blast
  then show "\<not> is_stripped y"
    using assms(2) m(1) same_header_kind(2) [OF retagged_parts(1)] by (auto simp: unstripped_crate_def)
qed

text \<open>What the later steps use of a function item.\<close>

definition function_entries :: "clean_crate \<Rightarrow> (string option \<times> clean_function \<times> def_id \<times> ast_attribute list) set" where
  "function_entries k = {(item_name x, f, item_def_id x, other_attrs (item_attrs x)) |x f.
     x \<in> function_items k \<and> item_inner x = FunctionItem f}"

definition keeps_other_attrs :: "item_attributes \<Rightarrow> item_attributes \<Rightarrow> bool" where
  "keeps_other_attrs a b \<longleftrightarrow> other_attrs b = other_attrs a"

lemma retagged_functions:
  assumes "retagged_crate R k k'" "\<And>a b. R a b \<Longrightarrow> keeps_other_attrs a b"
  shows "function_entries k' = function_entries k"
proof -
  let ?e = "\<lambda>x f. (item_name x, f, item_def_id x, other_attrs (item_attrs x))"
  have entry: "?e y f = ?e x f" if "retagged R x y" for x y f
    using retagged_parts(1,2) [OF that] assms(2) by (simp add: same_header_def keeps_other_attrs_def)
  note fn = same_header_kind(8) [OF retagged_parts(1)]
  show ?thesis
  proof (cases "krate_module k")
    case None
    then show ?thesis using assms(1) by (simp add: retagged_crate_def function_entries_def function_items_def)
  next
    case (Some m)
    then obtain m' where m': "krate_module k' = Some m'" "retagged R m m'"
      using assms(1) by (auto simp: retagged_crate_def option_rel_Some1)
    have k': "function_entries k' = {?e y f |y f. in_modules m' y \<and> item_inner y = FunctionItem f}"
      and k: "function_entries k = {?e x f |x f. in_modules m x \<and> item_inner x = FunctionItem f}"
      using m'(1) Some by (auto simp: function_entries_def function_items_def)
    have "?e y f \<in> function_entries k" if y: "in_modules m' y" "item_inner y = FunctionItem f" for y f
    proof -
      obtain x where x: "in_modules m x" "retagged R x y" using retagged_modules(1) [OF m'(2) y(1)] by blast
      have "?e y f = ?e x f" by (rule entry [OF x(2)])
      then show ?thesis using x(1) y(2) fn [OF x(2)] unfolding k by blast
    qed
    moreover have "?e x f \<in> function_entries k'" if x: "in_modules m x" "item_inner x = FunctionItem f" for x f
    proof -
      obtain y where y: "in_modules m' y" "retagged R x y" using retagged_modules(2) [OF m'(2) x(1)] by blast
      have "?e x f = ?e y f" by (rule entry [OF y(2), symmetric])
      then show ?thesis using y(1) x(2) fn [OF y(2)] unfolding k' by blast
    qed
    ultimately show ?thesis unfolding k k' by blast
  qed
qed

lemma all_items_True: "all_items (\<lambda>_. True) i"
proof (induction i rule: item_flat.induct)
  case (1 i)
  then show ?case by (simp add: all_items.simps [of _ i] list_all_iff)
qed

lemma all_good: "list_all (all_items (\<lambda>_. True)) is"
  by (simp add: list_all_iff all_items_True)

section \<open>The contract of an attribute pass\<close>

text \<open>
  What a pass does when it comes to an item: it stops there, or computes the attributes of the item
  (\<open>visit\<close>), goes through the items under it and leaves it. It returns on \<open>good\<close> items, and keeps its
  state \<open>ok\<close>.
\<close>

lemma obind_return [simp]: "obind m Done = m"
  by (cases m) auto

locale attr_folder =
  fixes fold_item :: "'s folder"
    and stops :: "clean_item \<Rightarrow> bool"
    and visit :: "clean_item \<Rightarrow> 's \<Rightarrow> (item_attributes \<times> 's) outcome"
    and leave :: "clean_item \<Rightarrow> 's \<Rightarrow> 's \<Rightarrow> 's"
    and good :: "clean_item \<Rightarrow> bool"
    and R :: "item_attributes \<Rightarrow> item_attributes \<Rightarrow> bool"
    and ok :: "'s \<Rightarrow> bool"
  assumes fold_step: "flat_here i \<Longrightarrow> fold_item i s =
      (if stops i then Done (Some i, s)
       else obind (visit i s) (\<lambda>(attrs, s'). obind (fold_item_recur fold_item (set_attrs attrs i) s') (\<lambda>(r, s'').
         Done (r, leave i s s''))))"
    and visit_good: "flat_here i \<Longrightarrow> good i \<Longrightarrow> \<not> stops i \<Longrightarrow> ok s \<Longrightarrow>
      \<exists>attrs s'. visit i s = Done (attrs, s') \<and> R (item_attrs i) attrs \<and> ok s'"
    and leave_ok: "ok s \<Longrightarrow> ok s' \<Longrightarrow> ok (leave i s s')"
    and stops_R: "stops i \<Longrightarrow> R a a"
begin

lemma fold_list_retagged:
  assumes "\<And>x s. x \<in> set xs \<Longrightarrow> ok s \<Longrightarrow> \<exists>y s'. fold_item x s = Done (Some y, s') \<and> retagged R x y \<and> ok s'" "ok s"
  shows "\<exists>ys s'. fold_list fold_item xs s = Done (ys, s') \<and> list_all2 (retagged R) xs ys \<and> ok s'"
  using assms
proof (induction xs arbitrary: s)
  case (Cons x xs)
  obtain y s1 where y: "fold_item x s = Done (Some y, s1)" "retagged R x y" "ok s1"
    using Cons.prems(1) [of x s] Cons.prems(2) by auto
  obtain ys s2 where ys: "fold_list fold_item xs s1 = Done (ys, s2)" "list_all2 (retagged R) xs ys" "ok s2"
    using Cons.IH [OF _ y(3)] Cons.prems(1) by auto
  show ?case using y ys by simp
qed simp

lemma fold_item_retagged:
  assumes "item_flat i" "all_items good i" "ok s"
  shows "\<exists>j s'. fold_item i s = Done (Some j, s') \<and> retagged R i j \<and> ok s'"
  using assms
proof (induction i arbitrary: s rule: item_flat.induct)
  case (1 i)
  note flat = item_flat_parts [OF "1.prems"(1)]
  have i: "good i" "\<And>x. x \<in> set (item_children i) \<Longrightarrow> all_items good x"
    using "1.prems"(2) by (simp_all add: all_items.simps [of good i] list_all_iff)
  show ?case
  proof (cases "stops i")
    case True
    then have "retagged R i i" by (intro retagged_refl stops_R)
    then show ?thesis using fold_step [OF flat(1)] True "1.prems"(3) by auto
  next
    case False
    obtain attrs s1 where v: "visit i s = Done (attrs, s1)" "R (item_attrs i) attrs" "ok s1"
      using visit_good [OF flat(1) i(1) False "1.prems"(3)] by blast
    have "\<exists>y s'. fold_item x s = Done (Some y, s') \<and> retagged R x y \<and> ok s'" if "x \<in> set (item_children i)" "ok s" for x s
      using "1.IH" [OF that(1) flat(2) [OF that(1)] i(2) [OF that(1)] that(2)] .
    from fold_list_retagged [of "item_children i" s1, OF this v(3)] obtain ys s2 where
      ys: "fold_list fold_item (item_children i) s1 = Done (ys, s2)" "list_all2 (retagged R) (item_children i) ys" "ok s2"
      by blast
    have "fold_item i s = Done (Some (rebuild_item (set_attrs attrs i) ys), leave i s s2)"
      using fold_step [OF flat(1)] False v(1) ys(1) flat(1) by (simp add: fold_item_recur_eq)
    then show ?thesis using retagged_rebuild [OF ys(2) v(2)] leave_ok [OF "1.prems"(3) ys(3)] by blast
  qed
qed

lemma fold_traits_retagged:
  assumes "list_all (\<lambda>(_, t). list_all (\<lambda>x. item_flat x \<and> all_items good x) (trait_items t)) ts" "ok s"
  shows "\<exists>ts' s'. fold_traits fold_item ts s = Done (ts', s') \<and> ok s' \<and>
    list_all2 (\<lambda>(d, t) (d', t'). d' = d \<and> list_all2 (retagged R) (trait_items t) (trait_items t')) ts ts'"
  using assms
proof (induction ts arbitrary: s)
  case (Cons dt ts)
  obtain d t where dt: "dt = (d, t)" by (cases dt)
  obtain ys s1 where ys: "fold_list fold_item (trait_items t) s = Done (ys, s1)" "list_all2 (retagged R) (trait_items t) ys" "ok s1"
    using fold_list_retagged [of "trait_items t" s] fold_item_retagged Cons.prems by (auto simp: dt list_all_iff)
  obtain ts' s2 where ts': "fold_traits fold_item ts s1 = Done (ts', s2)" "ok s2"
      "list_all2 (\<lambda>(d, t) (d', t'). d' = d \<and> list_all2 (retagged R) (trait_items t) (trait_items t')) ts ts'"
    using Cons.IH [OF _ ys(3)] Cons.prems by auto
  show ?case using ys ts' by (simp add: dt fold_trait_def)
qed simp

lemma fold_crate_retagged:
  assumes "crate_flat k" "list_all (all_items good) (crate_items k)" "ok s"
  shows "\<exists>k' s'. fold_crate fold_item k s = Done (k', s') \<and> retagged_crate R k k' \<and> ok s' \<and> krate_primitives k' = krate_primitives k"
proof -
  have "\<exists>m' s'. (case krate_module k of None \<Rightarrow> Done (None, s) | Some m \<Rightarrow> fold_item m s) = Done (m', s') \<and> ok s' \<and>
      rel_option (retagged R) (krate_module k) m'"
  proof (cases "krate_module k")
    case (Some m)
    then have "item_flat m" "all_items good m" using assms by (simp_all add: crate_flat_def crate_items_def)
    then show ?thesis using fold_item_retagged [of m s] Some assms(3) by auto
  qed (simp add: assms(3))
  then obtain m' s1 where m': "(case krate_module k of None \<Rightarrow> Done (None, s) | Some m \<Rightarrow> fold_item m s) = Done (m', s1)" "ok s1"
      "rel_option (retagged R) (krate_module k) m'" by blast
  have "list_all (\<lambda>(_, t). list_all (\<lambda>x. item_flat x \<and> all_items good x) (trait_items t)) (external_traits k)"
    using assms by (fastforce simp: crate_flat_def crate_items_def list_all_iff)
  from fold_traits_retagged [OF this m'(2)] obtain ts' s2 where
    ts': "fold_traits fold_item (external_traits k) s1 = Done (ts', s2)" "ok s2"
      "list_all2 (\<lambda>(d, t) (d', t'). d' = d \<and> list_all2 (retagged R) (trait_items t) (trait_items t')) (external_traits k) ts'"
    by blast
  have "fold_crate fold_item k s = Done (k\<lparr>krate_module := m', external_traits := ts'\<rparr>, s2)"
    by (simp add: fold_crate_def m'(1) ts'(1))
  then show ?thesis using m'(3) ts'(2,3) by (auto simp: retagged_crate_def)
qed

end

end
