(* ===== verification/Doc_Passes.thy ===== *)
theory Doc_Passes
  imports Attr_Folder
begin

text \<open>
  The passes that read and rewrite documentation: \<^verbatim>\<open>passes/collapse_docs.rs\<close>, \<^verbatim>\<open>unindent_comments.rs\<close>,
  \<^verbatim>\<open>propagate_doc_cfg.rs\<close>, \<^verbatim>\<open>private_items_doc_tests.rs\<close>, \<^verbatim>\<open>check_code_block_syntax.rs\<close>,
  \<^verbatim>\<open>collect_intra_doc_links.rs\<close> (its way through the items; which links a text has and what they resolve
  to is an argument) and \<^verbatim>\<open>calculate_doc_coverage.rs\<close> (the counts). Each is a folder and an instance of
  the locale \<open>attr_folder\<close>. Lints and warnings are lists of positions and messages.
\<close>

section \<open>The context of a pass\<close>

text \<open>
  What the passes ask the compiler (\<open>DocContext\<close>) and the Markdown library: the span around two
  spans, the ids made up by rustdoc, access levels, the number of tests in a text, the complaints
  about the code blocks of an item, the links of an item in the scope of modules, and whether the
  build is a nightly one.
\<close>

record pass_env =
  span_to :: "nat \<Rightarrow> nat \<Rightarrow> nat"
  prim_locations :: "primitive_type \<Rightarrow> def_id option"
  pass_levels :: access_levels
  all_fake_def_ids :: "def_id set"
  testable_code :: "string \<Rightarrow> nat"
  code_block_warnings :: "clean_item \<Rightarrow> string \<Rightarrow> diagnostic list"
  link_targets :: "def_id list \<Rightarrow> clean_item \<Rightarrow> (string \<times> def_id option \<times> string option) list \<times> diagnostic list"
  nightly_build :: bool

section \<open>Collapsing and unindenting\<close>

definition set_docs :: "doc_fragment list \<Rightarrow> clean_item \<Rightarrow> clean_item" where
  "set_docs docs i = set_attrs (item_attrs i\<lparr>doc_strings := docs\<rparr>) i"

function collapser :: "(nat \<Rightarrow> nat \<Rightarrow> nat) \<Rightarrow> unit folder" where
  "collapser to i s =
     obind (collapse to (doc_strings (item_attrs i))) (\<lambda>docs. fold_item_recur (collapser to) (set_docs docs i) s)"
  by pat_completeness auto
termination
  by (relation "measure (\<lambda>(to, i, s). size i)") (auto simp: size_item_children set_docs_def)

function comment_cleaner :: "unit folder" where
  "comment_cleaner i s =
     obind (unindent_fragments (doc_strings (item_attrs i))) (\<lambda>docs. fold_item_recur comment_cleaner (set_docs docs i) s)"
  by pat_completeness auto
termination
  by (relation "measure (\<lambda>(i, s). size i)") (auto simp: size_item_children set_docs_def)

definition collapse_docs :: "(nat \<Rightarrow> nat \<Rightarrow> nat) \<Rightarrow> clean_crate \<Rightarrow> clean_crate outcome" where
  "collapse_docs to k = obind (fold_crate (collapser to) k ()) (\<lambda>(k, _). Done (k\<lparr>krate_collapsed := True\<rparr>))"

definition unindent_comments :: "clean_crate \<Rightarrow> clean_crate outcome" where
  "unindent_comments k = obind (fold_crate comment_cleaner k ()) (\<lambda>(k, _). Done k)"

section \<open>Configurations of the items around\<close>

definition combine_cfg :: "doc_cfg option \<Rightarrow> doc_cfg option \<Rightarrow> doc_cfg option" where
  "combine_cfg parent own =
     (case (parent, own) of
        (None, None) \<Rightarrow> None
      | (Some rc, None) \<Rightarrow> Some rc
      | (None, Some rc) \<Rightarrow> Some rc
      | (Some a, Some b) \<Rightarrow> Some (cfg_and a b))"

definition set_cfg :: "doc_cfg option \<Rightarrow> clean_item \<Rightarrow> clean_item" where
  "set_cfg cfg i = set_attrs (item_attrs i\<lparr>attrs_cfg := cfg\<rparr>) i"

text \<open>The state is \<open>parent_cfg\<close>.\<close>

function cfg_propagator :: "doc_cfg option folder" where
  "cfg_propagator i parent_cfg =
     (let new_cfg = combine_cfg parent_cfg (attrs_cfg (item_attrs i)) in
      obind (fold_item_recur cfg_propagator (set_cfg new_cfg i) new_cfg) (\<lambda>(result, _). Done (result, parent_cfg)))"
  by pat_completeness auto
termination
  by (relation "measure (\<lambda>(i, s). size i)") (auto simp: size_item_children set_cfg_def)

definition propagate_doc_cfg :: "clean_crate \<Rightarrow> clean_crate outcome" where
  "propagate_doc_cfg k = obind (fold_crate cfg_propagator k None) (\<lambda>(k, _). Done k)"

section \<open>Lints\<close>

text \<open>The span 0 is \<open>DUMMY_SP\<close>.\<close>

definition span_of_attrs :: "(nat \<Rightarrow> nat \<Rightarrow> nat) \<Rightarrow> item_attributes \<Rightarrow> nat option" where
  "span_of_attrs to attrs =
     (if doc_strings attrs = [] then None
      else let start = fragment_span (hd (doc_strings attrs)) in
        if start = 0 then None else Some (to start (fragment_span (last (doc_strings attrs)))))"

definition doc_span :: "pass_env \<Rightarrow> clean_item \<Rightarrow> nat" where
  "doc_span env i = (case span_of_attrs (span_to env) (item_attrs i) of Some sp \<Rightarrow> sp | None \<Rightarrow> span_original (item_source i))"

definition has_hir_id :: "pass_env \<Rightarrow> def_id \<Rightarrow> bool" where
  "has_hir_id env did \<longleftrightarrow> did \<notin> all_fake_def_ids env \<and> is_local did"

definition look_for_tests :: "pass_env \<Rightarrow> string \<Rightarrow> clean_item \<Rightarrow> bool \<Rightarrow> diagnostic list" where
  "look_for_tests env dox item check_missing_code =
     (if \<not> has_hir_id env (item_def_id item) then []
      else let found_tests = testable_code env dox in
        if check_missing_code \<and> found_tests = 0
        then [(doc_span env item, ''missing code example in this documentation'')]
        else if \<not> check_missing_code \<and> found_tests > 0 \<and> \<not> is_public (pass_levels env) (item_def_id item)
        then [(doc_span env item, ''documentation test in private item'')]
        else [])"

definition doc_text :: "clean_item \<Rightarrow> string" where
  "doc_text i = (case collapsed_doc_value (item_attrs i) of Some dox \<Rightarrow> dox | None \<Rightarrow> '''')"

function private_item_doc_test_linter :: "pass_env \<Rightarrow> diagnostic list folder" where
  "private_item_doc_test_linter env i s =
     fold_item_recur (private_item_doc_test_linter env) i (s @ look_for_tests env (doc_text i) i False)"
  by pat_completeness auto
termination
  by (relation "measure (\<lambda>(env, i, s). size i)") (auto simp: size_item_children)

function syntax_checker :: "pass_env \<Rightarrow> diagnostic list folder" where
  "syntax_checker env i s =
     fold_item_recur (syntax_checker env) i
       (case collapsed_doc_value (item_attrs i) of Some dox \<Rightarrow> s @ code_block_warnings env i dox | None \<Rightarrow> s)"
  by pat_completeness auto
termination
  by (relation "measure (\<lambda>(env, i, s). size i)") (auto simp: size_item_children)

definition check_private_items_doc_tests :: "pass_env \<Rightarrow> clean_crate \<Rightarrow> (clean_crate \<times> diagnostic list) outcome" where
  "check_private_items_doc_tests env k = fold_crate (private_item_doc_test_linter env) k []"

definition check_code_block_syntax :: "pass_env \<Rightarrow> clean_crate \<Rightarrow> (clean_crate \<times> diagnostic list) outcome" where
  "check_code_block_syntax env k = fold_crate (syntax_checker env) k []"

section \<open>Links\<close>

record link_collector =
  mod_ids :: "def_id list"
  link_messages :: "diagnostic list"

definition add_links :: "(string \<times> def_id option \<times> string option) list \<Rightarrow> clean_item \<Rightarrow> clean_item" where
  "add_links links i = set_attrs (item_attrs i\<lparr>attrs_links := attrs_links (item_attrs i) @ links\<rparr>) i"

text \<open>
  A module is on the stack while its own documentation is read if that is inside the module, and
  while its items are.
\<close>

definition enter_links :: "pass_env \<Rightarrow> bool \<Rightarrow> clean_item \<Rightarrow> link_collector \<Rightarrow> clean_item \<times> link_collector" where
  "enter_links env module item s =
     (let s = (if module \<and> inner_docs (item_attrs item) then s\<lparr>mod_ids := mod_ids s @ [item_def_id item]\<rparr> else s);
          (links, messages) = link_targets env (mod_ids s) item;
          s = s\<lparr>link_messages := link_messages s @ look_for_tests env (doc_text item) item True @ messages\<rparr>;
          s = (if module \<and> \<not> inner_docs (item_attrs item) then s\<lparr>mod_ids := mod_ids s @ [item_def_id item]\<rparr> else s)
      in (add_links links item, s))"

function link_folder :: "pass_env \<Rightarrow> link_collector folder" where
  "link_folder env item s =
     obind (is_mod item) (\<lambda>module.
       if module \<and> \<not> is_local (item_def_id item) then fold_item_recur (link_folder env) item s
       else case item_inner item of
         ExternCrateItem _ _ \<Rightarrow> fold_item_recur (link_folder env) item s
       | _ \<Rightarrow>
         obind (fold_item_recur (link_folder env) (fst (enter_links env module item s)) (snd (enter_links env module item s)))
           (\<lambda>(ret, s). Done (ret, if module then s\<lparr>mod_ids := butlast (mod_ids s)\<rparr> else s)))"
  by pat_completeness auto
termination
  by (relation "measure (\<lambda>(env, i, s). size i)")
    (auto simp: size_item_children enter_links_def add_links_def Let_def split: prod.splits)

text \<open>This collector has its own \<open>fold_crate\<close>: it leaves the external traits alone.\<close>

definition collect_intra_doc_links :: "pass_env \<Rightarrow> clean_crate \<Rightarrow> (clean_crate \<times> diagnostic list) outcome" where
  "collect_intra_doc_links env k =
     (if \<not> nightly_build env then Done (k, [])
      else obind (case krate_module k of None \<Rightarrow> Done (None, \<lparr>mod_ids = [], link_messages = []\<rparr>)
                  | Some m \<Rightarrow> link_folder env m \<lparr>mod_ids = [], link_messages = []\<rparr>) (\<lambda>(m, s).
        Done (k\<lparr>krate_module := m\<rparr>, link_messages s)))"

section \<open>Coverage\<close>

record item_count =
  total :: nat
  with_docs :: nat

definition count_item :: "bool \<Rightarrow> item_count \<Rightarrow> item_count" where
  "count_item has_docs c = \<lparr>total = total c + 1, with_docs = (if has_docs then with_docs c + 1 else with_docs c)\<rparr>"

type_synonym coverage = "string \<Rightarrow> item_count option"

definition count_in :: "string \<Rightarrow> bool \<Rightarrow> coverage \<Rightarrow> coverage" where
  "count_in file has_docs items =
     items(file \<mapsto> count_item has_docs (case items file of Some c \<Rightarrow> c | None \<Rightarrow> \<lparr>total = 0, with_docs = 0\<rparr>))"

definition attr_named :: "ast_attribute list \<Rightarrow> string \<Rightarrow> bool" where
  "attr_named attrs name = list_ex (\<lambda>attr. attr_check_name attr name) attrs"

text \<open>The items the calculator does not look into.\<close>

definition not_counted :: "clean_item \<Rightarrow> bool" where
  "not_counted i \<longleftrightarrow> \<not> is_local (item_def_id i) \<or>
     (case item_inner i of
        StrippedItem _ \<Rightarrow> True
      | ImportItem _ \<Rightarrow> True
      | ExternCrateItem _ _ \<Rightarrow> True
      | ImplItem imp \<Rightarrow>
          attr_named (other_attrs (item_attrs i)) ''automatically_derived'' \<or> impl_synthetic imp \<or> blanket_impl imp \<noteq> None \<or>
          impl_trait imp \<noteq> None
      | _ \<Rightarrow> False)"

function coverage_calculator :: "coverage folder" where
  "coverage_calculator i items =
     (if not_counted i then Done (Some i, items)
      else fold_item_recur coverage_calculator i
        (case item_inner i of
           ImplItem _ \<Rightarrow> items
         | _ \<Rightarrow> count_in (span_filename (item_source i)) (doc_strings (item_attrs i) \<noteq> []) items))"
  by pat_completeness auto
termination
  by (relation "measure (\<lambda>(i, s). size i)") (auto simp: size_item_children)

text \<open>The crate is returned as it is, up to the flags \<open>fold_item_recur\<close> sets; the counts are what is printed.\<close>

definition calculate_doc_coverage :: "clean_crate \<Rightarrow> (clean_crate \<times> coverage) outcome" where
  "calculate_doc_coverage k = fold_crate coverage_calculator k (\<lambda>_. None)"

declare collapser.simps [simp del] comment_cleaner.simps [simp del] cfg_propagator.simps [simp del]
  private_item_doc_test_linter.simps [simp del] syntax_checker.simps [simp del] link_folder.simps [simp del]
  coverage_calculator.simps [simp del]

section \<open>The passes keep their contract\<close>

text \<open>Attributes with collapsed documentation, and with unindented documentation.\<close>

definition collapsed_attrs :: "(nat \<Rightarrow> nat \<Rightarrow> nat) \<Rightarrow> item_attributes \<Rightarrow> item_attributes \<Rightarrow> bool" where
  "collapsed_attrs to a b \<longleftrightarrow> (\<exists>docs. collapse to (doc_strings a) = Done docs \<and> b = a\<lparr>doc_strings := docs\<rparr>)"

definition unindented_attrs :: "item_attributes \<Rightarrow> item_attributes \<Rightarrow> bool" where
  "unindented_attrs a b \<longleftrightarrow> (\<exists>docs. unindent_fragments (doc_strings a) = Done docs \<and> b = a\<lparr>doc_strings := docs\<rparr>)"

definition text_ok :: "string \<Rightarrow> bool" where
  "text_ok s \<longleftrightarrow> (case str_lines s of [] \<Rightarrow> True | l # _ \<Rightarrow> \<not> blank_line l)"

definition docs_ok :: "clean_item \<Rightarrow> bool" where
  "docs_ok i \<longleftrightarrow> list_all (text_ok \<circ> fragment_as_str) (doc_strings (item_attrs i))"

lemma obind_unit: "obind m (\<lambda>(r, s). Done (r, ())) = m"
  by (cases m) auto

lemma collapse_Done: "\<exists>docs. collapse to frags = Done docs"
proof (cases frags)
  case Nil
  then show ?thesis by (simp add: collapse_def)
next
  case (Cons f fs)
  then show ?thesis using collapse_loop [of "[]" f to fs] by (auto simp: collapse_def collapse_step_def)
qed

lemma unindent_Done: "text_ok s \<Longrightarrow> \<exists>t. unindent s = Done t"
proof (cases "str_lines s")
  case (Cons l ls)
  assume "text_ok s"
  then have "\<not> blank_line l" by (simp add: text_ok_def Cons)
  then show ?thesis using unindent_returns [OF Cons] by blast
qed (simp add: unindent_def)

lemma unindent_fragments_Done:
  assumes "list_all (text_ok \<circ> fragment_as_str) frags"
  shows "\<exists>docs. unindent_fragments frags = Done docs"
  using assms unfolding unindent_fragments_def
proof (induction frags)
  case (Cons f frags)
  then obtain docs t where "omapM unindent_fragment frags = Done docs" "unindent (fragment_as_str f) = Done t"
    using unindent_Done [of "fragment_as_str f"] by auto
  then show ?case by (cases f) simp_all
qed simp_all

interpretation collapser: attr_folder "collapser to" "\<lambda>_. False"
  "\<lambda>i s. obind (collapse to (doc_strings (item_attrs i))) (\<lambda>docs. Done (item_attrs i\<lparr>doc_strings := docs\<rparr>, s))"
  "\<lambda>_ _ s. s" "\<lambda>_. True" "collapsed_attrs to" "\<lambda>_. True" for to
proof unfold_locales
  fix i s
  show "collapser to i s = (if False then Done (Some i, s)
      else obind (obind (collapse to (doc_strings (item_attrs i))) (\<lambda>docs. Done (item_attrs i\<lparr>doc_strings := docs\<rparr>, s)))
        (\<lambda>(attrs, s'). obind (fold_item_recur (collapser to) (set_attrs attrs i) s') (\<lambda>(r, s''). Done (r, s''))))"
    by (simp add: collapser.simps [of to i "()"] set_docs_def obind_assoc obind_unit)
  show "\<exists>attrs s'. obind (collapse to (doc_strings (item_attrs i))) (\<lambda>docs. Done (item_attrs i\<lparr>doc_strings := docs\<rparr>, s)) =
      Done (attrs, s') \<and> collapsed_attrs to (item_attrs i) attrs \<and> True"
    using collapse_Done [of to "doc_strings (item_attrs i)"] by (auto simp: collapsed_attrs_def)
qed simp_all

interpretation comment_cleaner: attr_folder comment_cleaner "\<lambda>_. False"
  "\<lambda>i s. obind (unindent_fragments (doc_strings (item_attrs i))) (\<lambda>docs. Done (item_attrs i\<lparr>doc_strings := docs\<rparr>, s))"
  "\<lambda>_ _ s. s" docs_ok unindented_attrs "\<lambda>_. True"
proof unfold_locales
  fix i s
  show "comment_cleaner i s = (if False then Done (Some i, s)
      else obind (obind (unindent_fragments (doc_strings (item_attrs i))) (\<lambda>docs. Done (item_attrs i\<lparr>doc_strings := docs\<rparr>, s)))
        (\<lambda>(attrs, s'). obind (fold_item_recur comment_cleaner (set_attrs attrs i) s') (\<lambda>(r, s''). Done (r, s''))))"
    by (simp add: comment_cleaner.simps [of i "()"] set_docs_def obind_assoc obind_unit)
  show "\<exists>attrs s'. obind (unindent_fragments (doc_strings (item_attrs i))) (\<lambda>docs. Done (item_attrs i\<lparr>doc_strings := docs\<rparr>, s)) =
      Done (attrs, s') \<and> unindented_attrs (item_attrs i) attrs \<and> True" if "docs_ok i"
    using that unindent_fragments_Done [of "doc_strings (item_attrs i)"] by (auto simp: unindented_attrs_def docs_ok_def)
qed simp_all

interpretation cfg_propagator: attr_folder cfg_propagator "\<lambda>_. False"
  "\<lambda>i s. Done (item_attrs i\<lparr>attrs_cfg := combine_cfg s (attrs_cfg (item_attrs i))\<rparr>, combine_cfg s (attrs_cfg (item_attrs i)))"
  "\<lambda>_ s _. s" "\<lambda>_. True" keeps_other_attrs "\<lambda>_. True"
  by unfold_locales (simp_all add: cfg_propagator.simps Let_def set_cfg_def keeps_other_attrs_def)

interpretation doc_test_linter: attr_folder "private_item_doc_test_linter env" "\<lambda>_. False"
  "\<lambda>i s. Done (item_attrs i, s @ look_for_tests env (doc_text i) i False)" "\<lambda>_ _ s. s" "\<lambda>_. True" keeps_other_attrs "\<lambda>_. True" for env
  by unfold_locales (simp_all add: private_item_doc_test_linter.simps keeps_other_attrs_def)

interpretation syntax_checker: attr_folder "syntax_checker env" "\<lambda>_. False"
  "\<lambda>i s. Done (item_attrs i, case collapsed_doc_value (item_attrs i) of Some dox \<Rightarrow> s @ code_block_warnings env i dox | None \<Rightarrow> s)"
  "\<lambda>_ _ s. s" "\<lambda>_. True" keeps_other_attrs "\<lambda>_. True" for env
  by unfold_locales (simp_all add: syntax_checker.simps keeps_other_attrs_def)

text \<open>No count of documented items is above the count of all items of its file.\<close>

definition coverage_ok :: "coverage \<Rightarrow> bool" where
  "coverage_ok items \<longleftrightarrow> (\<forall>file c. items file = Some c \<longrightarrow> with_docs c \<le> total c \<and> 0 < total c)"

lemma count_in_ok:
  assumes "coverage_ok items"
  shows "coverage_ok (count_in file b items)"
  unfolding coverage_ok_def
proof (intro allI impI)
  fix f c assume "count_in file b items f = Some c"
  then show "with_docs c \<le> total c \<and> 0 < total c"
    using assms by (cases "items file") (force simp: coverage_ok_def count_in_def count_item_def split: if_splits)+
qed

interpretation coverage: attr_folder coverage_calculator not_counted
  "\<lambda>i s. Done (item_attrs i, case item_inner i of ImplItem _ \<Rightarrow> s
     | _ \<Rightarrow> count_in (span_filename (item_source i)) (doc_strings (item_attrs i) \<noteq> []) s)"
  "\<lambda>_ _ s. s" "\<lambda>_. True" keeps_other_attrs coverage_ok
  by unfold_locales (simp_all add: coverage_calculator.simps keeps_other_attrs_def count_in_ok split: item_enum.split)

text \<open>The stack of modules of the link collector: what it is inside an item and after it.\<close>

definition reads_links :: "clean_item \<Rightarrow> bool" where
  "reads_links i \<longleftrightarrow> (is_mod i = Done True \<longrightarrow> is_local (item_def_id i)) \<and> (\<forall>a b. item_inner i \<noteq> ExternCrateItem a b)"

interpretation link_folder: attr_folder "link_folder env" "\<lambda>_. False"
  "\<lambda>i s. Done (if reads_links i then
       let (i, s) = enter_links env (is_mod i = Done True) i s in (item_attrs i, s) else (item_attrs i, s))"
  "\<lambda>i _ s. if reads_links i \<and> is_mod i = Done True then s\<lparr>mod_ids := butlast (mod_ids s)\<rparr> else s"
  "\<lambda>_. True" keeps_other_attrs "\<lambda>_. True" for env
proof unfold_locales
  fix i s
  assume flat: "flat_here i"
  have is_mod: "\<exists>b. is_mod i = Done b"
    using flat by (cases "item_inner i") (auto simp: flat_here_def is_mod_def item_type_of_def split: item_enum.splits)
  then obtain b where b: "is_mod i = Done b" ..
  have extern: "(case inner of ExternCrateItem _ _ \<Rightarrow> A | _ \<Rightarrow> B) = (if \<exists>a b. inner = ExternCrateItem a b then A else B)"
    for inner :: item_inner and A B :: "'a" by (cases inner) simp_all
  have enter: "fst (enter_links env b i s) = set_attrs (item_attrs (fst (enter_links env b i s))) i"
    by (simp add: enter_links_def add_links_def Let_def split: prod.split)
  show "link_folder env i s = (if False then Done (Some i, s)
      else obind (Done (if reads_links i then let (i, s) = enter_links env (is_mod i = Done True) i s in (item_attrs i, s) else (item_attrs i, s)))
        (\<lambda>(attrs, s'). obind (fold_item_recur (link_folder env) (set_attrs attrs i) s') (\<lambda>(r, s'').
          Done (r, if reads_links i \<and> is_mod i = Done True then s''\<lparr>mod_ids := butlast (mod_ids s'')\<rparr> else s''))))"
    using enter by (auto simp: link_folder.simps [of env i s] b extern reads_links_def split_beta)
next
  fix i s
  show "\<exists>attrs s'. Done (if reads_links i then let (i, s) = enter_links env (is_mod i = Done True) i s in (item_attrs i, s) else (item_attrs i, s)) =
      Done (attrs, s') \<and> keeps_other_attrs (item_attrs i) attrs \<and> True"
    by (auto simp: enter_links_def add_links_def Let_def keeps_other_attrs_def split: prod.split)
qed simp_all

section \<open>An item is marked for the sessions of all items around it\<close>

function propagated :: "doc_cfg option \<Rightarrow> clean_item \<Rightarrow> clean_item" where
  "propagated p i =
     (let new = combine_cfg p (attrs_cfg (item_attrs i))
      in rebuild_item (set_cfg new i) (map (propagated new) (item_children i)))"
  by pat_completeness auto
termination
  by (relation "measure (\<lambda>(p, i). size i)") (auto simp: size_item_children)

declare propagated.simps [simp del]

lemma fold_list_same_state:
  "(\<And>x. x \<in> set xs \<Longrightarrow> f x s = Done (Some (g x), s)) \<Longrightarrow> fold_list f xs s = Done (map g xs, s)"
  by (induction xs) auto

lemma cfg_propagator_eq: "item_flat i \<Longrightarrow> cfg_propagator i p = Done (Some (propagated p i), p)"
proof (induction p i rule: propagated.induct)
  case (1 p i)
  note flat = item_flat_parts [OF "1.prems"]
  let ?new = "combine_cfg p (attrs_cfg (item_attrs i))"
  have "fold_list cfg_propagator (item_children i) ?new = Done (map (propagated ?new) (item_children i), ?new)"
    using "1.IH" [OF refl] flat(2) by (intro fold_list_same_state) blast
  then show ?case
    using flat(1) by (simp add: cfg_propagator.simps [of i p] propagated.simps [of p i] Let_def set_cfg_def fold_item_recur_eq)
qed

text \<open>The item at a path of positions, and whether all items on the way to it allow a session.\<close>

fun item_at :: "clean_item \<Rightarrow> nat list \<Rightarrow> clean_item option" where
  "item_at i [] = Some i"
| "item_at i (n # path) = (if n < length (item_children i) then item_at (item_children i ! n) path else None)"

fun path_allows :: "(string \<times> string option) set \<Rightarrow> clean_item \<Rightarrow> nat list \<Rightarrow> bool" where
  "path_allows config i [] = allows_session config (item_attrs i)"
| "path_allows config i (n # path) =
     (allows_session config (item_attrs i) \<and> (n < length (item_children i) \<longrightarrow> path_allows config (item_children i ! n) path))"

definition cfg_allows :: "(string \<times> string option) set \<Rightarrow> doc_cfg option \<Rightarrow> bool" where
  "cfg_allows config cfg = (case cfg of Some c \<Rightarrow> cfg_matches config c | None \<Rightarrow> True)"

lemma cfg_allows_combine: "cfg_allows config (combine_cfg p q) \<longleftrightarrow> cfg_allows config p \<and> cfg_allows config q"
  by (cases p; cases q) (simp_all add: cfg_allows_def combine_cfg_def)

lemma allows_session_eq: "allows_session config attrs = cfg_allows config (attrs_cfg attrs)"
  by (simp add: allows_session_def cfg_allows_def)

lemma propagated_simps:
  "item_children (propagated p i) = map (propagated (combine_cfg p (attrs_cfg (item_attrs i)))) (item_children i)"
  "item_name (propagated p i) = item_name i" "item_def_id (propagated p i) = item_def_id i"
  "attrs_cfg (item_attrs (propagated p i)) = combine_cfg p (attrs_cfg (item_attrs i))"
  by (simp_all add: propagated.simps [of p i] Let_def set_cfg_def item_children_rebuild_same)

lemma propagated_at:
  "item_at i path = Some x \<Longrightarrow> \<exists>y. item_at (propagated p i) path = Some y \<and> item_name y = item_name x \<and>
     item_def_id y = item_def_id x \<and>
     (\<forall>config. allows_session config (item_attrs y) \<longleftrightarrow> cfg_allows config p \<and> path_allows config i path)"
proof (induction i path arbitrary: p rule: item_at.induct)
  case (1 i)
  then show ?case by (auto simp: propagated_simps allows_session_eq cfg_allows_combine)
next
  case (2 i n path)
  let ?new = "combine_cfg p (attrs_cfg (item_attrs i))"
  have n: "n < length (item_children i)" "item_at (item_children i ! n) path = Some x"
    using "2.prems" by (auto split: if_splits)
  obtain y where "item_at (propagated ?new (item_children i ! n)) path = Some y" "item_name y = item_name x" "item_def_id y = item_def_id x"
      "\<forall>config. allows_session config (item_attrs y) \<longleftrightarrow> cfg_allows config ?new \<and> path_allows config (item_children i ! n) path"
    using "2.IH" [OF n] by blast
  then show ?case using n(1) by (auto simp: propagated_simps cfg_allows_combine allows_session_eq)
qed

lemma propagate_module:
  assumes "crate_flat k" "krate_module k = Some m"
  shows "\<exists>k'. propagate_doc_cfg k = Done k' \<and> krate_module k' = Some (propagated None m) \<and> retagged_crate keeps_other_attrs k k'"
proof -
  obtain k' s where k': "fold_crate cfg_propagator k None = Done (k', s)" "retagged_crate keeps_other_attrs k k'"
    using cfg_propagator.fold_crate_retagged [OF assms(1) all_good, of None] by blast
  have "item_flat m" using assms by (simp add: crate_flat_def crate_items_def)
  then have "krate_module k' = Some (propagated None m)"
    using k'(1) assms(2) by (auto simp: fold_crate_def cfg_propagator_eq obind_Done_iff)
  then show ?thesis using k' by (auto simp: propagate_doc_cfg_def)
qed

text \<open>
  C16: after \<open>propagate_doc_cfg\<close> every item of the crate is marked for exactly the sessions that it and
  all the items it is in were marked for.
\<close>

theorem propagate_doc_cfg_correct:
  assumes "crate_flat k" "krate_module k = Some m"
  shows "\<exists>k' m'. propagate_doc_cfg k = Done k' \<and> krate_module k' = Some m' \<and>
    (\<forall>path x. item_at m path = Some x \<longrightarrow> (\<exists>y. item_at m' path = Some y \<and> item_name y = item_name x \<and>
       item_def_id y = item_def_id x \<and> (\<forall>config. allows_session config (item_attrs y) = path_allows config m path)))"
proof -
  have none: "cfg_allows config None" for config by (simp add: cfg_allows_def)
  obtain k' where "propagate_doc_cfg k = Done k'" "krate_module k' = Some (propagated None m)"
    using propagate_module [OF assms] by blast
  then show ?thesis using propagated_at [of m _ _ None] none by auto
qed

definition example_cfg_item :: clean_item where
  "example_cfg_item = set_cfg (Some (CfgOption ''windows'' None)) (example_item (Some ''f'') 1 Public (FunctionItem (example_function [])))"

definition example_cfg_root :: clean_item where
  "example_cfg_root = set_cfg (Some (CfgOption ''unix'' None)) (example_item None 0 Public (ModuleItem (Module [example_cfg_item] True)))"

theorem propagate_doc_cfg_correct_witness:
  "\<exists>k' m' y. propagate_doc_cfg ((example_crate [])\<lparr>krate_module := Some example_cfg_root\<rparr>) = Done k' \<and>
     krate_module k' = Some m' \<and> item_at m' [0] = Some y \<and> item_name y = Some ''f'' \<and>
     allows_session {(''unix'', None), (''windows'', None)} (item_attrs y) \<and> \<not> allows_session {(''windows'', None)} (item_attrs y)"
proof -
  let ?k = "(example_crate [])\<lparr>krate_module := Some example_cfg_root\<rparr>"
  have root: "item_children example_cfg_root = [example_cfg_item]" "flat_here example_cfg_root" "item_children example_cfg_item = []" "flat_here example_cfg_item"
      "item_name example_cfg_item = Some ''f''" "allows_session config (item_attrs example_cfg_item) = ((''windows'', None) \<in> config)"
      "allows_session config (item_attrs example_cfg_root) = ((''unix'', None) \<in> config)" for config
    by (simp_all add: example_cfg_item_def example_cfg_root_def set_cfg_def example_item_def item_children_def flat_here_def allows_session_def set_attrs_def)
  have "item_flat example_cfg_root" using root(1-4) by (simp add: item_flat.simps [of example_cfg_root] item_flat.simps [of example_cfg_item])
  then have flat: "crate_flat ?k" by (simp add: crate_flat_def crate_items_def example_crate_def)
  have "item_at example_cfg_root [0] = Some example_cfg_item" "path_allows config example_cfg_root [0] \<longleftrightarrow>
      (''unix'', None) \<in> config \<and> (''windows'', None) \<in> config" for config
    using root(1,6,7) by simp_all
  note at = this
  have m: "krate_module ?k = Some example_cfg_root" by simp
  obtain k' m' where "propagate_doc_cfg ?k = Done k'" "krate_module k' = Some m'" and all: "\<forall>path x. item_at example_cfg_root path = Some x \<longrightarrow>
      (\<exists>y. item_at m' path = Some y \<and> item_name y = item_name x \<and> item_def_id y = item_def_id x \<and>
        (\<forall>config. allows_session config (item_attrs y) = path_allows config example_cfg_root path))"
    using propagate_doc_cfg_correct [OF flat m] by blast
  moreover obtain y where "item_at m' [0] = Some y" "item_name y = Some ''f''"
      "\<forall>config. allows_session config (item_attrs y) = path_allows config example_cfg_root [0]"
    using all [rule_format, OF at(1)] root(5) by auto
  moreover have "path_allows {(''unix'', None), (''windows'', None)} example_cfg_root [0]"
      "\<not> path_allows {(''windows'', None)} example_cfg_root [0]"
    unfolding at(2) by simp_all
  ultimately show ?thesis by blast
qed

end
