(* ===== verification/Trait_Impls.thy ===== *)
theory Trait_Impls
  imports Attr_Folder
begin

text \<open>
  The pass \<^verbatim>\<open>passes/collect_trait_impls.rs\<close>: it adds the impl blocks of other crates, of primitive types
  and of the crate's own traits, and the automatic ones, to the root module. The blocks are built from
  the compiler's data (\<open>inline::build_impl\<close>, \<open>get_auto_trait_and_blanket_impls\<close>), which is an
  argument; which of them are added, and the check that none is built twice, is modelled.
\<close>

section \<open>The pass\<close>

text \<open>
  The ids of the impl blocks of other crates, of primitive types and of the crate; the items
  \<open>build_impl\<close> pushes for an id it has not seen and the automatic ones for a type; the types with a
  hidden definition; the trait \<open>Deref\<close>; and the ids that were inlined before.
\<close>

record impl_env =
  impl_prims :: "primitive_type \<Rightarrow> def_id option"
  extern_impls :: "def_id list"
  primitive_impls :: "def_id list"
  local_impls :: "def_id list"
  built_impl :: "def_id \<Rightarrow> clean_item list"
  auto_impls :: "def_id \<Rightarrow> clean_item list"
  hidden_def :: "def_id \<Rightarrow> bool"
  deref_trait :: "def_id option"
  inlined_before :: "def_id set"

function synthetic_impl_collector :: "impl_env \<Rightarrow> clean_item list folder" where
  "synthetic_impl_collector env i impls =
     obind (item_type_of (item_inner i)) (\<lambda>ty.
       fold_item_recur (synthetic_impl_collector env) i
         (if ty \<in> {ItStruct, ItEnum, ItUnion} \<and> \<not> hidden_def env (item_def_id i) then impls @ auto_impls env (item_def_id i) else impls))"
  by pat_completeness auto
termination
  by (relation "measure (\<lambda>(env, i, s). size i)") (auto simp: size_item_children)

function item_collector :: "def_id set folder" where
  "item_collector i items = fold_item_recur item_collector i (insert (item_def_id i) items)"
  by pat_completeness auto
termination
  by (relation "measure (\<lambda>(i, s). size i)") (auto simp: size_item_children)

declare synthetic_impl_collector.simps [simp del] item_collector.simps [simp del]

record bad_impl_stripper =
  prims :: "primitive_type set"
  stripper_items :: "def_id set"

definition keep_item :: "impl_env \<Rightarrow> bad_impl_stripper \<Rightarrow> clean_type \<Rightarrow> bool" where
  "keep_item env c ty =
     (case ty of
        Generic _ \<Rightarrow> True
      | _ \<Rightarrow>
        (case type_primitive_type ty of
           Some prim \<Rightarrow> prim \<in> prims c
         | None \<Rightarrow>
             (case type_def_id (impl_prims env) ty of Some did \<Rightarrow> did \<in> stripper_items c | None \<Rightarrow> False)))"

text \<open>\<open>build_impl\<close> on the new items and the ids inlined so far.\<close>

definition build_impl :: "impl_env \<Rightarrow> def_id \<Rightarrow> clean_item list \<times> def_id set \<Rightarrow> clean_item list \<times> def_id set" where
  "build_impl env did st =
     (case st of (new_items, inlined) \<Rightarrow>
        if did \<in> inlined then (new_items, inlined) else (new_items @ built_impl env did, insert did inlined))"

definition add_new :: "clean_item \<Rightarrow> clean_item list \<times> def_id set \<Rightarrow> clean_item list \<times> def_id set" where
  "add_new i st =
     (case st of (new_items, inlined) \<Rightarrow>
        if item_def_id i \<in> inlined then (new_items, inlined) else (new_items @ [i], insert (item_def_id i) inlined))"

definition primitive_impl :: "impl_env \<Rightarrow> def_id \<Rightarrow> clean_item list \<times> def_id set \<Rightarrow> clean_item list \<times> def_id set" where
  "primitive_impl env did st =
     (if is_local did then st
      else let st = build_impl env did st in
        if hidden_def env did then st else fold add_new (auto_impls env did) st)"

definition deref_target :: "item_impl \<Rightarrow> clean_type option" where
  "deref_target imp =
     (case List.map_filter (\<lambda>item. case item_inner item of TypedefItem t True \<Rightarrow> Some (td_type t) | _ \<Rightarrow> None) (impl_items imp) of
        [] \<Rightarrow> None | t # _ \<Rightarrow> Some t)"

definition impl_trait_id :: "impl_env \<Rightarrow> item_impl \<Rightarrow> def_id option" where
  "impl_trait_id env imp = Option.bind (impl_trait imp) (type_def_id (impl_prims env))"

definition splice_deref :: "impl_env \<Rightarrow> clean_item \<Rightarrow> bad_impl_stripper \<Rightarrow> bad_impl_stripper outcome" where
  "splice_deref env it c =
     (case item_inner it of
        ImplItem imp \<Rightarrow>
          if keep_item env c (impl_for imp) \<and> impl_trait_id env imp = deref_trait env then
            (case deref_target imp of
               None \<Rightarrow> Panic (ExplicitPanic ''Deref impl without Target type'')
             | Some target \<Rightarrow>
                 (case type_primitive_type target of
                    Some prim \<Rightarrow> Done (c\<lparr>prims := insert prim (prims c)\<rparr>)
                  | None \<Rightarrow>
                      (case type_def_id (impl_prims env) target of
                         Some did \<Rightarrow> Done (c\<lparr>stripper_items := insert did (stripper_items c)\<rparr>)
                       | None \<Rightarrow> Done c)))
          else Done c
      | _ \<Rightarrow> Done c)"

definition keep_impl :: "impl_env \<Rightarrow> bad_impl_stripper \<Rightarrow> clean_item \<Rightarrow> bool" where
  "keep_impl env c it =
     (case item_inner it of
        ImplItem imp \<Rightarrow>
          keep_item env c (impl_for imp) \<or> (case impl_trait imp of Some t \<Rightarrow> keep_item env c t | None \<Rightarrow> False) \<or>
          blanket_impl imp \<noteq> None
      | _ \<Rightarrow> True)"

definition append_to_root :: "clean_item list \<Rightarrow> clean_crate \<Rightarrow> clean_crate outcome" where
  "append_to_root new k =
     (case krate_module k of
        Some it \<Rightarrow>
          (case item_inner it of
             ModuleItem m \<Rightarrow>
               Done (k\<lparr>krate_module := Some (set_inner (ModuleItem (Module (module_items m @ new) (module_is_crate m))) it)\<rparr>)
           | _ \<Rightarrow> Panic (ExplicitPanic ''collect-trait-impls can't run''))
      | None \<Rightarrow> Panic (ExplicitPanic ''collect-trait-impls can't run''))"

definition collect_trait_impls :: "impl_env \<Rightarrow> clean_crate \<Rightarrow> clean_crate outcome" where
  "collect_trait_impls env k =
     obind (fold_crate (synthetic_impl_collector env) k []) (\<lambda>(k, synth_impls).
     obind (fold_crate item_collector k {}) (\<lambda>(k, crate_ids).
       let st = fold (build_impl env) (extern_impls env) ([], inlined_before env);
           (new_items, inlined) = fold (primitive_impl env) (primitive_impls env) st
       in obind (ofold (splice_deref env) new_items
            \<lparr>prims = set (map (fst \<circ> snd) (krate_primitives k)), stripper_items = crate_ids\<rparr>) (\<lambda>cleaner.
            let (new_items, _) = fold (build_impl env) (local_impls env) (filter (keep_impl env cleaner) new_items, inlined)
            in append_to_root (synth_impls @ new_items) k)))"

section \<open>What the pass adds\<close>

text \<open>The items that can be built, and what is known of them: they are well-formed impl blocks.\<close>

definition buildable :: "impl_env \<Rightarrow> clean_item set" where
  "buildable env = {x. \<exists>did. x \<in> set (built_impl env did) \<or> x \<in> set (auto_impls env did)}"

definition impl_block_ok :: "clean_item \<Rightarrow> bool" where
  "impl_block_ok x \<longleftrightarrow> (\<exists>imp. item_inner x = ImplItem imp) \<and> item_wf False x \<and> item_flat x \<and> all_items block_ok x"

definition deref_ok :: "impl_env \<Rightarrow> clean_item \<Rightarrow> bool" where
  "deref_ok env x \<longleftrightarrow> (\<forall>imp. item_inner x = ImplItem imp \<longrightarrow> impl_trait_id env imp = deref_trait env \<longrightarrow> deref_target imp \<noteq> None)"

interpretation synth: attr_folder "synthetic_impl_collector env" "\<lambda>_. False"
  "\<lambda>i s. omap (\<lambda>ty. (item_attrs i, if ty \<in> {ItStruct, ItEnum, ItUnion} \<and> \<not> hidden_def env (item_def_id i)
     then s @ auto_impls env (item_def_id i) else s)) (item_type_of (item_inner i))"
  "\<lambda>_ _ s. s" "\<lambda>_. True" "(=)" "\<lambda>s. set s \<subseteq> buildable env" for env
proof unfold_locales
  fix i s assume flat: "flat_here i"
  obtain ty where ty: "item_type_of (item_inner i) = Done ty"
    using flat by (cases "item_inner i") (auto simp: flat_here_def item_type_of_def split: item_enum.splits)
  show "synthetic_impl_collector env i s = (if False then Done (Some i, s)
      else obind (omap (\<lambda>ty. (item_attrs i, if ty \<in> {ItStruct, ItEnum, ItUnion} \<and> \<not> hidden_def env (item_def_id i)
         then s @ auto_impls env (item_def_id i) else s)) (item_type_of (item_inner i)))
        (\<lambda>(attrs, s'). obind (fold_item_recur (synthetic_impl_collector env) (set_attrs attrs i) s') (\<lambda>(r, s''). Done (r, s''))))"
    by (simp add: synthetic_impl_collector.simps [of env i s] ty)
  show "\<exists>attrs s'. omap (\<lambda>ty. (item_attrs i, if ty \<in> {ItStruct, ItEnum, ItUnion} \<and> \<not> hidden_def env (item_def_id i)
     then s @ auto_impls env (item_def_id i) else s)) (item_type_of (item_inner i)) = Done (attrs, s') \<and> item_attrs i = attrs \<and> set s' \<subseteq> buildable env" if "set s \<subseteq> buildable env"
    using that by (auto simp: ty buildable_def)
qed simp_all

interpretation items: attr_folder item_collector "\<lambda>_. False" "\<lambda>i s. Done (item_attrs i, insert (item_def_id i) s)"
  "\<lambda>_ _ s. s" "\<lambda>_. True" "(=)" "\<lambda>_. True"
proof unfold_locales
  fix i s
  show "item_collector i s = (if False then Done (Some i, s) else obind (Done (item_attrs i, insert (item_def_id i) s))
      (\<lambda>(attrs, s'). obind (fold_item_recur item_collector (set_attrs attrs i) s') (\<lambda>(r, s''). Done (r, s''))))"
    by (simp add: item_collector.simps [of i s])
qed simp_all

lemma build_impl_set:
  assumes "set (fst st) \<subseteq> buildable env"
  shows "set (fst (fold (build_impl env) dids st)) \<subseteq> buildable env"
  using assms
proof (induction dids arbitrary: st)
  case (Cons did dids)
  have "set (fst (build_impl env did st)) \<subseteq> buildable env"
    using Cons.prems by (auto simp: build_impl_def buildable_def split: prod.split)
  then show ?case using Cons.IH by simp
qed simp

lemma add_new_set: "set (fst (fold add_new xs st)) \<subseteq> set (fst st) \<union> set xs"
proof (induction xs arbitrary: st)
  case (Cons x xs)
  have "set (fst (add_new x st)) \<subseteq> insert x (set (fst st))" by (auto simp: add_new_def split: prod.split)
  then show ?case using Cons.IH [of "add_new x st"] by auto
qed simp

lemma primitive_impl_set:
  assumes "set (fst st) \<subseteq> buildable env"
  shows "set (fst (fold (primitive_impl env) dids st)) \<subseteq> buildable env"
  using assms
proof (induction dids arbitrary: st)
  case (Cons did dids)
  have "set (fst (build_impl env did st)) \<subseteq> buildable env"
    using build_impl_set [OF Cons.prems, of "[did]"] by simp
  moreover have "set (auto_impls env did) \<subseteq> buildable env" by (auto simp: buildable_def)
  ultimately have "set (fst (primitive_impl env did st)) \<subseteq> buildable env"
    using Cons.prems add_new_set [of "auto_impls env did" "build_impl env did st"]
    by (auto simp: primitive_impl_def Let_def)
  then show ?case using Cons.IH by simp
qed simp

lemma splice_deref_Done:
  assumes "\<forall>x \<in> set xs. deref_ok env x"
  shows "\<exists>c'. ofold (splice_deref env) xs c = Done c'"
proof -
  have "\<exists>c'. splice_deref env x c = Done c' \<and> True" if "x \<in> set xs" for x c
    using assms that
    by (cases "item_inner x") (auto simp: splice_deref_def deref_ok_def split: option.split)
  from ofold_inv [of xs "\<lambda>_. True" "splice_deref env" c, OF this] show ?thesis by simp
qed

text \<open>The root with more impl blocks.\<close>

definition grown_root :: "clean_item list \<Rightarrow> clean_item \<Rightarrow> clean_item" where
  "grown_root new m = rebuild_item m (item_children m @ new)"

lemma module_facts:
  assumes "is_module (item_inner m)"
  shows "is_module (bare (item_inner m))" "item_inner m \<noteq> FunctionItem f" "\<not> is_stripped m" "\<not> has_members (item_inner m)" "block_ok m"
  using assms
  by (cases "item_inner m"; simp add: is_module_def bare_def is_stripped_def has_members_def block_ok_def)+

lemma grown_root_module:
  assumes "is_module (item_inner m)"
  shows "item_children (grown_root new m) = item_children m @ new" "is_module (item_inner (grown_root new m))"
  using assms
  by (cases "item_inner m"; simp add: is_module_def grown_root_def item_children_def)+

lemma append_to_root_eq:
  assumes "krate_module k = Some m" "is_module (item_inner m)"
  shows "append_to_root new k = Done (k\<lparr>krate_module := Some (grown_root new m)\<rparr>)"
  using assms
  by (cases "item_inner m") (simp_all add: is_module_def append_to_root_def grown_root_def rebuild_item_def item_children_def set_inner_def)

lemma impl_block_parts:
  assumes "impl_block_ok x"
  shows "item_inner x \<noteq> FunctionItem f" "\<not> is_module (bare (item_inner x))" "\<not> is_stripped x" "item_ok x"
proof -
  obtain imp where imp: "item_inner x = ImplItem imp" using assms by (auto simp: impl_block_ok_def)
  then show "item_inner x \<noteq> FunctionItem f" "\<not> is_module (bare (item_inner x))" "\<not> is_stripped x"
    by (simp_all add: bare_def is_module_def is_stripped_def)
  show "item_ok x" using imp by (simp add: item_ok.simps [of x] item_here_ok_def flat_here_def)
qed

lemma grown_modules:
  assumes "is_module (item_inner m)" "\<forall>x \<in> set new. \<not> is_module (bare (item_inner x))"
  shows "in_modules (grown_root new m) x \<Longrightarrow> x = grown_root new m \<or> x \<in> set new \<or> in_modules m x"
    "in_modules m x \<Longrightarrow> x = m \<or> in_modules (grown_root new m) x"
proof -
  note root = grown_root_module [OF assms(1), of new] and bare = module_facts(1)
  show "x = grown_root new m \<or> x \<in> set new \<or> in_modules m x" if "in_modules (grown_root new m) x"
    using that
  proof (induction rule: in_modules.induct)
    case (inside n x)
    then show ?case
      using assms(2) root(1) bare [OF assms(1)] in_modules.root [of m] in_modules.inside [of m] by auto
  qed simp
  show "x = m \<or> in_modules (grown_root new m) x" if "in_modules m x"
    using that
  proof (induction rule: in_modules.induct)
    case (inside n x)
    then show ?case
      using root(1) bare [OF root(2)] in_modules.root [of "grown_root new m"] in_modules.inside [of "grown_root new m"] by auto
  qed simp
qed

lemma grown_front_ok:
  assumes "front_ok k" "krate_module k = Some m" "is_module (item_inner m)" "\<forall>x \<in> set new. impl_block_ok x"
  shows "front_ok (k\<lparr>krate_module := Some (grown_root new m)\<rparr>)"
proof -
  let ?k = "k\<lparr>krate_module := Some (grown_root new m)\<rparr>" and ?m = "grown_root new m"
  have k: "crate_flat k" "crate_wf k" "blocks_ok k" "crate_ok k" using assms(1) by (simp_all add: front_ok_def)
  note children = grown_root_module [OF assms(3), of new] and root = root_ok [OF k(4) assms(2)]
  have kind: "flat_here ?m = flat_here m" "is_member (item_inner ?m) = is_member (item_inner m)"
      "has_members (item_inner ?m) = has_members (item_inner m)" "search_types_named (item_inner ?m) = search_types_named (item_inner m)"
    by (simp_all add: grown_root_def flat_rebuild rebuild_keeps_kind)
  have new: "item_flat x" "item_wf False x" "all_items block_ok x" "item_ok x" if "x \<in> set new" for x
    using assms(4) that impl_block_parts(4) by (auto simp: impl_block_ok_def)
  have "is_module (bare (item_inner ?m))" by (rule module_facts(1) [OF children(2)])
  moreover have "list_all item_ok (item_children ?m)" using root new(4) by (auto simp: children(1) list_all_iff)
  ultimately have "crate_ok ?k" "crate_root ?k \<noteq> None"
    using ok_of_root [of ?k ?m] root kind(1) by auto
  moreover have members: "\<not> has_members (item_inner m)" by (rule module_facts(4) [OF assms(3)])
  have "item_wf False m" using k(2) assms(2) by (simp add: crate_wf_def)
  then have "item_wf False ?m"
    using new(2) members by (auto simp: item_wf.simps [of False m] item_wf.simps [of False ?m] kind children(1) list_all_iff)
  then have "crate_wf ?k" by (simp add: crate_wf_def)
  moreover have "block_ok ?m" by (rule module_facts(5) [OF children(2)])
  then have "blocks_ok ?k"
    using k(3) assms(2) new(3) by (auto simp: blocks_ok_def all_items.simps [of _ m] all_items.simps [of _ ?m] children(1) list_all_iff)
  moreover have "item_flat ?m"
    using k(1) assms(2) new(1) by (auto simp: crate_flat_def crate_items_def item_flat.simps [of m] item_flat.simps [of ?m] kind(1) children(1) list_all_iff)
  then have "crate_flat ?k" using k(1) assms(2) by (simp add: crate_flat_def crate_items_def)
  ultimately show ?thesis by (simp add: front_ok_def)
qed

lemma grown_functions:
  assumes "krate_module k = Some m" "is_module (item_inner m)" "\<forall>x \<in> set new. impl_block_ok x"
  shows "function_entries (k\<lparr>krate_module := Some (grown_root new m)\<rparr>) = function_entries k"
    "unstripped_crate k \<Longrightarrow> unstripped_crate (k\<lparr>krate_module := Some (grown_root new m)\<rparr>)"
proof -
  let ?m = "grown_root new m"
  have new: "\<forall>x \<in> set new. \<not> is_module (bare (item_inner x))" using assms(3) impl_block_parts(2) by blast
  note mods = grown_modules [OF assms(2) new] and root = grown_root_module(2) [OF assms(2), of new]
  have fn: "item_inner ?m \<noteq> FunctionItem f" "item_inner m \<noteq> FunctionItem f" "\<not> is_stripped ?m" for f
    using module_facts(2,3) [OF root] module_facts(2) [OF assms(2)] by blast+
  have "in_modules ?m x \<longleftrightarrow> in_modules m x" if "item_inner x = FunctionItem f" for x f
    using mods [of x] fn that assms(3) impl_block_parts(1) by blast
  then have "function_items (k\<lparr>krate_module := Some ?m\<rparr>) = function_items k"
    using assms(1) by (auto simp: function_items_def)
  then show "function_entries (k\<lparr>krate_module := Some ?m\<rparr>) = function_entries k" by (simp add: function_entries_def)
  show "unstripped_crate (k\<lparr>krate_module := Some ?m\<rparr>)" if "unstripped_crate k"
    using that mods(1) fn(3) assms(1,3) impl_block_parts(3) by (fastforce simp: unstripped_crate_def)
qed

text \<open>The context makes well-formed impl blocks, and those of \<open>Deref\<close> have a target.\<close>

definition impl_env_ok :: "impl_env \<Rightarrow> bool" where
  "impl_env_ok env \<longleftrightarrow> (\<forall>x \<in> buildable env. impl_block_ok x \<and> deref_ok env x)"

text \<open>A crate whose root is a module, as \<open>clean_crate\<close> makes it.\<close>

definition rooted :: "clean_crate \<Rightarrow> bool" where
  "rooted k \<longleftrightarrow> (\<exists>m. krate_module k = Some m \<and> is_module (item_inner m))"

lemma retagged_rooted:
  assumes "retagged_crate R k k'" "rooted k"
  shows "rooted k'"
proof -
  obtain m where m: "krate_module k = Some m" "is_module (item_inner m)" using assms(2) by (auto simp: rooted_def)
  obtain m' where m': "krate_module k' = Some m'" "retagged R m m'"
    using assms(1) m(1) by (auto simp: retagged_crate_def option_rel_Some1)
  have "is_module (item_inner m')"
    using retagged_parts(1) [OF m'(2)] m(2) by (auto simp: same_header_def is_module_rebuild)
  then show ?thesis using m'(1) by (auto simp: rooted_def)
qed

lemma collect_trait_impls_ok:
  assumes "front_ok k" "unstripped_crate k" "rooted k" "impl_env_ok env"
  shows "\<exists>k1 k2 m new. retagged_crate (=) k k1 \<and> retagged_crate (=) k1 k2 \<and> krate_module k2 = Some m \<and> set new \<subseteq> buildable env \<and>
    collect_trait_impls env k = Done (k2\<lparr>krate_module := Some (grown_root new m)\<rparr>) \<and>
    front_ok (k2\<lparr>krate_module := Some (grown_root new m)\<rparr>) \<and> unstripped_crate (k2\<lparr>krate_module := Some (grown_root new m)\<rparr>) \<and>
    function_entries (k2\<lparr>krate_module := Some (grown_root new m)\<rparr>) = function_entries k"
proof -
  obtain k1 synth where k1: "fold_crate (synthetic_impl_collector env) k [] = Done (k1, synth)" "retagged_crate (=) k k1"
      "set synth \<subseteq> buildable env"
    using synth.fold_crate_retagged [OF _ all_good, of k "[]" env] assms(1) by (auto simp: front_ok_def)
  have ok1: "front_ok k1" using retagged_front_ok [OF k1(2) assms(1)] .
  obtain k2 ids where k2: "fold_crate item_collector k1 {} = Done (k2, ids)" "retagged_crate (=) k1 k2"
    using items.fold_crate_retagged [OF _ all_good, of k1 "{}"] ok1 by (auto simp: front_ok_def)
  have ok2: "front_ok k2" "unstripped_crate k2" "rooted k2"
    using retagged_front_ok [OF k2(2) ok1] retagged_unstripped [OF k2(2) retagged_unstripped [OF k1(2) assms(2)]]
      retagged_rooted [OF k2(2) retagged_rooted [OF k1(2) assms(3)]] by blast+
  let ?st = "fold (primitive_impl env) (primitive_impls env) (fold (build_impl env) (extern_impls env) ([], inlined_before env))"
  have st: "set (fst ?st) \<subseteq> buildable env" by (intro primitive_impl_set build_impl_set) simp
  obtain cleaner where cleaner: "ofold (splice_deref env) (fst ?st)
      \<lparr>prims = set (map (fst \<circ> snd) (krate_primitives k2)), stripper_items = ids\<rparr> = Done cleaner"
    using splice_deref_Done [of "fst ?st" env] st assms(4) by (meson impl_env_ok_def subsetD)
  let ?new = "synth @ fst (fold (build_impl env) (local_impls env) (filter (keep_impl env cleaner) (fst ?st), snd ?st))"
  have "set (fst (fold (build_impl env) (local_impls env) (filter (keep_impl env cleaner) (fst ?st), snd ?st))) \<subseteq> buildable env"
    using st by (intro build_impl_set) auto
  then have new: "set ?new \<subseteq> buildable env" using k1(3) by simp
  then have blocks: "\<forall>x \<in> set ?new. impl_block_ok x" using assms(4) unfolding impl_env_ok_def by blast
  obtain m where m: "krate_module k2 = Some m" "is_module (item_inner m)" using ok2(3) by (auto simp: rooted_def)
  have "collect_trait_impls env k = append_to_root ?new k2"
    using k1(1) k2(1) cleaner by (simp add: collect_trait_impls_def Let_def split_beta)
  then have "collect_trait_impls env k = Done (k2\<lparr>krate_module := Some (grown_root ?new m)\<rparr>)"
    using append_to_root_eq [OF m] by simp
  moreover have "function_entries k2 = function_entries k"
    using retagged_functions [OF k2(2)] retagged_functions [OF k1(2)] by (simp add: keeps_other_attrs_def)
  ultimately show ?thesis
    using k1(2) k2(2) m new grown_front_ok [OF ok2(1) m blocks] grown_functions [OF m blocks] ok2(2) by blast
qed

end
