(* ===== verification/Pass_Pipeline.thy ===== *)
theory Pass_Pipeline
  imports Doc_Passes Trait_Impls
begin

text \<open>
  The passes as a whole: the tables of \<^verbatim>\<open>passes/mod.rs\<close> and the part of \<open>run_global_ctxt\<close> in
  \<^verbatim>\<open>librustdoc/core.rs\<close> that reads the attributes of the crate, chooses the passes and runs them. The
  result is that the functions the generator sees after the default passes are the public ones of the
  crate as it was cleaned.
\<close>

section \<open>The table of passes\<close>

datatype doc_pass =
    CheckPrivateItemsDocTests | StripHidden | UnindentComments | CollapseDocs | StripPrivate | StripPrivImports
  | PropagateDocCfg | CollectIntraDocLinks | CheckCodeBlockSyntax | CollectTraitImpls | CalculateDocCoverage

fun pass_name :: "doc_pass \<Rightarrow> string" where
  "pass_name CheckPrivateItemsDocTests = ''check-private-items-doc-tests''"
| "pass_name StripHidden = ''strip-hidden''"
| "pass_name UnindentComments = ''unindent-comments''"
| "pass_name CollapseDocs = ''collapse-docs''"
| "pass_name StripPrivate = ''strip-private''"
| "pass_name StripPrivImports = ''strip-priv-imports''"
| "pass_name PropagateDocCfg = ''propagate-doc-cfg''"
| "pass_name CollectIntraDocLinks = ''collect-intra-doc-links''"
| "pass_name CheckCodeBlockSyntax = ''check-code-block-syntax''"
| "pass_name CollectTraitImpls = ''collect-trait-impls''"
| "pass_name CalculateDocCoverage = ''calculate-doc-coverage''"

definition passes :: "doc_pass list" where
  "passes = [CheckPrivateItemsDocTests, StripHidden, UnindentComments, CollapseDocs, StripPrivate, StripPrivImports,
     PropagateDocCfg, CollectIntraDocLinks, CheckCodeBlockSyntax, CollectTraitImpls, CalculateDocCoverage]"

datatype condition = Always | WhenDocumentPrivate | WhenNotDocumentPrivate | WhenNotDocumentHidden

type_synonym conditional_pass = "doc_pass \<times> condition"

definition default_passes :: "conditional_pass list" where
  "default_passes =
     [(CollectTraitImpls, Always), (CollapseDocs, Always), (UnindentComments, Always), (CheckPrivateItemsDocTests, Always),
      (StripHidden, WhenNotDocumentHidden), (StripPrivate, WhenNotDocumentPrivate), (StripPrivImports, WhenDocumentPrivate),
      (CollectIntraDocLinks, Always), (CheckCodeBlockSyntax, Always), (PropagateDocCfg, Always)]"

definition coverage_passes :: "conditional_pass list" where
  "coverage_passes =
     [(CollectTraitImpls, Always), (StripHidden, WhenNotDocumentHidden), (StripPrivate, WhenNotDocumentPrivate),
      (CalculateDocCoverage, Always)]"

datatype default_pass_option = DefaultSet | CoverageSet | NoneSet

fun defaults :: "default_pass_option \<Rightarrow> conditional_pass list" where
  "defaults DefaultSet = default_passes"
| "defaults CoverageSet = coverage_passes"
| "defaults NoneSet = []"

definition find_pass :: "string \<Rightarrow> doc_pass option" where
  "find_pass name = find (\<lambda>p. pass_name p = name) passes"

lemma find_pass_name: "find_pass (pass_name p) = Some p"
  by (cases p) (simp_all add: find_pass_def passes_def)

section \<open>The options of a crate\<close>

text \<open>\<open>str::split_whitespace\<close>.\<close>

fun split_ws :: "string \<Rightarrow> string \<Rightarrow> string list" where
  "split_ws acc [] = [acc]"
| "split_ws acc (c # cs) = (if is_whitespace c then acc # split_ws [] cs else split_ws (acc @ [c]) cs)"

definition split_whitespace :: "string \<Rightarrow> string list" where
  "split_whitespace s = filter (\<lambda>w. w \<noteq> []) (split_ws [] s)"

record pass_options =
  default_set :: default_pass_option
  manual_passes :: "string list"
  opt_document_private :: bool
  opt_document_hidden :: bool
  option_warnings :: "string list"

definition report_deprecated_attr :: "string \<Rightarrow> pass_options \<Rightarrow> pass_options" where
  "report_deprecated_attr name opts =
     opts\<lparr>option_warnings := option_warnings opts @ [''the `#![doc('' @ name @ '')]` attribute is considered deprecated'',
       ''see issue #44136 <https://github.com/rust-lang/rust/issues/44136> for more information''] @
       (if name = ''no_default_passes'' then [''you may want to use `#![doc(document_private_items)]`''] else [])\<rparr>"

definition nested_name :: "nested_meta_item \<Rightarrow> string" where
  "nested_name n =
     (case n of NestedMeta mi \<Rightarrow> (case meta_path mi of [name] \<Rightarrow> name | _ \<Rightarrow> '''') | NestedLiteral _ \<Rightarrow> '''')"

text \<open>One round of the loop over the \<open>doc\<close> attributes of the crate.\<close>

definition read_crate_attr :: "nested_meta_item \<Rightarrow> pass_options \<Rightarrow> pass_options" where
  "read_crate_attr attr opts =
     (let name = nested_name attr in
      if nested_is_word attr then
        let opts = (if name = ''no_default_passes'' then
            let opts = report_deprecated_attr ''no_default_passes'' opts
            in if default_set opts = DefaultSet then opts\<lparr>default_set := NoneSet\<rparr> else opts
          else opts)
        in if name = ''document_private_items'' then opts\<lparr>opt_document_private := True\<rparr> else opts
      else case nested_value_str attr of
        Some value \<Rightarrow>
          if name = ''passes'' then
            let opts = report_deprecated_attr (''passes = '' @ quote ''...'') opts
            in opts\<lparr>manual_passes := manual_passes opts @ split_whitespace value\<rparr>
          else if name = ''plugins'' then
            let opts = report_deprecated_attr (''plugins = '' @ quote ''...'') opts
            in opts\<lparr>option_warnings := option_warnings opts @
                 [''WARNING: `#![doc(plugins = '' @ quote ''...'' @ '')]` no longer functions; see CVE-2018-1000622'']\<rparr>
          else opts
      | None \<Rightarrow> opts)"

definition crate_options :: "pass_options \<Rightarrow> clean_crate \<Rightarrow> pass_options outcome" where
  "crate_options opts k =
     obind (unwrap (krate_module k)) (\<lambda>m. Done (fold read_crate_attr (attr_lists (other_attrs (item_attrs m)) ''doc'') opts))"

section \<open>Running the passes\<close>

definition pass_list :: "pass_options \<Rightarrow> conditional_pass list" where
  "pass_list opts = defaults (default_set opts) @
     List.map_filter (\<lambda>name. map_option (\<lambda>p. (p, Always)) (find_pass name)) (manual_passes opts)"

fun condition_holds :: "pass_options \<Rightarrow> condition \<Rightarrow> bool" where
  "condition_holds opts Always = True"
| "condition_holds opts WhenDocumentPrivate = opt_document_private opts"
| "condition_holds opts WhenNotDocumentPrivate = (\<not> opt_document_private opts)"
| "condition_holds opts WhenNotDocumentHidden = (\<not> opt_document_hidden opts)"

definition silent :: "clean_crate outcome \<Rightarrow> (clean_crate \<times> diagnostic list) outcome" where
  "silent r = omap (\<lambda>k. (k, [])) r"

fun run_pass :: "pass_env \<Rightarrow> impl_env \<Rightarrow> doc_pass \<Rightarrow> clean_crate \<Rightarrow> (clean_crate \<times> diagnostic list) outcome" where
  "run_pass env ienv CheckPrivateItemsDocTests k = check_private_items_doc_tests env k"
| "run_pass env ienv StripHidden k = silent (strip_hidden (prim_locations env) k)"
| "run_pass env ienv UnindentComments k = silent (unindent_comments k)"
| "run_pass env ienv CollapseDocs k = silent (collapse_docs (span_to env) k)"
| "run_pass env ienv StripPrivate k = silent (strip_private (prim_locations env) (pass_levels env) k)"
| "run_pass env ienv StripPrivImports k = silent (strip_priv_imports k)"
| "run_pass env ienv PropagateDocCfg k = silent (propagate_doc_cfg k)"
| "run_pass env ienv CollectIntraDocLinks k = collect_intra_doc_links env k"
| "run_pass env ienv CheckCodeBlockSyntax k = check_code_block_syntax env k"
| "run_pass env ienv CollectTraitImpls k = silent (collect_trait_impls ienv k)"
| "run_pass env ienv CalculateDocCoverage k = omap (\<lambda>(k, _). (k, [])) (calculate_doc_coverage k)"

definition run_conditional ::
  "pass_env \<Rightarrow> impl_env \<Rightarrow> pass_options \<Rightarrow> conditional_pass \<Rightarrow> clean_crate \<times> diagnostic list \<Rightarrow> (clean_crate \<times> diagnostic list) outcome" where
  "run_conditional env ienv opts p st =
     (if condition_holds opts (snd p)
      then obind (run_pass env ienv (fst p) (fst st)) (\<lambda>(k, messages). Done (k, snd st @ messages))
      else Done st)"

definition run_passes ::
  "pass_env \<Rightarrow> impl_env \<Rightarrow> pass_options \<Rightarrow> clean_crate \<Rightarrow> (clean_crate \<times> diagnostic list) outcome" where
  "run_passes env ienv opts k =
     obind (crate_options opts k) (\<lambda>opts. ofold (run_conditional env ienv opts) (pass_list opts) (k, []))"

section \<open>The attribute passes of the table\<close>

lemma retagged_crate_all_items:
  assumes "retagged_crate R k k'" "list_all (all_items P) (crate_items k)" "\<And>x y. retagged R x y \<Longrightarrow> P x \<Longrightarrow> Q y"
  shows "list_all (all_items Q) (crate_items k')"
  unfolding list_all_iff
proof
  fix y assume "y \<in> set (crate_items k')"
  then obtain x where x: "x \<in> set (crate_items k)" "retagged R x y"
    using retagged_crate_items [OF assms(1)] by (metis in_set_conv_nth list_all2_conv_all_nth)
  then have "all_items P x" using assms(2) by (simp add: list_all_iff)
  then show "all_items Q y" using retagged_all_items [OF x(2)] assms(3) by blast
qed

lemma retagged_crate_update: "retagged_crate R k k' \<Longrightarrow> retagged_crate R k (k'\<lparr>krate_collapsed := b\<rparr>)"
  by (simp add: retagged_crate_def)

lemma retagged_crate_mono: "retagged_crate R k k' \<Longrightarrow> (\<And>a b. R a b \<Longrightarrow> S a b) \<Longrightarrow> retagged_crate S k k'"
  unfolding retagged_crate_def
  by (auto elim!: option.rel_mono_strong list_all2_mono intro: retagged_mono)

lemma retagged_crate_refl: "(\<And>a. R a a) \<Longrightarrow> retagged_crate R k k"
  by (simp add: retagged_crate_def option.rel_refl list_all2_same retagged_refl split_beta)

text \<open>
  Each attribute pass returns, and the crate it returns has the same items with the same attributes
  other than documentation, configuration and links.
\<close>

lemma attr_passes_return:
  assumes "crate_flat k"
  shows "\<exists>k'. collapse_docs to k = Done k' \<and> retagged_crate (collapsed_attrs to) k k'"
    "list_all (all_items docs_ok) (crate_items k) \<Longrightarrow> \<exists>k'. unindent_comments k = Done k' \<and> retagged_crate unindented_attrs k k'"
    "\<exists>k' ms. check_private_items_doc_tests env k = Done (k', ms) \<and> retagged_crate keeps_other_attrs k k'"
    "\<exists>k' ms. check_code_block_syntax env k = Done (k', ms) \<and> retagged_crate keeps_other_attrs k k'"
    "\<exists>k'. propagate_doc_cfg k = Done k' \<and> retagged_crate keeps_other_attrs k k'"
proof -
  obtain k1 s where "fold_crate (collapser to) k () = Done (k1, s)" "retagged_crate (collapsed_attrs to) k k1"
    using collapser.fold_crate_retagged [OF assms all_good TrueI, of to "()"] by blast
  then show "\<exists>k'. collapse_docs to k = Done k' \<and> retagged_crate (collapsed_attrs to) k k'"
    using retagged_crate_update by (auto simp: collapse_docs_def)
  show "\<exists>k'. unindent_comments k = Done k' \<and> retagged_crate unindented_attrs k k'"
    if docs: "list_all (all_items docs_ok) (crate_items k)"
    using comment_cleaner.fold_crate_retagged [OF assms docs TrueI, of "()"] by (auto simp: unindent_comments_def)
  show "\<exists>k' ms. check_private_items_doc_tests env k = Done (k', ms) \<and> retagged_crate keeps_other_attrs k k'"
    using doc_test_linter.fold_crate_retagged [OF assms all_good TrueI, of env "[]"] by (auto simp: check_private_items_doc_tests_def)
  show "\<exists>k' ms. check_code_block_syntax env k = Done (k', ms) \<and> retagged_crate keeps_other_attrs k k'"
    using syntax_checker.fold_crate_retagged [OF assms all_good TrueI, of env "[]"] by (auto simp: check_code_block_syntax_def)
  show "\<exists>k'. propagate_doc_cfg k = Done k' \<and> retagged_crate keeps_other_attrs k k'"
    using cfg_propagator.fold_crate_retagged [OF assms all_good TrueI, of None] by (auto simp: propagate_doc_cfg_def)
qed

lemma links_return:
  assumes "crate_flat k"
  shows "\<exists>k' ms. collect_intra_doc_links env k = Done (k', ms) \<and> retagged_crate keeps_other_attrs k k'"
proof -
  have refl: "retagged_crate keeps_other_attrs k k" by (rule retagged_crate_refl) (simp add: keeps_other_attrs_def)
  show ?thesis
  proof (cases "nightly_build env \<and> krate_module k \<noteq> None")
    case False
    then show ?thesis using refl by (auto simp: collect_intra_doc_links_def retagged_crate_def)
  next
    case True
    then obtain m where m: "krate_module k = Some m" by blast
    then have "item_flat m" using assms by (simp add: crate_flat_def crate_items_def)
    then obtain m' s where m': "link_folder env m \<lparr>mod_ids = [], link_messages = []\<rparr> = Done (Some m', s)" "retagged keeps_other_attrs m m'"
      using link_folder.fold_item_retagged [OF _ all_items_True TrueI, of m env] by blast
    have "retagged_crate keeps_other_attrs k (k\<lparr>krate_module := Some m'\<rparr>)"
      using refl m m'(2) by (simp add: retagged_crate_def)
    then show ?thesis using True m m'(1) by (auto simp: collect_intra_doc_links_def)
  qed
qed

section \<open>The public functions survive the default passes\<close>

definition comments_ok :: "(nat \<Rightarrow> nat \<Rightarrow> nat) \<Rightarrow> clean_item \<Rightarrow> bool" where
  "comments_ok to i \<longleftrightarrow>
     (case collapse to (doc_strings (item_attrs i)) of Done docs \<Rightarrow> list_all (text_ok \<circ> fragment_as_str) docs | _ \<Rightarrow> False)"

text \<open>
  The crates the passes are run on: as \<open>clean_crate\<close> makes them, well-formed, without stripped items,
  with a root module and comments that do not start with a blank line.
\<close>

definition cleaned :: "pass_env \<Rightarrow> clean_crate \<Rightarrow> bool" where
  "cleaned env k \<longleftrightarrow> front_ok k \<and> unstripped_crate k \<and> rooted k \<and> list_all (all_items (comments_ok (span_to env))) (crate_items k)"

definition context_ok :: "pass_env \<Rightarrow> impl_env \<Rightarrow> bool" where
  "context_ok env ienv \<longleftrightarrow> impl_env_ok ienv \<and> (\<forall>x \<in> buildable ienv. all_items (comments_ok (span_to env)) x)"

lemma function_entries_seen:
  assumes "crate_ok k"
  shows "seen_functions k = {(name, f). \<exists>did attrs. (Some name, f, did, attrs) \<in> function_entries k}"
proof -
  have "(\<exists>did attrs. (Some name, f, did, attrs) \<in> function_entries k) \<longleftrightarrow>
      (\<exists>x \<in> function_items k. item_inner x = FunctionItem f \<and> item_name x = Some name)" for name f
    unfolding function_entries_def by force
  then show ?thesis using seen_functions_eq [OF assms] by simp
qed

definition hidden_by :: "ast_attribute list \<Rightarrow> bool" where
  "hidden_by attrs = has_word (attr_lists attrs ''doc'') ''hidden''"

lemma stripped_entries:
  assumes "front_ok k" "unstripped_crate k"
  shows "\<exists>k1 k2. strip_hidden pl k = Done k1 \<and> strip_private pl levels k1 = Done k2 \<and> front_ok k2 \<and> krate_name k2 = krate_name k \<and>
    function_entries k2 = {(name, f, did, attrs) \<in> function_entries k. \<not> hidden_by attrs \<and> (is_local did \<longrightarrow> is_exported levels did)}"
proof -
  let ?k1 = "hidden_filtered pl k" and ?k2 = "private_filtered pl levels (hidden_filtered pl k)"
  have flat: "crate_flat k" using assms(1) by (simp add: front_ok_def)
  have ok1: "front_ok ?k1" by (rule hidden_front_ok [OF assms])
  have ok2: "front_ok ?k2" by (rule private_front_ok [OF ok1])
  have k1: "strip_hidden pl k = Done ?k1" by (rule strip_hidden_eq [OF flat])
  have k2: "strip_private pl levels ?k1 = Done ?k2" using ok1 by (simp add: strip_private_eq front_ok_def)
  have "function_items ?k2 = {x \<in> function_items k. \<not> is_hidden (item_attrs x) \<and>
      (is_local (item_def_id x) \<longrightarrow> is_exported levels (item_def_id x))}"
    using hidden_functions_lemma [OF flat assms(2) k1] private_functions_lemma [OF _ k2] ok1 by (auto simp: front_ok_def)
  then have "function_entries ?k2 = {(name, f, did, attrs) \<in> function_entries k. \<not> hidden_by attrs \<and> (is_local did \<longrightarrow> is_exported levels did)}"
    by (auto simp: function_entries_def is_hidden_def hidden_by_def)
  moreover have "krate_name ?k2 = krate_name k" by (simp add: private_filtered_def hidden_filtered_def crate_with_def)
  ultimately show ?thesis using k1 k2 ok2 by blast
qed

lemma collected_comments_ok:
  assumes "retagged_crate (=) k k1" "retagged_crate (=) k1 k2" "krate_module k2 = Some m" "is_module (item_inner m)"
    and "list_all (all_items (comments_ok to)) (crate_items k)" "\<forall>x \<in> set new. all_items (comments_ok to) x"
  shows "list_all (all_items (comments_ok to)) (crate_items (k2\<lparr>krate_module := Some (grown_root new m)\<rparr>))"
proof -
  have same: "comments_ok to y" if "retagged (=) x y" "comments_ok to x" for x y
    using that retagged_parts(2) [OF that(1)] by (simp add: comments_ok_def)
  have "list_all (all_items (comments_ok to)) (crate_items k2)"
    using same by (intro retagged_crate_all_items [OF assms(2) retagged_crate_all_items [OF assms(1,5)]])
  moreover have "comments_ok to (grown_root new m) = comments_ok to m" by (simp add: grown_root_def comments_ok_def)
  ultimately show ?thesis
    using assms(3,6)
    by (auto simp: crate_items_def all_items.simps [of _ m] all_items.simps [of _ "grown_root new m"]
        grown_root_module(1) [OF assms(4)] list_all_iff)
qed

lemma docs_keep:
  "collapsed_attrs to a b \<Longrightarrow> keeps_other_attrs a b" "unindented_attrs a b \<Longrightarrow> keeps_other_attrs a b"
  by (auto simp: collapsed_attrs_def unindented_attrs_def keeps_other_attrs_def)

text \<open>The four steps before stripping, and the three after it.\<close>

lemma passes_before:
  assumes "cleaned env k" "context_ok env ienv"
  shows "\<exists>k1 k2 k3 k4 ms. collect_trait_impls ienv k = Done k1 \<and> collapse_docs (span_to env) k1 = Done k2 \<and>
    unindent_comments k2 = Done k3 \<and> check_private_items_doc_tests env k3 = Done (k4, ms) \<and>
    front_ok k4 \<and> unstripped_crate k4 \<and> krate_name k4 = krate_name k \<and> function_entries k4 = function_entries k"
proof -
  have k: "front_ok k" "unstripped_crate k" "rooted k" "list_all (all_items (comments_ok (span_to env))) (crate_items k)"
    using assms(1) by (simp_all add: cleaned_def)
  obtain ka kb m new where c: "retagged_crate (=) k ka" "retagged_crate (=) ka kb" "krate_module kb = Some m"
      "set new \<subseteq> buildable ienv" "collect_trait_impls ienv k = Done (kb\<lparr>krate_module := Some (grown_root new m)\<rparr>)"
      "front_ok (kb\<lparr>krate_module := Some (grown_root new m)\<rparr>)" "unstripped_crate (kb\<lparr>krate_module := Some (grown_root new m)\<rparr>)"
      "function_entries (kb\<lparr>krate_module := Some (grown_root new m)\<rparr>) = function_entries k"
    using collect_trait_impls_ok [OF k(1-3), of ienv] assms(2) unfolding context_ok_def by blast
  let ?k1 = "kb\<lparr>krate_module := Some (grown_root new m)\<rparr>"
  have "rooted kb" by (rule retagged_rooted [OF c(2) retagged_rooted [OF c(1) k(3)]])
  then have "is_module (item_inner m)" using c(3) by (simp add: rooted_def)
  moreover have "\<forall>x \<in> set new. all_items (comments_ok (span_to env)) x" using c(4) assms(2) unfolding context_ok_def by blast
  ultimately have docs: "list_all (all_items (comments_ok (span_to env))) (crate_items ?k1)"
    using collected_comments_ok [OF c(1-3)] k(4) by blast
  obtain k2 where k2: "collapse_docs (span_to env) ?k1 = Done k2" "retagged_crate (collapsed_attrs (span_to env)) ?k1 k2"
    using attr_passes_return(1) c(6) unfolding front_ok_def by blast
  have "docs_ok y" if "retagged (collapsed_attrs (span_to env)) x y" "comments_ok (span_to env) x" for x y
    using retagged_parts(2) [OF that(1)] that(2) by (auto simp: collapsed_attrs_def comments_ok_def docs_ok_def)
  then have docs2: "list_all (all_items docs_ok) (crate_items k2)" by (rule retagged_crate_all_items [OF k2(2) docs])
  have ok2: "front_ok k2" "unstripped_crate k2"
    using retagged_front_ok [OF k2(2) c(6)] retagged_unstripped [OF k2(2) c(7)] by blast+
  obtain k3 where k3: "unindent_comments k2 = Done k3" "retagged_crate unindented_attrs k2 k3"
    using attr_passes_return(2) [OF _ docs2] ok2(1) unfolding front_ok_def by blast
  have ok3: "front_ok k3" "unstripped_crate k3"
    using retagged_front_ok [OF k3(2) ok2(1)] retagged_unstripped [OF k3(2) ok2(2)] by blast+
  obtain k4 ms where k4: "check_private_items_doc_tests env k3 = Done (k4, ms)" "retagged_crate keeps_other_attrs k3 k4"
    using attr_passes_return(3) ok3(1) unfolding front_ok_def by blast
  have "function_entries k4 = function_entries k"
    using retagged_functions [OF k4(2)] retagged_functions [OF k3(2) docs_keep(2)] retagged_functions [OF k2(2) docs_keep(1)] c(8)
    by simp
  moreover have "krate_name k4 = krate_name k" using c(1,2) k2(2) k3(2) k4(2) by (simp add: retagged_crate_def)
  ultimately show ?thesis
    using c(5) k2(1) k3(1) k4(1) retagged_front_ok [OF k4(2) ok3(1)] retagged_unstripped [OF k4(2) ok3(2)] by blast
qed

lemma passes_after:
  assumes "front_ok k"
  shows "\<exists>k1 k2 k3 ms1 ms2. collect_intra_doc_links env k = Done (k1, ms1) \<and> check_code_block_syntax env k1 = Done (k2, ms2) \<and>
    propagate_doc_cfg k2 = Done k3 \<and> front_ok k3 \<and> krate_name k3 = krate_name k \<and> function_entries k3 = function_entries k"
proof -
  obtain k1 ms1 where k1: "collect_intra_doc_links env k = Done (k1, ms1)" "retagged_crate keeps_other_attrs k k1"
    using links_return assms unfolding front_ok_def by blast
  have ok1: "front_ok k1" by (rule retagged_front_ok [OF k1(2) assms])
  obtain k2 ms2 where k2: "check_code_block_syntax env k1 = Done (k2, ms2)" "retagged_crate keeps_other_attrs k1 k2"
    using attr_passes_return(4) ok1 unfolding front_ok_def by blast
  have ok2: "front_ok k2" by (rule retagged_front_ok [OF k2(2) ok1])
  obtain k3 where k3: "propagate_doc_cfg k2 = Done k3" "retagged_crate keeps_other_attrs k2 k3"
    using attr_passes_return(5) ok2 unfolding front_ok_def by blast
  have "function_entries k3 = function_entries k"
    using retagged_functions [OF k3(2)] retagged_functions [OF k2(2)] retagged_functions [OF k1(2)] by auto
  moreover have "krate_name k3 = krate_name k" using k1(2) k2(2) k3(2) by (simp add: retagged_crate_def)
  ultimately show ?thesis using k1(1) k2(1) k3(1) retagged_front_ok [OF k3(2) ok2] by blast
qed

text \<open>The functions of a crate that are meant to be called from outside.\<close>

definition public_functions :: "access_levels \<Rightarrow> clean_crate \<Rightarrow> (string \<times> clean_function) set" where
  "public_functions levels k = {(name, f). \<exists>x \<in> function_items k. item_inner x = FunctionItem f \<and> item_name x = Some name \<and>
     \<not> is_hidden (item_attrs x) \<and> (is_local (item_def_id x) \<longrightarrow> is_exported levels (item_def_id x))}"

text \<open>The options of a run of the default passes.\<close>

definition default_run :: "pass_options \<Rightarrow> clean_crate \<Rightarrow> bool" where
  "default_run opts0 k \<longleftrightarrow>
     (case crate_options opts0 k of
        Done opts \<Rightarrow> default_set opts = DefaultSet \<and> manual_passes opts = [] \<and> \<not> opt_document_private opts \<and> \<not> opt_document_hidden opts
      | _ \<Rightarrow> False)"

lemma public_functions_eq:
  "public_functions levels k = {(name, f). \<exists>did attrs. (Some name, f, did, attrs) \<in> function_entries k \<and> \<not> hidden_by attrs \<and>
     (is_local did \<longrightarrow> is_exported levels did)}"
  unfolding function_entries_def is_hidden_def hidden_by_def public_functions_def by force

lemma default_passes_ok:
  assumes "cleaned penv k" "context_ok penv ienv" "default_run opts0 k"
  shows "\<exists>k' ms. run_passes penv ienv opts0 k = Done (k', ms) \<and> front_ok k' \<and> krate_name k' = krate_name k \<and>
    seen_functions k' = public_functions (pass_levels penv) k"
proof -
  obtain opts where opts: "crate_options opts0 k = Done opts" "default_set opts = DefaultSet" "manual_passes opts = []"
      "\<not> opt_document_private opts" "\<not> opt_document_hidden opts"
    using assms(3) by (auto simp: default_run_def split: outcome.splits)
  obtain k1 k2 k3 k4 ms where before: "collect_trait_impls ienv k = Done k1" "collapse_docs (span_to penv) k1 = Done k2"
      "unindent_comments k2 = Done k3" "check_private_items_doc_tests penv k3 = Done (k4, ms)"
      "front_ok k4" "unstripped_crate k4" "krate_name k4 = krate_name k" "function_entries k4 = function_entries k"
    using passes_before [OF assms(1,2)] by blast
  obtain k5 k6 where strip: "strip_hidden (prim_locations penv) k4 = Done k5"
      "strip_private (prim_locations penv) (pass_levels penv) k5 = Done k6" "front_ok k6" "krate_name k6 = krate_name k4"
      "function_entries k6 = {(name, f, did, attrs) \<in> function_entries k4. \<not> hidden_by attrs \<and>
         (is_local did \<longrightarrow> is_exported (pass_levels penv) did)}"
    using stripped_entries [OF before(5,6)] by blast
  obtain k7 k8 k9 ms1 ms2 where after: "collect_intra_doc_links penv k6 = Done (k7, ms1)"
      "check_code_block_syntax penv k7 = Done (k8, ms2)" "propagate_doc_cfg k8 = Done k9" "front_ok k9"
      "krate_name k9 = krate_name k6" "function_entries k9 = function_entries k6"
    using passes_after [OF strip(3)] by blast
  have "run_passes penv ienv opts0 k = Done (k9, ms @ ms1 @ ms2)"
    using opts before(1-4) strip(1,2) after(1-3)
    by (simp add: run_passes_def pass_list_def default_passes_def run_conditional_def silent_def map_filter_simps)
  moreover have "seen_functions k9 = {(name, f). \<exists>did attrs. (Some name, f, did, attrs) \<in> function_entries k \<and>
      \<not> hidden_by attrs \<and> (is_local did \<longrightarrow> is_exported (pass_levels penv) did)}"
    using function_entries_seen [of k9] after(4,6) strip(5) before(8) by (simp add: front_ok_def)
  then have "seen_functions k9 = public_functions (pass_levels penv) k" by (simp only: public_functions_eq)
  ultimately show ?thesis using after(4,5) strip(4) before(7) by auto
qed

text \<open>The cache leaves the functions in place.\<close>

lemma cached_functions:
  assumes "front_ok k"
  shows "\<exists>k' idx c. from_krate env ri dp k = Done (k', idx, c) \<and> seen_functions k' = seen_functions k"
proof -
  obtain k' idx c where cache: "from_krate env ri dp k = Done (k', idx, c)" "krate_name k' = krate_name k"
      "krate_module k' = Option.bind (krate_module k) (prune cache_verdict)"
    using from_krate_ok [of k env ri dp] assms by (auto simp: front_ok_def)
  then show ?thesis using cached_crate(3) [OF _ _ cache(2,3)] assms by (auto simp: seen_functions_def front_ok_def)
qed

text \<open>
  C15: the default passes, run on a cleaned crate whose attributes and options do not ask for others,
  return a crate on which the cache can be built, and the bare functions the generator then sees are
  exactly the functions of the cleaned crate that are not marked \<open>doc(hidden)\<close> and, if they are of
  this crate, exported.
\<close>

theorem default_passes_public:
  assumes "cleaned penv k" "context_ok penv ienv" "default_run opts0 k"
  shows "\<exists>k' ms k3 idx c. run_passes penv ienv opts0 k = Done (k', ms) \<and> front_ok k' \<and>
    from_krate env ri dp k' = Done (k3, idx, c) \<and> seen_functions k3 = public_functions (pass_levels penv) k"
proof -
  obtain k' ms where k': "run_passes penv ienv opts0 k = Done (k', ms)" "front_ok k'"
      "seen_functions k' = public_functions (pass_levels penv) k"
    using default_passes_ok [OF assms] by blast
  then show ?thesis using cached_functions [OF k'(2), of env ri dp] by fastforce
qed

definition example_pass_env :: pass_env where
  "example_pass_env = \<lparr>span_to = max, prim_locations = (\<lambda>_. None), pass_levels = (\<lambda>_. Some PublicLevel), all_fake_def_ids = {},
     testable_code = (\<lambda>_. 0), code_block_warnings = (\<lambda>_ _. []), link_targets = (\<lambda>_ _. ([], [])), nightly_build = True\<rparr>"

definition example_impl_env :: impl_env where
  "example_impl_env = \<lparr>impl_prims = (\<lambda>_. None), extern_impls = [], primitive_impls = [], local_impls = [], built_impl = (\<lambda>_. []),
     auto_impls = (\<lambda>_. []), hidden_def = (\<lambda>_. False), deref_trait = None, inlined_before = {}\<rparr>"

definition example_options :: pass_options where
  "example_options = \<lparr>default_set = DefaultSet, manual_passes = [], opt_document_private = False, opt_document_hidden = False, option_warnings = []\<rparr>"

lemma example_cleaned: "cleaned example_pass_env (example_crate [example_f, example_g])"
proof -
  let ?m = "example_item None 0 Public (ModuleItem (Module [example_f, example_g] True))"
  have item: "comments_ok max i" if "doc_strings (item_attrs i) = []" for i
    using that by (simp add: comments_ok_def collapse_def)
  have parts: "item_children ?m = [example_f, example_g]" "item_children example_f = []" "item_children example_g = []"
      "comments_ok max ?m" "comments_ok max example_f" "comments_ok max example_g"
    by (simp_all add: item_children_def example_f_def example_g_def example_item_def hide_def item)
  then have "all_items (comments_ok max) ?m"
    by (simp add: all_items.simps [of _ ?m] all_items.simps [of _ example_f] all_items.simps [of _ example_g])
  moreover have "krate_module (example_crate [example_f, example_g]) = Some ?m" "external_traits (example_crate [example_f, example_g]) = []"
    by (simp_all add: example_crate_def)
  moreover have "is_module (item_inner ?m)" by (simp add: example_item_def is_module_def)
  ultimately show ?thesis
    using example_fns_front_ok example_fns_ok(3)
    by (simp add: cleaned_def rooted_def crate_items_def example_pass_env_def)
qed

lemma example_context_ok: "context_ok example_pass_env example_impl_env"
  by (simp add: context_ok_def impl_env_ok_def buildable_def example_impl_env_def)

theorem default_passes_public_witness:
  "\<exists>k' ms k3 idx c. run_passes example_pass_env example_impl_env example_options (example_crate [example_f, example_g]) = Done (k', ms) \<and>
     from_krate example_doc_env example_render_info False k' = Done (k3, idx, c) \<and> seen_functions k3 = {(''f'', example_function [])}"
proof -
  have opts: "default_run example_options (example_crate [example_f, example_g])"
    by (simp add: default_run_def crate_options_def example_crate_def example_item_def example_options_def)
  have levels: "pass_levels example_pass_env = (\<lambda>_. Some PublicLevel)" by (simp add: example_pass_env_def)
  show ?thesis
    using default_passes_public [OF example_cleaned example_context_ok opts, of example_doc_env example_render_info False]
    unfolding levels public_functions_def example_public_functions by fastforce
qed

end
