(* ===== verification/Graph_Search.thy ===== *)
theory Graph_Search
  imports Api_Graph
begin

text \<open>
  \<^verbatim>\<open>fuzz_target/api_graph.rs\<close>, second part: the searches that fill \<open>api_sequences\<close>. The graph is the
  state of the searches, as it is in the code. Random numbers come from \<open>rng\<close>: the \<open>t\<close>-th draw
  below \<open>n\<close> is \<open>rng t n\<close>, with the draw count passed along; \<open>gen_range\<close> panics on an empty range.
\<close>

section \<open>Definitions\<close>

datatype graph_traverse_algorithm =
    Bfs | FastBfs | BfsEndPoint | FastBfsEndPoint | RandomWalk | RandomWalkEndPoint | TryDeepBfs
  | DirectBackwardSearch

definition random_walk_steps :: "string \<Rightarrow> nat option" where
  "random_walk_steps = map_of [(''regex'', 10000), (''url'', 10000), (''time'', 10000)]"

definition can_cover_nodes :: "string \<Rightarrow> nat option" where
  "can_cover_nodes = map_of [(''regex'', 96), (''serde_json'', 41), (''clap'', 66)]"

definition reset_visited :: "api_graph \<Rightarrow> api_graph" where
  "reset_visited g = g\<lparr>api_functions_visited := replicate (length (api_functions g)) False\<rparr>"

definition check_all_visited :: "api_graph \<Rightarrow> bool" where
  "check_all_visited g =
     (let visited_nodes = foldl (\<lambda>n v. if v then n + 1 else n) 0 (api_functions_visited g)
      in case can_cover_nodes (crate_name g) of
           Some to_cover_nodes \<Rightarrow> visited_nodes = to_cover_nodes
         | None \<Rightarrow> visited_nodes = length (api_functions_visited g))"

definition visited_nodes_num :: "api_graph \<Rightarrow> nat" where
  "visited_nodes_num g = length (filter (\<lambda>v. v = True) (api_functions_visited g))"

text \<open>
  The step all searches share: push the extended sequence and mark the function as visited. The
  result of \<open>check_all_visited\<close> is not used by the code.
\<close>

definition push_sequence :: "nat \<Rightarrow> api_sequence \<Rightarrow> api_graph \<Rightarrow> api_graph outcome" where
  "push_sequence fi new g =
     (let g = g\<lparr>api_sequences := api_sequences g @ [new]\<rparr>
      in obind (set_index (api_functions_visited g) fi True) (\<lambda>visited.
           Done (g\<lparr>api_functions_visited := visited\<rparr>)))"

definition select_level :: "bool \<Rightarrow> nat \<Rightarrow> api_graph \<Rightarrow> api_sequence list outcome" where
  "select_level stop_at_end_function len g =
     ofold (\<lambda>sequence tmp_sequences.
         obind (if stop_at_end_function then is_sequence_ended g sequence else Done False) (\<lambda>ended.
           if ended then Done tmp_sequences
           else if seq_len sequence = len then Done (tmp_sequences @ [sequence])
           else Done tmp_sequences))
       (api_sequences g) []"

definition bfs_try :: "bool \<Rightarrow> api_sequence \<Rightarrow> nat \<Rightarrow> api_graph \<Rightarrow> api_graph outcome" where
  "bfs_try fast_mode sequence api_func_index g =
     obind (if fast_mode then get_index (api_functions_visited g) api_func_index else Done False) (\<lambda>skip.
       if skip then Done g
       else obind (is_fun_satisfied g ApiBareFunction api_func_index sequence) (\<lambda>r.
         (case r of
            Some new_sequence \<Rightarrow> push_sequence api_func_index new_sequence g
          | None \<Rightarrow> Done g)))"

definition bfs_level :: "nat \<Rightarrow> bool \<Rightarrow> bool \<Rightarrow> nat \<Rightarrow> api_graph \<Rightarrow> api_graph outcome" where
  "bfs_level api_function_num stop_at_end_function fast_mode len g =
     obind (select_level stop_at_end_function len g) (\<lambda>tmp_sequences.
       ofold (\<lambda>sequence g. ofold (bfs_try fast_mode sequence) [0..<api_function_num] g) tmp_sequences g)"

definition bfs :: "nat \<Rightarrow> bool \<Rightarrow> bool \<Rightarrow> api_graph \<Rightarrow> api_graph outcome" where
  "bfs max_len stop_at_end_function fast_mode g =
     (let g = reset_visited (g\<lparr>api_sequences := []\<rparr>)
      in if max_len < 1 then Done g
         else let g = g\<lparr>api_sequences := api_sequences g @ [seq_new]\<rparr>
              in obind (ofold (bfs_level (length (api_functions g)) stop_at_end_function fast_mode)
                      [0..<max_len] g) (\<lambda>g.
                   if \<not> stop_at_end_function then Exit 0 else Done g))"

text \<open>The deep search keeps the covered nodes and edges and stops when a level adds none.\<close>

record deep_state =
  deep_graph :: api_graph
  deep_nodes :: "nat set"
  deep_edges :: "nat set"
  deep_flag :: bool

definition deep_try :: "api_sequence \<Rightarrow> nat \<Rightarrow> deep_state \<Rightarrow> deep_state outcome" where
  "deep_try sequence api_func_index d =
     obind (is_fun_satisfied (deep_graph d) ApiBareFunction api_func_index sequence) (\<lambda>r.
       (case r of
          None \<Rightarrow> Done d
        | Some new_sequence \<Rightarrow>
            let covered_nodes = get_contained_api_functions new_sequence;
                covered_edges = covered_dependencies new_sequence;
                flag = (deep_flag d \<or> \<not> set covered_nodes \<subseteq> deep_nodes d \<or>
                        \<not> covered_edges \<subseteq> deep_edges d)
            in obind (push_sequence api_func_index new_sequence (deep_graph d)) (\<lambda>g.
                 Done \<lparr>deep_graph = g, deep_nodes = deep_nodes d \<union> set covered_nodes,
                       deep_edges = deep_edges d \<union> covered_edges, deep_flag = flag\<rparr>)))"

fun deep_levels :: "nat \<Rightarrow> nat \<Rightarrow> nat list \<Rightarrow> deep_state \<Rightarrow> deep_state outcome" where
  "deep_levels max_sequence_number api_function_num [] d = Done d"
| "deep_levels max_sequence_number api_function_num (len # lens) d =
     (let current_sequence_number = length (api_sequences (deep_graph d));
          covered_nodes = visited_nodes_num (deep_graph d)
      in if len > 2 \<and> current_sequence_number * covered_nodes \<ge> max_sequence_number then Done d
         else obind (select_level True len (deep_graph d)) (\<lambda>tmp_sequences.
              obind (ofold (\<lambda>sequence d. ofold (deep_try sequence) [0..<api_function_num] d)
                       tmp_sequences (d\<lparr>deep_flag := False\<rparr>)) (\<lambda>d.
                if \<not> deep_flag d then Done d
                else deep_levels max_sequence_number api_function_num lens d)))"

definition try_deep_bfs :: "nat \<Rightarrow> api_graph \<Rightarrow> api_graph outcome" where
  "try_deep_bfs max_sequence_number g =
     (let g = reset_visited (g\<lparr>api_sequences := []\<rparr>);
          max_len = length (api_functions g)
      in if max_len < 1 then Done g
         else let g = g\<lparr>api_sequences := api_sequences g @ [seq_new]\<rparr>
              in omap deep_graph (deep_levels max_sequence_number (length (api_functions g)) [0..<max_len]
                   \<lparr>deep_graph = g, deep_nodes = {}, deep_edges = {}, deep_flag = False\<rparr>))"

definition gen_range :: "(nat \<Rightarrow> nat \<Rightarrow> nat) \<Rightarrow> nat \<Rightarrow> nat \<Rightarrow> nat outcome" where
  "gen_range rng t n = (if n = 0 then Panic EmptyRange else Done (rng t n))"

definition walk_step ::
  "(nat \<Rightarrow> nat \<Rightarrow> nat) \<Rightarrow> bool \<Rightarrow> nat \<Rightarrow> nat \<Rightarrow> api_graph \<times> nat \<Rightarrow> (api_graph \<times> nat) outcome" where
  "walk_step rng stop_at_end_function max_depth i st =
     (case st of (g, t) \<Rightarrow>
        obind (gen_range rng t (length (api_sequences g))) (\<lambda>chosen_sequence_index.
        obind (get_index (api_sequences g) chosen_sequence_index) (\<lambda>chosen_sequence.
        obind (if stop_at_end_function then is_sequence_ended g chosen_sequence else Done False) (\<lambda>ended.
          if ended then Done (g, t + 1)
          else if max_depth > 0 \<and> seq_len chosen_sequence \<ge> max_depth then Done (g, t + 1)
          else obind (gen_range rng (t + 1) (length (api_functions g))) (\<lambda>chosen_fun_index.
               obind (is_fun_satisfied g ApiBareFunction chosen_fun_index chosen_sequence) (\<lambda>r.
                 (case r of
                    None \<Rightarrow> Done (g, t + 2)
                  | Some new_sequence \<Rightarrow>
                      obind (push_sequence chosen_fun_index new_sequence g) (\<lambda>g. Done (g, t + 2)))))))))"

definition random_walk ::
  "(nat \<Rightarrow> nat \<Rightarrow> nat) \<Rightarrow> nat \<Rightarrow> bool \<Rightarrow> nat \<Rightarrow> api_graph \<Rightarrow> api_graph outcome" where
  "random_walk rng max_size stop_at_end_function max_depth g =
     (let g = reset_visited (g\<lparr>api_sequences := []\<rparr>)
      in if length (api_functions g) \<le> 0 then Done g
         else let g = g\<lparr>api_sequences := api_sequences g @ [seq_new]\<rparr>
              in omap fst (ofold (walk_step rng stop_at_end_function max_depth) [0..<max_size] (g, 0)))"

section \<open>Covering the functions not visited\<close>

definition choose_candidate :: "api_graph \<Rightarrow> nat \<Rightarrow> nat list \<Rightarrow> nat list outcome" where
  "choose_candidate g i res =
     obind (get_index (api_sequences g) i) (\<lambda>api_sequence.
     obind (dead_code g api_sequence) (\<lambda>dead.
     obind (is_sequence_ended g api_sequence) (\<lambda>ended.
       if ended then Done res
       else if seq_len api_sequence \<le> 0 then Done res
       else if seq_len api_sequence = 1 then Done (res @ [i])
       else obind (oex (get_index dead) [0..<seq_len api_sequence - 1]) (\<lambda>dead_code_flag.
              if \<not> dead_code_flag then Done (res @ [i]) else Done res))))"

definition choose_candidate_sequence_for_merge :: "api_graph \<Rightarrow> nat list outcome" where
  "choose_candidate_sequence_for_merge g =
     ofold (choose_candidate g) [0..<length (api_sequences g)] []"

text \<open>The index of a candidate goes through \<open>as i32\<close> and back \<open>as usize\<close>.\<close>

definition i32_round_trip :: "nat \<Rightarrow> nat" where
  "i32_round_trip n =
     (let w = n mod 2 ^ 32 in if w < 2 ^ 31 then w else 2 ^ 64 - 2 ^ 32 + w)"

fun find_producer ::
  "api_graph \<Rightarrow> nat \<Rightarrow> nat \<Rightarrow> nat list \<Rightarrow> nat option \<Rightarrow> nat option outcome" where
  "find_producer g node i [] found = Done found"
| "find_producer g node i (c # cs) found =
     obind (get_index (api_sequences g) c) (\<lambda>candidate_sequence.
     obind (unwrap (last_api_func_index candidate_sequence)) (\<lambda>output_index.
       (case check_dependency g ApiBareFunction output_index ApiBareFunction node i of
          Some _ \<Rightarrow>
            if \<not> has_no_fuzzables candidate_sequence then Done (Some c)
            else find_producer g node i cs (Some c)
        | None \<Rightarrow> find_producer g node i cs found)))"

definition cover_param ::
  "api_graph \<Rightarrow> nat \<Rightarrow> clean_type list \<Rightarrow> nat list \<Rightarrow> nat \<Rightarrow> bool \<times> nat list \<Rightarrow> (bool \<times> nat list) outcome" where
  "cover_param g node input_types candidates i st =
     (case st of (can_be_covered, indexes) \<Rightarrow>
        obind (get_index input_types i) (\<lambda>input_type.
          if is_fuzzable_type (graph_names g) input_type then Done (can_be_covered, indexes)
          else obind (find_producer g node i candidates None) (\<lambda>found.
            (case found of
               None \<Rightarrow> Done (False, indexes)
             | Some c \<Rightarrow> Done (can_be_covered, indexes @ [i32_round_trip c])))))"

definition cover_node ::
  "nat list \<Rightarrow> nat \<Rightarrow> api_graph \<times> nat list \<Rightarrow> (api_graph \<times> nat list) outcome" where
  "cover_node candidates node st =
     (case st of (g, covered) \<Rightarrow>
        obind (get_index (api_functions g) node) (\<lambda>f.
        obind (ofold (cover_param g node (inputs f) candidates) [0..<length (inputs f)] (True, []))
          (\<lambda>(can_be_covered, indexes).
            if can_be_covered
            then obind (omapM (get_index (api_sequences g)) indexes) (\<lambda>dependent_sequences.
                 obind (is_fun_satisfied g ApiBareFunction node (merge_sequences dependent_sequences)) (\<lambda>r.
                   (case r of
                      Some generated_sequence \<Rightarrow>
                        obind (push_sequence node generated_sequence g) (\<lambda>g. Done (g, hs_insert node covered))
                    | None \<Rightarrow> Done (g, covered))))
            else Done (g, covered))))"

fun cover_rounds ::
  "(nat list \<Rightarrow> nat list) \<Rightarrow> nat \<Rightarrow> nat list \<Rightarrow> api_graph \<Rightarrow> api_graph outcome" where
  "cover_rounds it 0 unvisited_nodes g = Done g"
| "cover_rounds it (Suc n) unvisited_nodes g =
     obind (choose_candidate_sequence_for_merge g) (\<lambda>candidate_sequences.
     obind (ofold (cover_node candidate_sequences) (it unvisited_nodes) (g, [])) (\<lambda>(g, covered).
       if length covered = 0 then Done g
       else cover_rounds it n (filter (\<lambda>node. node \<notin> set covered) unvisited_nodes) g))"

definition try_to_cover_unvisited_nodes ::
  "(nat list \<Rightarrow> nat list) \<Rightarrow> api_graph \<Rightarrow> api_graph outcome" where
  "try_to_cover_unvisited_nodes it g =
     obind (ofold (\<lambda>i unvisited. obind (get_index (api_functions_visited g) i) (\<lambda>v.
              Done (if \<not> v then unvisited @ [i] else unvisited))) [0..<length (api_functions g)] [])
       (\<lambda>unvisited_nodes. cover_rounds it (length unvisited_nodes) unvisited_nodes g)"

section \<open>The entry points\<close>

definition generate_all_possoble_sequences ::
  "(nat list \<Rightarrow> nat list) \<Rightarrow> (nat \<Rightarrow> nat \<Rightarrow> nat) \<Rightarrow> graph_traverse_algorithm \<Rightarrow> api_graph \<Rightarrow>
     api_graph outcome" where
  "generate_all_possoble_sequences it rng algorithm g =
     (let bfs_max_len = 3;
          random_walk_max_size =
            (case random_walk_steps (crate_name g) of Some steps \<Rightarrow> steps | None \<Rightarrow> 100000);
          random_walk_max_depth = 0;
          max_sequence_number = 100000
      in case algorithm of
           Bfs \<Rightarrow> bfs bfs_max_len False False g
         | FastBfs \<Rightarrow> bfs bfs_max_len False True g
         | BfsEndPoint \<Rightarrow> bfs bfs_max_len True False g
         | FastBfsEndPoint \<Rightarrow> bfs bfs_max_len True True g
         | TryDeepBfs \<Rightarrow> try_deep_bfs max_sequence_number g
         | RandomWalk \<Rightarrow> random_walk rng random_walk_max_size False random_walk_max_depth g
         | RandomWalkEndPoint \<Rightarrow> random_walk rng random_walk_max_size True random_walk_max_depth g
         | DirectBackwardSearch \<Rightarrow>
             try_to_cover_unvisited_nodes it (reset_visited (g\<lparr>api_sequences := []\<rparr>)))"

definition default_generate_sequences ::
  "(nat list \<Rightarrow> nat list) \<Rightarrow> (nat \<Rightarrow> nat \<Rightarrow> nat) \<Rightarrow> api_graph \<Rightarrow> api_graph outcome" where
  "default_generate_sequences it rng g =
     obind (generate_all_possoble_sequences it rng BfsEndPoint g) (try_to_cover_unvisited_nodes it)"

section \<open>What the searches may rely on\<close>

text \<open>The functions a sequence calls, and that the marks of the graph are exactly those called.\<close>

definition contained :: "api_sequence \<Rightarrow> nat set" where
  "contained s = (\<lambda>c. snd (func c)) ` set (seq_functions s)"

definition visited_ok :: "api_graph \<Rightarrow> bool" where
  "visited_ok g \<longleftrightarrow> length (api_functions_visited g) = length (api_functions g) \<and>
     (\<forall>i < length (api_functions g).
        api_functions_visited g ! i \<longleftrightarrow> (\<exists>s \<in> set (api_sequences g). i \<in> contained s))"

text \<open>A later state of a search: sequences were pushed and marks set, nothing else changed.\<close>

definition grows :: "api_graph \<Rightarrow> api_graph \<Rightarrow> bool" where
  "grows g g' \<longleftrightarrow>
     (\<exists>ss v. g' = g\<lparr>api_sequences := api_sequences g @ ss, api_functions_visited := v\<rparr>)"

lemma grows_refl [simp]: "grows g g"
  unfolding grows_def by (intro exI [of _ "[]"] exI [of _ "api_functions_visited g"]) simp

lemma grows_trans:
  assumes "grows g g1" "grows g1 g2"
  shows "grows g g2"
proof -
  from assms obtain ss v ss' v' where "g1 = g\<lparr>api_sequences := api_sequences g @ ss, api_functions_visited := v\<rparr>"
    "g2 = g1\<lparr>api_sequences := api_sequences g1 @ ss', api_functions_visited := v'\<rparr>"
    unfolding grows_def by blast
  then have "g2 = g\<lparr>api_sequences := api_sequences g @ (ss @ ss'), api_functions_visited := v'\<rparr>" by simp
  then show ?thesis unfolding grows_def by blast
qed

lemma grows_fields:
  "grows g g' \<Longrightarrow> api_functions g' = api_functions g \<and> api_dependencies g' = api_dependencies g \<and>
     graph_names g' = graph_names g \<and> crate_name g' = crate_name g \<and>
     set (api_sequences g) \<subseteq> set (api_sequences g') \<and> length (api_sequences g) \<le> length (api_sequences g')"
  by (auto simp: grows_def)

lemma contained_snoc: "seq_functions new = seq_functions s @ [c] \<Longrightarrow> contained new = insert (snd (func c)) (contained s)"
  by (simp add: contained_def)

lemma contained_merge_another: "contained (merge_another_sequence s t) = contained s \<union> contained t"
  by (simp add: contained_def merge_simps image_Un image_image)

lemma contained_merge: "contained (merge_sequences ss) = (\<Union>s \<in> set ss. contained s)"
proof (cases ss)
  case (Cons s ts)
  have "contained (foldl merge_another_sequence s ts) = contained s \<union> (\<Union>t \<in> set ts. contained t)"
    by (induction ts arbitrary: s) (auto simp: contained_merge_another)
  then show ?thesis by (simp add: Cons)
qed (simp add: contained_def seq_new_def)

definition search_ok :: "(api_graph \<Rightarrow> api_sequence \<Rightarrow> bool) \<Rightarrow> api_graph \<Rightarrow> bool" where
  "search_ok good g \<longleftrightarrow> list_all (good g) (api_sequences g) \<and> visited_ok g"

text \<open>Extending a sequence and asking whether it ended do not depend on the sequences found so far.\<close>

lemma frame_fields:
  "api_functions (g\<lparr>api_sequences := ss, api_functions_visited := v\<rparr>) = api_functions g"
  "api_dependencies (g\<lparr>api_sequences := ss, api_functions_visited := v\<rparr>) = api_dependencies g"
  "graph_names (g\<lparr>api_sequences := ss, api_functions_visited := v\<rparr>) = graph_names g"
  by simp_all

lemma frame_graph [simp]:
  "check_dependency (g\<lparr>api_sequences := ss, api_functions_visited := v\<rparr>) t i u j k = check_dependency g t i u j k"
  "is_sequence_ended (g\<lparr>api_sequences := ss, api_functions_visited := v\<rparr>) s = is_sequence_ended g s"
  "try_function (g\<lparr>api_sequences := ss, api_functions_visited := v\<rparr>) t fi i ty k st = try_function g t fi i ty k st"
  by (unfold check_dependency_def is_sequence_ended_def try_function_def frame_fields) (rule refl)+

lemma frame_dependency_loop [simp]:
  "dependency_loop (g\<lparr>api_sequences := ss, api_functions_visited := v\<rparr>) t fi i ty ks st =
     dependency_loop g t fi i ty ks st"
proof (induction ks arbitrary: st)
  case (Cons k ks)
  then show ?case by (auto intro!: obind_cong split: prod.split)
qed simp

lemma frame_fit_params [simp]:
  "fit_params (g\<lparr>api_sequences := ss, api_functions_visited := v\<rparr>) t fi s tys is st =
     fit_params g t fi s tys is st"
proof (induction "is" arbitrary: st)
  case (Cons i "is")
  have "fit_param (g\<lparr>api_sequences := ss, api_functions_visited := v\<rparr>) t fi s tys i st =
      fit_param g t fi s tys i st" by (simp only: fit_param_def frame_fields frame_dependency_loop)
  with Cons show ?case by (auto intro!: obind_cong split: option.split)
qed simp

lemma frame_is_fun_satisfied [simp]:
  "is_fun_satisfied (g\<lparr>api_sequences := ss, api_functions_visited := v\<rparr>) t fi s = is_fun_satisfied g t fi s"
  by (simp only: is_fun_satisfied_def frame_fields frame_fit_params)

lemma grows_same:
  "grows g g' \<Longrightarrow> is_fun_satisfied g' t fi s = is_fun_satisfied g t fi s \<and>
     is_sequence_ended g' s = is_sequence_ended g s"
  by (auto simp: grows_def)

text \<open>
  The sequences that \<open>k\<close> extensions of the empty one can give, where a sequence that ended is
  not extended if \<open>stop\<close> is set.
\<close>

inductive grown :: "api_graph \<Rightarrow> bool \<Rightarrow> nat \<Rightarrow> api_sequence \<Rightarrow> bool" for g stop where
  start: "grown g stop 0 seq_new"
| step: "grown g stop k s \<Longrightarrow> \<not> (stop \<and> is_sequence_ended g s = Done True) \<Longrightarrow>
    fi < length (api_functions g) \<Longrightarrow> is_fun_satisfied g ApiBareFunction fi s = Done (Some new) \<Longrightarrow>
    grown g stop (Suc k) new"

text \<open>The graph a search starts with.\<close>

definition blank :: "api_graph \<Rightarrow> api_sequence list \<Rightarrow> api_graph" where
  "blank g ss = g\<lparr>api_sequences := ss, api_functions_visited := replicate (length (api_functions g)) False\<rparr>"

lemma blank_start:
  "(reset_visited (g\<lparr>api_sequences := []\<rparr>))\<lparr>api_sequences := ss\<rparr> = blank g ss"
  "reset_visited (g\<lparr>api_sequences := []\<rparr>) = blank g []"
  by (cases g; simp add: reset_visited_def blank_def)+

lemma blank_fields [simp]:
  "api_functions (blank g ss) = api_functions g" "api_sequences (blank g ss) = ss"
  "(blank g ss)\<lparr>api_sequences := ts\<rparr> = blank g ts"
  by (cases g; simp add: blank_def)+

lemma bfs_unfold:
  "bfs (Suc L) stop fast g =
     obind (ofold (bfs_level (length (api_functions g)) stop fast) [0..<Suc L] (blank g [seq_new]))
       (\<lambda>g. if \<not> stop then Exit 0 else Done g)"
  by (simp add: bfs_def Let_def blank_start del: upt_Suc)

lemma grown_blank: "grown (blank g ss) stop k s = grown g stop k s"
proof
  show "grown (blank g ss) stop k s \<Longrightarrow> grown g stop k s"
    by (induction rule: grown.induct) (auto simp: blank_def intro: grown.intros)
  show "grown g stop k s \<Longrightarrow> grown (blank g ss) stop k s"
    by (induction rule: grown.induct) (auto simp: blank_def intro!: grown.start grown.step)
qed

text \<open>
  The contract between the extension of a sequence and the searches built on it: an invariant of
  sequences that the empty sequence has, that extensions and merges keep, under which the
  analyses of a sequence return, and that does not depend on the sequences found so far.
\<close>

text \<open>A new level of a search only adds to the number of sequences of its own length.\<close>

lemma level_count:
  assumes "\<forall>x \<in> set xs. len x \<le> L" "\<forall>x \<in> set ys. len x = Suc L" "length ys \<le> n ^ L * n"
    and "length (filter (\<lambda>x. len x = k) xs) \<le> n ^ k"
  shows "length (filter (\<lambda>x. len x = k) (xs @ ys)) \<le> n ^ k"
proof (cases "k = Suc L")
  case True
  have "filter (\<lambda>x. len x = k) xs = []" using assms(1) True by (fastforce simp: filter_empty_conv)
  moreover have "length (filter (\<lambda>x. len x = k) ys) \<le> n ^ L * n"
    using assms(3) length_filter_le le_trans by blast
  ultimately show ?thesis using True by (simp add: mult.commute)
next
  case False
  then have "filter (\<lambda>x. len x = k) ys = []" using assms(2) by (auto simp: filter_empty_conv)
  then show ?thesis using assms(4) by simp
qed

locale sequence_search =
  fixes good :: "api_graph \<Rightarrow> api_sequence \<Rightarrow> bool"
  assumes good_new: "good g seq_new"
    and good_extend: "good g s \<Longrightarrow> fi < length (api_functions g) \<Longrightarrow>
      \<exists>r. is_fun_satisfied g ApiBareFunction fi s = Done r \<and>
        (\<forall>new. r = Some new \<longrightarrow> good g new \<and>
           (\<exists>c. seq_functions new = seq_functions s @ [c] \<and> func c = (ApiBareFunction, fi)))"
    and good_merge: "list_all (good g) ss \<Longrightarrow> good g (merge_sequences ss)"
    and good_dead: "good g s \<Longrightarrow> \<exists>d. dead_code g s = Done d \<and> length d = seq_len s"
    and good_ended: "good g s \<Longrightarrow> \<exists>b. is_sequence_ended g s = Done b"
    and good_frame: "good (g\<lparr>api_sequences := ss, api_functions_visited := v\<rparr>) s = good g s"
begin

lemma good_grows: "grows g g' \<Longrightarrow> good g' s = good g s"
  by (auto simp: grows_def good_frame)

lemma push_ok:
  assumes ok: "search_ok good g" and new: "good g new" and fi: "fi < length (api_functions g)"
    and calls: "contained new = insert fi (\<Union>s \<in> S. contained s)" and S: "S \<subseteq> set (api_sequences g)"
  shows "\<exists>g'. push_sequence fi new g = Done g' \<and> grows g g' \<and> search_ok good g' \<and>
     api_sequences g' = api_sequences g @ [new]"
proof -
  let ?g = "g\<lparr>api_sequences := api_sequences g @ [new],
      api_functions_visited := (api_functions_visited g)[fi := True]\<rparr>"
  have len: "length (api_functions_visited g) = length (api_functions g)"
    using ok by (simp add: search_ok_def visited_ok_def)
  have push: "push_sequence fi new g = Done ?g"
    using len fi by (simp add: push_sequence_def Let_def)
  have g: "grows g ?g" unfolding grows_def by blast
  have "list_all (good ?g) (api_sequences ?g)"
    using ok new good_grows [OF g] by (auto simp: search_ok_def list_all_iff)
  moreover have "visited_ok ?g"
    unfolding visited_ok_def
  proof (intro conjI allI impI)
    fix i
    assume i: "i < length (api_functions ?g)"
    then have old: "api_functions_visited g ! i \<longleftrightarrow> (\<exists>s \<in> set (api_sequences g). i \<in> contained s)"
      using ok by (simp add: search_ok_def visited_ok_def)
    show "api_functions_visited ?g ! i \<longleftrightarrow> (\<exists>s \<in> set (api_sequences ?g). i \<in> contained s)"
      using i len old calls S fi by (auto simp: nth_list_update)
  qed (simp add: len)
  ultimately show ?thesis using push g unfolding search_ok_def by (intro exI [of _ ?g]) simp
qed

lemma extend_ok:
  assumes ok: "search_ok good g" and s: "s \<in> set (api_sequences g)" and fi: "fi < length (api_functions g)"
    and r: "is_fun_satisfied g ApiBareFunction fi s = Done (Some new)"
  shows "\<exists>g'. push_sequence fi new g = Done g' \<and> grows g g' \<and> search_ok good g' \<and>
     api_sequences g' = api_sequences g @ [new] \<and> seq_len new = Suc (seq_len s)"
proof -
  have "good g s" using ok s by (auto simp: search_ok_def list_all_iff)
  then obtain c where new: "good g new" "seq_functions new = seq_functions s @ [c]" "func c = (ApiBareFunction, fi)"
    using good_extend [OF _ fi] r by fastforce
  have "contained new = insert fi (\<Union>s \<in> {s}. contained s)"
    using contained_snoc [OF new(2)] new(3) by simp
  from push_ok [OF ok new(1) fi this] s new(2) show ?thesis by (simp add: seq_len_def)
qed

lemma ended_grows:
  assumes "search_ok good g" "s \<in> set (api_sequences g)"
  shows "\<exists>b. is_sequence_ended g s = Done b"
  using assms good_ended by (auto simp: search_ok_def list_all_iff)

lemma select_level_ok:
  assumes "search_ok good g"
  shows "\<exists>tmp. select_level stop len g = Done tmp \<and> set tmp \<subseteq> set (api_sequences g) \<and>
     length tmp \<le> length (filter (\<lambda>s. seq_len s = len) (api_sequences g)) \<and>
     (\<forall>s. s \<in> set tmp \<longleftrightarrow> s \<in> set (api_sequences g) \<and> seq_len s = len \<and>
        \<not> (stop \<and> is_sequence_ended g s = Done True))"
proof -
  define body where "body = (\<lambda>sequence tmp_sequences.
      obind (if stop then is_sequence_ended g sequence else Done False) (\<lambda>ended.
        if ended then Done tmp_sequences
        else if seq_len sequence = len then Done (tmp_sequences @ [sequence])
        else Done tmp_sequences))"
  have "\<exists>tmp. ofold body ss acc = Done (acc @ tmp) \<and>
      tmp = filter (\<lambda>s. seq_len s = len \<and> \<not> (stop \<and> is_sequence_ended g s = Done True)) ss"
    if "set ss \<subseteq> set (api_sequences g)" for ss acc
    using that
  proof (induction ss arbitrary: acc)
    case (Cons s ss)
    then obtain b where "is_sequence_ended g s = Done b" using ended_grows [OF assms, of s] by auto
    with Cons show ?case by (cases b; cases stop) (auto simp: body_def)
  qed simp
  from this [of "api_sequences g" "[]"] show ?thesis
    unfolding select_level_def body_def
    by (auto simp: filter_filter [symmetric] simp del: filter_filter intro!: length_filter_le)
qed

lemma bfs_try_ok:
  assumes ok: "search_ok good g" and p: "p \<in> set (api_sequences g)" and fi: "fi < length (api_functions g)"
  shows "\<exists>g' ss. bfs_try fast p fi g = Done g' \<and> grows g g' \<and> search_ok good g' \<and>
     api_sequences g' = api_sequences g @ ss \<and> length ss \<le> 1 \<and> (\<forall>s \<in> set ss. seq_len s = Suc (seq_len p)) \<and>
     (\<forall>s \<in> set ss. is_fun_satisfied g ApiBareFunction fi p = Done (Some s)) \<and>
     (\<not> fast \<longrightarrow> (\<forall>s. is_fun_satisfied g ApiBareFunction fi p = Done (Some s) \<longrightarrow> s \<in> set ss))"
proof -
  have len: "length (api_functions_visited g) = length (api_functions g)"
    using ok by (simp add: search_ok_def visited_ok_def)
  have "good g p" using ok p by (auto simp: search_ok_def list_all_iff)
  then obtain r where r: "is_fun_satisfied g ApiBareFunction fi p = Done r"
    using good_extend [OF _ fi] by blast
  show ?thesis
  proof (cases "r = None \<or> (fast \<and> api_functions_visited g ! fi)")
    case True
    then show ?thesis
      using r len fi ok by (intro exI [of _ g] exI [of _ "[]"]) (auto simp: bfs_try_def)
  next
    case False
    then obtain new where new: "r = Some new" by auto
    obtain g' where g': "push_sequence fi new g = Done g'" "grows g g'" "search_ok good g'"
        "api_sequences g' = api_sequences g @ [new]" "seq_len new = Suc (seq_len p)"
      using extend_ok [OF ok p fi] r new by blast
    then show ?thesis
      using r new False len fi by (intro exI [of _ g'] exI [of _ "[new]"]) (auto simp: bfs_try_def)
  qed
qed

lemma bfs_functions_ok:
  assumes "search_ok good g" "p \<in> set (api_sequences g)" "\<forall>fi \<in> set fis. fi < length (api_functions g)"
  shows "\<exists>g' ss. ofold (bfs_try fast p) fis g = Done g' \<and> grows g g' \<and> search_ok good g' \<and>
     api_sequences g' = api_sequences g @ ss \<and> length ss \<le> length fis \<and>
     (\<forall>s \<in> set ss. seq_len s = Suc (seq_len p)) \<and>
     (\<forall>s \<in> set ss. \<exists>fi \<in> set fis. is_fun_satisfied g ApiBareFunction fi p = Done (Some s)) \<and>
     (\<not> fast \<longrightarrow> (\<forall>fi \<in> set fis. \<forall>s. is_fun_satisfied g ApiBareFunction fi p = Done (Some s) \<longrightarrow> s \<in> set ss))"
  using assms
proof (induction fis arbitrary: g)
  case Nil
  then show ?case by (intro exI [of _ g] exI [of _ "[]"]) simp
next
  case (Cons fi fis)
  have fi: "fi < length (api_functions g)" using Cons.prems(3) by simp
  from bfs_try_ok [OF Cons.prems(1,2) fi, of fast]
  obtain g1 ss1 where 1: "bfs_try fast p fi g = Done g1" "grows g g1" "search_ok good g1"
      "api_sequences g1 = api_sequences g @ ss1" "length ss1 \<le> 1" "\<forall>s \<in> set ss1. seq_len s = Suc (seq_len p)"
      "\<forall>s \<in> set ss1. is_fun_satisfied g ApiBareFunction fi p = Done (Some s)"
      "\<not> fast \<longrightarrow> (\<forall>s. is_fun_satisfied g ApiBareFunction fi p = Done (Some s) \<longrightarrow> s \<in> set ss1)"
    by blast
  have same: "api_functions g1 = api_functions g" using grows_fields [OF 1(2)] by blast
  have same_fun: "is_fun_satisfied g1 ApiBareFunction i p = is_fun_satisfied g ApiBareFunction i p" for i
    using grows_same [OF 1(2)] by blast
  have p1: "p \<in> set (api_sequences g1)" using Cons.prems(2) 1(4) by simp
  have fis1: "\<forall>fi \<in> set fis. fi < length (api_functions g1)" using Cons.prems(3) same by simp
  from Cons.IH [OF 1(3) p1 fis1, unfolded same_fun]
  obtain g2 ss2 where 2: "ofold (bfs_try fast p) fis g1 = Done g2" "grows g1 g2" "search_ok good g2"
      "api_sequences g2 = api_sequences g1 @ ss2" "length ss2 \<le> length fis"
      "\<forall>s \<in> set ss2. seq_len s = Suc (seq_len p)"
      "\<forall>s \<in> set ss2. \<exists>fi \<in> set fis. is_fun_satisfied g ApiBareFunction fi p = Done (Some s)"
      "\<not> fast \<longrightarrow> (\<forall>fi \<in> set fis. \<forall>s. is_fun_satisfied g ApiBareFunction fi p = Done (Some s) \<longrightarrow> s \<in> set ss2)"
    by blast
  have run: "ofold (bfs_try fast p) (fi # fis) g = Done g2" using 1(1) 2(1) by simp
  have seqs: "api_sequences g2 = api_sequences g @ (ss1 @ ss2)" using 1(4) 2(4) by simp
  have count: "length (ss1 @ ss2) \<le> length (fi # fis)" using 1(5) 2(5) by simp
  have lens: "\<forall>s \<in> set (ss1 @ ss2). seq_len s = Suc (seq_len p)" using 1(6) 2(6) by auto
  have from_fun: "\<forall>s \<in> set (ss1 @ ss2). \<exists>fi \<in> set (fi # fis). is_fun_satisfied g ApiBareFunction fi p = Done (Some s)"
    using 1(7) 2(7) by (metis UnE list.set_intros set_append)
  have all: "\<not> fast \<longrightarrow> (\<forall>fi \<in> set (fi # fis). \<forall>s. is_fun_satisfied g ApiBareFunction fi p = Done (Some s) \<longrightarrow>
      s \<in> set (ss1 @ ss2))"
    using 1(8) 2(8) by (metis Un_iff set_ConsD set_append)
  show ?case
    using run grows_trans [OF 1(2) 2(2)] 2(3) seqs count lens from_fun all by blast
qed

lemma bfs_sequences_ok:
  assumes "search_ok good g" "set ps \<subseteq> set (api_sequences g)" "n = length (api_functions g)"
  shows "\<exists>g' ss. ofold (\<lambda>p g. ofold (bfs_try fast p) [0..<n] g) ps g = Done g' \<and>
     grows g g' \<and> search_ok good g' \<and> api_sequences g' = api_sequences g @ ss \<and> length ss \<le> length ps * n \<and>
     (\<forall>s \<in> set ss. \<exists>p \<in> set ps. seq_len s = Suc (seq_len p) \<and>
        (\<exists>fi < n. is_fun_satisfied g ApiBareFunction fi p = Done (Some s))) \<and>
     (\<not> fast \<longrightarrow> (\<forall>p \<in> set ps. \<forall>fi < n. \<forall>s. is_fun_satisfied g ApiBareFunction fi p = Done (Some s) \<longrightarrow> s \<in> set ss))"
  using assms
proof (induction ps arbitrary: g)
  case Nil
  then show ?case by (intro exI [of _ g] exI [of _ "[]"]) simp
next
  case (Cons p ps)
  have p: "p \<in> set (api_sequences g)" and fis: "\<forall>fi \<in> set [0..<n]. fi < length (api_functions g)"
    using Cons.prems(2,3) by auto
  from bfs_functions_ok [OF Cons.prems(1) p fis, of fast]
  obtain g1 ss1 where 1: "ofold (bfs_try fast p) [0..<n] g = Done g1" "grows g g1" "search_ok good g1"
      "api_sequences g1 = api_sequences g @ ss1" "length ss1 \<le> length [0..<n]" "\<forall>s \<in> set ss1. seq_len s = Suc (seq_len p)"
      "\<forall>s \<in> set ss1. \<exists>fi \<in> set [0..<n]. is_fun_satisfied g ApiBareFunction fi p = Done (Some s)"
      "\<not> fast \<longrightarrow> (\<forall>fi \<in> set [0..<n]. \<forall>s. is_fun_satisfied g ApiBareFunction fi p = Done (Some s) \<longrightarrow> s \<in> set ss1)"
    by blast
  have same_fun: "is_fun_satisfied g1 ApiBareFunction i q = is_fun_satisfied g ApiBareFunction i q" for i q
    using grows_same [OF 1(2)] by blast
  have p1: "set ps \<subseteq> set (api_sequences g1)" "n = length (api_functions g1)"
    using Cons.prems(2,3) 1(4) grows_fields [OF 1(2)] by auto
  from Cons.IH [OF 1(3) p1, unfolded same_fun]
  obtain g2 ss2 where 2: "ofold (\<lambda>p g. ofold (bfs_try fast p) [0..<n] g) ps g1 = Done g2" "grows g1 g2"
      "search_ok good g2" "api_sequences g2 = api_sequences g1 @ ss2" "length ss2 \<le> length ps * n"
      "\<forall>s \<in> set ss2. \<exists>p \<in> set ps. seq_len s = Suc (seq_len p) \<and>
        (\<exists>fi < n. is_fun_satisfied g ApiBareFunction fi p = Done (Some s))"
      "\<not> fast \<longrightarrow> (\<forall>p \<in> set ps. \<forall>fi < n. \<forall>s. is_fun_satisfied g ApiBareFunction fi p = Done (Some s) \<longrightarrow> s \<in> set ss2)"
    by blast
  have run: "ofold (\<lambda>p g. ofold (bfs_try fast p) [0..<n] g) (p # ps) g = Done g2" using 1(1) 2(1) by simp
  have seqs: "api_sequences g2 = api_sequences g @ (ss1 @ ss2)" using 1(4) 2(4) by simp
  have count: "length (ss1 @ ss2) \<le> length (p # ps) * n" using 1(5) 2(5) by simp
  have one: "\<exists>fi < n. is_fun_satisfied g ApiBareFunction fi p = Done (Some s)" if "s \<in> set ss1" for s
    using 1(7) that by fastforce
  have from_fun: "\<forall>s \<in> set (ss1 @ ss2). \<exists>q \<in> set (p # ps). seq_len s = Suc (seq_len q) \<and>
      (\<exists>fi < n. is_fun_satisfied g ApiBareFunction fi q = Done (Some s))"
    using one 1(6) 2(6) by (simp add: ball_Un)
  have all: "\<not> fast \<longrightarrow> (\<forall>q \<in> set (p # ps). \<forall>fi < n. \<forall>s. is_fun_satisfied g ApiBareFunction fi q = Done (Some s) \<longrightarrow>
      s \<in> set (ss1 @ ss2))"
    using 1(8) 2(7) by simp
  show ?case
    using run grows_trans [OF 1(2) 2(2)] 2(3) seqs count from_fun all by blast
qed

lemma grown_good: "grown g stop k s \<Longrightarrow> good g s \<and> seq_len s = k"
proof (induction rule: grown.induct)
  case start
  then show ?case using good_new by (simp add: seq_len_def seq_new_def)
next
  case (step k s fi new)
  then show ?case using good_extend [of g s fi] by (auto simp: seq_len_def)
qed

lemma bfs_level_ok:
  assumes ok: "search_ok good g" and g: "grows g0 g" and n: "n = length (api_functions g0)"
    and grown: "\<forall>s \<in> set (api_sequences g). \<exists>k \<le> L. grown g0 stop k s"
    and all: "\<not> fast \<longrightarrow> (\<forall>k \<le> L. \<forall>s. grown g0 stop k s \<longrightarrow> s \<in> set (api_sequences g))"
    and count: "\<forall>k. length (filter (\<lambda>s. seq_len s = k) (api_sequences g)) \<le> n ^ k"
  shows "\<exists>g'. bfs_level n stop fast L g = Done g' \<and> grows g0 g' \<and> search_ok good g' \<and>
     (\<forall>s \<in> set (api_sequences g'). \<exists>k \<le> Suc L. grown g0 stop k s) \<and>
     (\<not> fast \<longrightarrow> (\<forall>k \<le> Suc L. \<forall>s. grown g0 stop k s \<longrightarrow> s \<in> set (api_sequences g'))) \<and>
     (\<forall>k. length (filter (\<lambda>s. seq_len s = k) (api_sequences g')) \<le> n ^ k)"
proof -
  obtain tmp where tmp: "select_level stop L g = Done tmp" "set tmp \<subseteq> set (api_sequences g)"
      "length tmp \<le> length (filter (\<lambda>s. seq_len s = L) (api_sequences g))"
      "\<forall>s. s \<in> set tmp \<longleftrightarrow> s \<in> set (api_sequences g) \<and> seq_len s = L \<and>
        \<not> (stop \<and> is_sequence_ended g s = Done True)"
    using select_level_ok [OF ok, of stop L] by blast
  have n': "n = length (api_functions g)" using n grows_fields [OF g] by simp
  obtain g' ss where 1: "ofold (\<lambda>p g. ofold (bfs_try fast p) [0..<n] g) tmp g = Done g'" "grows g g'"
      "search_ok good g'" "api_sequences g' = api_sequences g @ ss" "length ss \<le> length tmp * n"
      "\<forall>s \<in> set ss. \<exists>p \<in> set tmp. seq_len s = Suc (seq_len p) \<and>
        (\<exists>fi < n. is_fun_satisfied g ApiBareFunction fi p = Done (Some s))"
      "\<not> fast \<longrightarrow> (\<forall>p \<in> set tmp. \<forall>fi < n. \<forall>s. is_fun_satisfied g ApiBareFunction fi p = Done (Some s) \<longrightarrow> s \<in> set ss)"
    using bfs_sequences_ok [OF ok tmp(2) n', of fast] by blast
  note same = grows_same [OF g]
  have tmp_grown: "grown g0 stop L s \<and> \<not> (stop \<and> is_sequence_ended g0 s = Done True)" if "s \<in> set tmp" for s
    using tmp(4) that grown grown_good same by metis
  have new: "grown g0 stop (Suc L) s" if "s \<in> set ss" for s
    using 1(6) that tmp_grown same n by (metis grown.step)
  have old: "grown g0 stop (Suc L) s \<Longrightarrow> \<not> fast \<Longrightarrow> s \<in> set ss" for s
  proof (erule grown.cases)
    fix k p fi new
    assume a: "\<not> fast" "Suc L = Suc k" "s = new" "grown g0 stop k p"
      "\<not> (stop \<and> is_sequence_ended g0 p = Done True)" "fi < length (api_functions g0)"
      "is_fun_satisfied g0 ApiBareFunction fi p = Done (Some new)"
    then have "p \<in> set tmp" using tmp(4) all grown_good same by auto
    with a 1(7) n same show ?thesis by auto
  qed simp
  have "\<forall>s \<in> set (api_sequences g). seq_len s \<le> L" "\<forall>s \<in> set ss. seq_len s = Suc L"
    using grown new grown_good by metis+
  moreover have "length ss \<le> n ^ L * n" using 1(5) tmp(3) count by (meson le_trans mult_le_mono1)
  ultimately have counts: "length (filter (\<lambda>s. seq_len s = k) (api_sequences g')) \<le> n ^ k" for k
    using level_count [of "api_sequences g" seq_len L ss n k] count by (simp add: 1(4))
  have "\<forall>s \<in> set (api_sequences g'). \<exists>k \<le> Suc L. grown g0 stop k s"
    using grown new by (auto simp: 1(4)) (meson le_Suc_eq)
  moreover have "\<not> fast \<longrightarrow> (\<forall>k \<le> Suc L. \<forall>s. grown g0 stop k s \<longrightarrow> s \<in> set (api_sequences g'))"
    using all old by (auto simp: 1(4) le_Suc_eq)
  ultimately show ?thesis
    using counts 1(1,3) tmp(1) grows_trans [OF g 1(2)] by (simp add: bfs_level_def)
qed

lemma blank_ok: "search_ok good (blank g [seq_new]) \<and> search_ok good (blank g [])"
  using good_new by (simp add: search_ok_def visited_ok_def blank_def contained_def seq_new_def)

lemma bfs_levels_ok:
  assumes n: "n = length (api_functions g)"
  shows "\<exists>g'. ofold (bfs_level n stop fast) [0..<L] (blank g [seq_new]) = Done g' \<and>
     grows (blank g [seq_new]) g' \<and> search_ok good g' \<and>
     (\<forall>s \<in> set (api_sequences g'). \<exists>k \<le> L. grown (blank g [seq_new]) stop k s) \<and>
     (\<not> fast \<longrightarrow> (\<forall>k \<le> L. \<forall>s. grown (blank g [seq_new]) stop k s \<longrightarrow> s \<in> set (api_sequences g'))) \<and>
     (\<forall>k. length (filter (\<lambda>s. seq_len s = k) (api_sequences g')) \<le> n ^ k)"
proof (induction L)
  case 0
  have "grown (blank g [seq_new]) stop 0 s \<longleftrightarrow> s = seq_new" for s
    by (auto elim: grown.cases intro: grown.start)
  then show ?case
    using blank_ok by (intro exI [of _ "blank g [seq_new]"]) (auto simp: blank_def seq_len_def seq_new_def)
next
  case (Suc L)
  then obtain g1 where 1: "ofold (bfs_level n stop fast) [0..<L] (blank g [seq_new]) = Done g1"
      "grows (blank g [seq_new]) g1" "search_ok good g1"
      "\<forall>s \<in> set (api_sequences g1). \<exists>k \<le> L. grown (blank g [seq_new]) stop k s"
      "\<not> fast \<longrightarrow> (\<forall>k \<le> L. \<forall>s. grown (blank g [seq_new]) stop k s \<longrightarrow> s \<in> set (api_sequences g1))"
      "\<forall>k. length (filter (\<lambda>s. seq_len s = k) (api_sequences g1)) \<le> n ^ k"
    by blast
  have "n = length (api_functions (blank g [seq_new]))" using n by (simp add: blank_def)
  from bfs_level_ok [OF 1(3,2) this 1(4,5,6)] obtain g2 where "bfs_level n stop fast L g1 = Done g2"
      "grows (blank g [seq_new]) g2" "search_ok good g2"
      "\<forall>s \<in> set (api_sequences g2). \<exists>k \<le> Suc L. grown (blank g [seq_new]) stop k s"
      "\<not> fast \<longrightarrow> (\<forall>k \<le> Suc L. \<forall>s. grown (blank g [seq_new]) stop k s \<longrightarrow> s \<in> set (api_sequences g2))"
      "\<forall>k. length (filter (\<lambda>s. seq_len s = k) (api_sequences g2)) \<le> n ^ k"
    by blast
  moreover from this(1) 1(1) have "ofold (bfs_level n stop fast) [0..<Suc L] (blank g [seq_new]) = Done g2"
    by (simp add: ofold_append)
  ultimately show ?case by blast
qed

lemma bfs_result:
  "\<exists>g'. bfs (Suc L) True fast g = Done g' \<and> grows (blank g [seq_new]) g' \<and> search_ok good g' \<and>
     (\<forall>s \<in> set (api_sequences g'). \<exists>k \<le> Suc L. grown g True k s) \<and>
     (\<not> fast \<longrightarrow> (\<forall>k \<le> Suc L. \<forall>s. grown g True k s \<longrightarrow> s \<in> set (api_sequences g'))) \<and>
     (\<forall>k. length (filter (\<lambda>s. seq_len s = k) (api_sequences g')) \<le> length (api_functions g) ^ k)"
  using bfs_levels_ok [OF refl, of g True fast "Suc L", unfolded grown_blank]
  unfolding bfs_unfold by (elim exE conjE) auto

lemma bfs_exits: "bfs (Suc L) False fast g = Exit 0"
  using bfs_levels_ok [OF refl, of g False fast "Suc L"]
  unfolding bfs_unfold by (elim exE conjE) simp

end

text \<open>The well-formed sequences satisfy the contract.\<close>

lemma wf_ended:
  assumes "wf_sequence g s"
  shows "\<exists>b. is_sequence_ended g s = Done b"
proof (cases "seq_functions s = []")
  case False
  let ?c = "last (seq_functions s)"
  have "call_ok g s (seq_len s - 1) ?c"
    using assms False by (simp add: wf_sequence_def seq_len_def last_conv_nth)
  then have "snd (func ?c) < length (api_functions g)" by (simp add: call_ok_def)
  then show ?thesis using False
    by (auto simp: is_sequence_ended_def split: prod.split api_type.split)
qed (auto simp: is_sequence_ended_def)

lemma wf_frame:
  "wf_sequence (g\<lparr>api_sequences := ss, api_functions_visited := v\<rparr>) s = wf_sequence g s"
  unfolding wf_sequence_def call_ok_def param_ok_def call_tags_ok_def seq_accesses_def frame_fields
  by (rule refl)

interpretation wf_search: sequence_search wf_sequence
proof
  fix g s ss v fi
  show "wf_sequence g seq_new" by (rule wf_seq_new)
  show "wf_sequence g s \<Longrightarrow> fi < length (api_functions g) \<Longrightarrow>
      \<exists>r. is_fun_satisfied g ApiBareFunction fi s = Done r \<and>
        (\<forall>new. r = Some new \<longrightarrow> wf_sequence g new \<and>
           (\<exists>c. seq_functions new = seq_functions s @ [c] \<and> func c = (ApiBareFunction, fi)))"
    by (rule is_fun_satisfied_lemma)
  show "list_all (wf_sequence g) ss \<Longrightarrow> wf_sequence g (merge_sequences ss)" by (rule wf_merge)
  show "wf_sequence g s \<Longrightarrow> \<exists>d. dead_code g s = Done d \<and> length d = seq_len s"
    using dead_code_eq [OF wf_in_range, of g s] by simp
  show "wf_sequence g s \<Longrightarrow> \<exists>b. is_sequence_ended g s = Done b" by (rule wf_ended)
  show "wf_sequence (g\<lparr>api_sequences := ss, api_functions_visited := v\<rparr>) s = wf_sequence g s" by (rule wf_frame)
qed

text \<open>
  C5: the breadth-first search is sound and complete: with a positive bound and stopping at end
  functions it returns, without panic, exactly the sequences that at most that many extensions of
  the empty sequence can give; all of them are well-formed, at most \<open>n ^ k\<close> have length \<open>k\<close> for \<open>n\<close>
  functions, and the visited marks are exactly the functions that occur in them.
\<close>

theorem bfs_sound_complete:
  "\<exists>g'. bfs (Suc max_len) True False g = Done g' \<and>
     set (api_sequences g') = {s. \<exists>k \<le> Suc max_len. grown g True k s} \<and>
     list_all (\<lambda>s. wf_sequence g s \<and> seq_len s \<le> Suc max_len) (api_sequences g') \<and>
     (\<forall>k. length (filter (\<lambda>s. seq_len s = k) (api_sequences g')) \<le> length (api_functions g) ^ k) \<and>
     visited_ok g'"
proof -
  obtain g' where g': "bfs (Suc max_len) True False g = Done g'"
      "\<forall>s \<in> set (api_sequences g'). \<exists>k \<le> Suc max_len. grown g True k s"
      "\<forall>k \<le> Suc max_len. \<forall>s. grown g True k s \<longrightarrow> s \<in> set (api_sequences g')"
      "\<forall>k. length (filter (\<lambda>s. seq_len s = k) (api_sequences g')) \<le> length (api_functions g) ^ k"
      "search_ok wf_sequence g'"
    using wf_search.bfs_result [of max_len False g] by blast
  have "wf_sequence g s \<and> seq_len s \<le> Suc max_len" if "s \<in> set (api_sequences g')" for s
    using g'(2) that wf_search.grown_good by fastforce
  then show ?thesis using g' by (auto simp: list_all_iff search_ok_def)
qed

text \<open>
  C40: without stopping at end functions the search never returns to its caller: every such call
  with a positive bound ends the whole process with exit code 0, so \<open>_Bfs\<close> and \<open>_FastBfs\<close> produce
  no target.
\<close>

theorem bfs_without_stop_exits:
  "bfs (Suc max_len) False fast g = Exit 0 \<and>
   generate_all_possoble_sequences it rng Bfs g = Exit 0 \<and>
   generate_all_possoble_sequences it rng FastBfs g = Exit 0"
  using wf_search.bfs_exits [of max_len fast g] wf_search.bfs_exits [of 2 False g]
    wf_search.bfs_exits [of 2 True g]
  by (simp add: generate_all_possoble_sequences_def numeral_3_eq_3 numeral_2_eq_2)

section \<open>The deep search and the random walk\<close>

definition rng_ok :: "(nat \<Rightarrow> nat \<Rightarrow> nat) \<Rightarrow> bool" where
  "rng_ok rng \<longleftrightarrow> (\<forall>t n. 0 < n \<longrightarrow> rng t n < n)"

context sequence_search
begin

lemma ended_if_ok:
  "search_ok good g \<Longrightarrow> s \<in> set (api_sequences g) \<Longrightarrow>
     \<exists>b. (if stop then is_sequence_ended g s else Done False) = Done b"
  using ended_grows [of g s] by (cases stop) auto

lemma walk_step_ok:
  assumes ok: "search_ok good g" "api_sequences g \<noteq> []" and n: "0 < length (api_functions g)"
    and rng: "rng_ok rng"
  shows "\<exists>g' t'. walk_step rng stop max_depth i (g, t) = Done (g', t') \<and> grows g g' \<and> search_ok good g'"
proof -
  let ?i = "rng t (length (api_sequences g))" and ?fi = "rng (t + 1) (length (api_functions g))"
  let ?s = "api_sequences g ! ?i"
  have i: "?i < length (api_sequences g)" and fi: "?fi < length (api_functions g)"
    using rng ok(2) n by (auto simp: rng_ok_def)
  then have s: "?s \<in> set (api_sequences g)" by simp
  then have "good g ?s" using ok(1) by (auto simp: search_ok_def list_all_iff)
  then obtain r where r: "is_fun_satisfied g ApiBareFunction ?fi ?s = Done r"
    using good_extend [OF _ fi] by blast
  obtain b where b: "(if stop then is_sequence_ended g ?s else Done False) = Done b"
    using ended_if_ok [OF ok(1) s, of stop] by blast
  have step: "walk_step rng stop max_depth i (g, t) =
      (if b \<or> (max_depth > 0 \<and> seq_len ?s \<ge> max_depth) then Done (g, t + 1)
       else (case r of None \<Rightarrow> Done (g, t + 2)
             | Some new \<Rightarrow> obind (push_sequence ?fi new g) (\<lambda>g. Done (g, t + 2))))"
    using i n r b ok(2) by (simp add: walk_step_def gen_range_def split: option.split)
  show ?thesis
  proof (cases r)
    case None
    then show ?thesis using ok by (auto simp: step)
  next
    case (Some new)
    then obtain g' where "push_sequence ?fi new g = Done g'" "grows g g'" "search_ok good g'"
      using extend_ok [OF ok(1) s fi] r by blast
    then show ?thesis using ok Some by (auto simp: step)
  qed
qed

lemma random_walk_ok:
  assumes "rng_ok rng"
  shows "\<exists>g'. random_walk rng max_size stop max_depth g = Done g' \<and> search_ok good g' \<and>
     api_functions g' = api_functions g \<and> (\<exists>ss. grows (blank g ss) g')"
proof (cases "api_functions g = []")
  case True
  have "random_walk rng max_size stop max_depth g = Done (blank g [])"
    using True by (simp add: random_walk_def Let_def blank_start)
  then show ?thesis using blank_ok by (metis blank_fields(1) grows_refl)
next
  case False
  let ?P = "\<lambda>(g', t :: nat). grows (blank g [seq_new]) g' \<and> search_ok good g'"
  have "\<exists>st. ofold (walk_step rng stop max_depth) [0..<max_size] (blank g [seq_new], 0) = Done st \<and> ?P st"
  proof (rule ofold_inv)
    fix i st
    assume "?P st"
    then obtain g' t where st: "st = (g', t)" "grows (blank g [seq_new]) g'" "search_ok good g'"
      by (cases st) auto
    have "api_sequences g' \<noteq> []" "0 < length (api_functions g')"
      using grows_fields [OF st(2)] False by auto
    from walk_step_ok [OF st(3) this assms, of stop max_depth i t] st(1,2)
    show "\<exists>st'. walk_step rng stop max_depth i st = Done st' \<and> ?P st'"
      using grows_trans by fastforce
  qed (use blank_ok in simp)
  then obtain g' t where "ofold (walk_step rng stop max_depth) [0..<max_size] (blank g [seq_new], 0) = Done (g', t)"
      "grows (blank g [seq_new]) g'" "search_ok good g'" by auto
  moreover from this(2) have "api_functions g' = api_functions g" using grows_fields by fastforce
  ultimately show ?thesis using False by (auto simp: random_walk_def Let_def blank_start)
qed

lemma deep_try_ok:
  assumes ok: "search_ok good (deep_graph d)" and p: "p \<in> set (api_sequences (deep_graph d))"
    and fi: "fi < length (api_functions (deep_graph d))"
  shows "\<exists>d'. deep_try p fi d = Done d' \<and> grows (deep_graph d) (deep_graph d') \<and> search_ok good (deep_graph d')"
proof -
  have "good (deep_graph d) p" using ok p by (auto simp: search_ok_def list_all_iff)
  then obtain r where r: "is_fun_satisfied (deep_graph d) ApiBareFunction fi p = Done r"
    using good_extend [OF _ fi] by blast
  show ?thesis
  proof (cases r)
    case None
    then show ?thesis using r ok by (simp add: deep_try_def)
  next
    case (Some new)
    then show ?thesis using r extend_ok [OF ok p fi, of new] by (auto simp: deep_try_def Let_def)
  qed
qed

lemma deep_level_ok:
  assumes ok: "search_ok good (deep_graph d)" and ps: "set ps \<subseteq> set (api_sequences (deep_graph d))"
    and n: "n = length (api_functions (deep_graph d))"
  shows "\<exists>d'. ofold (\<lambda>p d. ofold (deep_try p) [0..<n] d) ps d = Done d' \<and>
     grows (deep_graph d) (deep_graph d') \<and> search_ok good (deep_graph d')"
proof (rule ofold_inv)
  fix p and d1 :: deep_state
  assume p: "p \<in> set ps" and d1: "grows (deep_graph d) (deep_graph d1) \<and> search_ok good (deep_graph d1)"
  show "\<exists>d2. ofold (deep_try p) [0..<n] d1 = Done d2 \<and>
      grows (deep_graph d) (deep_graph d2) \<and> search_ok good (deep_graph d2)"
  proof (rule ofold_inv)
    fix fi and d2 :: deep_state
    assume "fi \<in> set [0..<n]" and d2: "grows (deep_graph d) (deep_graph d2) \<and> search_ok good (deep_graph d2)"
    then have "fi < length (api_functions (deep_graph d2))" "p \<in> set (api_sequences (deep_graph d2))"
      using n p ps grows_fields by fastforce+
    with d2 show "\<exists>d3. deep_try p fi d2 = Done d3 \<and>
        grows (deep_graph d) (deep_graph d3) \<and> search_ok good (deep_graph d3)"
      using deep_try_ok grows_trans by blast
  qed (rule d1)
qed (use ok in simp)

lemma deep_levels_ok:
  "search_ok good (deep_graph d) \<Longrightarrow> n = length (api_functions (deep_graph d)) \<Longrightarrow>
     \<exists>d'. deep_levels m n lens d = Done d' \<and> grows (deep_graph d) (deep_graph d') \<and> search_ok good (deep_graph d')"
proof (induction lens arbitrary: d)
  case (Cons len lens)
  show ?case
  proof (cases "len > 2 \<and> length (api_sequences (deep_graph d)) * visited_nodes_num (deep_graph d) \<ge> m")
    case True
    then show ?thesis using Cons.prems by (auto simp: Let_def)
  next
    case False
    obtain tmp where tmp: "select_level True len (deep_graph d) = Done tmp"
        "set tmp \<subseteq> set (api_sequences (deep_graph d))"
      using select_level_ok [OF Cons.prems(1), of True len] by blast
    obtain d1 where d1: "ofold (\<lambda>p d. ofold (deep_try p) [0..<n] d) tmp (d\<lparr>deep_flag := False\<rparr>) = Done d1"
        "grows (deep_graph d) (deep_graph d1)" "search_ok good (deep_graph d1)"
      using deep_level_ok [of "d\<lparr>deep_flag := False\<rparr>" tmp n] Cons.prems tmp(2) by auto
    have "n = length (api_functions (deep_graph d1))" using Cons.prems(2) grows_fields [OF d1(2)] by simp
    from Cons.IH [OF d1(3) this] obtain d2 where d2: "deep_levels m n lens d1 = Done d2"
        "grows (deep_graph d1) (deep_graph d2)" "search_ok good (deep_graph d2)" by blast
    show ?thesis
      using False tmp(1) d1 d2 grows_trans [OF d1(2) d2(2)] by (auto simp: Let_def)
  qed
qed simp

lemma try_deep_bfs_ok:
  "\<exists>g'. try_deep_bfs m g = Done g' \<and> search_ok good g' \<and> (\<exists>ss. grows (blank g ss) g')"
proof (cases "api_functions g = []")
  case True
  then have "try_deep_bfs m g = Done (blank g [])" by (simp add: try_deep_bfs_def Let_def blank_start)
  then show ?thesis using blank_ok grows_refl by blast
next
  case False
  then show ?thesis
    using blank_ok deep_levels_ok [of "\<lparr>deep_graph = blank g [seq_new], deep_nodes = {}, deep_edges = {},
        deep_flag = False\<rparr>" "length (api_functions g)" m "[0..<length (api_functions g)]"]
    by (auto simp: try_deep_bfs_def Let_def blank_start Suc_le_eq linorder_not_less)
qed

end

end
