(* ===== verification/Graph_Cover.thy ===== *)
theory Graph_Cover
  imports Graph_Search
begin

text \<open>
  The backward search of \<^verbatim>\<open>fuzz_target/api_graph.rs\<close>, \<open>_try_to_cover_unvisited_nodes\<close>, and the entry
  point \<open>default_generate_sequences\<close>: for a function no sequence calls yet, it merges one sequence
  per argument that needs a producer and appends the function. Shown here on the contract of
  \<open>sequence_search\<close>: the search returns, keeps the invariant of the sequences and the marks, and
  stops only when no function is left that it could cover.
\<close>

section \<open>Candidates for merging\<close>

text \<open>One more round of the backward search would not cover the function \<open>u\<close>.\<close>

definition not_coverable :: "api_graph \<Rightarrow> nat \<Rightarrow> bool" where
  "not_coverable g u \<longleftrightarrow>
     obind (choose_candidate_sequence_for_merge g) (\<lambda>cs. cover_node cs u (g, [])) = Done (g, [])"

text \<open>The sequences a candidate index may name: those with at least one call.\<close>

definition candidates_ok :: "api_graph \<Rightarrow> nat list \<Rightarrow> bool" where
  "candidates_ok g cs \<longleftrightarrow> (\<forall>c \<in> set cs. c < length (api_sequences g) \<and> seq_len (api_sequences g ! c) > 0)"

lemma candidates_grow: "grows g g' \<Longrightarrow> candidates_ok g cs \<Longrightarrow> candidates_ok g' cs"
  by (auto simp: grows_def candidates_ok_def nth_append)

lemma i32_round_trip_small [simp]: "n < 2 ^ 31 \<Longrightarrow> i32_round_trip n = n"
  by (simp add: i32_round_trip_def Let_def)

lemma last_api_func_index_Some:
  "seq_len s > 0 \<Longrightarrow> last_api_func_index s = Some (snd (func (last (seq_functions s))))"
  by (simp add: last_api_func_index_def split: prod.split api_type.split)

lemma find_producer_ok:
  "candidates_ok g cs \<Longrightarrow> \<exists>r. find_producer g node i cs found = Done r \<and>
     (\<forall>c. r = Some c \<longrightarrow> c \<in> set cs \<or> found = Some c)"
proof (induction cs arbitrary: found)
  case (Cons c cs)
  have c: "c < length (api_sequences g)" "seq_len (api_sequences g ! c) > 0" and cs: "candidates_ok g cs"
    using Cons.prems by (auto simp: candidates_ok_def)
  note k = last_api_func_index_Some [OF c(2)]
  show ?case
    using Cons.IH [OF cs, of "Some c"] Cons.IH [OF cs, of found] c(1)
    by (auto simp: k split: option.split)
qed simp

lemma cover_params_ok:
  assumes cs: "candidates_ok g cs" and small: "length (api_sequences g) \<le> 2 ^ 31"
    and "set is \<subseteq> {..<length tys}"
  shows "\<exists>st. ofold (cover_param g node tys cs) is (True, []) = Done st \<and>
     (\<forall>k \<in> set (snd st). k < length (api_sequences g))"
proof (rule ofold_inv)
  fix i and st :: "bool \<times> nat list"
  assume i: "i \<in> set is" and st: "\<forall>k \<in> set (snd st). k < length (api_sequences g)"
  obtain b ks where bk: "st = (b, ks)" by (cases st)
  obtain r where r: "find_producer g node i cs None = Done r" "\<forall>c. r = Some c \<longrightarrow> c \<in> set cs"
    using find_producer_ok [OF cs, of node i None] by auto
  have "i < length tys" using i assms(3) by auto
  moreover have "i32_round_trip c = c \<and> c < length (api_sequences g)" if "r = Some c" for c
    using r(2) that cs small by (force simp: candidates_ok_def)
  ultimately show "\<exists>st'. cover_param g node tys cs i st = Done st' \<and>
      (\<forall>k \<in> set (snd st'). k < length (api_sequences g))"
    using st bk r(1) by (auto simp: cover_param_def split: option.split)
qed simp

lemma round_count:
  assumes "distinct us" "distinct new" "set new \<subseteq> set us"
  shows "length (filter (\<lambda>u. u \<notin> set new) us) + length new = length us"
proof -
  have "set (filter (\<lambda>u. u \<in> set new) us) = set new" using assms(3) by auto
  then have "length (filter (\<lambda>u. u \<in> set new) us) = length new"
    using assms(1,2) by (metis distinct_card distinct_filter)
  then show ?thesis using sum_length_filter_compl [of "\<lambda>u. u \<in> set new" us] by simp
qed

context sequence_search
begin

lemma choose_candidate_ok:
  assumes ok: "search_ok good g" and i: "i < length (api_sequences g)"
  shows "\<exists>b. choose_candidate g i res = Done (if b then res @ [i] else res) \<and>
     (b \<longrightarrow> seq_len (api_sequences g ! i) > 0)"
proof -
  let ?s = "api_sequences g ! i"
  have s: "?s \<in> set (api_sequences g)" using i by simp
  then have good: "good g ?s" using ok by (auto simp: search_ok_def list_all_iff)
  obtain d where d: "dead_code g ?s = Done d" "length d = seq_len ?s" using good_dead [OF good] by blast
  obtain e where e: "is_sequence_ended g ?s = Done e" using good_ended [OF good] by blast
  have "oex (get_index d) [0..<seq_len ?s - 1] = Done (list_ex (\<lambda>j. d ! j) [0..<seq_len ?s - 1])"
    by (rule oex_Done) (use d(2) in auto)
  then show ?thesis
    using i d(1) e by (auto simp: choose_candidate_def)
qed

lemma choose_ok:
  assumes "search_ok good g"
  shows "\<exists>cs. choose_candidate_sequence_for_merge g = Done cs \<and> candidates_ok g cs"
  unfolding choose_candidate_sequence_for_merge_def
proof (rule ofold_inv)
  fix i and cs :: "nat list"
  assume "i \<in> set [0..<length (api_sequences g)]" and cs: "candidates_ok g cs"
  then have "i < length (api_sequences g)" by simp
  from choose_candidate_ok [OF assms this, of cs] this cs
  show "\<exists>cs'. choose_candidate g i cs = Done cs' \<and> candidates_ok g cs'"
    by (auto simp: candidates_ok_def)
qed (simp add: candidates_ok_def)

lemma visited_grows:
  "search_ok good g \<Longrightarrow> grows g g' \<Longrightarrow> search_ok good g' \<Longrightarrow> i < length (api_functions g) \<Longrightarrow>
     api_functions_visited g ! i \<Longrightarrow> api_functions_visited g' ! i"
  using grows_fields [of g g'] by (auto simp: search_ok_def visited_ok_def)

section \<open>One function\<close>

lemma cover_node_ok:
  assumes ok: "search_ok good g" and cs: "candidates_ok g cs" and node: "node < length (api_functions g)"
    and small: "length (api_sequences g) \<le> 2 ^ 31"
  shows "cover_node cs node (g, covered) = Done (g, covered) \<or>
     (\<exists>g' new. cover_node cs node (g, covered) = Done (g', hs_insert node covered) \<and> grows g g' \<and>
        search_ok good g' \<and> api_sequences g' = api_sequences g @ [new] \<and>
        api_functions_visited g' ! node)"
proof -
  obtain b ks where ks: "ofold (cover_param g node (inputs (api_functions g ! node)) cs)
        [0..<length (inputs (api_functions g ! node))] (True, []) = Done (b, ks)"
      "\<forall>k \<in> set ks. k < length (api_sequences g)"
    using cover_params_ok [OF cs small, of "[0..<length (inputs (api_functions g ! node))]"
        "inputs (api_functions g ! node)" node] by fastforce
  define deps where "deps = map ((!) (api_sequences g)) ks"
  have deps: "omapM (get_index (api_sequences g)) ks = Done deps"
    unfolding deps_def by (rule omapM_Done_map) (use ks(2) in simp)
  have sub: "set deps \<subseteq> set (api_sequences g)" using ks(2) by (auto simp: deps_def)
  then have "list_all (good g) deps" using ok by (auto simp: search_ok_def list_all_iff)
  from good_extend [OF good_merge [OF this] node] obtain r
    where r: "is_fun_satisfied g ApiBareFunction node (merge_sequences deps) = Done r"
      "\<forall>new. r = Some new \<longrightarrow> good g new \<and> (\<exists>c. seq_functions new =
         seq_functions (merge_sequences deps) @ [c] \<and> func c = (ApiBareFunction, node))" by blast
  show ?thesis
  proof (cases "b \<and> r \<noteq> None")
    case False
    then show ?thesis using node ks(1) deps r(1) by (auto simp: cover_node_def)
  next
    case True
    then obtain new where new: "r = Some new" by auto
    then have calls: "contained new = insert node (\<Union>s \<in> set deps. contained s)"
      using r(2) contained_snoc contained_merge by fastforce
    obtain g' where "push_sequence node new g = Done g'" "grows g g'" "search_ok good g'"
        "api_sequences g' = api_sequences g @ [new]"
      using push_ok [OF ok _ node calls sub] r(2) new by blast
    moreover have "api_functions_visited g' ! node"
      using \<open>search_ok good g'\<close> \<open>grows g g'\<close> \<open>api_sequences g' = _\<close> calls node grows_fields
      by (fastforce simp: search_ok_def visited_ok_def)
    ultimately show ?thesis using True new node ks(1) deps r(1) by (auto simp: cover_node_def)
  qed
qed

section \<open>A round and all rounds\<close>

text \<open>
  A round pushes one sequence per function it covers; when it covers none, the graph is unchanged
  and no function of the round could be covered.
\<close>

lemma cover_round_ok:
  assumes "search_ok good g" "candidates_ok g cs" "\<forall>u \<in> set us. u < length (api_functions g)"
    and "distinct us" "length (api_sequences g) + length us \<le> 2 ^ 31" "set us \<inter> set covered = {}"
  shows "\<exists>g' new. ofold (cover_node cs) us (g, covered) = Done (g', covered @ new) \<and> grows g g' \<and>
     search_ok good g' \<and> length (api_sequences g') = length (api_sequences g) + length new \<and>
     set new \<subseteq> set us \<and> distinct new \<and> (\<forall>u \<in> set new. api_functions_visited g' ! u) \<and>
     (new = [] \<longrightarrow> g' = g \<and> (\<forall>u \<in> set us. cover_node cs u (g, covered) = Done (g, covered)))"
  using assms
proof (induction us arbitrary: g covered)
  case (Cons u us)
  have u: "u < length (api_functions g)" "length (api_sequences g) \<le> 2 ^ 31" using Cons.prems(3,5) by auto
  from cover_node_ok [OF Cons.prems(1,2) u] consider
      "cover_node cs u (g, covered) = Done (g, covered)"
    | g1 s where "cover_node cs u (g, covered) = Done (g1, covered @ [u])" "grows g g1" "search_ok good g1"
        "api_sequences g1 = api_sequences g @ [s]" "api_functions_visited g1 ! u"
    using Cons.prems(6) by (force simp: hs_insert_def)
  then show ?case
  proof cases
    case 1
    from Cons.IH [OF Cons.prems(1,2), of covered] Cons.prems obtain g' new where
        "ofold (cover_node cs) us (g, covered) = Done (g', covered @ new)" "grows g g'" "search_ok good g'"
        "length (api_sequences g') = length (api_sequences g) + length new" "set new \<subseteq> set us" "distinct new"
        "\<forall>u \<in> set new. api_functions_visited g' ! u"
        "new = [] \<longrightarrow> g' = g \<and> (\<forall>u \<in> set us. cover_node cs u (g, covered) = Done (g, covered))" by auto
    with 1 show ?thesis by (intro exI [of _ g'] exI [of _ new]) auto
  next
    case 2
    have prems: "\<forall>u \<in> set us. u < length (api_functions g1)" "distinct us"
        "length (api_sequences g1) + length us \<le> 2 ^ 31" "set us \<inter> set (covered @ [u]) = {}"
      using Cons.prems grows_fields [OF 2(2)] 2(4) by auto
    from Cons.IH [OF 2(3) candidates_grow [OF 2(2) Cons.prems(2)] prems] obtain g' new where
        g': "ofold (cover_node cs) us (g1, covered @ [u]) = Done (g', covered @ u # new)" "grows g1 g'"
        "search_ok good g'" "length (api_sequences g') = length (api_sequences g1) + length new"
        "set new \<subseteq> set us" "distinct new" "\<forall>u \<in> set new. api_functions_visited g' ! u" by auto
    have "api_functions_visited g' ! u"
      using visited_grows [OF 2(3) g'(2,3)] 2(2,5) u(1) grows_fields by metis
    then show ?thesis
      using 2 g' Cons.prems(4) grows_trans [OF 2(2) g'(2)]
      by (intro exI [of _ g'] exI [of _ "u # new"]) auto
  qed
qed auto

lemma cover_rounds_ok:
  assumes "search_ok good g" "distinct us" "\<forall>u \<in> set us. u < length (api_functions g)"
    and "length (api_sequences g) + length us \<le> 2 ^ 31" "length us \<le> n" "hash_order it"
  shows "\<exists>g'. cover_rounds it n us g = Done g' \<and> grows g g' \<and> search_ok good g' \<and>
     length (api_sequences g') \<le> length (api_sequences g) + length us \<and>
     (\<forall>u \<in> set us. api_functions_visited g' ! u \<or> not_coverable g' u)"
  using assms
proof (induction n arbitrary: g us)
  case (Suc n)
  obtain cs where cs: "choose_candidate_sequence_for_merge g = Done cs" "candidates_ok g cs"
    using choose_ok [OF Suc.prems(1)] by blast
  have "\<forall>u \<in> set (it us). u < length (api_functions g)" "distinct (it us)"
    "length (api_sequences g) + length (it us) \<le> 2 ^ 31" using Suc.prems by auto
  from cover_round_ok [OF Suc.prems(1) cs(2) this, of "[]"] obtain g1 new where
      g1: "ofold (cover_node cs) (it us) (g, []) = Done (g1, new)" "grows g g1" "search_ok good g1"
      "length (api_sequences g1) = length (api_sequences g) + length new" "set new \<subseteq> set us" "distinct new"
      "\<forall>u \<in> set new. api_functions_visited g1 ! u"
      "new = [] \<longrightarrow> g1 = g \<and> (\<forall>u \<in> set us. cover_node cs u (g, []) = Done (g, []))"
    using Suc.prems(6) by auto
  show ?case
  proof (cases "new = []")
    case True
    then show ?thesis using cs(1) g1 Suc.prems(1) by (auto simp: not_coverable_def)
  next
    case False
    define rest where "rest = filter (\<lambda>u. u \<notin> set new) us"
    have "length rest + length new = length us"
      using round_count [OF Suc.prems(2) g1(6,5)] by (simp add: rest_def)
    moreover have "length new > 0" using False by simp
    ultimately have rest: "length rest \<le> n" "length (api_sequences g1) + length rest = length (api_sequences g) + length us"
      using Suc.prems(5) g1(4) by linarith+
    have "distinct rest" "\<forall>u \<in> set rest. u < length (api_functions g1)" "length (api_sequences g1) + length rest \<le> 2 ^ 31"
      using Suc.prems(2,3,4) rest(2) grows_fields [OF g1(2)] by (auto simp: rest_def)
    from Suc.IH [OF g1(3) this rest(1) Suc.prems(6)] obtain g' where
        g': "cover_rounds it n rest g1 = Done g'" "grows g1 g'" "search_ok good g'"
        "length (api_sequences g') \<le> length (api_sequences g1) + length rest"
        "\<forall>u \<in> set rest. api_functions_visited g' ! u \<or> not_coverable g' u" by blast
    have "api_functions_visited g' ! u" if "u \<in> set new" for u
      using visited_grows [OF g1(3) g'(2,3)] g1(5,7) that Suc.prems(3) grows_fields [OF g1(2)]
      by (metis in_mono)
    then have "\<forall>u \<in> set us. api_functions_visited g' ! u \<or> not_coverable g' u"
      using g'(5) by (auto simp: rest_def)
    then show ?thesis
      using cs(1) g1(1) False g' rest(2) grows_trans [OF g1(2) g'(2)] by (simp add: rest_def)
  qed
qed simp

lemma cover_ok:
  assumes ok: "search_ok good g" and it: "hash_order it"
    and small: "length (api_sequences g) + length (api_functions g) \<le> 2 ^ 31"
  shows "\<exists>g'. try_to_cover_unvisited_nodes it g = Done g' \<and> grows g g' \<and> search_ok good g' \<and>
     length (api_sequences g') \<le> length (api_sequences g) + length (api_functions g) \<and>
     (\<forall>u < length (api_functions g). api_functions_visited g' ! u \<or> not_coverable g' u)"
proof -
  define us where "us = filter (\<lambda>i. \<not> api_functions_visited g ! i) [0..<length (api_functions g)]"
  have len: "length (api_functions_visited g) = length (api_functions g)"
    using ok by (simp add: search_ok_def visited_ok_def)
  have "ofold (\<lambda>i unvisited. obind (get_index (api_functions_visited g) i) (\<lambda>v.
        Done (if \<not> v then unvisited @ [i] else unvisited))) is acc =
      Done (acc @ filter (\<lambda>i. \<not> api_functions_visited g ! i) is)"
    if "set is \<subseteq> {..<length (api_functions g)}" for "is" acc
    using that by (induction "is" arbitrary: acc) (auto simp: len)
  from this [of "[0..<length (api_functions g)]" "[]"]
  have run: "try_to_cover_unvisited_nodes it g = cover_rounds it (length us) us g"
    by (simp add: try_to_cover_unvisited_nodes_def us_def atLeast0LessThan)
  have us: "distinct us" "\<forall>u \<in> set us. u < length (api_functions g)" "length us \<le> length (api_functions g)"
    by (auto simp: us_def intro: order_trans [OF length_filter_le])
  then have "length (api_sequences g) + length us \<le> 2 ^ 31" using small by linarith
  from cover_rounds_ok [OF ok us(1,2) this order_refl it] obtain g' where
      g': "cover_rounds it (length us) us g = Done g'" "grows g g'" "search_ok good g'"
      "length (api_sequences g') \<le> length (api_sequences g) + length us"
      "\<forall>u \<in> set us. api_functions_visited g' ! u \<or> not_coverable g' u" by blast
  have "api_functions_visited g' ! u \<or> not_coverable g' u" if "u < length (api_functions g)" for u
    using g'(5) visited_grows [OF ok g'(2,3) that] that by (auto simp: us_def)
  then show ?thesis using run g' us(3) by auto
qed

end

section \<open>The entry point\<close>

lemma length_by_key:
  fixes f :: "'a \<Rightarrow> nat"
  shows "(\<forall>x \<in> set xs. f x \<le> K) \<Longrightarrow> length xs = (\<Sum>k \<le> K. length (filter (\<lambda>x. f x = k) xs))"
proof (induction xs)
  case (Cons x xs)
  have "(\<Sum>k \<le> K. length (filter (\<lambda>y. f y = k) (x # xs))) =
      (\<Sum>k \<le> K. (if f x = k then 1 else 0) + length (filter (\<lambda>y. f y = k) xs))"
    by (intro sum.cong) auto
  also have "\<dots> = (\<Sum>k \<le> K. if f x = k then 1 else 0) + length xs" using Cons by (simp add: sum.distrib)
  also have "\<dots> = 1 + length xs" using Cons.prems by (subst sum.delta') simp_all
  finally show ?case by simp
qed simp

lemma wf_blank_grows: "grows (blank g ss) g' \<Longrightarrow> wf_sequence g' = wf_sequence g"
  using wf_search.good_grows [of "blank g ss" g'] by (auto simp: blank_def wf_frame)

lemma bfs_three_small:
  assumes "length (api_functions g) \<le> 1000"
    and "\<forall>k. length (filter (\<lambda>s. seq_len s = k) ss) \<le> length (api_functions g) ^ k"
    and "\<forall>s \<in> set ss. seq_len s \<le> 3"
  shows "length ss + length (api_functions g) \<le> 2 ^ 31"
proof -
  have "length ss = (\<Sum>k \<le> 3. length (filter (\<lambda>s. seq_len s = k) ss))"
    by (rule length_by_key [OF assms(3)])
  also have "\<dots> \<le> (\<Sum>k \<le> 3. length (api_functions g) ^ k)" using assms(2) by (intro sum_mono) simp
  also have "\<dots> \<le> (\<Sum>k \<le> 3. 1000 ^ k)" using assms(1) by (intro sum_mono power_mono) simp_all
  finally have "length ss \<le> 1001001001" by (simp add: numeral_3_eq_3)
  then show ?thesis using assms(1) by simp
qed

lemma default_generate_lemma:
  assumes "hash_order it" and "length (api_functions g) \<le> 1000"
  shows "\<exists>g'. default_generate_sequences it rng g = Done g' \<and> grows (blank g [seq_new]) g' \<and>
     list_all (wf_sequence g) (api_sequences g') \<and>
     {s. \<exists>k \<le> 3. grown g True k s} \<subseteq> set (api_sequences g') \<and>
     visited_ok g' \<and>
     (\<forall>u < length (api_functions g). api_functions_visited g' ! u \<or> not_coverable g' u)"
proof -
  obtain g1 where g1: "bfs 3 True False g = Done g1" "grows (blank g [seq_new]) g1" "search_ok wf_sequence g1"
      "\<forall>s \<in> set (api_sequences g1). \<exists>k \<le> 3. grown g True k s"
      "\<forall>k \<le> 3. \<forall>s. grown g True k s \<longrightarrow> s \<in> set (api_sequences g1)"
      "\<forall>k. length (filter (\<lambda>s. seq_len s = k) (api_sequences g1)) \<le> length (api_functions g) ^ k"
    using wf_search.bfs_result [of 2 False g] by (auto simp: numeral_3_eq_3 numeral_2_eq_2)
  have fns: "api_functions g1 = api_functions g" using grows_fields [OF g1(2)] by simp
  have "\<forall>s \<in> set (api_sequences g1). seq_len s \<le> 3" using g1(4) wf_search.grown_good by metis
  then have "length (api_sequences g1) + length (api_functions g1) \<le> 2 ^ 31"
    using bfs_three_small [OF assms(2) g1(6)] fns by simp
  from wf_search.cover_ok [OF g1(3) assms(1) this] obtain g' where
      g': "try_to_cover_unvisited_nodes it g1 = Done g'" "grows g1 g'" "search_ok wf_sequence g'"
      "\<forall>u < length (api_functions g). api_functions_visited g' ! u \<or> not_coverable g' u"
    unfolding fns by blast
  have "wf_sequence g' = wf_sequence g" using wf_blank_grows [OF grows_trans [OF g1(2) g'(2)]] by blast
  then have "list_all (wf_sequence g) (api_sequences g')" "visited_ok g'"
    using g'(3) by (simp_all add: search_ok_def)
  moreover have "{s. \<exists>k \<le> 3. grown g True k s} \<subseteq> set (api_sequences g')"
    using g1(5) grows_fields [OF g'(2)] by blast
  ultimately show ?thesis
    using g1(1) g'(1,4) grows_trans [OF g1(2) g'(2)]
    by (simp add: default_generate_sequences_def generate_all_possoble_sequences_def)
qed

text \<open>
  C6: for a crate with at most 1000 functions, \<open>default_generate_sequences\<close> returns without panic
  for every iteration order of its hash sets. All sequences it leaves are well-formed, they
  include every sequence of at most three calls the extension step can build, the visited marks
  are exactly the functions called by some sequence, and a function is left unvisited only if
  another round of the backward search could not cover it either.
\<close>

theorem default_generate_sequences_correct:
  assumes "hash_order it" and "length (api_functions g) \<le> 1000"
  shows "\<exists>g'. default_generate_sequences it rng g = Done g' \<and>
     list_all (wf_sequence g) (api_sequences g') \<and>
     {s. \<exists>k \<le> 3. grown g True k s} \<subseteq> set (api_sequences g') \<and>
     visited_ok g' \<and>
     (\<forall>u < length (api_functions g). api_functions_visited g' ! u \<or> not_coverable g' u)"
  using default_generate_lemma [OF assms] by blast

theorem default_generate_sequences_correct_witness:
  "\<exists>g'. default_generate_sequences rev (\<lambda>t n. 0) example_graph = Done g' \<and>
     list_all (wf_sequence example_graph) (api_sequences g') \<and>
     {s. \<exists>k \<le> 3. grown example_graph True k s} \<subseteq> set (api_sequences g') \<and> visited_ok g'"
  using default_generate_sequences_correct [of rev example_graph "\<lambda>t n. 0"] by (auto simp: example_graph_def)

text \<open>
  C33: the random walk returns without panic whatever the random numbers are, as long as a draw
  below \<open>n\<close> is below \<open>n\<close>: it never draws from an empty range, every index it uses is valid, all
  its sequences are well-formed and the marks are exactly the functions they call.
\<close>

theorem random_walk_correct:
  assumes "rng_ok rng"
  shows "\<exists>g'. random_walk rng max_size stop_at_end_function max_depth g = Done g' \<and>
     list_all (wf_sequence g) (api_sequences g') \<and> visited_ok g'"
proof -
  obtain g' ss where "random_walk rng max_size stop_at_end_function max_depth g = Done g'"
      "search_ok wf_sequence g'" "grows (blank g ss) g'"
    using wf_search.random_walk_ok [OF assms, of max_size stop_at_end_function max_depth g] by blast
  then show ?thesis using wf_blank_grows [of g ss g'] by (simp add: search_ok_def)
qed

theorem random_walk_correct_witness:
  "\<exists>g'. random_walk (\<lambda>t n. t mod n) 100 True 0 example_graph = Done g' \<and>
     list_all (wf_sequence example_graph) (api_sequences g') \<and> visited_ok g'"
  by (rule random_walk_correct) (simp add: rng_ok_def)

text \<open>
  C34: the deep breadth-first search returns without panic for every limit on the number of
  sequences; all its sequences are well-formed and the marks are exactly the functions they call.
\<close>

theorem try_deep_bfs_correct:
  "\<exists>g'. try_deep_bfs max_sequence_number g = Done g' \<and>
     list_all (wf_sequence g) (api_sequences g') \<and> visited_ok g'"
proof -
  obtain g' ss where "try_deep_bfs max_sequence_number g = Done g'"
      "search_ok wf_sequence g'" "grows (blank g ss) g'"
    using wf_search.try_deep_bfs_ok [of max_sequence_number g] by blast
  then show ?thesis using wf_blank_grows [of g ss g'] by (simp add: search_ok_def)
qed

end
