(* ===== verification/Sequence_Sound.thy ===== *)
theory Sequence_Sound
  imports Api_Graph
begin

text \<open>
  What Rust's rules ask of a call sequence, and that the sequences \<open>is_fun_satisfied\<close> builds have it
  where their arguments are plain conversions: nothing is used after it was moved, no call borrows
  a value in conflicting ways, and the marks for \<open>mut\<close> and \<open>unsafe\<close> are set. The uses are those of
  \<open>Arg_Expr\<close>; the generator's own tests do not occur in them. The second part says when
  \<open>is_fun_satisfied\<close> gives up.
\<close>

section \<open>Rust's rules\<close>

text \<open>
  The uses a call makes of the values of earlier calls, in the order of its parameters: the value and
  what the argument expression does to it, for the arguments that are plain conversions.
\<close>

definition value_copy :: "api_graph \<Rightarrow> api_sequence \<Rightarrow> nat \<Rightarrow> bool" where
  "value_copy g s k = (case output_ty (called g (seq_functions s ! k)) of Some ty \<Rightarrow> known_copy ty | None \<Rightarrow> False)"

definition call_uses :: "api_graph \<Rightarrow> api_sequence \<Rightarrow> api_call \<Rightarrow> (nat \<times> var_use) list" where
  "call_uses g s c = map (\<lambda>(pt, k, ct). (k, use_of Move (value_copy g s k) ct))
     (filter (\<lambda>(pt, k, ct). pt = FunctionReturn \<and> plain_conversion ct) (params c))"

text \<open>
  Two uses of one value in the same call: nothing after a move; next to a mutable borrow no other
  borrow and no move, and next to a shared borrow no mutable borrow and no move.
\<close>

definition no_conflict :: "nat \<times> var_use \<Rightarrow> nat \<times> var_use \<Rightarrow> bool" where
  "no_conflict a b \<longleftrightarrow> fst a = fst b \<longrightarrow> snd a \<noteq> Move \<and>
     (snd a = Mutable \<longrightarrow> snd b \<notin> {Move, Shared, Mutable}) \<and> (snd a = Shared \<longrightarrow> snd b \<notin> {Move, Mutable})"

definition not_after_move :: "nat \<times> var_use \<Rightarrow> nat \<times> var_use \<Rightarrow> bool" where
  "not_after_move a b \<longleftrightarrow> snd a = Move \<longrightarrow> fst a \<noteq> fst b"

definition marked :: "api_sequence \<Rightarrow> call_param \<Rightarrow> bool" where
  "marked s = (\<lambda>(pt, k, ct). plain_conversion ct \<longrightarrow>
     (mutated False ct \<longrightarrow> k \<in> (case pt of FunctionReturn \<Rightarrow> function_mut_tag s | FuzzableParam \<Rightarrow> fuzzable_mut_tag s)) \<and>
     (pt = FunctionReturn \<and> derefs_raw ct \<longrightarrow> seq_unsafe_tag s))"

definition rust_sound :: "api_graph \<Rightarrow> api_sequence \<Rightarrow> bool" where
  "rust_sound g s \<longleftrightarrow>
     sorted_wrt not_after_move (concat (map (call_uses g s) (seq_functions s))) \<and>
     (\<forall>c \<in> set (seq_functions s). sorted_wrt no_conflict (call_uses g s c) \<and> list_all (marked s) (params c) \<and>
        (unsafe_tag (called g c) = Unsafe \<longrightarrow> seq_unsafe_tag s))"

section \<open>Well-formed sequences are sound\<close>

abbreviation typed_params :: "api_graph \<Rightarrow> api_call \<Rightarrow> (clean_type \<times> call_param) list" where
  "typed_params g c \<equiv> zip (inputs (called g c)) (params c)"

lemma accesses_zip:
  "accesses tys ps = map (\<lambda>(ty, pt, k, ct). param_access ty k ct) (filter (\<lambda>(ty, pt, k, ct). pt = FunctionReturn) (zip tys ps))"
  by (induction tys ps rule: accesses.induct) auto

lemma filter_zip_snd: "length xs = length ys \<Longrightarrow> map snd (filter (P \<circ> snd) (zip xs ys)) = filter P ys"
  by (induction xs ys rule: list_induct2) auto

definition plain_return :: "clean_type \<times> call_param \<Rightarrow> bool" where
  "plain_return = (\<lambda>(ty, pt, k, ct). pt = FunctionReturn \<and> plain_conversion ct)"

definition entry_use :: "api_graph \<Rightarrow> api_sequence \<Rightarrow> clean_type \<times> call_param \<Rightarrow> nat \<times> var_use" where
  "entry_use g s = (\<lambda>(ty, pt, k, ct). (k, use_of Move (value_copy g s k) ct))"

definition entry_access :: "clean_type \<times> call_param \<Rightarrow> access" where
  "entry_access = (\<lambda>(ty, pt, k, ct). param_access ty k ct)"

lemma call_uses_zip:
  assumes "length (params c) = length (inputs (called g c))"
  shows "call_uses g s c = map (entry_use g s) (filter plain_return (typed_params g c))"
proof -
  let ?P = "\<lambda>(pt, k, ct). pt = FunctionReturn \<and> plain_conversion ct"
  have "plain_return = ?P \<circ> snd" by (auto simp: plain_return_def)
  then have "map snd (filter plain_return (typed_params g c)) = filter ?P (params c)"
    using filter_zip_snd [of "inputs (called g c)" "params c" ?P] assms by simp
  moreover have "entry_use g s = (\<lambda>(pt, k, ct). (k, use_of Move (value_copy g s k) ct)) \<circ> snd"
    by (auto simp: entry_use_def)
  ultimately show ?thesis unfolding call_uses_def by (simp flip: map_map)
qed

text \<open>Every use Rust sees in a plain conversion along an edge is one the generator records.\<close>

lemma entry_recorded:
  assumes edges: "\<forall>d \<in> set (api_dependencies g). edge g d" and ok: "call_ok g s n c"
    and e: "e \<in> set (typed_params g c)" "plain_return e"
  shows "acc_value (entry_access e) = fst (entry_use g s e)"
    "snd (entry_use g s e) = Move \<Longrightarrow> acc_move (entry_access e)"
    "snd (entry_use g s e) = Mutable \<Longrightarrow> acc_mut (entry_access e)"
    "snd (entry_use g s e) = Shared \<Longrightarrow> acc_shared (entry_access e)"
proof -
  obtain ty k ct where e': "e = (ty, FunctionReturn, k, ct)" "plain_conversion ct"
    using e(2) by (auto simp: plain_return_def)
  then obtain p where p: "p < length (params c)" "params c ! p = (FunctionReturn, k, ct)" "ty = inputs (called g c) ! p"
    using e(1) by (auto simp: in_set_zip)
  have "param_ok g s n c p (FunctionReturn, k, ct)" using ok p unfolding call_ok_def by metis
  then have "edge g (dep_between (seq_functions s ! k) c p ct)" using edges by (simp add: param_ok_def)
  then obtain src where src: "output_ty (called g (seq_functions s ! k)) = Some src"
      "same_type_hard_mode (graph_names g) src ty = ct"
    using p(3) by (auto simp: edge_def dep_between_def Let_def same_type_def split: option.splits)
  have "value_copy g s k = known_copy src" by (simp add: value_copy_def src(1))
  then show "acc_value (entry_access e) = fst (entry_use g s e)"
    "snd (entry_use g s e) = Move \<Longrightarrow> acc_move (entry_access e)"
    "snd (entry_use g s e) = Mutable \<Longrightarrow> acc_mut (entry_access e)"
    "snd (entry_use g s e) = Shared \<Longrightarrow> acc_shared (entry_access e)"
    using plain_uses [OF src(2) e'(2)] by (auto simp: e'(1) entry_access_def entry_use_def param_access_def)
qed

text \<open>An order on the accesses carries over to the uses of the plain ones.\<close>

lemma sorted_uses:
  assumes "sorted_wrt R (map entry_access (filter (\<lambda>(ty, pt, k, ct). pt = FunctionReturn) es))"
    and "\<And>a b. a \<in> set es \<Longrightarrow> b \<in> set es \<Longrightarrow> plain_return a \<Longrightarrow> plain_return b \<Longrightarrow>
      R (entry_access a) (entry_access b) \<Longrightarrow> S (entry_use g s a) (entry_use g s b)"
  shows "sorted_wrt S (map (entry_use g s) (filter plain_return es))"
proof -
  have "filter plain_return (filter (\<lambda>(ty, pt, k, ct). pt = FunctionReturn) es) = filter plain_return es"
    by (induction es) (auto simp: plain_return_def)
  then have "sorted_wrt (\<lambda>a b. R (entry_access a) (entry_access b)) (filter plain_return es)"
    using sorted_wrt_filter [OF assms(1) [unfolded sorted_wrt_map], of plain_return] by simp
  then show ?thesis
    unfolding sorted_wrt_map by (rule sorted_wrt_mono_rel [rotated]) (use assms(2) in auto)
qed

lemma wf_rust_sound:
  assumes wf: "wf_sequence g s" and edges: "\<forall>d \<in> set (api_dependencies g). edge g d"
  shows "rust_sound g s"
proof -
  have ok: "\<exists>n. call_ok g s n c" if "c \<in> set (seq_functions s)" for c
    using wf that unfolding wf_sequence_def seq_len_def in_set_conv_nth by blast
  then have uses: "call_uses g s c = map (entry_use g s) (filter plain_return (typed_params g c))" if "c \<in> set (seq_functions s)" for c
    using call_uses_zip that by (metis call_ok_def)
  have acc: "accesses (inputs (called g c)) (params c) =
      map entry_access (filter (\<lambda>(ty, pt, k, ct). pt = FunctionReturn) (typed_params g c))" for c
    by (simp add: accesses_zip entry_access_def)
  note rec = entry_recorded [OF edges]
  have "sorted_wrt no_conflict (call_uses g s c)" if c: "c \<in> set (seq_functions s)" for c
    unfolding uses [OF c]
  proof (rule sorted_uses)
    obtain n where n: "call_ok g s n c" using ok c by blast
    show "sorted_wrt compatible_accesses (map entry_access (filter (\<lambda>(ty, pt, k, ct). pt = FunctionReturn) (typed_params g c)))"
      using n by (simp add: call_ok_def borrow_ok_def acc)
    fix a b
    assume "a \<in> set (typed_params g c)" "b \<in> set (typed_params g c)" "plain_return a" "plain_return b"
      "compatible_accesses (entry_access a) (entry_access b)"
    then show "no_conflict (entry_use g s a) (entry_use g s b)"
      using rec [OF n, of a] rec [OF n, of b] unfolding compatible_accesses_def no_conflict_def by auto
  qed
  moreover have "list_all (marked s) (params c)" if c: "c \<in> set (seq_functions s)" for c
  proof -
    obtain n where n: "call_ok g s n c" using ok c by blast
    have "marked s (params c ! p)" if "p < length (params c)" for p
    proof -
      have "param_ok g s n c p (params c ! p)" using n that by (simp add: call_ok_def)
      then show ?thesis using plain_tags by (auto simp: param_ok_def marked_def split: prod.splits param_type.splits)
    qed
    then show ?thesis by (simp add: list_all_length)
  qed
  moreover have "unsafe_tag (called g c) = Unsafe \<longrightarrow> seq_unsafe_tag s" if "c \<in> set (seq_functions s)" for c
    using ok [OF that] by (auto simp: call_ok_def call_tags_ok_def)
  moreover have "sorted_wrt not_after_move (concat (map (call_uses g s) (seq_functions s)))"
  proof -
    let ?es = "concat (map (typed_params g) (seq_functions s))"
    have es: "\<exists>n c. call_ok g s n c \<and> e \<in> set (typed_params g c)" if "e \<in> set ?es" for e
      using that ok by simp blast
    have "seq_accesses g s = map entry_access (filter (\<lambda>(ty, pt, k, ct). pt = FunctionReturn) ?es)"
      by (simp add: seq_accesses_def acc map_concat filter_concat comp_def)
    then have "sorted_wrt (\<lambda>a b. acc_move a \<longrightarrow> acc_value a \<noteq> acc_value b)
        (map entry_access (filter (\<lambda>(ty, pt, k, ct). pt = FunctionReturn) ?es))"
      using wf by (simp add: wf_sequence_def no_use_after_move_def)
    then have "sorted_wrt not_after_move (map (entry_use g s) (filter plain_return ?es))"
    proof (rule sorted_uses)
      fix a b
      assume "a \<in> set ?es" "b \<in> set ?es" and plain: "plain_return a" "plain_return b"
        and acc: "acc_move (entry_access a) \<longrightarrow> acc_value (entry_access a) \<noteq> acc_value (entry_access b)"
      then obtain n c m d where "call_ok g s n c" "a \<in> set (typed_params g c)" "call_ok g s m d" "b \<in> set (typed_params g d)"
        using es by meson
      then show "not_after_move (entry_use g s a) (entry_use g s b)"
        using rec(1,2) [of s n c a] rec(1) [of s m d b] plain acc by (simp add: not_after_move_def)
    qed
    moreover have "map (call_uses g s) (seq_functions s) =
        map (\<lambda>c. map (entry_use g s) (filter plain_return (typed_params g c))) (seq_functions s)"
      using uses by simp
    then have "concat (map (call_uses g s) (seq_functions s)) = map (entry_use g s) (filter plain_return ?es)"
      by (simp only: map_concat filter_concat map_map comp_def)
    ultimately show ?thesis by (simp only:)
  qed
  ultimately show ?thesis by (simp add: rust_sound_def)
qed

section \<open>When a function does not fit\<close>

definition depends :: "api_graph \<Rightarrow> api_sequence \<Rightarrow> nat \<Rightarrow> nat \<Rightarrow> nat \<Rightarrow> bool" where
  "depends g s k fi i \<longleftrightarrow> (\<exists>d \<in> set (api_dependencies g). output_fun d = func (seq_functions s ! k) \<and>
     input_fun d = (ApiBareFunction, fi) \<and> input_param_index d = i)"

text \<open>
  A parameter has nothing to be called with: it comes from bytes but of a kind that is not supported,
  or every value of the sequence is moved, is not usable for it along an edge of the graph, or is
  usable for an earlier parameter too. A function is also given up when a parameter holds more
  than one piece of variable length.
\<close>

definition param_unfit :: "api_graph \<Rightarrow> api_sequence \<Rightarrow> nat \<Rightarrow> nat \<Rightarrow> bool" where
  "param_unfit g s fi i \<longleftrightarrow>
     (let ty = inputs (api_functions g ! fi) ! i
      in if is_fuzzable_type (graph_names g) ty
         then fst (generate_fuzzable_type_and_call_type (fuzzable_call_type (graph_names g) ty)) = NoFuzzable
         else \<forall>k < seq_len s. k \<in> moved s \<or> \<not> depends g s k fi i \<or> (\<exists>j < i. depends g s k fi j))"

lemma taken_depends:
  assumes ok: "fit_ok g s fi i st" and i: "i \<le> length (inputs (api_functions g ! fi))"
    and a: "a \<in> set (accesses (inputs (api_functions g ! fi)) (params (fit_call st)))"
  shows "\<exists>j < i. depends g s (acc_value a) fi j"
proof -
  obtain ct p where p: "p < i" "params (fit_call st) ! p = (FunctionReturn, acc_value a, ct)"
    using accesses_from_returns [OF a] ok by (auto simp: in_set_conv_nth fit_ok_def)
  then have "param_ok g (fit_seq st) (seq_len s) (fit_call st) p (FunctionReturn, acc_value a, ct)"
    using ok by (auto simp: fit_ok_def fit_seq_ok_def)
  then have "dep_between (seq_functions s ! acc_value a) (fit_call st) p ct \<in> set (api_dependencies g)"
      "func (fit_call st) = (ApiBareFunction, fi)"
    using ok by (simp_all add: param_ok_def fit_ok_def fit_seq_ok_def)
  then have "depends g s (acc_value a) fi p"
    unfolding depends_def dep_between_def by (metis api_dependency.select_convs(1-3))
  then show ?thesis using p(1) by blast
qed

lemma rejected_depends:
  assumes ok: "fit_ok g s fi i st" and i: "i < length (inputs (api_functions g ! fi))" and k: "k < seq_len s"
    and no: "try_function g ApiBareFunction fi i (inputs (api_functions g ! fi) ! i) k st = Done (False, st')"
  shows "k \<in> moved s \<or> \<not> depends g s k fi i \<or> (\<exists>j < i. depends g s k fi j)"
proof -
  let ?as = "accesses (inputs (api_functions g ! fi)) (params (fit_call st))"
  have sets: "moved (fit_seq st) = moved s" "seq_functions (fit_seq st) = seq_functions s"
      "fit_moved st \<subseteq> acc_value ` set ?as" "fit_multi_mut st \<subseteq> acc_value ` set ?as" "fit_immutable_borrow st \<subseteq> acc_value ` set ?as"
    using ok by (auto simp: fit_ok_def fit_seq_ok_def fit_borrows_ok_def moved_by_def)
  have taken: "\<exists>j < i. depends g s k fi j" if "k \<in> acc_value ` set ?as"
    using that taken_depends [OF ok] i by auto
  show ?thesis
  proof (cases "k \<in> moved s \<or> k \<in> fit_moved st")
    case True
    then show ?thesis using taken sets(3) by auto
  next
    case False
    show ?thesis
    proof (cases "check_dependency g (fst (func (seq_functions s ! k))) (snd (func (seq_functions s ! k))) ApiBareFunction fi i")
      case None
      then show ?thesis by (auto simp: check_dependency_None depends_def)
    next
      case (Some d)
      have "\<not> acceptable (inputs (api_functions g ! fi) ! i) k (dep_call_type (api_dependencies g ! d)) st"
        using no False Some sets(1,2) k check_dependency_Some(1) [OF Some]
        by (auto simp: try_function_def is_moved_def seq_len_def take_dependency_eq split: if_splits)
      then show ?thesis using taken sets(4,5) by (auto simp: acceptable_def)
    qed
  qed
qed

lemma dependency_loop_fails:
  assumes "fit_ok g s fi i st" "i < length (inputs (api_functions g ! fi))" "set ks \<subseteq> {..<seq_len s}"
    and "dependency_loop g ApiBareFunction fi i (inputs (api_functions g ! fi) ! i) ks st = Done (False, st')" "k \<in> set ks"
  shows "k \<in> moved s \<or> \<not> depends g s k fi i \<or> (\<exists>j < i. depends g s k fi j)"
  using assms(1,3-5)
proof (induction ks arbitrary: st)
  case (Cons k' ks)
  have k': "k' < seq_len s" using Cons.prems(2) by simp
  obtain found st1 where 1: "try_function g ApiBareFunction fi i (inputs (api_functions g ! fi) ! i) k' st = Done (found, st1)"
      "fit_ok g s fi (if found then Suc i else i) st1"
    using try_function_ok [OF Cons.prems(1) assms(2) k'] by blast
  have "\<not> found" using Cons.prems(3) 1(1) by (cases found) auto
  then show ?case
    using Cons 1 rejected_depends [OF Cons.prems(1) assms(2) k'] by auto
qed simp

lemma fit_param_None:
  assumes "fit_ok g s fi i st" "i < length (inputs (api_functions g ! fi))"
    and "fit_param g ApiBareFunction fi s (inputs (api_functions g ! fi)) i st = Done None"
  shows "param_unfit g s fi i"
proof (cases "is_fuzzable_type (graph_names g) (inputs (api_functions g ! fi) ! i)")
  case True
  then show ?thesis using assms(2,3) by (auto simp: fit_param_def param_unfit_def Let_def split: prod.splits if_splits)
next
  case False
  obtain found st' where l: "dependency_loop g ApiBareFunction fi i (inputs (api_functions g ! fi) ! i)
      [0..<length (seq_functions s)] st = Done (found, st')"
    using dependency_loop_ok [OF assms(1,2), of "[0..<length (seq_functions s)]"] by (auto simp: seq_len_def)
  then have "\<not> found" using assms(2,3) False by (cases found) (auto simp: fit_param_def)
  then show ?thesis
    using dependency_loop_fails [OF assms(1,2), of "[0..<length (seq_functions s)]" st'] False l
    by (simp add: param_unfit_def seq_len_def atLeast0LessThan)
qed

lemma fit_params_None:
  "fit_ok g s fi i st \<Longrightarrow> i \<le> length (inputs (api_functions g ! fi)) \<Longrightarrow>
     fit_params g ApiBareFunction fi s (inputs (api_functions g ! fi)) [i..<length (inputs (api_functions g ! fi))] st = Done None \<Longrightarrow>
     \<exists>i < length (inputs (api_functions g ! fi)). param_unfit g s fi i"
proof (induction "length (inputs (api_functions g ! fi)) - i" arbitrary: i st)
  case (Suc n)
  then have i: "i < length (inputs (api_functions g ! fi))" by simp
  obtain r where r: "fit_param g ApiBareFunction fi s (inputs (api_functions g ! fi)) i st = Done r"
      "\<forall>st'. r = Some st' \<longrightarrow> fit_ok g s fi (Suc i) st'"
    using fit_param_ok [OF Suc.prems(1) i] by blast
  show ?case
  proof (cases r)
    case None
    then show ?thesis using fit_param_None [OF Suc.prems(1) i] r i by auto
  next
    case (Some st')
    then show ?thesis using Suc.hyps(1) [of "Suc i" st'] Suc.hyps(2) Suc.prems(3) r i by (simp add: upt_conv_Cons)
  qed
qed simp

definition unfit :: "api_graph \<Rightarrow> api_sequence \<Rightarrow> nat \<Rightarrow> bool" where
  "unfit g s fi \<longleftrightarrow> (\<exists>i < length (inputs (api_functions g ! fi)). param_unfit g s fi i \<or>
     is_multiple_dynamic_length (fst (generate_fuzzable_type_and_call_type
       (fuzzable_call_type (graph_names g) (inputs (api_functions g ! fi) ! i)))))"

lemma new_fuzzable_origin:
  assumes "fit_ok g s fi n st" "n \<le> length (inputs (api_functions g ! fi))"
    and "k < length (fuzzable_params (fit_seq st))" "length (fuzzable_params s) \<le> k"
  shows "\<exists>i < n. fst (generate_fuzzable_type_and_call_type
     (fuzzable_call_type (graph_names g) (inputs (api_functions g ! fi) ! i))) = fuzzable_params (fit_seq st) ! k"
proof -
  have ok: "fit_seq_ok g s (fit_seq st) (fit_call st)" "func (fit_call st) = (ApiBareFunction, fi)" "length (params (fit_call st)) = n"
    using assms(1) by (auto simp: fit_ok_def)
  have "k \<in> set (fuzz_used (params (fit_call st)))" using ok(1) assms(3,4) by (simp add: fit_seq_ok_def)
  then obtain ct i where i: "i < n" "params (fit_call st) ! i = (FuzzableParam, k, ct)"
    using ok(3) by (auto simp: fuzz_used_def in_set_conv_nth)
  have "param_ok g (fit_seq st) (seq_len s) (fit_call st) i (params (fit_call st) ! i)"
    using ok(1,3) i(1) by (simp add: fit_seq_ok_def)
  then show ?thesis using i ok(2) by (auto simp: param_ok_def)
qed

lemma is_fun_satisfied_None:
  assumes s: "wf_sequence g s" and fi: "fi < length (api_functions g)"
    and no: "is_fun_satisfied g ApiBareFunction fi s = Done None"
  shows "unfit g s fi"
proof -
  let ?n = "length (inputs (api_functions g ! fi))" and ?st = "start_fit (api_functions g ! fi) fi s"
  have start: "fit_ok g s fi 0 ?st" by (rule start_fit_ok [OF s fi])
  obtain r where r: "fit_params g ApiBareFunction fi s (inputs (api_functions g ! fi)) [0..<?n] ?st = Done r"
      "\<forall>st'. r = Some st' \<longrightarrow> fit_ok g s fi ?n st'"
    using fit_params_ok [OF start] by auto
  show ?thesis
  proof (cases r)
    case None
    then show ?thesis using fit_params_None [OF start] r(1) by (auto simp: unfit_def)
  next
    case (Some st)
    then have st: "fit_ok g s fi ?n st" using r(2) by simp
    have "contains_multi_dynamic_length_fuzzable (fit_seq st)"
      using no fi r(1) Some by (cases "?n = 0") (auto simp: is_fun_satisfied_def Let_def add_fn_def
          contains_multi_dynamic_length_fuzzable_def split: if_splits)
    then obtain k where k: "k < length (fuzzable_params (fit_seq st))" "is_multiple_dynamic_length (fuzzable_params (fit_seq st) ! k)"
      by (auto simp: contains_multi_dynamic_length_fuzzable_def list_ex_length)
    have "length (fuzzable_params s) \<le> k"
    proof (rule ccontr)
      assume "\<not> length (fuzzable_params s) \<le> k"
      moreover have "\<exists>fts. fuzzable_params (fit_seq st) = fuzzable_params s @ fts"
        using st by (simp add: fit_ok_def fit_seq_ok_def extends_def)
      ultimately show False using k(2) s by (auto simp: nth_append wf_sequence_def fuzzable_ok_def list_all_length)
    qed
    from new_fuzzable_origin [OF st _ k(1) this] show ?thesis using k(2) by (auto simp: unfit_def)
  qed
qed

section \<open>The extension step\<close>


lemma example_edges: "\<forall>d \<in> set (api_dependencies example_graph). edge example_graph d"
proof -
  have "\<not> is_end_type example_fnm example_struct" using example_special(2) by (simp add: example_struct_def)
  then have "\<not> is_end_function example_fnm example_new" "\<not> is_start_function example_fnm example_push"
    by (simp_all add: is_end_function_def is_start_function_def example_new_def example_push_def)
  moreover have "same_type example_fnm example_struct (BorrowedRef None Mut example_struct) True = CtMutBorrowedRef DirectCall"
    by (simp add: example_eval)
  ultimately show ?thesis by (simp add: example_graph_def edge_def example_new_def example_push_def)
qed


text \<open>
  Beyond the plain conversions the rules are broken: a function that takes two \<open>Option<&mut S>\<close> is called
  with the same value for both, which is not bound as \<open>mut\<close>.
\<close>

definition example_set :: api_function where
  "example_set = example_push\<lparr>full_name := ''c::set'', inputs := replicate 2 (example_option (BorrowedRef None Mut example_struct))\<rparr>"

definition example_options_graph :: api_graph where
  "example_options_graph = find_all_dependencies (example_graph\<lparr>api_functions := [example_new, example_set]\<rparr>)"

lemma conflicting_borrows_accepted:
  "is_fun_satisfied example_options_graph ApiBareFunction 1 example_first =
     Done (Some (example_first\<lparr>seq_functions := seq_functions example_first @
       [\<lparr>func = (ApiBareFunction, 1), params = replicate 2 (FunctionReturn, 0, ToOption (CtMutBorrowedRef DirectCall))\<rparr>],
       covered_dependencies := {0, 1}\<rparr>)) \<and>
   function_mut_tag example_first = {} \<and> mutated False (ToOption (CtMutBorrowedRef DirectCall))"
  by code_simp

end
