(* ===== verification/Sequence_Choice.thy ===== *)
theory Sequence_Choice
  imports Graph_Search
begin

text \<open>
  \<^verbatim>\<open>fuzz_target/api_graph.rs\<close>, third part: choosing which of the sequences found become fuzz
  targets. \<open>heuristic_choose\<close> is a greedy cover of functions and dependencies, \<open>first_choose\<close> and
  \<open>random_choose\<close> are the baselines, \<open>naive_choose_sequence\<close> is the first attempt kept in the code.
  The sets of covered functions and edges are only counted and searched, so they are sets here;
  the statistics that are printed are left out.
\<close>

section \<open>Definitions\<close>

definition naive_candidates :: "api_graph \<Rightarrow> nat list \<Rightarrow> (nat \<Rightarrow> nat list option) outcome" where
  "naive_candidates g to_cover_nodes =
     ofold (\<lambda>i m. obind (get_index (api_sequences g) i) (\<lambda>api_sequence.
         Done (fold (\<lambda>node m. (case m node of
                 Some v \<Rightarrow> if i \<notin> set v then m(node \<mapsto> v @ [i]) else m
               | None \<Rightarrow> m))
             (get_contained_api_functions api_sequence) m)))
       [0..<length (api_sequences g)]
       (fold (\<lambda>node m. m(node \<mapsto> [])) to_cover_nodes Map.empty)"

fun naive_rounds ::
  "(nat \<Rightarrow> nat \<Rightarrow> nat) \<Rightarrow> api_graph \<Rightarrow> (nat \<Rightarrow> nat list option) \<Rightarrow> nat \<Rightarrow> nat \<Rightarrow>
     nat list \<times> bool list \<times> api_sequence list \<Rightarrow> api_sequence list outcome" where
  "naive_rounds rng g node_candidate_sequences t 0 (to_cover_nodes, chosen_sequence_flag, res) = Done res"
| "naive_rounds rng g node_candidate_sequences t (Suc n) (to_cover_nodes, chosen_sequence_flag, res) =
     (if length to_cover_nodes = 0 then Done res
      else obind (get_index to_cover_nodes 0) (\<lambda>next_cover_node.
           obind (unwrap (node_candidate_sequences next_cover_node)) (\<lambda>candidate_sequences.
           obind (omapM (get_index chosen_sequence_flag) candidate_sequences) (\<lambda>flags.
           let unvisited_candidate_sequences =
                 map fst (filter (\<lambda>(node, flag). flag = False) (zip candidate_sequences flags));
               candidate_number = length unvisited_candidate_sequences
           in obind (gen_range rng t candidate_number) (\<lambda>random_index.
              obind (get_index unvisited_candidate_sequences random_index) (\<lambda>chosen_index.
              obind (get_index (api_sequences g) chosen_index) (\<lambda>chosen_sequence.
              let covered_nodes = get_contained_api_functions chosen_sequence;
                  to_cover_nodes = filter (\<lambda>node. node \<notin> set covered_nodes) to_cover_nodes
              in obind (set_index chosen_sequence_flag random_index True) (\<lambda>chosen_sequence_flag.
                 naive_rounds rng g node_candidate_sequences (Suc t) n
                   (to_cover_nodes, chosen_sequence_flag, res @ [chosen_sequence])))))))))"

definition visited_functions :: "api_graph \<Rightarrow> nat list outcome" where
  "visited_functions g =
     ofold (\<lambda>i nodes. obind (get_index (api_functions_visited g) i) (\<lambda>v.
         Done (if v then nodes @ [i] else nodes))) [0..<length (api_functions g)] []"

definition naive_choose_sequence ::
  "(nat \<Rightarrow> nat \<Rightarrow> nat) \<Rightarrow> nat \<Rightarrow> api_graph \<Rightarrow> api_sequence list outcome" where
  "naive_choose_sequence rng max_sequence_size g =
     obind (visited_functions g) (\<lambda>to_cover_nodes.
     obind (naive_candidates g to_cover_nodes) (\<lambda>node_candidate_sequences.
       naive_rounds rng g node_candidate_sequences 0 max_sequence_size
         (to_cover_nodes, replicate (length (api_sequences g)) False, [])))"

fun random_rounds ::
  "(nat \<Rightarrow> nat \<Rightarrow> nat) \<Rightarrow> api_graph \<Rightarrow> nat \<Rightarrow> nat \<Rightarrow> nat list \<times> api_sequence list \<Rightarrow>
     api_sequence list outcome" where
  "random_rounds rng g t 0 (sequence_indexes, res) = Done res"
| "random_rounds rng g t (Suc n) (sequence_indexes, res) =
     (let rest_sequences_number = length sequence_indexes
      in if rest_sequences_number \<le> 0 then Done res
         else obind (gen_range rng t rest_sequences_number) (\<lambda>chosen_index.
              obind (get_index sequence_indexes chosen_index) (\<lambda>sequence_index.
              obind (get_index (api_sequences g) sequence_index) (\<lambda>sequence.
                random_rounds rng g (Suc t) n
                  (take chosen_index sequence_indexes @ drop (Suc chosen_index) sequence_indexes,
                   res @ [sequence])))))"

definition random_choose :: "(nat \<Rightarrow> nat \<Rightarrow> nat) \<Rightarrow> nat \<Rightarrow> api_graph \<Rightarrow> api_sequence list outcome" where
  "random_choose rng max_size g =
     random_rounds rng g 0 max_size ([0..<length (api_sequences g)], [])"

fun first_rounds :: "nat \<Rightarrow> api_sequence list \<Rightarrow> api_sequence list \<Rightarrow> api_sequence list" where
  "first_rounds max_size [] res = res"
| "first_rounds max_size (sequence # rest) res =
     (if has_no_fuzzables sequence then first_rounds max_size rest res
      else let res = res @ [sequence]
           in if length res \<ge> max_size then res else first_rounds max_size rest res)"

definition first_choose :: "nat \<Rightarrow> api_graph \<Rightarrow> api_sequence list" where
  "first_choose max_size g = first_rounds max_size (api_sequences g) []"

text \<open>The heuristic choice: the sequences worth a target, the best one for a round, the rounds.\<close>

definition is_valid_fuzz_sequence :: "api_graph \<Rightarrow> api_sequence \<Rightarrow> bool outcome" where
  "is_valid_fuzz_sequence g s =
     (if has_no_fuzzables s then Done False
      else omap Not (contains_dead_code_except_last_one g s))"

record heuristic_state =
  already_covered_nodes :: "nat set"
  already_covered_edges :: "nat set"
  already_chosen_sequences :: "nat set"
  sorted_chosen_sequences :: "nat list"
  try_to_find_dynamic_length_flag :: bool

record pick =
  pick_index :: nat
  pick_nodes :: nat
  pick_edges :: nat
  pick_len :: nat

definition consider_sequence :: "api_graph \<Rightarrow> heuristic_state \<Rightarrow> nat \<Rightarrow> pick \<Rightarrow> pick outcome" where
  "consider_sequence g h j cur =
     (if j \<in> already_chosen_sequences h then Done cur
      else obind (get_index (api_sequences g) j) (\<lambda>s.
           obind (is_valid_fuzz_sequence g s) (\<lambda>valid.
             if \<not> valid then Done cur
             else if try_to_find_dynamic_length_flag h \<and> is_fuzzables_fixed_length s then Done cur
             else if \<not> try_to_find_dynamic_length_flag h \<and> \<not> is_fuzzables_fixed_length s then Done cur
             else let nodes = length (filter (\<lambda>n. n \<notin> already_covered_nodes h) (get_contained_api_functions s))
                  in if nodes < pick_nodes cur then Done cur
                     else let edges = card (covered_dependencies s - already_covered_edges h)
                          in if nodes = pick_nodes cur \<and> edges < pick_edges cur then Done cur
                             else let sequence_len = seq_len s
                                  in if nodes > pick_nodes cur \<or>
                                        (nodes = pick_nodes cur \<and> edges > pick_edges cur) \<or>
                                        (nodes = pick_nodes cur \<and> edges = pick_edges cur \<and>
                                         sequence_len < pick_len cur)
                                     then Done \<lparr>pick_index = j, pick_nodes = nodes, pick_edges = edges,
                                                pick_len = sequence_len\<rparr>
                                     else Done cur)))"

definition best_sequence :: "api_graph \<Rightarrow> heuristic_state \<Rightarrow> pick outcome" where
  "best_sequence g h =
     ofold (consider_sequence g h) [0..<length (api_sequences g)]
       \<lparr>pick_index = 0, pick_nodes = 0, pick_edges = 0, pick_len = 0\<rparr>"

definition take_sequence :: "nat \<Rightarrow> api_sequence \<Rightarrow> heuristic_state \<Rightarrow> heuristic_state" where
  "take_sequence j s h = h\<lparr>
     already_chosen_sequences := insert j (already_chosen_sequences h),
     sorted_chosen_sequences := sorted_chosen_sequences h @ [j],
     already_covered_nodes := already_covered_nodes h \<union> set (get_contained_api_functions s),
     already_covered_edges := already_covered_edges h \<union> covered_dependencies s\<rparr>"

fun heuristic_rounds ::
  "api_graph \<Rightarrow> nat \<Rightarrow> nat \<Rightarrow> bool \<Rightarrow> nat \<Rightarrow> heuristic_state \<Rightarrow> heuristic_state outcome" where
  "heuristic_rounds g valid_count to_cover_nodes_number stop_at_visit_all_nodes 0 h = Done h"
| "heuristic_rounds g valid_count to_cover_nodes_number stop_at_visit_all_nodes (Suc n) h =
     obind (best_sequence g h) (\<lambda>p.
       if try_to_find_dynamic_length_flag h \<and> pick_nodes p \<le> 0
       then heuristic_rounds g valid_count to_cover_nodes_number stop_at_visit_all_nodes n
              (h\<lparr>try_to_find_dynamic_length_flag := False\<rparr>)
       else if \<not> try_to_find_dynamic_length_flag h \<and> pick_edges p \<le> 0 \<and> pick_nodes p \<le> 0 then Done h
       else obind (get_index (api_sequences g) (pick_index p)) (\<lambda>s.
         let h = take_sequence (pick_index p) s h
         in if card (already_chosen_sequences h) = valid_count then Done h
            else if length (api_dependencies g) \<noteq> 0 \<and>
                    card (already_covered_edges h) = length (api_dependencies g) then Done h
            else if stop_at_visit_all_nodes \<and> card (already_covered_nodes h) = to_cover_nodes_number
            then Done h
            else heuristic_rounds g valid_count to_cover_nodes_number stop_at_visit_all_nodes n h))"

definition fixed_covered_nodes :: "api_graph \<Rightarrow> nat set outcome" where
  "fixed_covered_nodes g =
     ofold (\<lambda>s nodes. obind (is_valid_fuzz_sequence g s) (\<lambda>valid.
         Done (if valid then nodes \<union> set (get_contained_api_functions s) else nodes)))
       (api_sequences g) {}"

definition valid_fuzz_sequence_count :: "api_graph \<Rightarrow> nat outcome" where
  "valid_fuzz_sequence_count g =
     ofold (\<lambda>s n. obind (is_valid_fuzz_sequence g s) (\<lambda>valid.
         Done (if valid then n + 1 else n)))
       (api_sequences g) 0"

definition heuristic_choose :: "nat \<Rightarrow> bool \<Rightarrow> api_graph \<Rightarrow> api_sequence list outcome" where
  "heuristic_choose max_size stop_at_visit_all_nodes g =
     obind (fixed_covered_nodes g) (\<lambda>to_cover_nodes.
     obind (valid_fuzz_sequence_count g) (\<lambda>valid_count.
       if valid_count \<le> 0 then Done []
       else obind (heuristic_rounds g valid_count (card to_cover_nodes) stop_at_visit_all_nodes (max_size + 1)
              \<lparr>already_covered_nodes = {}, already_covered_edges = {}, already_chosen_sequences = {},
               sorted_chosen_sequences = [], try_to_find_dynamic_length_flag = True\<rparr>) (\<lambda>h.
            omapM (get_index (api_sequences g)) (sorted_chosen_sequences h))))"

section \<open>The best sequence of a round\<close>

lemma get_contained_correct:
  "set (get_contained_api_functions s) = contained s \<and> distinct (get_contained_api_functions s)"
proof -
  define body where "body = (\<lambda>res (c :: api_call). case func c of (_, func_index) \<Rightarrow>
      if func_index \<notin> set res then res @ [func_index] else res)"
  have "set (foldl body res cs) = set res \<union> (\<lambda>c. snd (func c)) ` set cs \<and> distinct (foldl body res cs)"
    if "distinct res" for res cs
    using that
  proof (induction cs arbitrary: res)
    case (Cons c cs)
    have "distinct (body res c)" "set (body res c) = insert (snd (func c)) (set res)"
      using Cons.prems by (simp_all add: body_def case_prod_beta insert_absorb)
    with Cons.IH show ?case by auto
  qed simp
  then show ?thesis by (simp add: get_contained_api_functions_def contained_def body_def)
qed

text \<open>A sequence that can become a target: it has inputs to fuzz and no useless call.\<close>

definition fuzz_ready :: "api_graph \<Rightarrow> api_sequence \<Rightarrow> bool" where
  "fuzz_ready g s \<longleftrightarrow> fuzzable_params s \<noteq> [] \<and> \<not> list_ex (is_dead g s) [0..<seq_len s - 1]"

lemma is_valid_fuzz_sequence_eq:
  assumes "wf_sequence g s"
  shows "is_valid_fuzz_sequence g s = Done (fuzz_ready g s)"
proof -
  have "contains_dead_code_except_last_one g s = Done (list_ex (is_dead g s) [0..<seq_len s - 1])"
    by (rule contains_dead_code_eq [OF wf_in_range [OF assms]])
  then show ?thesis by (simp add: is_valid_fuzz_sequence_def fuzz_ready_def has_no_fuzzables_def)
qed

text \<open>What a sequence would add, and the order the code prefers picks by.\<close>

definition new_nodes :: "heuristic_state \<Rightarrow> api_sequence \<Rightarrow> nat" where
  "new_nodes h s = card (contained s - already_covered_nodes h)"

definition new_edges :: "heuristic_state \<Rightarrow> api_sequence \<Rightarrow> nat" where
  "new_edges h s = card (covered_dependencies s - already_covered_edges h)"

definition eligible :: "api_graph \<Rightarrow> heuristic_state \<Rightarrow> nat \<Rightarrow> bool" where
  "eligible g h j \<longleftrightarrow> j < length (api_sequences g) \<and> j \<notin> already_chosen_sequences h \<and>
     fuzz_ready g (api_sequences g ! j) \<and>
     try_to_find_dynamic_length_flag h = (\<not> is_fuzzables_fixed_length (api_sequences g ! j))"

definition at_least :: "api_graph \<Rightarrow> heuristic_state \<Rightarrow> pick \<Rightarrow> nat \<Rightarrow> bool" where
  "at_least g h p j \<longleftrightarrow> (let s = api_sequences g ! j in
     new_nodes h s < pick_nodes p \<or> new_nodes h s = pick_nodes p \<and>
       (new_edges h s < pick_edges p \<or> new_edges h s = pick_edges p \<and> pick_len p \<le> seq_len s))"

definition picks :: "api_graph \<Rightarrow> heuristic_state \<Rightarrow> pick \<Rightarrow> bool" where
  "picks g h p \<longleftrightarrow> eligible g h (pick_index p) \<and>
     (let s = api_sequences g ! pick_index p in
        pick_nodes p = new_nodes h s \<and> pick_edges p = new_edges h s \<and> pick_len p = seq_len s) \<and>
     0 < pick_nodes p + pick_edges p"

definition picks_nothing :: "pick \<Rightarrow> bool" where
  "picks_nothing p \<longleftrightarrow> pick_nodes p = 0 \<and> pick_edges p = 0 \<and> pick_len p = 0"

definition next_pick :: "api_graph \<Rightarrow> heuristic_state \<Rightarrow> nat \<Rightarrow> pick \<Rightarrow> pick" where
  "next_pick g h j p =
     (if eligible g h j \<and> \<not> at_least g h p j
      then (let s = api_sequences g ! j in
              \<lparr>pick_index = j, pick_nodes = new_nodes h s, pick_edges = new_edges h s, pick_len = seq_len s\<rparr>)
      else p)"

lemma consider_sequence_eq:
  assumes "list_all (wf_sequence g) (api_sequences g)" "j < length (api_sequences g)"
  shows "consider_sequence g h j p = Done (next_pick g h j p)"
proof -
  let ?s = "api_sequences g ! j"
  have "is_valid_fuzz_sequence g ?s = Done (fuzz_ready g ?s)"
    using assms is_valid_fuzz_sequence_eq by (simp add: list_all_length)
  moreover have "length (filter (\<lambda>n. n \<notin> already_covered_nodes h) (get_contained_api_functions ?s)) = new_nodes h ?s"
    using get_contained_correct [of ?s] distinct_card [of "filter (\<lambda>n. n \<notin> already_covered_nodes h)
        (get_contained_api_functions ?s)"] by (simp add: new_nodes_def set_diff_eq [symmetric] Collect_conj_eq)
  ultimately show ?thesis
    using assms(2) by (auto simp: consider_sequence_def next_pick_def eligible_def at_least_def Let_def
        new_edges_def [symmetric])
qed

lemma next_pick_ok:
  assumes "picks g h p \<or> picks_nothing p" "\<forall>j < n. eligible g h j \<longrightarrow> at_least g h p j"
  shows "(picks g h (next_pick g h n p) \<or> picks_nothing (next_pick g h n p)) \<and>
     (\<forall>j < Suc n. eligible g h j \<longrightarrow> at_least g h (next_pick g h n p) j)"
proof (cases "eligible g h n \<and> \<not> at_least g h p n")
  case True
  then have "picks g h (next_pick g h n p)"
    using assms(1) by (auto simp: next_pick_def picks_def picks_nothing_def at_least_def Let_def)
  moreover have "at_least g h (next_pick g h n p) j" if "at_least g h p j \<or> j = n" for j
    using that True by (auto simp: next_pick_def at_least_def Let_def)
  ultimately show ?thesis using assms(2) by (auto simp: less_Suc_eq)
next
  case False
  then have "next_pick g h n p = p" unfolding next_pick_def by (rule if_not_P)
  then show ?thesis using assms False by (auto simp: less_Suc_eq)
qed

lemma best_sequence_ok:
  assumes "list_all (wf_sequence g) (api_sequences g)"
  shows "\<exists>p. best_sequence g h = Done p \<and> (picks g h p \<or> picks_nothing p) \<and>
     (\<forall>j. eligible g h j \<longrightarrow> at_least g h p j)"
proof -
  have "\<exists>p. ofold (consider_sequence g h) [0..<n]
        \<lparr>pick_index = 0, pick_nodes = 0, pick_edges = 0, pick_len = 0\<rparr> = Done p \<and>
      (picks g h p \<or> picks_nothing p) \<and> (\<forall>j < n. eligible g h j \<longrightarrow> at_least g h p j)"
    if "n \<le> length (api_sequences g)" for n
    using that
  proof (induction n)
    case (Suc n)
    then obtain p where p: "ofold (consider_sequence g h) [0..<n]
          \<lparr>pick_index = 0, pick_nodes = 0, pick_edges = 0, pick_len = 0\<rparr> = Done p"
        "picks g h p \<or> picks_nothing p" "\<forall>j < n. eligible g h j \<longrightarrow> at_least g h p j" by auto
    show ?case
      using p(1) Suc.prems next_pick_ok [OF p(2,3)] by (simp add: ofold_append consider_sequence_eq [OF assms])
  qed (simp add: picks_nothing_def)
  from this [of "length (api_sequences g)"] show ?thesis
    by (auto simp: best_sequence_def eligible_def)
qed

section \<open>The rounds of the heuristic choice\<close>

abbreviation seq_at :: "api_graph \<Rightarrow> nat \<Rightarrow> api_sequence" where
  "seq_at g j \<equiv> api_sequences g ! j"

definition nodes_of :: "api_graph \<Rightarrow> nat set \<Rightarrow> nat set" where
  "nodes_of g J = (\<Union>j \<in> J. contained (seq_at g j))"

definition edges_of :: "api_graph \<Rightarrow> nat set \<Rightarrow> nat set" where
  "edges_of g J = (\<Union>j \<in> J. covered_dependencies (seq_at g j))"

definition ready_indexes :: "api_graph \<Rightarrow> nat set" where
  "ready_indexes g = {j. j < length (api_sequences g) \<and> fuzz_ready g (seq_at g j)}"

text \<open>
  The order of the greedy choice, for the sequence \<open>i\<close> against \<open>j\<close> when those of \<open>J\<close> are chosen: more
  new functions, then more new edges, then fewer calls.
\<close>

definition preferred :: "api_graph \<Rightarrow> nat set \<Rightarrow> nat \<Rightarrow> nat \<Rightarrow> bool" where
  "preferred g J i j \<longleftrightarrow>
     (let gain = (\<lambda>k. card (contained (seq_at g k) - nodes_of g J));
          edge_gain = (\<lambda>k. card (covered_dependencies (seq_at g k) - edges_of g J))
      in gain j < gain i \<or> gain j = gain i \<and>
         (edge_gain j < edge_gain i \<or> edge_gain j = edge_gain i \<and> seq_len (seq_at g i) \<le> seq_len (seq_at g j)))"

text \<open>
  What is asked of the next sequence \<open>i\<close> after those of \<open>J\<close>: no other sequence of its kind that is worth
  a target is preferred to it; one of variable input length adds a function, and one of fixed length
  is chosen only when those of variable length have no function to add.
\<close>

definition greedy_choice :: "api_graph \<Rightarrow> nat set \<Rightarrow> nat \<Rightarrow> bool" where
  "greedy_choice g J i \<longleftrightarrow>
     (\<forall>j \<in> ready_indexes g - J. is_fuzzables_fixed_length (seq_at g j) = is_fuzzables_fixed_length (seq_at g i) \<longrightarrow>
        preferred g J i j) \<and>
     (if is_fuzzables_fixed_length (seq_at g i)
      then \<forall>j \<in> ready_indexes g. \<not> is_fuzzables_fixed_length (seq_at g j) \<longrightarrow> contained (seq_at g j) \<subseteq> nodes_of g J
      else \<not> contained (seq_at g i) \<subseteq> nodes_of g J)"

text \<open>
  The chosen indexes are distinct, name sequences worth a target, have those of variable input
  length first, each of them adds a function or an edge to those before it and is the greedy choice
  after them.
\<close>

definition choice_list_ok :: "api_graph \<Rightarrow> nat list \<Rightarrow> bool" where
  "choice_list_ok g is \<longleftrightarrow> distinct is \<and> set is \<subseteq> ready_indexes g \<and>
     sorted_wrt (\<lambda>i j. is_fuzzables_fixed_length (seq_at g i) \<longrightarrow> is_fuzzables_fixed_length (seq_at g j)) is \<and>
     (\<forall>k < length is. \<not> (contained (seq_at g (is ! k)) \<subseteq> nodes_of g (set (take k is)) \<and>
        covered_dependencies (seq_at g (is ! k)) \<subseteq> edges_of g (set (take k is)))) \<and>
     (\<forall>k < length is. greedy_choice g (set (take k is)) (is ! k))"

definition choice_ok :: "api_graph \<Rightarrow> heuristic_state \<Rightarrow> bool" where
  "choice_ok g h \<longleftrightarrow> choice_list_ok g (sorted_chosen_sequences h) \<and>
     already_chosen_sequences h = set (sorted_chosen_sequences h) \<and>
     already_covered_nodes h = nodes_of g (set (sorted_chosen_sequences h)) \<and>
     already_covered_edges h = edges_of g (set (sorted_chosen_sequences h)) \<and>
     (if try_to_find_dynamic_length_flag h
      then \<forall>j \<in> set (sorted_chosen_sequences h). \<not> is_fuzzables_fixed_length (seq_at g j)
      else \<forall>j \<in> ready_indexes g. \<not> is_fuzzables_fixed_length (seq_at g j) \<longrightarrow>
        contained (seq_at g j) \<subseteq> already_covered_nodes h)"

lemma finite_contained [simp]: "finite (contained s)"
  by (simp add: contained_def)

lemma finite_ready_indexes [simp]: "finite (ready_indexes g)"
  by (simp add: ready_indexes_def)

lemma new_nodes_zero: "new_nodes h s = 0 \<longleftrightarrow> contained s \<subseteq> already_covered_nodes h"
  by (simp add: new_nodes_def)

lemma nodes_of_insert: "nodes_of g (insert j J) = contained (seq_at g j) \<union> nodes_of g J"
  by (simp add: nodes_of_def)

lemma edges_of_insert: "edges_of g (insert j J) = covered_dependencies (seq_at g j) \<union> edges_of g J"
  by (simp add: edges_of_def)

lemma nodes_of_member: "j \<in> J \<Longrightarrow> contained (seq_at g j) \<subseteq> nodes_of g J"
  by (auto simp: nodes_of_def)

lemma choice_list_snoc:
  assumes "choice_list_ok g is" "j \<in> ready_indexes g" "j \<notin> set is"
    and "\<not> (contained (seq_at g j) \<subseteq> nodes_of g (set is) \<and> covered_dependencies (seq_at g j) \<subseteq> edges_of g (set is))"
    and "\<not> is_fuzzables_fixed_length (seq_at g j) \<Longrightarrow> \<forall>i \<in> set is. \<not> is_fuzzables_fixed_length (seq_at g i)"
    and "greedy_choice g (set is) j"
  shows "choice_list_ok g (is @ [j])"
  using assms by (auto simp: choice_list_ok_def sorted_wrt_append nth_append less_Suc_eq)

lemma greedy_pick:
  assumes ok: "choice_ok g h" and p: "picks g h p" and best: "\<forall>j. eligible g h j \<longrightarrow> at_least g h p j"
    and gain: "\<not> (try_to_find_dynamic_length_flag h \<and> pick_nodes p = 0)"
  shows "greedy_choice g (set (sorted_chosen_sequences h)) (pick_index p)"
proof -
  let ?j = "pick_index p" and ?J = "set (sorted_chosen_sequences h)"
  have state: "already_chosen_sequences h = ?J" "already_covered_nodes h = nodes_of g ?J" "already_covered_edges h = edges_of g ?J"
    using ok by (simp_all add: choice_ok_def)
  have j: "try_to_find_dynamic_length_flag h = (\<not> is_fuzzables_fixed_length (seq_at g ?j))"
      "pick_nodes p = new_nodes h (seq_at g ?j)" "pick_edges p = new_edges h (seq_at g ?j)" "pick_len p = seq_len (seq_at g ?j)"
    using p by (auto simp: picks_def eligible_def Let_def)
  have "preferred g ?J ?j i"
    if "i \<in> ready_indexes g - ?J" "is_fuzzables_fixed_length (seq_at g i) = is_fuzzables_fixed_length (seq_at g ?j)" for i
  proof -
    have "eligible g h i" using that j(1) by (auto simp: eligible_def ready_indexes_def state)
    then show ?thesis using best by (simp add: preferred_def at_least_def Let_def j new_nodes_def new_edges_def state)
  qed
  moreover have "\<not> contained (seq_at g ?j) \<subseteq> nodes_of g ?J" if "\<not> is_fuzzables_fixed_length (seq_at g ?j)"
    using gain that new_nodes_zero [of h "seq_at g ?j"] by (simp add: j state)
  moreover have "\<forall>i \<in> ready_indexes g. \<not> is_fuzzables_fixed_length (seq_at g i) \<longrightarrow> contained (seq_at g i) \<subseteq> nodes_of g ?J"
    if "is_fuzzables_fixed_length (seq_at g ?j)"
    using ok that j(1) unfolding choice_ok_def by metis
  ultimately show ?thesis by (auto simp: greedy_choice_def)
qed

lemma take_sequence_ok:
  assumes ok: "choice_ok g h" and p: "picks g h p" and best: "\<forall>j. eligible g h j \<longrightarrow> at_least g h p j"
    and dyn: "\<not> (try_to_find_dynamic_length_flag h \<and> pick_nodes p = 0)"
  shows "choice_ok g (take_sequence (pick_index p) (seq_at g (pick_index p)) h)"
proof -
  let ?j = "pick_index p" and ?is = "sorted_chosen_sequences h"
  have j: "?j \<in> ready_indexes g" "?j \<notin> set ?is"
      "try_to_find_dynamic_length_flag h = (\<not> is_fuzzables_fixed_length (seq_at g ?j))"
      "0 < new_nodes h (seq_at g ?j) + new_edges h (seq_at g ?j)"
    using p ok by (auto simp: picks_def eligible_def Let_def choice_ok_def ready_indexes_def)
  then have gain: "\<not> (contained (seq_at g ?j) \<subseteq> nodes_of g (set ?is) \<and>
      covered_dependencies (seq_at g ?j) \<subseteq> edges_of g (set ?is))"
    using ok by (auto simp: choice_ok_def new_nodes_def new_edges_def card_gt_0_iff)
  have "choice_list_ok g (?is @ [?j])"
    by (rule choice_list_snoc [OF _ _ _ _ _ greedy_pick [OF ok p best dyn]]) (use ok j gain in \<open>auto simp: choice_ok_def\<close>)
  then show ?thesis
    using ok j(3) get_contained_correct [of "seq_at g ?j"]
    by (auto simp: choice_ok_def take_sequence_def nodes_of_insert edges_of_insert) blast
qed

lemma flip_ok:
  assumes ok: "choice_ok g h" and dyn: "try_to_find_dynamic_length_flag h"
    and best: "\<forall>j. eligible g h j \<longrightarrow> at_least g h p j" and none: "pick_nodes p = 0"
  shows "choice_ok g (h\<lparr>try_to_find_dynamic_length_flag := False\<rparr>)"
proof -
  have "contained (seq_at g j) \<subseteq> already_covered_nodes h"
    if "j \<in> ready_indexes g" "\<not> is_fuzzables_fixed_length (seq_at g j)" for j
  proof (cases "j \<in> already_chosen_sequences h")
    case True
    then show ?thesis using ok by (simp add: choice_ok_def nodes_of_member)
  next
    case False
    then have "eligible g h j" using that dyn by (simp add: eligible_def ready_indexes_def)
    then have "new_nodes h (seq_at g j) = 0" using best none by (auto simp: at_least_def Let_def)
    then show ?thesis by (simp add: new_nodes_zero)
  qed
  then show ?thesis using ok by (simp add: choice_ok_def)
qed

text \<open>When the rounds may stop: every function or every edge of the graph is covered.\<close>

definition covers_all :: "api_graph \<Rightarrow> nat list \<Rightarrow> bool" where
  "covers_all g is \<longleftrightarrow> nodes_of g (set is) = nodes_of g (ready_indexes g) \<or>
     (api_dependencies g \<noteq> [] \<and> edges_of g (set is) = {..<length (api_dependencies g)})"

lemma stop_no_gain:
  assumes ok: "choice_ok g h" and dyn: "\<not> try_to_find_dynamic_length_flag h"
    and best: "\<forall>j. eligible g h j \<longrightarrow> at_least g h p j" and none: "pick_nodes p = 0"
  shows "covers_all g (sorted_chosen_sequences h)"
proof -
  have "contained (seq_at g j) \<subseteq> already_covered_nodes h" if "j \<in> ready_indexes g" for j
  proof (cases "eligible g h j")
    case True
    then have "new_nodes h (seq_at g j) = 0" using best none by (auto simp: at_least_def Let_def)
    then show ?thesis by (simp add: new_nodes_zero)
  next
    case False
    with that dyn have "j \<in> already_chosen_sequences h \<or> \<not> is_fuzzables_fixed_length (seq_at g j)"
      by (auto simp: eligible_def ready_indexes_def)
    then show ?thesis
      using that ok dyn nodes_of_member [of j "set (sorted_chosen_sequences h)" g]
      unfolding choice_ok_def by auto blast
  qed
  then have "nodes_of g (ready_indexes g) \<subseteq> nodes_of g (set (sorted_chosen_sequences h))"
    using ok by (auto simp: nodes_of_def choice_ok_def)
  moreover have "set (sorted_chosen_sequences h) \<subseteq> ready_indexes g"
    using ok by (simp add: choice_ok_def choice_list_ok_def)
  ultimately show ?thesis by (auto simp: covers_all_def nodes_of_def)
qed

lemma edges_bounded:
  assumes "list_all (wf_sequence g) (api_sequences g)" "J \<subseteq> ready_indexes g"
  shows "edges_of g J \<subseteq> {..<length (api_dependencies g)}"
proof -
  have "covered_dependencies (seq_at g j) \<subseteq> {..<length (api_dependencies g)}" if "j \<in> J" for j
    using assms that by (auto simp: list_all_length ready_indexes_def wf_sequence_def)
  then show ?thesis by (auto simp: edges_of_def)
qed

lemma stop_counted:
  assumes wf: "list_all (wf_sequence g) (api_sequences g)" and ok: "choice_ok g h"
    and stop: "card (already_chosen_sequences h) = card (ready_indexes g) \<or>
      (length (api_dependencies g) \<noteq> 0 \<and> card (already_covered_edges h) = length (api_dependencies g)) \<or>
      card (already_covered_nodes h) = card (nodes_of g (ready_indexes g))"
  shows "covers_all g (sorted_chosen_sequences h)"
proof -
  let ?J = "set (sorted_chosen_sequences h)"
  have sub: "?J \<subseteq> ready_indexes g" using ok by (simp add: choice_ok_def choice_list_ok_def)
  then have nodes: "nodes_of g ?J \<subseteq> nodes_of g (ready_indexes g)" by (auto simp: nodes_of_def)
  have fin: "finite (nodes_of g (ready_indexes g))" by (simp add: nodes_of_def)
  from stop show ?thesis
  proof (elim disjE conjE)
    assume "card (already_chosen_sequences h) = card (ready_indexes g)"
    then have "?J = ready_indexes g" using ok sub by (simp add: card_subset_eq choice_ok_def)
    then show ?thesis by (simp add: covers_all_def)
  next
    assume "length (api_dependencies g) \<noteq> 0" "card (already_covered_edges h) = length (api_dependencies g)"
    moreover from this(2) have "edges_of g ?J = {..<length (api_dependencies g)}"
      using ok edges_bounded [OF wf sub] by (simp add: card_subset_eq choice_ok_def)
    ultimately show ?thesis by (auto simp: covers_all_def)
  next
    assume "card (already_covered_nodes h) = card (nodes_of g (ready_indexes g))"
    then have "nodes_of g ?J = nodes_of g (ready_indexes g)"
      using ok nodes fin by (simp add: card_subset_eq choice_ok_def)
    then show ?thesis by (simp add: covers_all_def)
  qed
qed

lemma heuristic_rounds_ok:
  assumes wf: "list_all (wf_sequence g) (api_sequences g)" and "choice_ok g h"
    and "valid = card (ready_indexes g)" "to_cover = card (nodes_of g (ready_indexes g))"
  shows "\<exists>h'. heuristic_rounds g valid to_cover stop n h = Done h' \<and>
     choice_list_ok g (sorted_chosen_sequences h') \<and>
     length (sorted_chosen_sequences h') \<le> length (sorted_chosen_sequences h) + n \<and>
     (covers_all g (sorted_chosen_sequences h') \<or>
      length (sorted_chosen_sequences h) + n \<le>
        length (sorted_chosen_sequences h') + (if try_to_find_dynamic_length_flag h then 1 else 0))"
  using assms(2)
proof (induction n arbitrary: h)
  case 0
  then show ?case by (simp add: choice_ok_def)
next
  case (Suc n)
  obtain p where p: "best_sequence g h = Done p" "picks g h p \<or> picks_nothing p"
      "\<forall>j. eligible g h j \<longrightarrow> at_least g h p j"
    using best_sequence_ok [OF wf] by blast
  consider (flip) "try_to_find_dynamic_length_flag h" "pick_nodes p = 0"
    | (none) "\<not> try_to_find_dynamic_length_flag h" "pick_edges p = 0" "pick_nodes p = 0"
    | (pick) "picks g h p" "\<not> (try_to_find_dynamic_length_flag h \<and> pick_nodes p = 0)"
        "\<not> (\<not> try_to_find_dynamic_length_flag h \<and> pick_edges p = 0 \<and> pick_nodes p = 0)"
    using p(2) by (auto simp: picks_nothing_def)
  then show ?case
  proof cases
    case flip
    from Suc.IH [OF flip_ok [OF Suc.prems flip(1) p(3) flip(2)]] show ?thesis
      using p(1) flip by auto
  next
    case none
    then have "covers_all g (sorted_chosen_sequences h)" using stop_no_gain [OF Suc.prems _ p(3)] by simp
    then show ?thesis using p(1) none Suc.prems by (auto simp: choice_ok_def)
  next
    case pick
    let ?h = "take_sequence (pick_index p) (seq_at g (pick_index p)) h"
    have ok: "choice_ok g ?h" by (rule take_sequence_ok [OF Suc.prems pick(1) p(3) pick(2)])
    have j: "pick_index p < length (api_sequences g)" using pick(1) by (simp add: picks_def eligible_def)
    have len: "length (sorted_chosen_sequences ?h) = Suc (length (sorted_chosen_sequences h))"
        "try_to_find_dynamic_length_flag ?h = try_to_find_dynamic_length_flag h"
      by (simp_all add: take_sequence_def)
    define stops where "stops \<longleftrightarrow> card (already_chosen_sequences ?h) = valid \<or>
      (length (api_dependencies g) \<noteq> 0 \<and> card (already_covered_edges ?h) = length (api_dependencies g)) \<or>
      (stop \<and> card (already_covered_nodes ?h) = to_cover)"
    have step: "heuristic_rounds g valid to_cover stop (Suc n) h =
        (if stops then Done ?h else heuristic_rounds g valid to_cover stop n ?h)"
      using p(1) pick(2,3) j by (auto simp: stops_def Let_def)
    show ?thesis
    proof (cases stops)
      case True
      then have "covers_all g (sorted_chosen_sequences ?h)"
        using stop_counted [OF wf ok] assms(3,4) by (auto simp: stops_def)
      then show ?thesis using True step ok len by (auto simp: choice_ok_def)
    next
      case False
      then show ?thesis using step len Suc.IH [OF ok] by simp
    qed
  qed
qed

lemma valid_sequences_eq:
  assumes "list_all (wf_sequence g) (api_sequences g)"
  shows "fixed_covered_nodes g = Done (nodes_of g (ready_indexes g))"
    and "valid_fuzz_sequence_count g = Done (card (ready_indexes g))"
proof -
  have nodes: "ofold (\<lambda>s nodes. obind (is_valid_fuzz_sequence g s) (\<lambda>valid.
        Done (if valid then nodes \<union> set (get_contained_api_functions s) else nodes))) ss N =
      Done (N \<union> (\<Union>s \<in> set (filter (fuzz_ready g) ss). contained s))"
    if "list_all (wf_sequence g) ss" for ss N
    using that by (induction ss arbitrary: N) (auto simp: is_valid_fuzz_sequence_eq get_contained_correct)
  have "(\<Union>s \<in> set (filter (fuzz_ready g) (api_sequences g)). contained s) = nodes_of g (ready_indexes g)"
    by (auto simp: nodes_of_def ready_indexes_def in_set_conv_nth)
  then show "fixed_covered_nodes g = Done (nodes_of g (ready_indexes g))"
    using nodes [OF assms, of "{}"] by (simp add: fixed_covered_nodes_def)
  have "ofold (\<lambda>s n. obind (is_valid_fuzz_sequence g s) (\<lambda>valid. Done (if valid then n + 1 else n))) ss n =
      Done (n + length (filter (fuzz_ready g) ss))" if "list_all (wf_sequence g) ss" for ss n
    using that by (induction ss arbitrary: n) (auto simp: is_valid_fuzz_sequence_eq)
  from this [OF assms, of 0] show "valid_fuzz_sequence_count g = Done (card (ready_indexes g))"
    by (simp add: valid_fuzz_sequence_count_def length_filter_conv_card ready_indexes_def)
qed

lemma heuristic_choose_lemma:
  assumes "list_all (wf_sequence g) (api_sequences g)"
  shows "\<exists>is. heuristic_choose max_size stop g = Done (map (seq_at g) is) \<and> choice_list_ok g is \<and>
     length is \<le> max_size + 1 \<and> (length is < max_size \<longrightarrow> covers_all g is)"
proof (cases "ready_indexes g = {}")
  case True
  then show ?thesis
    using valid_sequences_eq [OF assms]
    by (intro exI [of _ "[]"]) (auto simp: heuristic_choose_def choice_list_ok_def covers_all_def)
next
  case False
  let ?h = "\<lparr>already_covered_nodes = {}, already_covered_edges = {}, already_chosen_sequences = {},
      sorted_chosen_sequences = [], try_to_find_dynamic_length_flag = True\<rparr>"
  have "choice_ok g ?h" by (simp add: choice_ok_def choice_list_ok_def nodes_of_def edges_of_def)
  from heuristic_rounds_ok [OF assms this refl refl, of stop "max_size + 1"] obtain h where
      h: "heuristic_rounds g (card (ready_indexes g)) (card (nodes_of g (ready_indexes g))) stop (max_size + 1) ?h = Done h"
      "choice_list_ok g (sorted_chosen_sequences h)" "length (sorted_chosen_sequences h) \<le> max_size + 1"
      "covers_all g (sorted_chosen_sequences h) \<or> max_size \<le> length (sorted_chosen_sequences h)" by auto
  have "omapM (get_index (api_sequences g)) (sorted_chosen_sequences h) =
      Done (map (seq_at g) (sorted_chosen_sequences h))"
    by (rule omapM_Done_map) (use h(2) in \<open>auto simp: choice_list_ok_def ready_indexes_def\<close>)
  then show ?thesis
    using h False valid_sequences_eq [OF assms]
    by (intro exI [of _ "sorted_chosen_sequences h"]) (auto simp: heuristic_choose_def card_eq_0_iff)
qed

text \<open>
  C25: the heuristic choice returns without panic on well-formed sequences. Each chosen sequence
  has inputs to fuzz and no useless call, is chosen once, adds a function or an edge to those
  chosen before it, and is the greedy choice there: among those left of its kind none adds more
  functions, or as many functions and more edges, or as much of both with fewer calls. Those whose
  input has a variable length come first, each with a new function, until they have none to add. At
  most \<open>max_size + 1\<close> are chosen, and if it stops below \<open>max_size\<close> the choice covers every function
  that a sequence worth a target calls, or it covers every edge of the graph (and may then leave out
  functions, as \<open>edges_covered_stops_early\<close> shows).
\<close>

theorem heuristic_choose_correct:
  assumes "list_all (wf_sequence g) (api_sequences g)"
  shows "\<exists>is. heuristic_choose max_size stop g = Done (map (seq_at g) is) \<and> choice_list_ok g is \<and>
     length is \<le> max_size + 1 \<and> (length is < max_size \<longrightarrow> covers_all g is)"
  using assms by (rule heuristic_choose_lemma)

definition example_found :: api_graph where
  "example_found = example_graph\<lparr>api_sequences := [seq_new, example_first, example_sequence],
     api_functions_visited := [True, True]\<rparr>"

lemma example_found_wf: "list_all (wf_sequence example_found) (api_sequences example_found)"
  using example_wf by (simp add: example_found_def wf_frame)

theorem heuristic_choose_correct_witness:
  "\<exists>is. heuristic_choose 300 True example_found = Done (map (seq_at example_found) is) \<and>
     choice_list_ok example_found is \<and> length is \<le> 301"
  using heuristic_choose_correct [OF example_found_wf, of 300 True] by auto

text \<open>
  The rounds end as soon as every edge is covered. With a third function that takes a number and is
  on no edge, the sequence that calls it is found and worth a target, and is not chosen.
\<close>

definition example_lone :: api_graph where
  "example_lone =
     (let lone = seq_new\<lparr>seq_functions := [\<lparr>func = (ApiBareFunction, 2), params = [(FuzzableParam, 0, DirectCall)]\<rparr>],
            fuzzable_params := [FtPrimitive U8]\<rparr>
      in example_graph\<lparr>api_functions := [example_new, example_push,
           example_push\<lparr>full_name := ''c::lone'', inputs := [Primitive U8]\<rparr>],
           api_sequences := [example_sequence, lone]\<rparr>)"

lemma edges_covered_stops_early:
  "heuristic_choose 300 True example_lone = Done [example_sequence] \<and>
   is_valid_fuzz_sequence example_lone (api_sequences example_lone ! 1) = Done True"
  by code_simp

section \<open>The other choices\<close>

lemma first_choose_eq:
  "first_choose max_size g = take (max 1 max_size) (filter (\<lambda>s. fuzzable_params s \<noteq> []) (api_sequences g))"
proof -
  have "first_rounds max_size ss res = res @ take (max 1 max_size - length res) (filter (\<lambda>s. fuzzable_params s \<noteq> []) ss)"
    if "length res < max 1 max_size" for ss res
    using that by (induction ss arbitrary: res) (auto simp: has_no_fuzzables_def Let_def max_def take_Cons'
        Suc_diff_le split: if_splits)
  from this [of "[]" "api_sequences g"] show ?thesis by (simp add: first_choose_def)
qed

text \<open>
  \<open>_first_choose\<close> returns the first sequences that have inputs to fuzz, as many as asked for;
  asked for none, it still returns one if there is one.
\<close>

lemma first_choose_exact:
  "first_choose max_size g = take (max 1 max_size) (filter (\<lambda>s. fuzzable_params s \<noteq> []) (api_sequences g))"
  by (rule first_choose_eq)

lemma random_rounds_ok:
  assumes "rng_ok rng" "set is \<subseteq> {..<length (api_sequences g)}"
  shows "\<exists>js. random_rounds rng g t n (is, res) = Done (res @ map (seq_at g) js) \<and>
     mset js \<subseteq># mset is \<and> length js = min n (length is)"
  using assms(2)
proof (induction n arbitrary: t "is" res)
  case (Suc n)
  show ?case
  proof (cases "is = []")
    case False
    let ?k = "rng t (length is)" and ?is = "take (rng t (length is)) is @ drop (Suc (rng t (length is))) is"
    have k: "?k < length is" using assms(1) False by (simp add: rng_ok_def)
    have split: "is = take ?k is @ is ! ?k # drop (Suc ?k) is" using k by (rule id_take_nth_drop)
    have i: "is ! ?k < length (api_sequences g)" using Suc.prems k by (meson lessThan_iff nth_mem subsetD)
    have sub: "set ?is \<subseteq> {..<length (api_sequences g)}"
      using Suc.prems set_take_subset set_drop_subset by fastforce
    from Suc.IH [OF sub, of "Suc t" "res @ [seq_at g (is ! ?k)]"] obtain js where
        js: "random_rounds rng g (Suc t) n (?is, res @ [seq_at g (is ! ?k)]) =
          Done (res @ map (seq_at g) (is ! ?k # js))" "mset js \<subseteq># mset ?is" "length js = min n (length ?is)"
      by auto
    have "mset is = add_mset (is ! ?k) (mset ?is)" by (subst split) simp
    then have "mset (is ! ?k # js) \<subseteq># mset is" using js(2) by simp
    moreover have "length (is ! ?k # js) = min (Suc n) (length is)" using js(3) k by auto
    ultimately show ?thesis
      using js(1) k i False by (intro exI [of _ "is ! ?k # js"]) (simp add: gen_range_def)
  qed simp
qed simp

text \<open>
  \<open>_random_choose\<close> returns without panic, chooses no sequence more often than it was found, and
  chooses as many as asked for while there are any left.
\<close>

lemma random_choose_correct:
  assumes "rng_ok rng"
  shows "\<exists>res. random_choose rng max_size g = Done res \<and> mset res \<subseteq># mset (api_sequences g) \<and>
     length res = min max_size (length (api_sequences g))"
proof -
  obtain js where "random_choose rng max_size g = Done (map (seq_at g) js)"
      "mset js \<subseteq># mset [0..<length (api_sequences g)]" "length js = min max_size (length (api_sequences g))"
    using random_rounds_ok [OF assms, of "[0..<length (api_sequences g)]" g 0 max_size "[]"]
    by (auto simp: random_choose_def atLeast0LessThan)
  moreover from this(2) have "mset (map (seq_at g) js) \<subseteq># mset (map (seq_at g) [0..<length (api_sequences g)])"
    by (simp only: mset_map image_mset_subseteq_mono)
  ultimately show ?thesis by (simp add: map_nth)
qed

theorem random_choose_correct_witness:
  "\<exists>res. random_choose (\<lambda>t n. t mod n) 2 example_found = Done res \<and>
     mset res \<subseteq># mset (api_sequences example_found) \<and> length res = min 2 (length (api_sequences example_found))"
  by (rule random_choose_correct) (simp add: rng_ok_def)

lemma naive_candidates_eq:
  "\<exists>m. naive_candidates g nodes = Done m \<and>
     (\<forall>node \<in> set nodes. m node = Some (filter (\<lambda>i. node \<in> contained (seq_at g i)) [0..<length (api_sequences g)]))"
proof -
  define add where "add = (\<lambda>(i :: nat) (node :: nat) m. (case m node of
      Some v \<Rightarrow> if i \<notin> set v then m(node \<mapsto> v @ [i]) else m | None \<Rightarrow> m))"
  have other: "add i a m node = m node" if "a \<noteq> node" for i a m node
    using that by (simp add: add_def split: option.split)
  have others: "fold (add i) ns m node = m node" if "node \<notin> set ns" for i ns m node
    using that by (induction ns arbitrary: m) (auto simp: other)
  have add: "fold (add i) ns m node = Some (if node \<in> set ns then v @ [i] else v)"
    if "m node = Some v" "i \<notin> set v" "distinct ns" for i ns m v node
    using that
  proof (induction ns arbitrary: m)
    case (Cons a ns)
    show ?case
    proof (cases "a = node")
      case True
      then have "add i a m node = Some (v @ [i])" using Cons.prems by (simp add: add_def)
      then show ?thesis using True Cons.prems by (simp add: others)
    qed (use Cons other in simp)
  qed simp
  have "\<exists>m. ofold (\<lambda>i m. obind (get_index (api_sequences g) i) (\<lambda>s.
          Done (fold (add i) (get_contained_api_functions s) m))) [0..<n]
        (fold (\<lambda>node m. m(node \<mapsto> [])) nodes Map.empty) = Done m \<and>
      (\<forall>node \<in> set nodes. m node = Some (filter (\<lambda>i. node \<in> contained (seq_at g i)) [0..<n]))"
    if "n \<le> length (api_sequences g)" for n
    using that
  proof (induction n)
    case 0
    have "fold (\<lambda>node m. m(node \<mapsto> [])) ns m node = (if node \<in> set ns then Some [] else m node)"
      for ns :: "nat list" and m :: "nat \<rightharpoonup> nat list" and node
      by (induction ns arbitrary: m) auto
    from this [of nodes Map.empty] show ?case by (simp del: fun_upd_apply)
  next
    case (Suc n)
    then obtain m where m: "ofold (\<lambda>i m. obind (get_index (api_sequences g) i) (\<lambda>s.
          Done (fold (add i) (get_contained_api_functions s) m))) [0..<n]
        (fold (\<lambda>node m. m(node \<mapsto> [])) nodes Map.empty) = Done m"
        "\<forall>node \<in> set nodes. m node = Some (filter (\<lambda>i. node \<in> contained (seq_at g i)) [0..<n])"
      by (auto simp del: fun_upd_apply)
    have "fold (add n) (get_contained_api_functions (seq_at g n)) m node =
        Some (filter (\<lambda>i. node \<in> contained (seq_at g i)) [0..<Suc n])" if "node \<in> set nodes" for node
      using add [of m node "filter (\<lambda>i. node \<in> contained (seq_at g i)) [0..<n]" n
          "get_contained_api_functions (seq_at g n)"] m(2) that get_contained_correct [of "seq_at g n"]
      by simp
    then show ?case using m(1) Suc.prems by (simp add: ofold_append del: fun_upd_apply)
  qed
  from this [of "length (api_sequences g)"] show ?thesis
    by (simp add: naive_candidates_def add_def del: fun_upd_apply)
qed

lemma naive_rounds_outcome:
  assumes rng: "rng_ok rng" and "length flag = length (api_sequences g)"
    and "\<forall>node \<in> set nodes. m node = Some (filter (\<lambda>i. node \<in> contained (seq_at g i)) [0..<length (api_sequences g)])"
  shows "naive_rounds rng g m t n (nodes, flag, res) = Panic EmptyRange \<or>
     (\<exists>new. naive_rounds rng g m t n (nodes, flag, res) = Done (res @ new) \<and> set new \<subseteq> set (api_sequences g) \<and>
        length new \<le> n \<and> (length new < n \<longrightarrow> set nodes \<subseteq> (\<Union>s \<in> set new. contained s)))"
  using assms(2,3)
proof (induction n arbitrary: t nodes flag res)
  case (Suc n)
  show ?case
  proof (cases nodes)
    case (Cons node rest)
    define cs where "cs = filter (\<lambda>i. node \<in> contained (seq_at g i)) [0..<length (api_sequences g)]"
    define fr where "fr = filter (\<lambda>(i, flag). \<not> flag) (zip cs (map ((!) flag) cs))"
    define free where "free = map fst fr"
    have flags: "omapM (get_index flag) cs = Done (map ((!) flag) cs)"
      by (rule omapM_Done_map) (auto simp: cs_def Suc.prems(1))
    have free: "set free \<subseteq> set cs" by (auto simp: free_def fr_def in_set_zip)
    have "length free \<le> length cs" unfolding free_def fr_def by (metis length_filter_le length_map length_zip min.idem)
    also have "\<dots> \<le> length flag" using Suc.prems(1) length_filter_le [of _ "[0..<length (api_sequences g)]"]
      by (simp add: cs_def)
    finally have free_len: "length free \<le> length flag" .
    show ?thesis
    proof (cases "free = []")
      case True
      then show ?thesis using Cons Suc.prems(2) flags by (simp add: cs_def free_def fr_def gen_range_def)
    next
      case False
      let ?r = "rng t (length free)"
      let ?s = "seq_at g (free ! ?r)" and ?nodes = "filter (\<lambda>n. n \<notin> set (get_contained_api_functions (seq_at g (free ! ?r)))) nodes"
      have r: "?r < length free" using rng False by (simp add: rng_ok_def)
      then have i: "free ! ?r < length (api_sequences g)" using free by (metis (no_types, lifting) atLeastLessThan_iff
          cs_def filter_is_subset nth_mem set_upt subset_iff)
      have step: "naive_rounds rng g m t (Suc n) (nodes, flag, res) =
          naive_rounds rng g m (Suc t) n (?nodes, flag[?r := True], res @ [?s])"
        using Cons Suc.prems(2) flags r i False free_len
        by (simp add: cs_def [symmetric] fr_def [symmetric] free_def gen_range_def Let_def)
      have IH: "length (flag[?r := True]) = length (api_sequences g)"
          "\<forall>node \<in> set ?nodes. m node = Some (filter (\<lambda>i. node \<in> contained (seq_at g i)) [0..<length (api_sequences g)])"
        using Suc.prems by auto
      from Suc.IH [OF IH, of "Suc t" "res @ [?s]"] show ?thesis
      proof (elim disjE exE conjE)
        assume "naive_rounds rng g m (Suc t) n (?nodes, flag[?r := True], res @ [?s]) = Panic EmptyRange"
        then show ?thesis unfolding step by (rule disjI1)
      next
        fix new
        assume new: "naive_rounds rng g m (Suc t) n (?nodes, flag[?r := True], res @ [?s]) = Done ((res @ [?s]) @ new)"
          "set new \<subseteq> set (api_sequences g)" "length new \<le> n"
          "length new < n \<longrightarrow> set ?nodes \<subseteq> (\<Union>s \<in> set new. contained s)"
        then show ?thesis
          unfolding step using i get_contained_correct [of ?s]
          by (intro disjI2 exI [of _ "?s # new"]) auto
      qed
    qed
  qed simp
qed simp

text \<open>
  \<open>_naive_choose_sequence\<close> either panics on an empty random range or returns at most as many
  sequences as asked for, all of them among those found; when it returns fewer, they call every
  function marked as visited. It has no other panic.
\<close>

lemma naive_choose_outcome:
  assumes "rng_ok rng" and "length (api_functions_visited g) = length (api_functions g)"
  shows "naive_choose_sequence rng max_sequence_size g = Panic EmptyRange \<or>
     (\<exists>res. naive_choose_sequence rng max_sequence_size g = Done res \<and> set res \<subseteq> set (api_sequences g) \<and>
        length res \<le> max_sequence_size \<and>
        (length res < max_sequence_size \<longrightarrow>
           {i. i < length (api_functions g) \<and> api_functions_visited g ! i} \<subseteq> (\<Union>s \<in> set res. contained s)))"
proof -
  define nodes where "nodes = filter (\<lambda>i. api_functions_visited g ! i) [0..<length (api_functions g)]"
  have "ofold (\<lambda>i nodes. obind (get_index (api_functions_visited g) i) (\<lambda>v.
        Done (if v then nodes @ [i] else nodes))) is acc = Done (acc @ filter (\<lambda>i. api_functions_visited g ! i) is)"
    if "set is \<subseteq> {..<length (api_functions g)}" for "is" acc
    using that by (induction "is" arbitrary: acc) (auto simp: assms(2))
  from this [of "[0..<length (api_functions g)]" "[]"] have nodes: "visited_functions g = Done nodes"
    by (simp add: visited_functions_def nodes_def atLeast0LessThan)
  obtain m where m: "naive_candidates g nodes = Done m" "\<forall>node \<in> set nodes.
      m node = Some (filter (\<lambda>i. node \<in> contained (seq_at g i)) [0..<length (api_sequences g)])"
    using naive_candidates_eq by blast
  have "set nodes = {i. i < length (api_functions g) \<and> api_functions_visited g ! i}" by (auto simp: nodes_def)
  with naive_rounds_outcome [OF assms(1) _ m(2), of "replicate (length (api_sequences g)) False" 0 max_sequence_size "[]"]
  show ?thesis by (simp add: naive_choose_sequence_def nodes m(1))
qed

text \<open>
  The flag is set at the position drawn and not at the sequence chosen. With three sequences that
  call function 0 and one that calls function 1, drawing the third of the three marks the only
  sequence for function 1.
\<close>

definition example_stuck :: api_graph where
  "example_stuck =
     (let calls = (\<lambda>i. seq_new\<lparr>seq_functions := [\<lparr>func = (ApiBareFunction, i), params = []\<rparr>]\<rparr>)
      in example_graph\<lparr>api_sequences := [seq_new, calls 0, calls 1, calls 0, calls 0],
           api_functions_visited := [True, True]\<rparr>)"

text \<open>
  \<open>_naive_choose_sequence\<close> can panic although every function to cover has a sequence that was
  not chosen yet: on the graph above, with draws that are always the last of the range, two
  rounds end in \<open>gen_range\<close> on an empty range.
\<close>

lemma naive_choose_panics:
  "naive_choose_sequence (\<lambda>t n. n - 1) 2 example_stuck = Panic EmptyRange"
  by (simp add: naive_choose_sequence_def visited_functions_def naive_candidates_def example_stuck_def
      example_graph_def get_contained_api_functions_def seq_new_def gen_range_def Let_def eval_nat_numeral
      get_index_def set_index_def)

end
