(* ===== verification/Target_Code.thy ===== *)
theory Target_Code
  imports Graph_Search
begin

text \<open>
  \<^verbatim>\<open>fuzz_target/api_sequence.rs\<close>, the text of a fuzz target, and \<^verbatim>\<open>fuzz_target/replay_util.rs\<close>: the
  test function with its calls, the closure that cuts the fuzzer's bytes into the arguments, the
  \<open>main\<close> functions for AFL, libFuzzer and the replay of a crash, and the whole files. The text is
  then shown to be the rendering of a small program: the statements of the test function
  and the reads of the closure, with the properties of that program.
\<close>

section \<open>Pieces of text\<close>

definition generate_indent :: "nat \<Rightarrow> string" where
  "generate_indent indent_size = foldl (\<lambda>indent _. indent @ '' '') '''' [0..<indent_size]"

definition read_crash_file_data :: string where
  "read_crash_file_data = unlines
     [''fn _read_data()-> Vec<u8> {'',
      ''    use std::env;'',
      ''    use std::process::exit;'',
      ''    let args:Vec<String> = env::args().collect();'',
      ''    if args.len() < 2 {'',
      ''        println!('' @ quote ''No crash filename provided'' @ '');'',
      ''        exit(-1);'',
      ''    }'',
      ''    use std::path::PathBuf;'',
      ''    let crash_file_name = &args[1];'',
      ''    let crash_path = PathBuf::from(crash_file_name);'',
      ''    if !crash_path.is_file() {'',
      ''        println!('' @ quote ''Not a valid crash file'' @ '');'',
      ''        exit(-1);'',
      ''    }'',
      ''    use std::fs;'',
      ''    let data =  fs::read(crash_path).unwrap();'',
      ''    data'',
      ''}'']"

definition generate_using_traits_string :: "nat \<Rightarrow> api_sequence \<Rightarrow> string" where
  "generate_using_traits_string indent_size s =
     (let indent = generate_indent indent_size
      in snd (foldl (\<lambda>(has_used_traits, res) t.
             if t \<in> has_used_traits then (has_used_traits, res)
             else (insert t has_used_traits, res @ indent @ ''use '' @ t @ '';'' @ newline))
           ({}, '''') (using_traits s)) @ newline)"

definition header_param :: "string \<Rightarrow> api_sequence \<Rightarrow> nat \<Rightarrow> string \<Rightarrow> string outcome" where
  "header_param param_prefix s i res =
     (let res = res @ '' ,'';
          res = (if is_fuzzable_need_mut_tag i s then res @ ''mut '' else res)
      in obind (get_index (fuzzable_params s) i) (\<lambda>param.
           Done (res @ param_prefix @ nat_to_string i @ '' :'' @ to_type_string param)))"

definition generate_function_header_string ::
  "nat \<Rightarrow> nat \<Rightarrow> nat \<Rightarrow> string \<Rightarrow> string \<Rightarrow> api_sequence \<Rightarrow> string outcome" where
  "generate_function_header_string test_index outer_indent extra_indent test_function_title param_prefix s =
     (let indent = generate_indent (outer_indent + extra_indent);
          res = indent @ test_function_title @ nat_to_string test_index @ ''('';
          res = (case fuzzable_params s of
                   first_param # _ \<Rightarrow>
                     res @ (if is_fuzzable_need_mut_tag 0 s then ''mut '' else '''') @ param_prefix @ ''0'' @
                     '' :'' @ to_type_string first_param
                 | [] \<Rightarrow> res)
      in omap (\<lambda>res. res @ '') '')
           (ofold (header_param param_prefix s) [1..<length (fuzzable_params s)] res))"

section \<open>The body of the test function\<close>

text \<open>
  An argument with unwraps is computed by a chain of helper variables. A helper line is written
  one step late, when it is known whether the next step borrows the variable mutably.
\<close>

record helper_state =
  former_param_name :: string
  helper_index :: nat
  former_helper_line :: string
  body_text :: string

definition helper_step ::
  "(primitive_type \<Rightarrow> def_id option) \<Rightarrow> full_name_map \<Rightarrow> string \<Rightarrow> string \<Rightarrow> nat \<Rightarrow> nat \<Rightarrow> call_type \<Rightarrow>
     helper_state \<Rightarrow> helper_state" where
  "helper_step pl full_name_map body_indent local_param_prefix i j ct st =
     (let helper_name = local_param_prefix @ nat_to_string i @ ''_param'' @ nat_to_string j @ ''_helper'' @
            nat_to_string (helper_index st);
          helper_line = body_indent @ ''let mut '' @ helper_name @ '' = '' @
            to_call_string pl full_name_map ct (former_param_name st) @ '';'' @ newline;
          res = (if helper_index st > 1
                 then body_text st @
                   (if \<not> need_mut_tag ct then str_replace (former_helper_line st) ''let mut '' ''let ''
                    else former_helper_line st)
                 else body_text st)
      in \<lparr>former_param_name = helper_name, helper_index = helper_index st + 1,
          former_helper_line = helper_line, body_text = res\<rparr>)"

definition prepare_param ::
  "(primitive_type \<Rightarrow> def_id option) \<Rightarrow> full_name_map \<Rightarrow> string \<Rightarrow> string \<Rightarrow> string \<Rightarrow> nat \<Rightarrow> api_call \<Rightarrow>
     nat \<Rightarrow> string \<times> string list \<Rightarrow> (string \<times> string list) outcome" where
  "prepare_param pl full_name_map body_indent param_prefix local_param_prefix i api_call j st =
     (case st of (res, param_strings) \<Rightarrow>
        obind (get_index (params api_call) j) (\<lambda>(param_type, k, ct).
        obind (split_at_unwrap_call_type ct) (\<lambda>call_type_array.
          let param_name = (case param_type of
                FuzzableParam \<Rightarrow> param_prefix @ nat_to_string k
              | FunctionReturn \<Rightarrow> local_param_prefix @ nat_to_string k)
          in if length call_type_array = 1
             then obind (get_index call_type_array 0) (\<lambda>ct.
                    Done (res, param_strings @ [to_call_string pl full_name_map ct param_name]))
             else if length call_type_array = 0 then Panic SubOverflow
             else let h = fold (helper_step pl full_name_map body_indent local_param_prefix i j)
                        (take (length call_type_array - 1) call_type_array)
                        \<lparr>former_param_name = param_name, helper_index = 1, former_helper_line = '''',
                         body_text = res\<rparr>;
                      last_call_type = last call_type_array;
                      line = (if \<not> need_mut_tag last_call_type
                              then str_replace (former_helper_line h) ''let mut '' ''let ''
                              else former_helper_line h)
                  in Done (body_text h @ line,
                       param_strings @ [to_call_string pl full_name_map last_call_type (former_param_name h)]))))"

definition call_line ::
  "(primitive_type \<Rightarrow> def_id option) \<Rightarrow> api_graph \<Rightarrow> api_sequence \<Rightarrow> bool list \<Rightarrow> string \<Rightarrow> string \<Rightarrow> string \<Rightarrow>
     nat \<Rightarrow> string \<Rightarrow> string outcome" where
  "call_line pl g s dead body_indent param_prefix local_param_prefix i res =
     obind (get_index (seq_functions s) i) (\<lambda>api_call.
     obind (ofold (prepare_param pl (graph_names g) body_indent param_prefix local_param_prefix i api_call)
              [0..<length (params api_call)] (res, [])) (\<lambda>(res, param_strings).
     obind (get_index (api_functions g) (snd (func api_call))) (\<lambda>api_function.
     obind (get_index dead i) (\<lambda>dead_i.
       let res = res @ body_indent;
           res = (if dead_i \<or> has_no_output api_function then res @ ''let _ = ''
                  else res @ ''let '' @ (if is_function_need_mut_tag i s then ''mut '' else '''') @
                    local_param_prefix @ nat_to_string i @ '' = '');
           res = res @ full_name api_function @ ''('' @ str_join '' ,'' param_strings @ '');'' @ newline
       in Done res))))"

definition generate_function_body_string ::
  "(primitive_type \<Rightarrow> def_id option) \<Rightarrow> api_graph \<Rightarrow> nat \<Rightarrow> string \<Rightarrow> string \<Rightarrow> api_sequence \<Rightarrow> string outcome" where
  "generate_function_body_string pl g outer_indent param_prefix local_param_prefix s =
     (let extra_indent = 4; body_indent = generate_indent (outer_indent + extra_indent)
      in obind (dead_code g s) (\<lambda>dead.
           ofold (call_line pl g s dead body_indent param_prefix local_param_prefix)
             [0..<length (seq_functions s)] ''''))"

definition to_well_written_function ::
  "(primitive_type \<Rightarrow> def_id option) \<Rightarrow> api_graph \<Rightarrow> nat \<Rightarrow> nat \<Rightarrow> api_sequence \<Rightarrow> string outcome" where
  "to_well_written_function pl g test_index indent_size s =
     (let test_function_title = ''fn test_function''; param_prefix = ''_param''; local_param_prefix = ''_local'';
          res = generate_using_traits_string indent_size s
      in obind (generate_function_header_string test_index indent_size 0 test_function_title param_prefix s)
           (\<lambda>function_header.
         let res = res @ function_header @ ''{'' @ newline;
             bracket_indent = generate_indent indent_size
         in obind (if seq_unsafe_tag s
                   then let unsafe_indent = generate_indent (indent_size + 4)
                        in obind (generate_function_body_string pl g (indent_size + 4) param_prefix
                                    local_param_prefix s) (\<lambda>unsafe_function_body.
                             Done (res @ unsafe_indent @ ''unsafe {'' @ newline @ unsafe_function_body @
                               unsafe_indent @ ''}'' @ newline))
                   else obind (generate_function_body_string pl g indent_size param_prefix local_param_prefix s)
                          (\<lambda>function_body. Done (res @ function_body))) (\<lambda>res.
              Done (res @ bracket_indent @ ''}'' @ newline))))"

section \<open>The closure and the main functions\<close>

definition closure_param ::
  "api_sequence \<Rightarrow> string \<Rightarrow> nat \<Rightarrow> nat \<Rightarrow> string \<Rightarrow> nat \<Rightarrow> string \<times> nat \<times> nat \<Rightarrow> (string \<times> nat \<times> nat) outcome" where
  "closure_param s indent dynamic_param_start_index dynamic_param_number dynamic_length_name i st =
     (case st of (res, fixed_start_index, dynamic_param_index) \<Rightarrow>
        obind (get_index (fuzzable_params s) i) (\<lambda>fuzzable_param.
        obind (generate_param_initial_statement (new_from_fuzzable fuzzable_param) i fixed_start_index
                 dynamic_param_start_index dynamic_param_index dynamic_param_number dynamic_length_name
                 fuzzable_param) (\<lambda>param_initial_line.
          Done (res @ indent @ param_initial_line @ newline,
                fixed_start_index + fixed_part_length fuzzable_param,
                dynamic_param_index + dynamic_length_param_number fuzzable_param))))"

definition afl_closure_body :: "nat \<Rightarrow> nat \<Rightarrow> api_sequence \<Rightarrow> string outcome" where
  "afl_closure_body outer_indent test_index s =
     (let extra_indent = 4;
          indent = generate_indent (outer_indent + extra_indent);
          res = indent @ ''//actual body emit'' @ newline;
          op = (if is_fuzzables_fixed_length s then ''!='' else ''<'');
          min_len = fuzzables_min_length s;
          res = res @ indent @ ''if data.len() '' @ op @ '' '' @ nat_to_string min_len @ '' {return;}'' @ newline;
          dynamic_param_start_index = fuzzable_fixed_part_length s;
          dynamic_param_number = seq_dynamic_length_param_number s;
          dynamic_length_name = ''dynamic_length'';
          every_dynamic_length = ''let '' @ dynamic_length_name @ '' = (data.len() - '' @
            nat_to_string dynamic_param_start_index @ '') / '' @ nat_to_string dynamic_param_number;
          res = (if \<not> is_fuzzables_fixed_length s then res @ indent @ every_dynamic_length @ '';'' @ newline
                 else res);
          fuzzable_param_number = length (fuzzable_params s)
      in obind (ofold (closure_param s indent dynamic_param_start_index dynamic_param_number dynamic_length_name)
                  [0..<fuzzable_param_number] (res, 0, 0)) (\<lambda>(res, _, _).
           let test_function_call = indent @ ''test_function'' @ nat_to_string test_index @ ''('' @
                 foldl (\<lambda>call i. (if i \<noteq> 0 then call @ '' ,'' else call) @ ''_param'' @ nat_to_string i)
                   '''' [0..<fuzzable_param_number] @ '');'' @ newline
           in Done (res @ test_function_call)))"

definition libfuzzer_fuzz_main :: "nat \<Rightarrow> api_sequence \<Rightarrow> string outcome" where
  "libfuzzer_fuzz_main test_index s =
     omap (\<lambda>body. ''fuzz_target!(|data: &[u8]| {'' @ newline @ body @ ''});'' @ newline)
       (afl_closure_body 0 test_index s)"

definition afl_main_function :: "nat \<Rightarrow> api_sequence \<Rightarrow> string outcome" where
  "afl_main_function test_index s =
     (let indent = generate_indent 4
      in omap (\<lambda>body. ''fn main() {'' @ newline @ indent @ ''fuzz!(|data: &[u8]| {'' @ newline @ body @
             indent @ ''});'' @ newline @ ''}'' @ newline)
           (afl_closure_body 4 test_index s))"

definition reproduce_main_function :: "nat \<Rightarrow> api_sequence \<Rightarrow> string outcome" where
  "reproduce_main_function test_index s =
     omap (\<lambda>body. unlines
         [''fn main() {'',
          ''    let _content = _read_data();'',
          ''    let data = &_content;'',
          ''    println!('' @ quote ''data = {:?}'' @ '', data);'',
          ''    println!('' @ quote ''data len = {:?}'' @ '', data.len());'',
          body] @ ''}'')
       (afl_closure_body 0 test_index s)"

section \<open>Files\<close>

text \<open>
  The iteration orders of the hash sets a file is written from: the helpers for the feature
  gates, the gates, the unwrap helpers and the helpers for the readers. Each is a permutation.
\<close>

record hash_orders =
  gate_helper_order :: "afl_helpers list \<Rightarrow> afl_helpers list"
  gate_order :: "string list \<Rightarrow> string list"
  prelude_order :: "prelude_helper list \<Rightarrow> prelude_helper list"
  helper_order :: "afl_helpers list \<Rightarrow> afl_helpers list"

definition prelude_helpers_of :: "api_sequence \<Rightarrow> prelude_helper set" where
  "prelude_helpers_of s =
     fold (\<lambda>api_call helpers. fold (\<lambda>(_, _, ct) helpers. helpers \<union> helpers_from_call_type ct)
         (params api_call) helpers) (seq_functions s) {}"

definition prelude_helper_functions :: "hash_orders \<Rightarrow> api_sequence \<Rightarrow> string option" where
  "prelude_helper_functions ord s =
     (let prelude_helpers = filter (\<lambda>h. h \<in> prelude_helpers_of s) [ResultHelper, OptionHelper]
      in if length prelude_helpers = 0 then None
         else Some (concat (map (\<lambda>h. prelude_to_helper_function h @ newline)
                (prelude_order ord prelude_helpers))))"

definition afl_helper_functions :: "hash_orders \<Rightarrow> api_sequence \<Rightarrow> string option" where
  "afl_helper_functions ord s =
     (case get_afl_helpers_functions_of_sequence (helper_order ord) (fuzzable_params s) of
        None \<Rightarrow> None
      | Some afl_helpers \<Rightarrow> Some (concat (map (\<lambda>h. h @ newline) afl_helpers)))"

definition to_afl_except_main ::
  "hash_orders \<Rightarrow> (primitive_type \<Rightarrow> def_id option) \<Rightarrow> api_graph \<Rightarrow> nat \<Rightarrow> api_sequence \<Rightarrow> string outcome" where
  "to_afl_except_main ord pl g test_index s =
     (let gates = (case get_feature_gates_of_sequence (gate_helper_order ord) (gate_order ord) (fuzzable_params s) of
            Some feature_gates \<Rightarrow> concat (map (\<lambda>feature_gate. feature_gate @ newline) feature_gates)
          | None \<Rightarrow> '''');
          res = gates @ ''#[macro_use]'' @ newline @ ''extern crate afl;'' @ newline @
            ''extern crate '' @ crate_name g @ '';'' @ newline;
          res = (case prelude_helper_functions ord s of Some f \<Rightarrow> res @ f | None \<Rightarrow> res);
          res = (case afl_helper_functions ord s of Some f \<Rightarrow> res @ f | None \<Rightarrow> res)
      in omap (\<lambda>f. res @ f @ newline) (to_well_written_function pl g test_index 0 s))"

definition afl_extern_lines :: string where
  "afl_extern_lines = ''#[macro_use]'' @ newline @ ''extern crate afl;'' @ newline"

definition to_replay_crash_file ::
  "hash_orders \<Rightarrow> (primitive_type \<Rightarrow> def_id option) \<Rightarrow> api_graph \<Rightarrow> nat \<Rightarrow> api_sequence \<Rightarrow> string outcome" where
  "to_replay_crash_file ord pl g test_index s =
     obind (to_afl_except_main ord pl g test_index s) (\<lambda>res.
     obind (reproduce_main_function test_index s) (\<lambda>main.
       Done (str_replace res afl_extern_lines '''' @ read_crash_file_data @ newline @ main)))"

definition to_afl_test_file ::
  "hash_orders \<Rightarrow> (primitive_type \<Rightarrow> def_id option) \<Rightarrow> api_graph \<Rightarrow> nat \<Rightarrow> api_sequence \<Rightarrow> string outcome" where
  "to_afl_test_file ord pl g test_index s =
     obind (to_afl_except_main ord pl g test_index s) (\<lambda>res.
     obind (afl_main_function test_index s) (\<lambda>main. Done (res @ main)))"

definition to_libfuzzer_test_file ::
  "hash_orders \<Rightarrow> (primitive_type \<Rightarrow> def_id option) \<Rightarrow> api_graph \<Rightarrow> nat \<Rightarrow> api_sequence \<Rightarrow> string outcome" where
  "to_libfuzzer_test_file ord pl g test_index s =
     obind (to_afl_except_main ord pl g test_index s) (\<lambda>res.
     obind (libfuzzer_fuzz_main test_index s) (\<lambda>main.
       Done (str_replace res afl_extern_lines
               (''#![no_main]'' @ newline @ ''#[macro_use]'' @ newline @ ''extern crate libfuzzer_sys;'' @ newline)
             @ main)))"

section \<open>The closure as a program\<close>

lemma generate_indent_eq [simp]: "generate_indent n = spaces n"
proof -
  have "foldl (\<lambda>indent _. indent @ '' '') acc [0..<n] = acc @ spaces n" for acc
    by (induction n arbitrary: acc) (simp_all add: spaces_def replicate_append_same)
  from this [of "''''"] show ?thesis by (simp add: generate_indent_def)
qed

text \<open>
  The closure checks the length of the data, computes the length of the dynamic parts and reads
  the parameters, then calls the test function.
\<close>

record closure_prog =
  exact_length :: bool
  guard_length :: nat
  dyn_start :: nat
  dyn_total :: nat
  closure_plans :: "read_plan list"

definition closure_of :: "api_sequence \<Rightarrow> closure_prog" where
  "closure_of s = \<lparr>exact_length = is_fuzzables_fixed_length s, guard_length = fuzzables_min_length s,
     dyn_start = fuzzable_fixed_part_length s, dyn_total = seq_dynamic_length_param_number s,
     closure_plans = tuple_plan (fuzzable_params s) 0 0\<rparr>"

definition render_param_line :: "closure_prog \<Rightarrow> string \<Rightarrow> nat \<times> read_plan \<Rightarrow> string" where
  "render_param_line c indent = (\<lambda>(i, p). indent @
     (if p = ReadNothing then ''No helper''
      else ''let _param'' @ nat_to_string i @ '' = '' @
        render_plan (dyn_start c) (dyn_total c) ''dynamic_length'' p @ '';'') @ newline)"

definition closure_head :: "string \<Rightarrow> closure_prog \<Rightarrow> string" where
  "closure_head indent c =
     indent @ ''//actual body emit'' @ newline @
     indent @ ''if data.len() '' @ (if exact_length c then ''!='' else ''<'') @ '' '' @
       nat_to_string (guard_length c) @ '' {return;}'' @ newline @
     (if exact_length c then ''''
      else indent @ ''let dynamic_length = (data.len() - '' @ nat_to_string (dyn_start c) @ '') / '' @
        nat_to_string (dyn_total c) @ '';'' @ newline)"

definition render_closure :: "string \<Rightarrow> nat \<Rightarrow> closure_prog \<Rightarrow> string" where
  "render_closure indent test_index c =
     closure_head indent c @
     concat (map (render_param_line c indent) (enumerate 0 (closure_plans c))) @
     indent @ ''test_function'' @ nat_to_string test_index @ ''('' @
       str_join '' ,'' (map (\<lambda>i. ''_param'' @ nat_to_string i) [0..<length (closure_plans c)]) @
     '');'' @ newline"

definition run_closure ::
  "nat \<Rightarrow> (afl_helpers \<Rightarrow> nat) \<Rightarrow> bytes \<Rightarrow> closure_prog \<Rightarrow> bool outcome" where
  "run_closure misaligned size_of data c =
     (if (if exact_length c then length data \<noteq> guard_length c else length data < guard_length c)
      then Done False
      else obind (if exact_length c then Done 0
                  else if length data < dyn_start c then Panic SubOverflow
                  else if dyn_total c = 0 then Panic (ExplicitPanic ''attempt to divide by zero'')
                  else Done ((length data - dyn_start c) div dyn_total c)) (\<lambda>dynamic_length.
           omap (\<lambda>_. True)
             (ofold (\<lambda>p _. run_plan misaligned size_of (dyn_start c) (dyn_total c) dynamic_length data p)
                (closure_plans c) ())))"

lemma length_tuple_plan [simp]: "length (tuple_plan fts f k) = length fts"
  by (induction fts arbitrary: f k) auto

lemma helper_nothing_iff:
  "new_from_fuzzable ft = NoHelper \<longleftrightarrow> param_plan ft f k = ReadNothing"
  by (cases ft) auto

lemma statement_renders:
  assumes "is_fixed_length ft \<or> 0 < n"
  shows "generate_param_initial_statement (new_from_fuzzable ft) i f ds k n len ft =
     Done (if param_plan ft f k = ReadNothing then ''No helper''
       else ''let _param'' @ nat_to_string i @ '' = '' @ render_plan ds n len (param_plan ft f k) @ '';'')"
proof (cases "new_from_fuzzable ft = NoHelper")
  case True
  then show ?thesis using helper_nothing_iff [of ft f k] by simp
next
  case False
  then have "generate_param_initial_statement (new_from_fuzzable ft) i f ds k n len ft =
      omap (\<lambda>rhs. ''let _param'' @ nat_to_string i @ '' = '' @ rhs @ '';'')
        (generate_param_initial_rhs (new_from_fuzzable ft) f ds k n len ft)"
    by (cases "new_from_fuzzable ft") auto
  then show ?thesis using False helper_nothing_iff [of ft f k] rhs_renders [OF assms] by simp
qed

lemma closure_params_render:
  assumes "list_all is_fixed_length fts \<or> 0 < n" "fuzzable_params s = pre @ fts"
    and c: "dyn_start c = ds" "dyn_total c = n"
  shows "\<exists>st. ofold (closure_param s indent ds n ''dynamic_length'') [length pre..<length pre + length fts]
       (res, f, k) =
     Done (res @ concat (map (render_param_line c indent) (enumerate (length pre) (tuple_plan fts f k))), st)"
  using assms(1,2)
proof (induction fts arbitrary: pre res f k)
  case (Cons ft fts)
  have upt: "[length pre..<length pre + length (ft # fts)] =
      length pre # [length (pre @ [ft])..<length (pre @ [ft]) + length fts]"
    by (simp add: upt_conv_Cons del: upt_Suc)
  have ft: "is_fixed_length ft \<or> 0 < n" and fts: "list_all is_fixed_length fts \<or> 0 < n"
    using Cons.prems(1) by auto
  have "closure_param s indent ds n ''dynamic_length'' (length pre) (res, f, k) =
      Done (res @ render_param_line c indent (length pre, param_plan ft f k),
        f + fixed_part_length ft, k + dynamic_length_param_number ft)"
    using Cons.prems(2) statement_renders [OF ft] by (simp add: closure_param_def c render_param_line_def)
  then show ?case
    unfolding upt
    using Cons.IH [OF fts, of "pre @ [ft]" "res @ render_param_line c indent (length pre, param_plan ft f k)"
        "f + fixed_part_length ft" "k + dynamic_length_param_number ft"] Cons.prems(2)
    by (simp del: upt_Suc)
qed simp

lemma call_args_join:
  "foldl (\<lambda>call i. (if i \<noteq> 0 then call @ sep else call) @ f i) '''' [0..<n] = str_join sep (map f [0..<n])"
proof (induction n)
  case (Suc n)
  show ?case
  proof (cases "n = 0")
    case False
    then have "str_join sep (map f [0..<Suc n]) = str_join sep (map f [0..<n]) @ sep @ f n"
      by (simp add: str_join_append)
    then show ?thesis using Suc False by simp
  qed simp
qed simp

lemma dyn_total_zero: "seq_dynamic_length_param_number s = 0 \<longleftrightarrow> is_fuzzables_fixed_length s"
  unfolding seq_lengths is_fuzzables_fixed_length_def by (rule fuzz_layout.sum_dyn_zero)

lemma closure_body_eq:
  "afl_closure_body outer_indent test_index s =
     Done (render_closure (spaces (outer_indent + 4)) test_index (closure_of s))"
proof -
  let ?c = "closure_of s"
  have fixed: "list_all is_fixed_length (fuzzable_params s) \<or> 0 < dyn_total ?c"
    using dyn_total_zero [of s] by (auto simp: closure_of_def is_fuzzables_fixed_length_def)
  have fields: "fuzzable_fixed_part_length s = dyn_start ?c" "seq_dynamic_length_param_number s = dyn_total ?c"
      "is_fuzzables_fixed_length s = exact_length ?c" "fuzzables_min_length s = guard_length ?c"
      "tuple_plan (fuzzable_params s) 0 0 = closure_plans ?c" "length (fuzzable_params s) = length (closure_plans ?c)"
    by (simp_all add: closure_of_def)
  have "\<exists>st. ofold (closure_param s indent (dyn_start ?c) (dyn_total ?c) ''dynamic_length'')
        [0..<length (closure_plans ?c)] (res, 0, 0) =
      Done (res @ concat (map (render_param_line ?c indent) (enumerate 0 (closure_plans ?c))), st)" for res indent
    using closure_params_render [OF fixed, of s "[]" ?c _ indent res 0 0] by (simp add: fields)
  then have "\<exists>st. ofold (closure_param s (spaces (outer_indent + 4)) (dyn_start ?c) (dyn_total ?c) ''dynamic_length'')
        [0..<length (closure_plans ?c)] (closure_head (spaces (outer_indent + 4)) ?c, 0, 0) =
      Done (closure_head (spaces (outer_indent + 4)) ?c @
        concat (map (render_param_line ?c (spaces (outer_indent + 4))) (enumerate 0 (closure_plans ?c))), st)" .
  then show ?thesis
    unfolding afl_closure_body_def Let_def fields call_args_join generate_indent_eq
    by (auto simp: render_closure_def closure_head_def split: if_splits)
qed

text \<open>
  C8: the text of the closure is the rendering of a program that checks the length of the data
  and reads the parameters one after the other, for every sequence; generating it never panics.
\<close>

theorem closure_text_refines:
  "afl_closure_body outer_indent test_index s =
     Done (render_closure (spaces (outer_indent + 4)) test_index (closure_of s))"
  by (rule closure_body_eq)

section \<open>The closure stays in bounds\<close>

lemma sequence_reads:
  "tiles 0 (concat (map fixed_reads (closure_plans (closure_of s)))) (fuzzable_fixed_part_length s) \<and>
   concat (map dyn_reads (closure_plans (closure_of s))) = [0..<seq_dynamic_length_param_number s]"
  using tuple_plan_reads [of "fuzzable_params s" 0 0] param_plan_reads by (simp add: closure_of_def seq_lengths)

lemma fixed_part_in_data:
  assumes "if is_fuzzables_fixed_length s then length data = fuzzables_min_length s
      else fuzzables_min_length s \<le> length data"
  shows "fuzzable_fixed_part_length s \<le> length data"
    "is_fuzzables_fixed_length s \<Longrightarrow> fuzzable_fixed_part_length s = length data"
  using assms fuzz_layout.sum_fixed_le_min [of "fuzzable_params s"]
    fuzz_layout.all_fixed_sum [of "fuzzable_params s"]
  by (auto simp: seq_lengths is_fuzzables_fixed_length_def split: if_splits)

text \<open>
  C7: whatever bytes the fuzzer supplies, the closure never panics: no read is out of range, no
  length is subtracted below zero and none is divided by zero. It returns early just when the
  data has the wrong length.
\<close>

theorem closure_never_panics:
  "run_closure misaligned size_of data (closure_of s) \<noteq> Panic e \<and>
   (run_closure misaligned size_of data (closure_of s) = Done False \<longleftrightarrow>
      (if is_fuzzables_fixed_length s then length data \<noteq> fuzzables_min_length s
       else length data < fuzzables_min_length s))"
proof (cases "if is_fuzzables_fixed_length s then length data \<noteq> fuzzables_min_length s
    else length data < fuzzables_min_length s")
  case True
  then show ?thesis by (auto simp: run_closure_def closure_of_def split: if_splits)
next
  case False
  let ?c = "closure_of s"
  define dl where "dl = (length data - dyn_start ?c) div dyn_total ?c"
  have start: "fuzzable_fixed_part_length s \<le> length data"
    using fixed_part_in_data(1) [of s data] False by (auto split: if_splits)
  have total: "is_fuzzables_fixed_length s \<longleftrightarrow> dyn_total ?c = 0"
    using dyn_total_zero [of s] by (simp add: closure_of_def)
  have "\<forall>(x, y) \<in> set (concat (map fixed_reads (closure_plans ?c))). y \<le> length data"
    using tiles_bounds [OF conjunct1 [OF sequence_reads]] start by fastforce
  moreover have "\<forall>k \<in> set (concat (map dyn_reads (closure_plans ?c))). k < dyn_total ?c"
    using conjunct2 [OF sequence_reads, of s] by (simp add: closure_of_def)
  ultimately have "run_plan misaligned size_of (dyn_start ?c) (dyn_total ?c) dl data p \<noteq> Panic e"
    if "p \<in> set (closure_plans ?c)" for p
    using that start
    by (intro run_plan_no_panic) (auto simp: dl_def closure_of_def)
  then have "ofold (\<lambda>p _. run_plan misaligned size_of (dyn_start ?c) (dyn_total ?c) dl data p)
      (closure_plans ?c) () \<noteq> Panic e"
    by (intro ofold_no_panic)
  moreover have "run_closure misaligned size_of data ?c = omap (\<lambda>_. True)
      (ofold (\<lambda>p _. run_plan misaligned size_of (dyn_start ?c) (dyn_total ?c) dl data p) (closure_plans ?c) ())"
  proof -
    have guard: "\<not> (if exact_length ?c then length data \<noteq> guard_length ?c else length data < guard_length ?c)"
      using False by (simp add: closure_of_def split: if_splits)
    have "exact_length ?c \<longleftrightarrow> dyn_total ?c = 0" "\<not> length data < dyn_start ?c"
      using total start by (simp_all add: closure_of_def)
    then have "(if exact_length ?c then Done 0 else if length data < dyn_start ?c then Panic SubOverflow
        else if dyn_total ?c = 0 then Panic (ExplicitPanic ''attempt to divide by zero'')
        else Done ((length data - dyn_start ?c) div dyn_total ?c)) = Done dl"
      by (cases "exact_length ?c") (simp_all only: dl_def if_True if_False div_by_0 simp_thms)
    then show ?thesis by (simp only: run_closure_def guard if_False obind.simps)
  qed
  ultimately have "run_closure misaligned size_of data ?c \<noteq> Panic e \<and>
      run_closure misaligned size_of data ?c \<noteq> Done False"
    by (cases "ofold (\<lambda>p _. run_plan misaligned size_of (dyn_start ?c) (dyn_total ?c) dl data p)
        (closure_plans ?c) ()") simp_all
  then show ?thesis using False by blast
qed

text \<open>The part of the data the \<open>k\<close>-th dynamic parameter gets.\<close>

definition dyn_part :: "closure_prog \<Rightarrow> nat \<Rightarrow> nat \<Rightarrow> nat \<times> nat" where
  "dyn_part c len k =
     (let dynamic_length = (len - dyn_start c) div dyn_total c
      in (dyn_start c + k * dynamic_length,
          if k = dyn_total c - 1 then len else dyn_start c + (k + 1) * dynamic_length))"

lemma dyn_parts_tile:
  assumes "dyn_start c \<le> len" "0 < dyn_total c"
  shows "tiles (dyn_start c) (map (dyn_part c len) [0..<dyn_total c]) len"
proof -
  define dl where "dl = (len - dyn_start c) div dyn_total c"
  have part: "dyn_part c len k = (dyn_start c + k * dl, if k = dyn_total c - 1 then len else dyn_start c + (k + 1) * dl)" for k
    by (simp add: dyn_part_def dl_def Let_def)
  have "tiles (dyn_start c) (map (dyn_part c len) [0..<m]) (dyn_start c + m * dl)" if "m < dyn_total c" for m
    using that
  proof (induction m)
    case (Suc m)
    then have "m \<noteq> dyn_total c - 1" by simp
    then have "tiles (dyn_start c + m * dl) [dyn_part c len m] (dyn_start c + Suc m * dl)" by (simp add: part)
    moreover have "tiles (dyn_start c) (map (dyn_part c len) [0..<m]) (dyn_start c + m * dl)" using Suc by simp
    ultimately have "tiles (dyn_start c) (map (dyn_part c len) [0..<m] @ [dyn_part c len m]) (dyn_start c + Suc m * dl)"
      using tiles_append by blast
    then show ?case by simp
  qed simp
  from this [of "dyn_total c - 1"]
  have "tiles (dyn_start c) (map (dyn_part c len) [0..<dyn_total c - 1]) (dyn_start c + (dyn_total c - 1) * dl)"
    using assms(2) by simp
  moreover have "dyn_start c + (dyn_total c - 1) * dl \<le> len"
    using dyn_part_end(1) [of "dyn_total c - 1" "dyn_total c" "dyn_start c" len dl] assms by (simp add: dl_def)
  then have "tiles (dyn_start c + (dyn_total c - 1) * dl) [dyn_part c len (dyn_total c - 1)] len"
    by (simp add: part)
  moreover have "[0..<dyn_total c] = [0..<dyn_total c - 1] @ [dyn_total c - 1]"
    using assms(2) by (metis Suc_pred' le0 upt_Suc_append)
  ultimately show ?thesis by (auto intro: tiles_append)
qed

text \<open>
  C11: an input that passes the length check is used up: the ranges the parameters are read from,
  those at fixed offsets followed by the dynamic parts, cut the data into consecutive pieces from
  its first byte to its last, so that no byte is read by two parameters and none is left out.
\<close>

theorem closure_reads_partition:
  assumes "if is_fuzzables_fixed_length s then length data = fuzzables_min_length s
      else fuzzables_min_length s \<le> length data"
  shows "tiles 0 (concat (map fixed_reads (closure_plans (closure_of s))) @
       map (dyn_part (closure_of s) (length data)) (concat (map dyn_reads (closure_plans (closure_of s)))))
     (length data)"
proof -
  let ?c = "closure_of s"
  note in_data = fixed_part_in_data [OF assms]
  have "tiles (fuzzable_fixed_part_length s)
      (map (dyn_part ?c (length data)) [0..<seq_dynamic_length_param_number s]) (length data)"
  proof (cases "is_fuzzables_fixed_length s")
    case True
    then show ?thesis using in_data(2) dyn_total_zero [of s] by simp
  next
    case False
    then have "0 < dyn_total ?c" using dyn_total_zero [of s] by (simp add: closure_of_def)
    then show ?thesis using dyn_parts_tile [of ?c "length data"] in_data(1) by (simp add: closure_of_def)
  qed
  then show ?thesis using sequence_reads [of s] tiles_append by fastforce
qed

theorem closure_reads_partition_witness:
  "tiles 0 (concat (map fixed_reads (closure_plans (closure_of example_sequence))) @
       map (dyn_part (closure_of example_sequence) (length [7 :: 8 word]))
         (concat (map dyn_reads (closure_plans (closure_of example_sequence)))))
     (length [7 :: 8 word])"
  by (rule closure_reads_partition)
    (simp add: is_fuzzables_fixed_length_def fuzzables_min_length_def example_sequence_def)

end
