(* ===== verification/Target_Function.thy ===== *)
theory Target_Function
  imports Target_Code
begin

text \<open>
  The test function of a target as a program: a list of \<open>let\<close> statements. The text that
  \<open>_generate_function_body_string\<close> writes is the rendering of these statements, and on
  well-formed sequences every variable is bound before it is used, and bound as \<open>mut\<close> where Rust
  asks for it (in plain conversions, \<open>Arg_Expr\<close>).
\<close>

section \<open>Statements\<close>

datatype var = ParamVar nat | LocalVar nat | HelperVar nat nat nat

datatype stmt =
    LetHelper bool var call_type var
  | LetCall "(bool \<times> nat) option" string "(call_type \<times> var) list"

fun render_var :: "var \<Rightarrow> string" where
  "render_var (ParamVar k) = ''_param'' @ nat_to_string k"
| "render_var (LocalVar k) = ''_local'' @ nat_to_string k"
| "render_var (HelperVar i j h) =
     ''_local'' @ nat_to_string i @ ''_param'' @ nat_to_string j @ ''_helper'' @ nat_to_string h"

definition let_mut_line :: "(primitive_type \<Rightarrow> def_id option) \<Rightarrow> full_name_map \<Rightarrow> string \<Rightarrow> var \<Rightarrow> call_type \<Rightarrow> var \<Rightarrow> string"
where
  "let_mut_line pl fnm indent x ct v =
     indent @ ''let mut '' @ render_var x @ '' = '' @ to_call_string pl fnm ct (render_var v) @ '';'' @ newline"

fun render_stmt :: "(primitive_type \<Rightarrow> def_id option) \<Rightarrow> full_name_map \<Rightarrow> string \<Rightarrow> stmt \<Rightarrow> string" where
  "render_stmt pl fnm indent (LetHelper m x ct v) =
     (if m then let_mut_line pl fnm indent x ct v
      else str_replace (let_mut_line pl fnm indent x ct v) ''let mut '' ''let '')"
| "render_stmt pl fnm indent (LetCall b f args) =
     indent @ (case b of None \<Rightarrow> ''let _ = ''
               | Some (m, k) \<Rightarrow> ''let '' @ (if m then ''mut '' else '''') @ render_var (LocalVar k) @ '' = '') @
     f @ ''('' @ str_join '' ,'' (map (\<lambda>(ct, v). to_call_string pl fnm ct (render_var v)) args) @ '');'' @ newline"

definition pieces :: "call_type \<Rightarrow> call_type list" where
  "pieces ct = (case split_at_unwrap_call_type ct of Done cs \<Rightarrow> cs | _ \<Rightarrow> [])"

fun helper_chain :: "nat \<Rightarrow> nat \<Rightarrow> nat \<Rightarrow> var \<Rightarrow> call_type list \<Rightarrow> stmt list \<times> call_type \<times> var" where
  "helper_chain i j h v [] = ([], NotCompatible, v)"
| "helper_chain i j h v [c] = ([], c, v)"
| "helper_chain i j h v (c # d # cs) =
     (let (ss, arg) = helper_chain i j (Suc h) (HelperVar i j h) (d # cs)
      in (LetHelper (need_mut_tag d) (HelperVar i j h) c v # ss, arg))"

fun base_var :: "call_param \<Rightarrow> var" where
  "base_var (FuzzableParam, k, ct) = ParamVar k"
| "base_var (FunctionReturn, k, ct) = LocalVar k"

definition arg_stmts :: "nat \<Rightarrow> nat \<times> call_param \<Rightarrow> stmt list \<times> call_type \<times> var" where
  "arg_stmts i = (\<lambda>(j, p). helper_chain i j 1 (base_var p) (pieces (snd (snd p))))"

definition call_stmts :: "api_graph \<Rightarrow> api_sequence \<Rightarrow> nat \<Rightarrow> stmt list" where
  "call_stmts g s i =
     (let c = seq_functions s ! i; f = called g c; parts = map (arg_stmts i) (enumerate 0 (params c))
      in concat (map fst parts) @
         [LetCall (if is_dead g s i \<or> has_no_output f then None
                   else Some (is_function_need_mut_tag i s, i)) (full_name f) (map snd parts)])"

definition body_stmts :: "api_graph \<Rightarrow> api_sequence \<Rightarrow> stmt list" where
  "body_stmts g s = concat (map (call_stmts g s) [0..<seq_len s])"

section \<open>The text renders the statements\<close>

lemma split_pieces: "split_at_unwrap_call_type ct = Done (pieces ct)"
  and pieces_nonempty [simp]: "pieces ct \<noteq> []"
  and pieces_several: "length (pieces ct) \<noteq> 1 \<Longrightarrow> is_unwrap_call_type (hd (pieces ct))"
  and pieces_one: "length (pieces ct) = 1 \<Longrightarrow> pieces ct = [ct]"
  using split_at_unwrap_ok [of ct] by (auto simp: pieces_def)

lemma helper_steps_render:
  assumes "cs \<noteq> []" "former_helper_line st = let_mut_line pl fnm indent (HelperVar i j h) c v"
    and "former_param_name st = render_var (HelperVar i j h)" "helper_index st = Suc h" "0 < h"
  shows "let st' = fold (helper_step pl fnm indent ''_local'' i j) (butlast cs) st;
           chain = helper_chain i j (Suc h) (HelperVar i j h) cs
     in body_text st' @ (if \<not> need_mut_tag (last cs) then str_replace (former_helper_line st') ''let mut '' ''let ''
          else former_helper_line st') =
        body_text st @ concat (map (render_stmt pl fnm indent)
          (LetHelper (need_mut_tag (hd cs)) (HelperVar i j h) c v # fst chain)) \<and>
        to_call_string pl fnm (last cs) (former_param_name st') =
          to_call_string pl fnm (fst (snd chain)) (render_var (snd (snd chain)))"
  using assms
proof (induction cs arbitrary: st h c v)
  case (Cons d ds)
  show ?case
  proof (cases ds)
    case Nil
    then show ?thesis using Cons.prems by simp
  next
    case (Cons e es)
    let ?st = "helper_step pl fnm indent ''_local'' i j d st"
    have st: "former_helper_line ?st = let_mut_line pl fnm indent (HelperVar i j (Suc h)) d (HelperVar i j h)"
        "former_param_name ?st = render_var (HelperVar i j (Suc h))" "helper_index ?st = Suc (Suc h)"
        "body_text ?st = body_text st @ render_stmt pl fnm indent (LetHelper (need_mut_tag d) (HelperVar i j h) c v)"
      using Cons.prems by (simp_all add: helper_step_def Let_def let_mut_line_def)
    from Cons.IH [OF _ st(1,2,3)] show ?thesis
      using Cons st(4) by (simp add: Let_def split: prod.split)
  qed
qed simp

lemma helper_chain_render:
  assumes "1 < length cs"
  shows "let st = fold (helper_step pl fnm indent ''_local'' i j) (take (length cs - 1) cs)
             \<lparr>former_param_name = render_var v, helper_index = Suc 0, former_helper_line = '''', body_text = res\<rparr>;
           chain = helper_chain i j (Suc 0) v cs
     in body_text st @ (if \<not> need_mut_tag (last cs) then str_replace (former_helper_line st) ''let mut '' ''let ''
          else former_helper_line st) = res @ concat (map (render_stmt pl fnm indent) (fst chain)) \<and>
        to_call_string pl fnm (last cs) (former_param_name st) =
          to_call_string pl fnm (fst (snd chain)) (render_var (snd (snd chain)))"
proof -
  from assms obtain c d ds where cs: "cs = c # d # ds" by (cases cs; cases "tl cs") auto
  let ?st = "helper_step pl fnm indent ''_local'' i j c
      \<lparr>former_param_name = render_var v, helper_index = Suc 0, former_helper_line = '''', body_text = res\<rparr>"
  have st: "former_helper_line ?st = let_mut_line pl fnm indent (HelperVar i j (Suc 0)) c v"
      "former_param_name ?st = render_var (HelperVar i j (Suc 0))" "helper_index ?st = Suc (Suc 0)" "body_text ?st = res"
    by (simp_all add: helper_step_def Let_def let_mut_line_def)
  have take: "take (length cs - 1) cs = c # butlast (d # ds)" by (simp add: cs butlast_conv_take)
  from helper_steps_render [OF _ st(1,2,3), of "d # ds"] show ?thesis
    unfolding take by (simp add: cs st(4) Let_def split: prod.split)
qed

definition render_arg :: "(primitive_type \<Rightarrow> def_id option) \<Rightarrow> full_name_map \<Rightarrow> call_type \<times> var \<Rightarrow> string" where
  "render_arg pl fnm = (\<lambda>(ct, v). to_call_string pl fnm ct (render_var v))"

lemma prepare_param_render:
  assumes "j < length (params c)"
  shows "prepare_param pl fnm indent ''_param'' ''_local'' i c j (res, ps) =
     (let a = arg_stmts i (j, params c ! j)
      in Done (res @ concat (map (render_stmt pl fnm indent) (fst a)), ps @ [render_arg pl fnm (snd a)]))"
proof -
  obtain pt k ct where p: "params c ! j = (pt, k, ct)" by (cases "params c ! j")
  have v: "(case pt of FuzzableParam \<Rightarrow> ''_param'' @ nat_to_string k | FunctionReturn \<Rightarrow> ''_local'' @ nat_to_string k) =
      render_var (base_var (pt, k, ct))" by (cases pt) simp_all
  show ?thesis
  proof (cases "length (pieces ct) = 1")
    case True
    then show ?thesis
      using assms pieces_one [OF True]
      by (simp add: prepare_param_def p split_pieces v arg_stmts_def render_arg_def Let_def)
  next
    case False
    then have "1 < length (pieces ct)" using pieces_nonempty [of ct] by (cases "pieces ct") auto
    note chain = helper_chain_render [OF this, of pl fnm indent i j "base_var (pt, k, ct)" res]
    obtain ss d x where "helper_chain i j (Suc 0) (base_var (pt, k, ct)) (pieces ct) = (ss, d, x)"
      by (cases "helper_chain i j (Suc 0) (base_var (pt, k, ct)) (pieces ct)")
    then show ?thesis
      using chain assms False
      by (simp add: prepare_param_def p split_pieces v arg_stmts_def render_arg_def Let_def split: if_splits)
  qed
qed

lemma prepare_params_render:
  assumes "n \<le> length (params c)"
  shows "ofold (prepare_param pl fnm indent ''_param'' ''_local'' i c) [0..<n] (res, []) =
     (let parts = map (arg_stmts i) (enumerate 0 (take n (params c)))
      in Done (res @ concat (map (render_stmt pl fnm indent) (concat (map fst parts))),
           map (render_arg pl fnm) (map snd parts)))"
  using assms
proof (induction n)
  case (Suc n)
  then have "enumerate 0 (take (Suc n) (params c)) = enumerate 0 (take n (params c)) @ [(n, params c ! n)]"
    by (simp add: take_Suc_conv_app_nth enumerate_append_eq)
  then show ?case
    using Suc by (simp add: ofold_append prepare_param_render Let_def)
qed simp

lemma call_line_render:
  assumes "i < seq_len s" "snd (func (seq_functions s ! i)) < length (api_functions g)"
  shows "call_line pl g s (map (is_dead g s) [0..<seq_len s]) indent ''_param'' ''_local'' i res =
     Done (res @ concat (map (render_stmt pl (graph_names g) indent) (call_stmts g s i)))"
  using assms prepare_params_render [of "length (params (seq_functions s ! i))" "seq_functions s ! i"]
  by (simp add: call_line_def call_stmts_def Let_def seq_len_def render_arg_def comp_assoc)

lemma concat_map_concat: "concat (map f (concat xss)) = concat (map (\<lambda>xs. concat (map f xs)) xss)"
  by (induction xss) auto

lemma function_body_eq:
  assumes "in_range g s"
  shows "generate_function_body_string pl g outer_indent ''_param'' ''_local'' s =
     Done (concat (map (render_stmt pl (graph_names g) (spaces (outer_indent + 4))) (body_stmts g s)))"
proof -
  let ?r = "\<lambda>i. concat (map (render_stmt pl (graph_names g) (spaces (outer_indent + 4))) (call_stmts g s i))"
  have "ofold (call_line pl g s (map (is_dead g s) [0..<seq_len s]) (spaces (outer_indent + 4)) ''_param'' ''_local'')
      [0..<n] '''' = Done (concat (map ?r [0..<n]))" if "n \<le> seq_len s" for n
    using that
  proof (induction n)
    case (Suc n)
    then have "call_in_range g (seq_len s) (seq_functions s ! n)"
      using assms by (simp add: in_range_def list_all_length seq_len_def)
    then show ?case
      using Suc call_line_render [of n s g pl "spaces (outer_indent + 4)"]
      by (simp add: ofold_append call_in_range_def)
  qed simp
  from this [of "seq_len s"] show ?thesis
    using dead_code_eq [OF assms]
    by (simp add: generate_function_body_string_def Let_def body_stmts_def seq_len_def concat_map_concat comp_def)
qed

text \<open>
  C9: the text of the test function's body is the rendering of its statements, for every
  sequence with indices in range, and generating it never panics.
\<close>

theorem function_body_refines:
  assumes "in_range g s"
  shows "generate_function_body_string pl g outer_indent ''_param'' ''_local'' s =
     Done (concat (map (render_stmt pl (graph_names g) (spaces (outer_indent + 4))) (body_stmts g s)))"
  using assms by (rule function_body_eq)

theorem function_body_refines_witness:
  "generate_function_body_string (\<lambda>_. None) example_graph 0 ''_param'' ''_local'' example_sequence =
     Done (concat (map (render_stmt (\<lambda>_. None) (graph_names example_graph) (spaces (0 + 4)))
       (body_stmts example_graph example_sequence)))"
  by (rule function_body_refines [OF example_in_range])

section \<open>Every variable is bound before it is used\<close>

text \<open>
  An environment gives the variables in scope and whether they are bound as \<open>mut\<close>. An argument
  may use a variable in scope, and a plain conversion may borrow it mutably only if it is \<open>mut\<close>. That
  a variable is borrowed mutably is read off the expression (\<open>mutated\<close>), not asked of the generator.
\<close>

type_synonym scope = "var \<rightharpoonup> bool"

definition usable :: "scope \<Rightarrow> call_type \<times> var \<Rightarrow> bool" where
  "usable env = (\<lambda>(ct, v). case env v of None \<Rightarrow> False | Some m \<Rightarrow> plain_conversion ct \<and> mutated False ct \<longrightarrow> m)"

fun after_stmt :: "scope \<Rightarrow> stmt \<Rightarrow> scope" where
  "after_stmt env (LetHelper m x ct v) = env(x \<mapsto> m)"
| "after_stmt env (LetCall b f args) = (case b of None \<Rightarrow> env | Some (m, k) \<Rightarrow> env(LocalVar k \<mapsto> m))"

fun stmt_scoped :: "scope \<Rightarrow> stmt \<Rightarrow> bool" where
  "stmt_scoped env (LetHelper m x ct v) = usable env (ct, v)"
| "stmt_scoped env (LetCall b f args) = list_all (usable env) args"

fun scoped :: "scope \<Rightarrow> stmt list \<Rightarrow> bool" where
  "scoped env [] = True"
| "scoped env (st # sts) = (stmt_scoped env st \<and> scoped (after_stmt env st) sts)"

definition param_scope :: "api_sequence \<Rightarrow> scope" where
  "param_scope s = (\<lambda>v. case v of
     ParamVar k \<Rightarrow> if k < length (fuzzable_params s) then Some (is_fuzzable_need_mut_tag k s) else None
   | _ \<Rightarrow> None)"

text \<open>A call whose value a dependency of the graph hands on has a value.\<close>

definition producers_return :: "api_graph \<Rightarrow> bool" where
  "producers_return g \<longleftrightarrow>
     list_all (\<lambda>d. \<not> has_no_output (api_functions g ! snd (output_fun d))) (api_dependencies g)"

abbreviation after :: "scope \<Rightarrow> stmt list \<Rightarrow> scope" where
  "after env sts \<equiv> foldl after_stmt env sts"

lemma scoped_append [simp]: "scoped env (xs @ ys) \<longleftrightarrow> scoped env xs \<and> scoped (after env xs) ys"
  by (induction xs arbitrary: env) auto

fun is_helper_var :: "var \<Rightarrow> bool" where
  "is_helper_var (HelperVar _ _ _) = True"
| "is_helper_var _ = False"

lemma unwrap_no_mut: "is_unwrap_call_type c \<Longrightarrow> plain_conversion c \<Longrightarrow> \<not> mutated False c"
  by (cases c) auto

lemma helper_chain_scoped:
  assumes "cs \<noteq> []" "usable env (hd cs, v)"
  shows "scoped env (fst (helper_chain i j h v cs)) \<and>
     usable (after env (fst (helper_chain i j h v cs))) (snd (helper_chain i j h v cs)) \<and>
     (\<forall>x. (\<forall>h. x \<noteq> HelperVar i j h) \<longrightarrow> after env (fst (helper_chain i j h v cs)) x = env x) \<and>
     (snd (snd (helper_chain i j h v cs)) = v \<or> (\<exists>h'. snd (snd (helper_chain i j h v cs)) = HelperVar i j h'))"
  using assms
proof (induction i j h v cs arbitrary: env rule: helper_chain.induct)
  case (3 i j h v c d cs)
  define env' where "env' = env(HelperVar i j h \<mapsto> need_mut_tag d)"
  have use: "usable env' (hd (d # cs), HelperVar i j h)"
    and frame: "(\<forall>h. x \<noteq> HelperVar i j h) \<Longrightarrow> env' x = env x" for x
    using plain_tags(1) by (auto simp: usable_def env'_def)
  obtain ss a where chain: "helper_chain i j (Suc h) (HelperVar i j h) (d # cs) = (ss, a)" by (rule prod.exhaust)
  from "3.IH" [OF _ use] "3.prems"(2) frame show ?case by (auto simp: chain env'_def [symmetric])
qed auto

lemma usable_first_piece:
  assumes "usable env (snd (snd p), base_var p)"
  shows "usable env (hd (pieces (snd (snd p))), base_var p)"
proof (cases "length (pieces (snd (snd p))) = 1")
  case True
  then show ?thesis using assms pieces_one by fastforce
next
  case False
  then show ?thesis
    using assms unwrap_no_mut [OF pieces_several [OF False]] by (auto simp: usable_def split: option.splits)
qed

lemma args_scoped:
  assumes "\<forall>p \<in> set ps. usable env (snd (snd p), base_var p)"
  shows "scoped env (concat (map fst (map (arg_stmts i) (enumerate j ps)))) \<and>
     list_all (usable (after env (concat (map fst (map (arg_stmts i) (enumerate j ps))))))
       (map snd (map (arg_stmts i) (enumerate j ps))) \<and>
     (\<forall>x. (\<forall>j' h. j \<le> j' \<longrightarrow> x \<noteq> HelperVar i j' h) \<longrightarrow>
        after env (concat (map fst (map (arg_stmts i) (enumerate j ps)))) x = env x)"
  using assms
proof (induction ps arbitrary: env j)
  case (Cons p ps)
  let ?a = "arg_stmts i (j, p)"
  let ?env = "after env (fst ?a)"
  have a: "?a = helper_chain i j 1 (base_var p) (pieces (snd (snd p)))" by (simp add: arg_stmts_def)
  have "usable env (hd (pieces (snd (snd p))), base_var p)" using usable_first_piece Cons.prems by simp
  note all = helper_chain_scoped [OF pieces_nonempty this, of i j 1, folded a]
  note chain = all [THEN conjunct1] all [THEN conjunct2, THEN conjunct1]
    all [THEN conjunct2, THEN conjunct2, THEN conjunct1, rule_format]
    all [THEN conjunct2, THEN conjunct2, THEN conjunct2]
  have base: "is_helper_var (base_var q) = False" for q by (cases q rule: base_var.cases) auto
  have "\<forall>q \<in> set ps. usable ?env (snd (snd q), base_var q)"
  proof
    fix q
    assume "q \<in> set ps"
    moreover have "?env (base_var q) = env (base_var q)" by (rule chain(3)) (use base [of q] in auto)
    ultimately show "usable ?env (snd (snd q), base_var q)" using Cons.prems by (simp add: usable_def)
  qed
  note IH = Cons.IH [OF this, of "Suc j"]
  have "after ?env (concat (map fst (map (arg_stmts i) (enumerate (Suc j) ps)))) (snd (snd ?a)) = ?env (snd (snd ?a))"
    using IH chain(4) base [of p] by (metis Suc_n_not_le_n is_helper_var.simps(1) var.inject(3))
  then have "usable (after ?env (concat (map fst (map (arg_stmts i) (enumerate (Suc j) ps))))) (snd ?a)"
    using chain(2) by (simp add: usable_def case_prod_beta)
  then show ?case using IH chain(1,3) by simp
qed simp

text \<open>What is in scope before the \<open>n\<close>-th call: the parameters and the values of earlier calls.\<close>

definition scope_ok :: "api_graph \<Rightarrow> api_sequence \<Rightarrow> nat \<Rightarrow> scope \<Rightarrow> bool" where
  "scope_ok g s n env \<longleftrightarrow>
     (\<forall>k < length (fuzzable_params s). env (ParamVar k) = Some (k \<in> fuzzable_mut_tag s)) \<and>
     (\<forall>k < n. \<not> is_dead g s k \<longrightarrow> \<not> has_no_output (called g (seq_functions s ! k)) \<longrightarrow>
        env (LocalVar k) = Some (k \<in> function_mut_tag s))"

lemma param_usable:
  assumes wf: "wf_sequence g s" and g: "producers_return g" and env: "scope_ok g s n env"
    and n: "n < seq_len s" and p: "p \<in> set (params (seq_functions s ! n))"
  shows "usable env (snd (snd p), base_var p)"
proof -
  obtain pt k ct where e: "p = (pt, k, ct)" by (cases p)
  from p obtain j where j: "j < length (params (seq_functions s ! n))" "params (seq_functions s ! n) ! j = (pt, k, ct)"
    by (auto simp: in_set_conv_nth e)
  have "call_ok g s n (seq_functions s ! n)" using wf n by (simp add: wf_sequence_def)
  then have ok: "param_ok g s n (seq_functions s ! n) j (pt, k, ct)"
    using j unfolding call_ok_def by metis
  show ?thesis
  proof (cases pt)
    case FuzzableParam
    then show ?thesis using ok env plain_tags(1) by (auto simp: e usable_def param_ok_def scope_ok_def)
  next
    case FunctionReturn
    then have k: "k < n" "dep_between (seq_functions s ! k) (seq_functions s ! n) j ct \<in> set (api_dependencies g)"
        "need_mut_tag ct \<longrightarrow> k \<in> function_mut_tag s"
      using ok by (auto simp: param_ok_def)
    have "n \<in> set (used_before s (seq_len s) k)"
      using n p FunctionReturn e by (auto simp: used_before_def returns_used_def)
    then have "\<not> is_dead g s k" by (auto simp: is_dead_def seq_len_def)
    moreover have "\<not> has_no_output (called g (seq_functions s ! k))"
      using g k(2) by (auto simp: producers_return_def list_all_iff dep_between_def)
    ultimately show ?thesis using env k FunctionReturn plain_tags(1) by (auto simp: e usable_def scope_ok_def)
  qed
qed

lemma call_scoped:
  assumes wf: "wf_sequence g s" and g: "producers_return g" and env: "scope_ok g s n env" and n: "n < seq_len s"
  shows "scoped env (call_stmts g s n) \<and> scope_ok g s (Suc n) (after env (call_stmts g s n))"
proof -
  let ?c = "seq_functions s ! n" and ?parts = "map (arg_stmts n) (enumerate 0 (params (seq_functions s ! n)))"
  have "\<forall>p \<in> set (params ?c). usable env (snd (snd p), base_var p)"
    using param_usable [OF wf g env n] by blast
  note all = args_scoped [OF this, of n 0]
  have args: "scoped env (concat (map fst ?parts))"
      "list_all (usable (after env (concat (map fst ?parts)))) (map snd ?parts)"
    using all by blast+
  have args3: "after env (concat (map fst ?parts)) x = env x" if "\<not> is_helper_var x" for x
    using all that is_helper_var.simps(1) by metis
  have "scope_ok g s n (after env (concat (map fst ?parts)))"
    using env args3 by (simp add: scope_ok_def del: map_map)
  then show ?thesis
    using args(1,2) by (auto simp: call_stmts_def Let_def scope_ok_def less_Suc_eq is_function_need_mut_tag_def)
qed

lemma body_scoped:
  assumes "wf_sequence g s" and "producers_return g"
  shows "scoped (param_scope s) (body_stmts g s)"
proof -
  have "scoped (param_scope s) (concat (map (call_stmts g s) [0..<n])) \<and>
      scope_ok g s n (after (param_scope s) (concat (map (call_stmts g s) [0..<n])))" if "n \<le> seq_len s" for n
    using that
  proof (induction n)
    case 0
    then show ?case by (simp add: scope_ok_def param_scope_def is_fuzzable_need_mut_tag_def)
  next
    case (Suc n)
    then show ?case using call_scoped [OF assms, of n] by auto
  qed
  then show ?thesis by (simp add: body_stmts_def)
qed

text \<open>
  C10: in the test function of a well-formed sequence every variable is bound before it is used:
  each argument is a parameter, the value of an earlier call that was kept, or a helper variable;
  and a variable that an argument expression borrows mutably is bound as \<open>mut\<close>, if the expression is a
  plain conversion (a \<open>&mut\<close> inside \<open>Some(..)\<close>, \<open>Ok(..)\<close> or another reference is none).
\<close>

theorem test_function_scoped:
  assumes "wf_sequence g s" and "producers_return g"
  shows "scoped (param_scope s) (body_stmts g s)"
  using assms by (rule body_scoped)

theorem test_function_scoped_witness:
  "scoped (param_scope example_sequence) (body_stmts example_graph example_sequence)"
proof (rule test_function_scoped)
  show "wf_sequence example_graph example_sequence" using example_wf by simp
  show "producers_return example_graph"
    by (simp add: producers_return_def example_graph_def has_no_output_def example_new_def)
qed

section \<open>Writing a target never panics\<close>

lemma header_done: "\<exists>t. generate_function_header_string i outer extra title prefix s = Done t"
proof -
  have "\<exists>t. ofold (header_param prefix s) [1..<length (fuzzable_params s)] res = Done t" for res
    using ofold_inv [of "[1..<length (fuzzable_params s)]" "\<lambda>_. True" "header_param prefix s" res]
    by (simp add: header_param_def Let_def)
  then show ?thesis by (auto simp: generate_function_header_string_def Let_def omap_Done_iff)
qed

lemma target_done:
  assumes "in_range g s"
  shows "\<exists>t. to_well_written_function pl g i n s = Done t" "\<exists>t. to_afl_except_main ord pl g i s = Done t"
    "\<exists>t. to_afl_test_file ord pl g i s = Done t" "\<exists>t. to_replay_crash_file ord pl g i s = Done t"
    "\<exists>t. to_libfuzzer_test_file ord pl g i s = Done t"
proof -
  show f: "\<exists>t. to_well_written_function pl g i n s = Done t" for n
    using header_done [of i n 0 "''fn test_function''" "''_param''" s]
    by (auto simp: to_well_written_function_def Let_def function_body_eq [OF assms])
  show e: "\<exists>t. to_afl_except_main ord pl g i s = Done t"
    using f [of 0] by (auto simp: to_afl_except_main_def Let_def omap_Done_iff)
  show "\<exists>t. to_afl_test_file ord pl g i s = Done t" "\<exists>t. to_replay_crash_file ord pl g i s = Done t"
    "\<exists>t. to_libfuzzer_test_file ord pl g i s = Done t"
    using e
    by (auto simp: to_afl_test_file_def to_replay_crash_file_def to_libfuzzer_test_file_def
        afl_main_function_def reproduce_main_function_def libfuzzer_fuzz_main_def closure_body_eq Let_def)
qed

end
