(* ===== verification/File_Util.thy ===== *)
theory File_Util
  imports Sequence_Choice Target_Function "HOL-Library.Sublist"
begin

text \<open>
  \<^verbatim>\<open>fuzz_target/file_util.rs\<close>: the choice of the sequences that become targets, and the directories
  the targets are written to. The file system is explicit state, a map from paths to files and
  directories; an operation on a path the system denies fails, and the generator panics on it.
\<close>

section \<open>Tables\<close>

definition crate_test_dir :: "(string \<times> string) list" where
  "crate_test_dir =
     [(''url'', ''/home/jjf/afl_fast_work/url_afl_work''),
      (''regex_syntax'', ''/home/jjf/afl_fast_work/regex-syntax-afl-work''),
      (''semver_parser'', ''/home/jjf/afl_fast_work/semver-parser-afl-work''),
      (''bat'', ''/home/jjf/afl_fast_work/bat-afl-work''),
      (''xi_core_lib'', ''/home/jjf/afl_fast_work/xi-core-lib-afl-work''),
      (''proc_macro2'', ''/home/jjf/afl_fast_work/proc-macro2-afl-work''),
      (''clap'', ''/home/jjf/afl_fast_work/clap-afl-work''),
      (''regex'', ''/home/jjf/afl_fast_work/regex-afl-work''),
      (''serde_json'', ''/home/jjf/afl_fast_work/serde-json-afl-work''),
      (''tui'', ''/home/jjf/afl_fast_work/tui-afl-work''),
      (''semver'', ''/home/jjf/afl_fast_work/semver-afl-work''),
      (''http'', ''/home/jjf/afl_fast_work/http-afl-work''),
      (''flate2'', ''/home/jjf/afl_fast_work/flate2-afl-work''),
      (''time'', ''/home/jjf/afl_fast_work/time-afl-work''),
      (''fudge_like_url'', ''/home/jjf/fudge_like_work/url-work''),
      (''fudge_like_regex'', ''/home/jjf/fudge_like_work/regex-work''),
      (''fudge_like_time'', ''/home/jjf/fudge_like_work/time-work''),
      (''fudge_regex'', ''/home/jjf/fudge_work/regex-work''),
      (''fudge_url'', ''/home/jjf/fudge_work/url-work''),
      (''fudge_time'', ''/home/jjf/fudge_work/time-work'')]"

definition random_test_dir :: "(string \<times> string) list" where
  "random_test_dir =
     [(''regex'', ''/home/jjf/random_work/regex-work''),
      (''url'', ''/home/jjf/random_work/url-work''),
      (''time'', ''/home/jjf/random_work/time-work'')]"

definition libfuzzer_fuzz_target_dir :: "(string \<times> string) list" where
  "libfuzzer_fuzz_target_dir =
     [(''url'', ''/home/jjf/libfuzzer_work/url-libfuzzer-targets''),
      (''regex_syntax'', ''/home/jjf/libfuzzer_work/regex-syntax-libfuzzer-targets''),
      (''syn'', ''/home/jjf/libfuzzer_work/syn-libfuzzer-targets''),
      (''semver_parser'', ''/home/jjf/libfuzzer_work/sem-libfuzzer-targets'')]"

definition random_test_file_numbers :: "(string \<times> nat) list" where
  "random_test_file_numbers =
     [(''url'', 61),
      (''regex'', 67),
      (''time'', 118)]"

definition test_file_dir :: string where "test_file_dir = ''test_files''"

definition reproduce_file_dir :: string where "reproduce_file_dir = ''replay_files''"

definition libfuzzer_dir_name :: string where "libfuzzer_dir_name = ''libfuzzer_files''"

definition max_test_file_number :: nat where "max_test_file_number = 300"

definition default_random_file_number :: nat where "default_random_file_number = 100"

definition can_write_to_file :: "string \<Rightarrow> bool \<Rightarrow> bool" where
  "can_write_to_file crate random_strategy =
     (if \<not> random_strategy \<and> map_of crate_test_dir crate \<noteq> None then True
      else if random_strategy \<and> map_of random_test_dir crate \<noteq> None then True
      else False)"

definition can_generate_libfuzzer_target :: "string \<Rightarrow> bool" where
  "can_generate_libfuzzer_target crate =
     (if map_of libfuzzer_fuzz_target_dir crate \<noteq> None then True else False)"

section \<open>The targets of a graph\<close>

record file_helper =
  fh_crate_name :: string
  test_dir :: string
  test_files :: "string list"
  reproduce_files :: "string list"
  libfuzzer_files :: "string list"

text \<open>
  The loop over the chosen sequences. The state is the sequence count and the three vectors of
  texts; the orders are those of the hash sets each of the three texts is written from.
\<close>

type_synonym file_orders = "nat \<Rightarrow> hash_orders \<times> hash_orders \<times> hash_orders"

fun target_files ::
  "file_orders \<Rightarrow> (primitive_type \<Rightarrow> def_id option) \<Rightarrow> api_graph \<Rightarrow> api_sequence list \<Rightarrow>
     nat \<times> string list \<times> string list \<times> string list \<Rightarrow> (nat \<times> string list \<times> string list \<times> string list) outcome" where
  "target_files ords pl g [] st = Done st"
| "target_files ords pl g (s # ss) (sequence_count, tests, replays, libfuzzers) =
     (if sequence_count \<ge> max_test_file_number then Done (sequence_count, tests, replays, libfuzzers)
      else case ords sequence_count of (o1, o2, o3) \<Rightarrow>
        obind (to_afl_test_file o1 pl g sequence_count s) (\<lambda>test_file.
        obind (to_replay_crash_file o2 pl g sequence_count s) (\<lambda>reproduce_file.
        obind (to_libfuzzer_test_file o3 pl g sequence_count s) (\<lambda>libfuzzer_file.
          target_files ords pl g ss
            (sequence_count + 1, tests @ [test_file], replays @ [reproduce_file], libfuzzers @ [libfuzzer_file])))))"

definition file_helper_new ::
  "file_orders \<Rightarrow> (primitive_type \<Rightarrow> def_id option) \<Rightarrow> bool \<Rightarrow> api_graph \<Rightarrow> file_helper outcome" where
  "file_helper_new ords pl random_strategy g =
     (let crate = crate_name g
      in obind (if \<not> random_strategy then unwrap (map_of crate_test_dir crate)
                else unwrap (map_of random_test_dir crate)) (\<lambda>dir.
         obind (if \<not> random_strategy then heuristic_choose max_test_file_number True g
                else let random_size = (case map_of random_test_file_numbers crate of
                           Some n \<Rightarrow> n | None \<Rightarrow> default_random_file_number)
                     in Done (first_choose random_size g)) (\<lambda>chosen_sequences.
         obind (target_files ords pl g chosen_sequences (0, [], [], [])) (\<lambda>(_, tests, replays, libfuzzers).
           Done \<lparr>fh_crate_name = crate, test_dir = dir, test_files = tests, reproduce_files = replays,
                 libfuzzer_files = libfuzzers\<rparr>))))"

section \<open>The file system\<close>

datatype node = FileNode string | DirNode

type_synonym path = "string list"

type_synonym file_system = "path \<rightharpoonup> node"

definition path_from :: "string \<Rightarrow> path" where
  "path_from s = filter (\<lambda>c. c \<noteq> '''') (str_split s ''/'')"

definition is_file :: "file_system \<Rightarrow> path \<Rightarrow> bool" where
  "is_file fs p = (case fs p of Some (FileNode _) \<Rightarrow> True | _ \<Rightarrow> False)"

definition is_dir :: "file_system \<Rightarrow> path \<Rightarrow> bool" where
  "is_dir fs p = (fs p = Some DirNode)"

definition unwrap_err :: "'a outcome" where
  "unwrap_err = Panic (ExplicitPanic ''called Result::unwrap() on an Err value'')"

text \<open>
  The operations of \<open>std::fs\<close>, each followed by the \<open>unwrap\<close> of the source. The paths the
  operating system refuses to change are given by \<open>denied\<close>.
\<close>

definition remove_file :: "(path \<Rightarrow> bool) \<Rightarrow> path \<Rightarrow> file_system \<Rightarrow> file_system outcome" where
  "remove_file denied p fs =
     (if is_file fs p \<and> \<not> denied p then Done (fs(p := None)) else unwrap_err)"

definition remove_dir_all :: "(path \<Rightarrow> bool) \<Rightarrow> path \<Rightarrow> file_system \<Rightarrow> file_system outcome" where
  "remove_dir_all denied p fs =
     (if is_dir fs p \<and> \<not> denied p then Done (\<lambda>q. if prefix p q then None else fs q) else unwrap_err)"

definition create_dir :: "(path \<Rightarrow> bool) \<Rightarrow> path \<Rightarrow> file_system \<Rightarrow> file_system outcome" where
  "create_dir denied p fs =
     (if is_dir fs p then Done fs
      else if is_file fs p \<or> denied p then unwrap_err
      else Done (fs(p \<mapsto> DirNode)))"

definition create_dir_all :: "(path \<Rightarrow> bool) \<Rightarrow> path \<Rightarrow> file_system \<Rightarrow> file_system outcome" where
  "create_dir_all denied p fs = ofold (create_dir denied) (prefixes p) fs"

definition write_file :: "(path \<Rightarrow> bool) \<Rightarrow> path \<Rightarrow> string \<Rightarrow> file_system \<Rightarrow> file_system outcome" where
  "write_file denied p content fs =
     (if p \<noteq> [] \<and> is_dir fs (butlast p) \<and> \<not> is_dir fs p \<and> \<not> denied p
      then Done (fs(p \<mapsto> FileNode content)) else unwrap_err)"

definition ensure_empty_dir :: "(path \<Rightarrow> bool) \<Rightarrow> path \<Rightarrow> file_system \<Rightarrow> file_system outcome" where
  "ensure_empty_dir denied p fs =
     obind (if is_file fs p then remove_file denied p fs else Done fs) (\<lambda>fs.
     obind (if is_dir fs p then remove_dir_all denied p fs else Done fs) (\<lambda>fs.
       create_dir_all denied p fs))"

definition file_name :: "string \<Rightarrow> string \<Rightarrow> nat \<Rightarrow> string" where
  "file_name prfx crate i = prfx @ ''_'' @ crate @ nat_to_string i @ ''.rs''"

definition write_to_files ::
  "(path \<Rightarrow> bool) \<Rightarrow> string \<Rightarrow> path \<Rightarrow> string list \<Rightarrow> string \<Rightarrow> file_system \<Rightarrow> file_system outcome" where
  "write_to_files denied crate p contents prfx fs =
     ofold (\<lambda>i fs. obind (get_index contents i) (\<lambda>content.
         write_file denied (p @ [file_name prfx crate i]) content fs))
       [0..<length contents] fs"

definition write_files :: "(path \<Rightarrow> bool) \<Rightarrow> file_helper \<Rightarrow> file_system \<Rightarrow> file_system outcome" where
  "write_files denied h fs =
     (let test_path = path_from (test_dir h);
          test_file_path = test_path @ [test_file_dir];
          reproduce_file_path = test_path @ [reproduce_file_dir]
      in obind (if is_file fs test_path then remove_file denied test_path fs else Done fs) (\<lambda>fs.
         obind (ensure_empty_dir denied test_file_path fs) (\<lambda>fs.
         obind (ensure_empty_dir denied reproduce_file_path fs) (\<lambda>fs.
         obind (write_to_files denied (fh_crate_name h) test_file_path (test_files h) ''test'' fs) (\<lambda>fs.
           write_to_files denied (fh_crate_name h) reproduce_file_path (reproduce_files h) ''replay'' fs)))))"

definition write_libfuzzer_files :: "(path \<Rightarrow> bool) \<Rightarrow> file_helper \<Rightarrow> file_system \<Rightarrow> file_system outcome" where
  "write_libfuzzer_files denied h fs =
     obind (unwrap (map_of libfuzzer_fuzz_target_dir (fh_crate_name h))) (\<lambda>libfuzzer_dir.
       let libfuzzer_path = path_from libfuzzer_dir;
           libfuzzer_files_path = libfuzzer_path @ [libfuzzer_dir_name]
       in obind (if is_file fs libfuzzer_path then remove_file denied libfuzzer_path fs else Done fs) (\<lambda>fs.
          obind (ensure_empty_dir denied libfuzzer_files_path fs) (\<lambda>fs.
            write_to_files denied (fh_crate_name h) libfuzzer_files_path (libfuzzer_files h) ''fuzz_target'' fs)))"

section \<open>File names\<close>

definition string_to_nat :: "string \<Rightarrow> nat" where
  "string_to_nat s = foldl (\<lambda>n c. n * 10 + (of_char c - 48)) 0 s"

lemma digit_char_value: "d < 10 \<Longrightarrow> of_char (digit_char d) - 48 = (d :: nat)"
  by (simp add: digit_char_def)

lemma string_to_nat_inverse: "string_to_nat (nat_to_string n) = n"
proof (induction n rule: nat_to_string.induct)
  case (1 n)
  then show ?case
    by (subst nat_to_string.simps) (auto simp: string_to_nat_def digit_char_value)
qed

lemma file_name_inject [simp]: "file_name prfx crate i = file_name prfx crate j \<longleftrightarrow> i = j"
proof
  assume "file_name prfx crate i = file_name prfx crate j"
  then have "nat_to_string i = nat_to_string j" by (simp add: file_name_def)
  then show "i = j" using string_to_nat_inverse by metis
qed simp

section \<open>Emptying and filling a directory\<close>

text \<open>A file system is a tree: what lies above a file or directory is a directory.\<close>

definition fs_ok :: "file_system \<Rightarrow> bool" where
  "fs_ok fs \<longleftrightarrow> fs [] = Some DirNode \<and> (\<forall>p q. fs q \<noteq> None \<longrightarrow> strict_prefix p q \<longrightarrow> fs p = Some DirNode)"

definition emptied :: "path \<Rightarrow> file_system \<Rightarrow> file_system" where
  "emptied p fs = (\<lambda>q. if prefix q p then Some DirNode else if prefix p q then None else fs q)"

definition no_file_above :: "file_system \<Rightarrow> path \<Rightarrow> bool" where
  "no_file_above fs p \<longleftrightarrow> (\<forall>q. strict_prefix q p \<longrightarrow> \<not> is_file fs q)"

definition holds_exactly :: "file_system \<Rightarrow> path \<Rightarrow> (nat \<Rightarrow> string) \<Rightarrow> string list \<Rightarrow> bool" where
  "holds_exactly fs p name contents \<longleftrightarrow> is_dir fs p \<and>
     (\<forall>i < length contents. fs (p @ [name i]) = Some (FileNode (contents ! i))) \<and>
     (\<forall>q. strict_prefix p q \<longrightarrow> fs q \<noteq> None \<longrightarrow> (\<exists>i < length contents. q = p @ [name i]))"

lemma node_cases: "\<not> is_file fs p \<Longrightarrow> \<not> is_dir fs p \<Longrightarrow> fs p = None"
  by (auto simp: is_file_def is_dir_def split: option.splits node.splits)

lemma strict_prefix_snoc [simp]: "strict_prefix p (p @ [x])"
  by (simp add: strict_prefix_def)

lemma fs_ok_below: "fs_ok fs \<Longrightarrow> strict_prefix p q \<Longrightarrow> fs p \<noteq> Some DirNode \<Longrightarrow> fs q = None"
  unfolding fs_ok_def by blast

lemma create_dirs:
  assumes "list_all (\<lambda>p. \<not> is_file fs p) ps" "\<forall>p. \<not> denied p"
  shows "ofold (create_dir denied) ps fs = Done (\<lambda>q. if q \<in> set ps then Some DirNode else fs q)"
  using assms(1)
proof (induction ps arbitrary: fs)
  case (Cons p ps)
  let ?fs = "fs(p \<mapsto> DirNode)"
  have "create_dir denied p fs = Done ?fs"
    using Cons.prems assms(2) by (auto simp: create_dir_def is_dir_def)
  moreover have "list_all (\<lambda>p. \<not> is_file ?fs p) ps" using Cons.prems by (auto simp: list_all_iff is_file_def)
  note Cons.IH [OF this]
  moreover have "(\<lambda>q. if q \<in> set ps then Some DirNode else ?fs q) =
      (\<lambda>q. if q \<in> set (p # ps) then Some DirNode else fs q)" by auto
  ultimately show ?case by (simp only: ofold.simps obind.simps)
qed simp

lemma ensure_empty_dir_ok:
  assumes ok: "fs_ok fs" and above: "no_file_above fs p" and "\<forall>p. \<not> denied p"
  shows "ensure_empty_dir denied p fs = Done (emptied p fs)"
proof -
  define fs1 where "fs1 = (\<lambda>q. if prefix p q then None else fs q)"
  have below: "fs q = None" if "strict_prefix p q" "fs p \<noteq> Some DirNode" for q
    using fs_ok_below [OF ok that] .
  have "obind (if is_file fs p then remove_file denied p fs else Done fs) (\<lambda>fs.
      if is_dir fs p then remove_dir_all denied p fs else Done fs) = Done fs1"
  proof (cases "fs p = Some DirNode")
    case True
    then show ?thesis using assms(3) by (simp add: remove_dir_all_def is_file_def is_dir_def fs1_def)
  next
    case False
    then have "fs1 = fs(p := None)"
      using below by (auto simp: fs1_def fun_eq_iff strict_prefix_def)
    then show ?thesis
      using False assms(3) node_cases [of fs p]
      by (auto simp: remove_file_def is_dir_def fun_upd_idem split: if_splits)
  qed
  moreover have "list_all (\<lambda>q. \<not> is_file fs1 q) (prefixes p)"
    using above by (auto simp: list_all_iff fs1_def is_file_def no_file_above_def strict_prefix_def
        split: option.splits node.splits)
  then have "create_dir_all denied p fs1 = Done (emptied p fs)"
    using create_dirs [of fs1 "prefixes p" denied] assms(3)
    by (auto simp: create_dir_all_def emptied_def fs1_def fun_eq_iff)
  ultimately show ?thesis
    unfolding ensure_empty_dir_def obind_assoc [symmetric] by (simp only: obind.simps)
qed

lemma emptied_ok: "fs_ok fs \<Longrightarrow> no_file_above fs p \<Longrightarrow> fs_ok (emptied p fs)"
  unfolding fs_ok_def emptied_def
  by (auto simp: strict_prefix_def dest: prefix_order.trans prefix_order.antisym)

lemma fs_ok_write:
  assumes ok: "fs_ok fs" and dir: "is_dir fs p" and new: "fs (p @ [a]) = None"
  shows "fs_ok (fs(p @ [a] \<mapsto> n))"
proof -
  have "(fs(p @ [a] \<mapsto> n)) r = Some DirNode" if q: "(fs(p @ [a] \<mapsto> n)) q \<noteq> None" "strict_prefix r q" for r q
  proof -
    have "fs r = Some DirNode"
    proof (cases "q = p @ [a]")
      case True
      then have "r = p \<or> strict_prefix r p" using q(2) by (auto simp: strict_prefix_def)
      then show ?thesis using fs_ok_below [OF ok, of r p] dir by (auto simp: is_dir_def)
    next
      case False
      then have "fs q \<noteq> None" using q(1) by simp
      then show ?thesis using fs_ok_below [OF ok q(2)] by argo
    qed
    then show ?thesis using new by auto
  qed
  moreover have "(fs(p @ [a] \<mapsto> n)) [] = Some DirNode" using ok by (simp add: fs_ok_def)
  ultimately show ?thesis unfolding fs_ok_def by blast
qed

lemma write_to_files_ok:
  assumes ok: "fs_ok fs" and dir: "is_dir fs p" and new: "\<And>q. strict_prefix p q \<Longrightarrow> fs q = None"
    and "\<forall>p. \<not> denied p"
  shows "\<exists>fs'. write_to_files denied crate p contents prfx fs = Done fs' \<and> fs_ok fs' \<and>
     holds_exactly fs' p (file_name prfx crate) contents \<and> (\<forall>q. \<not> strict_prefix p q \<longrightarrow> fs' q = fs q)"
proof -
  let ?name = "file_name prfx crate"
  have "\<exists>fs'. ofold (\<lambda>i fs. obind (get_index contents i) (\<lambda>content. write_file denied (p @ [?name i]) content fs))
        [0..<n] fs = Done fs' \<and> fs_ok fs' \<and>
      holds_exactly fs' p ?name (take n contents) \<and> (\<forall>q. \<not> strict_prefix p q \<longrightarrow> fs' q = fs q)"
    if "n \<le> length contents" for n
    using that
  proof (induction n)
    case 0
    then show ?case using ok dir new by (simp add: holds_exactly_def)
  next
    case (Suc n)
    then obtain fs' where fs': "ofold (\<lambda>i fs. obind (get_index contents i)
        (\<lambda>content. write_file denied (p @ [?name i]) content fs)) [0..<n] fs = Done fs'"
        "holds_exactly fs' p ?name (take n contents)" "\<forall>q. \<not> strict_prefix p q \<longrightarrow> fs' q = fs q" "fs_ok fs'"
      by auto
    let ?p = "p @ [?name n]"
    have none: "fs' ?p = None"
    proof (rule ccontr)
      assume "fs' ?p \<noteq> None"
      moreover have "strict_prefix p ?p" by simp
      ultimately have "\<exists>i < length (take n contents). ?p = p @ [?name i]"
        using fs'(2) unfolding holds_exactly_def by blast
      then show False using Suc.prems by simp
    qed
    then have "write_file denied ?p (contents ! n) fs' = Done (fs'(?p \<mapsto> FileNode (contents ! n)))"
      using fs'(2) assms(4) by (simp add: write_file_def holds_exactly_def is_dir_def)
    moreover have "fs_ok (fs'(?p \<mapsto> FileNode (contents ! n)))"
      using fs_ok_write [OF fs'(4) _ none] fs'(2) by (simp add: holds_exactly_def)
    moreover have "holds_exactly (fs'(?p \<mapsto> FileNode (contents ! n))) p ?name (take (Suc n) contents)"
      using fs'(2) Suc.prems unfolding holds_exactly_def is_dir_def
      by (auto simp: less_Suc_eq min_def)
    moreover have "\<forall>q. \<not> strict_prefix p q \<longrightarrow> (fs'(?p \<mapsto> FileNode (contents ! n))) q = fs q"
      using fs'(3) by auto
    ultimately show ?case using fs'(1) Suc.prems by (simp add: ofold_append)
  qed
  from this [of "length contents"] show ?thesis by (simp add: write_to_files_def)
qed

lemma remove_test_file:
  assumes "fs_ok fs" "no_file_above fs p" "\<forall>p. \<not> denied p"
  defines "fs1 \<equiv> if is_file fs p then fs(p := None) else fs"
  shows "(if is_file fs p then remove_file denied p fs else Done fs) = Done fs1" "fs_ok fs1"
    "no_file_above fs1 (p @ [a])" "\<And>q. q \<noteq> p \<Longrightarrow> fs1 q = fs q"
proof -
  show "(if is_file fs p then remove_file denied p fs else Done fs) = Done fs1" "\<And>q. q \<noteq> p \<Longrightarrow> fs1 q = fs q"
    using assms(3) by (simp_all add: fs1_def remove_file_def)
  have "fs1 r = Some DirNode" if "fs1 q \<noteq> None" "strict_prefix r q" for r q
  proof -
    have "fs q \<noteq> None" using that(1) by (auto simp: fs1_def split: if_splits)
    then have "fs r = Some DirNode" using fs_ok_below [OF assms(1) that(2)] by argo
    then show ?thesis by (auto simp: fs1_def is_file_def)
  qed
  moreover have "fs1 [] = Some DirNode"
    using assms(1) by (auto simp: fs_ok_def fs1_def is_file_def)
  ultimately show "fs_ok fs1" unfolding fs_ok_def by blast
  show "no_file_above fs1 (p @ [a])"
    using assms(2) unfolding no_file_above_def fs1_def
    by (auto simp: is_file_def strict_prefix_def prefix_snoc split: option.splits node.splits)
qed

lemma emptied_dir: "is_dir (emptied p fs) p" "strict_prefix p q \<Longrightarrow> emptied p fs q = None"
  by (auto simp: emptied_def is_dir_def strict_prefix_def dest: prefix_order.antisym)

lemma fill_dir:
  assumes "fs_ok fs" "no_file_above fs p" "\<forall>p. \<not> denied p"
  shows "\<exists>fs'. obind (ensure_empty_dir denied p fs) (write_to_files denied crate p contents prfx) = Done fs' \<and>
     fs_ok fs' \<and> holds_exactly fs' p (file_name prfx crate) contents \<and>
     (\<forall>q. \<not> strict_prefix p q \<longrightarrow> fs' q = emptied p fs q)"
  using write_to_files_ok [OF emptied_ok [OF assms(1,2)] emptied_dir, where denied = denied] assms(3)
  by (simp add: ensure_empty_dir_ok [OF assms])

lemma holds_frame:
  assumes "holds_exactly fs p name contents" "\<And>q. prefix p q \<Longrightarrow> fs' q = fs q"
  shows "holds_exactly fs' p name contents"
proof -
  have "fs' (p @ [name i]) = fs (p @ [name i])" "fs' p = fs p" for i using assms(2) by auto
  then show ?thesis
    using assms unfolding holds_exactly_def is_dir_def strict_prefix_def by metis
qed

definition untouched :: "path list \<Rightarrow> path \<Rightarrow> bool" where
  "untouched ps q \<longleftrightarrow> list_all (\<lambda>p. \<not> prefix p q \<and> \<not> prefix q p) ps"

lemma parallel_below: "p \<parallel> r \<Longrightarrow> prefix p q \<Longrightarrow> \<not> prefix r q \<and> \<not> prefix q r"
  by (meson parallel_def prefix_order.trans prefix_same_cases)

lemma fill_two_dirs:
  assumes ok: "fs_ok fs" and above: "no_file_above fs p" "no_file_above fs r" and den: "\<forall>p. \<not> denied p"
    and par: "p \<parallel> r"
  shows "\<exists>fs'. obind (ensure_empty_dir denied p fs) (\<lambda>fs. obind (ensure_empty_dir denied r fs) (\<lambda>fs.
       obind (write_to_files denied crate p cp np fs) (write_to_files denied crate r cr nr))) = Done fs' \<and>
     fs_ok fs' \<and> holds_exactly fs' p (file_name np crate) cp \<and> holds_exactly fs' r (file_name nr crate) cr \<and>
     (\<forall>q. untouched [p, r] q \<longrightarrow> fs' q = fs q)"
proof -
  have "r \<parallel> p" using par by (simp add: parallel_def)
  note sib = parallel_below [OF par] parallel_below [OF this]
  define fs2 where "fs2 = emptied p fs"
  define fs3 where "fs3 = emptied r fs2"
  have "no_file_above fs2 r"
    using above(2) sib(1) par by (auto simp: no_file_above_def is_file_def fs2_def emptied_def strict_prefix_def)
  then have steps: "ensure_empty_dir denied p fs = Done fs2" "ensure_empty_dir denied r fs2 = Done fs3" "fs_ok fs3"
    using ensure_empty_dir_ok [OF ok above(1) den]
      ensure_empty_dir_ok [OF emptied_ok [OF ok above(1), folded fs2_def] _ den]
      emptied_ok [OF emptied_ok [OF ok above(1), folded fs2_def]]
    by (simp_all add: fs2_def fs3_def)
  have same: "fs3 q = fs2 q" if "prefix p q" for q using sib(1) [OF that] by (simp add: fs3_def emptied_def)
  obtain fs4 where fs4: "write_to_files denied crate p cp np fs3 = Done fs4"
      "holds_exactly fs4 p (file_name np crate) cp" "\<And>q. \<not> strict_prefix p q \<Longrightarrow> fs4 q = fs3 q" "fs_ok fs4"
    using write_to_files_ok [OF steps(3), of p denied crate cp np] emptied_dir [where p = p and fs = fs] same den
    by (auto simp: fs2_def [symmetric] is_dir_def strict_prefix_def)
  have same4: "fs4 q = fs3 q" if "prefix r q" for q
    using sib(2) [OF that] by (intro fs4(3)) (simp add: strict_prefix_def)
  obtain fs5 where fs5: "write_to_files denied crate r cr nr fs4 = Done fs5"
      "holds_exactly fs5 r (file_name nr crate) cr" "\<And>q. \<not> strict_prefix r q \<Longrightarrow> fs5 q = fs4 q" "fs_ok fs5"
    using write_to_files_ok [OF fs4(4), of r denied crate cr nr] emptied_dir [where p = r and fs = fs2] same4 den
    by (auto simp: fs3_def [symmetric] is_dir_def strict_prefix_def)
  have "holds_exactly fs5 p (file_name np crate) cp"
    using fs4(2) by (rule holds_frame) (use fs5(3) sib(1) in \<open>auto simp: strict_prefix_def\<close>)
  moreover have "fs5 q = fs q" if "untouched [p, r] q" for q
    using that fs4(3) [of q] fs5(3) [of q]
    by (simp add: untouched_def fs2_def fs3_def emptied_def strict_prefix_def)
  ultimately show ?thesis using steps fs4(1) fs5(1,2,4) by auto
qed

lemma write_files_lemma:
  assumes "fs_ok fs" "no_file_above fs (path_from (test_dir h))" "\<forall>p. \<not> denied p"
  shows "\<exists>fs'. write_files denied h fs = Done fs' \<and> fs_ok fs' \<and>
     holds_exactly fs' (path_from (test_dir h) @ [test_file_dir])
       (file_name ''test'' (fh_crate_name h)) (test_files h) \<and>
     holds_exactly fs' (path_from (test_dir h) @ [reproduce_file_dir])
       (file_name ''replay'' (fh_crate_name h)) (reproduce_files h) \<and>
     (\<forall>q. untouched [path_from (test_dir h) @ [test_file_dir], path_from (test_dir h) @ [reproduce_file_dir]] q \<longrightarrow>
        fs' q = fs q)"
proof -
  let ?dir = "path_from (test_dir h)"
  define fs1 where "fs1 = (if is_file fs ?dir then fs(?dir := None) else fs)"
  note fs1 = remove_test_file [OF assms, folded fs1_def]
  have "?dir @ [test_file_dir] \<parallel> ?dir @ [reproduce_file_dir]"
    by (simp add: parallel_def test_file_dir_def reproduce_file_dir_def prefix_def)
  from fill_two_dirs [OF fs1(2,3,3) assms(3) this, of "fh_crate_name h" "test_files h" "''test''" "reproduce_files h"
      "''replay''"]
  obtain fs' where fs': "obind (ensure_empty_dir denied (?dir @ [test_file_dir]) fs1) (\<lambda>fs.
        obind (ensure_empty_dir denied (?dir @ [reproduce_file_dir]) fs) (\<lambda>fs.
        obind (write_to_files denied (fh_crate_name h) (?dir @ [test_file_dir]) (test_files h) ''test'' fs)
          (write_to_files denied (fh_crate_name h) (?dir @ [reproduce_file_dir]) (reproduce_files h) ''replay''))) = Done fs'"
      "fs_ok fs'" "holds_exactly fs' (?dir @ [test_file_dir]) (file_name ''test'' (fh_crate_name h)) (test_files h)"
      "holds_exactly fs' (?dir @ [reproduce_file_dir]) (file_name ''replay'' (fh_crate_name h)) (reproduce_files h)"
      "\<forall>q. untouched [?dir @ [test_file_dir], ?dir @ [reproduce_file_dir]] q \<longrightarrow> fs' q = fs1 q"
    by blast
  have "write_files denied h fs = Done fs'"
    using fs'(1) unfolding write_files_def Let_def fs1(1) obind.simps .
  moreover have "fs' q = fs q" if "untouched [?dir @ [test_file_dir], ?dir @ [reproduce_file_dir]] q" for q
  proof -
    have "q \<noteq> ?dir" using that by (auto simp: untouched_def)
    then show ?thesis using fs'(5) fs1(4) that by simp
  qed
  ultimately show ?thesis using fs'(2-4) by blast
qed

text \<open>
  C27: writing the targets of a crate leaves exactly them in its two directories: whatever was
  there is gone, file \<open>i\<close> has the name \<open>test_<crate><i>.rs\<close> or \<open>replay_<crate><i>.rs\<close> and the \<open>i\<close>-th
  text, and no path outside the two directories and those above them changes. It needs that no
  directory above is a file and that the system denies nothing.
\<close>

theorem write_files_exact:
  assumes "fs_ok fs" "no_file_above fs (path_from (test_dir h))" "\<forall>p. \<not> denied p"
  shows "\<exists>fs'. write_files denied h fs = Done fs' \<and> fs_ok fs' \<and>
     holds_exactly fs' (path_from (test_dir h) @ [test_file_dir])
       (file_name ''test'' (fh_crate_name h)) (test_files h) \<and>
     holds_exactly fs' (path_from (test_dir h) @ [reproduce_file_dir])
       (file_name ''replay'' (fh_crate_name h)) (reproduce_files h) \<and>
     (\<forall>q. untouched [path_from (test_dir h) @ [test_file_dir], path_from (test_dir h) @ [reproduce_file_dir]] q \<longrightarrow>
        fs' q = fs q)"
  by (rule write_files_lemma [OF assms])

section \<open>The targets of a graph are written for its sequences\<close>

definition target_texts ::
  "file_orders \<Rightarrow> (primitive_type \<Rightarrow> def_id option) \<Rightarrow> api_graph \<Rightarrow> api_sequence list \<Rightarrow> file_helper \<Rightarrow> bool" where
  "target_texts ords pl g cs h \<longleftrightarrow>
     length (test_files h) = min max_test_file_number (length cs) \<and>
     length (reproduce_files h) = length (test_files h) \<and> length (libfuzzer_files h) = length (test_files h) \<and>
     (\<forall>i < length (test_files h).
        to_afl_test_file (fst (ords i)) pl g i (cs ! i) = Done (test_files h ! i) \<and>
        to_replay_crash_file (fst (snd (ords i))) pl g i (cs ! i) = Done (reproduce_files h ! i) \<and>
        to_libfuzzer_test_file (snd (snd (ords i))) pl g i (cs ! i) = Done (libfuzzer_files h ! i))"

lemma target_files_ok:
  assumes "list_all (in_range g) cs" "n \<le> max_test_file_number"
  shows "\<exists>st ts rs ls. target_files ords pl g cs (n, ts0, rs0, ls0) = Done (st, ts0 @ ts, rs0 @ rs, ls0 @ ls) \<and>
     length ts = min (max_test_file_number - n) (length cs) \<and> length rs = length ts \<and> length ls = length ts \<and>
     (\<forall>i < length ts. to_afl_test_file (fst (ords (n + i))) pl g (n + i) (cs ! i) = Done (ts ! i) \<and>
        to_replay_crash_file (fst (snd (ords (n + i)))) pl g (n + i) (cs ! i) = Done (rs ! i) \<and>
        to_libfuzzer_test_file (snd (snd (ords (n + i)))) pl g (n + i) (cs ! i) = Done (ls ! i))"
  using assms
proof (induction cs arbitrary: n ts0 rs0 ls0)
  case (Cons c cs)
  show ?case
  proof (cases "n = max_test_file_number")
    case True
    then show ?thesis by simp
  next
    case False
    then have n: "n < max_test_file_number" using Cons.prems(2) by simp
    obtain o1 o2 o3 where o: "ords n = (o1, o2, o3)" by (cases "ords n")
    have c: "in_range g c" using Cons.prems(1) by simp
    obtain t r l where trl: "to_afl_test_file o1 pl g n c = Done t" "to_replay_crash_file o2 pl g n c = Done r"
        "to_libfuzzer_test_file o3 pl g n c = Done l"
      using target_done(3-5) [OF c] by metis
    obtain st ts rs ls where IH: "target_files ords pl g cs (Suc n, ts0 @ [t], rs0 @ [r], ls0 @ [l]) =
          Done (st, (ts0 @ [t]) @ ts, (rs0 @ [r]) @ rs, (ls0 @ [l]) @ ls)"
        "length ts = min (max_test_file_number - Suc n) (length cs)" "length rs = length ts" "length ls = length ts"
        "\<And>i. i < length ts \<Longrightarrow> to_afl_test_file (fst (ords (Suc n + i))) pl g (Suc n + i) (cs ! i) = Done (ts ! i) \<and>
          to_replay_crash_file (fst (snd (ords (Suc n + i)))) pl g (Suc n + i) (cs ! i) = Done (rs ! i) \<and>
          to_libfuzzer_test_file (snd (snd (ords (Suc n + i)))) pl g (Suc n + i) (cs ! i) = Done (ls ! i)"
      using Cons.IH [of "Suc n" "ts0 @ [t]" "rs0 @ [r]" "ls0 @ [l]"] Cons.prems(1) n by auto
    have "target_files ords pl g (c # cs) (n, ts0, rs0, ls0) = Done (st, ts0 @ t # ts, rs0 @ r # rs, ls0 @ l # ls)"
      using n IH(1) by (simp add: o trl)
    moreover have "to_afl_test_file (fst (ords (n + i))) pl g (n + i) ((c # cs) ! i) = Done ((t # ts) ! i) \<and>
        to_replay_crash_file (fst (snd (ords (n + i)))) pl g (n + i) ((c # cs) ! i) = Done ((r # rs) ! i) \<and>
        to_libfuzzer_test_file (snd (snd (ords (n + i)))) pl g (n + i) ((c # cs) ! i) = Done ((l # ls) ! i)"
      if "i < length (t # ts)" for i
      using that IH(5) [of "i - 1"] by (cases i) (simp_all add: o trl)
    moreover have "length (t # ts) = min (max_test_file_number - n) (length (c # cs))" using IH(2) n by simp
    ultimately show ?thesis using IH(3,4) by (metis length_Cons)
  qed
qed simp

text \<open>The sequences the heuristic makes targets of, with what is known of them.\<close>

definition chosen :: "api_graph \<Rightarrow> api_sequence list \<Rightarrow> bool" where
  "chosen g cs \<longleftrightarrow> heuristic_choose max_test_file_number True g = Done cs \<and>
     (\<exists>is. cs = map (seq_at g) is \<and> choice_list_ok g is \<and> (length is < max_test_file_number \<longrightarrow> covers_all g is))"

definition random_file_number :: "string \<Rightarrow> nat" where
  "random_file_number name =
     (case map_of random_test_file_numbers name of Some n \<Rightarrow> n | None \<Rightarrow> default_random_file_number)"

lemma heuristic_chosen:
  assumes "list_all (wf_sequence g) (api_sequences g)"
  obtains cs where "chosen g cs"
  using heuristic_choose_lemma [OF assms, of max_test_file_number True] by (auto simp: chosen_def)

lemma chosen_fuzzable:
  assumes "chosen g cs"
  shows "set cs \<subseteq> set (api_sequences g)" "list_all (\<lambda>s. fuzzable_params s \<noteq> []) cs"
proof -
  obtain "is" where i: "cs = map (seq_at g) is" "set is \<subseteq> ready_indexes g"
    using assms by (auto simp: chosen_def choice_list_ok_def)
  then have "i < length (api_sequences g) \<and> fuzzable_params (seq_at g i) \<noteq> []" if "i \<in> set is" for i
    using that by (auto simp: ready_indexes_def fuzz_ready_def)
  then show "set cs \<subseteq> set (api_sequences g)" "list_all (\<lambda>s. fuzzable_params s \<noteq> []) cs"
    by (auto simp: i(1) list_all_iff)
qed

lemma file_helper_new_ok:
  assumes wf: "list_all (wf_sequence g) (api_sequences g)" and can: "can_write_to_file (crate_name g) random"
  shows "\<exists>h cs. file_helper_new ords pl random g = Done h \<and> fh_crate_name h = crate_name g \<and>
     map_of (if random then random_test_dir else crate_test_dir) (crate_name g) = Some (test_dir h) \<and>
     target_texts ords pl g cs h \<and> set cs \<subseteq> set (api_sequences g) \<and> list_all (\<lambda>s. fuzzable_params s \<noteq> []) cs \<and>
     (if random then cs = first_choose (random_file_number (crate_name g)) g else chosen g cs)"
proof -
  obtain dir where dir: "map_of (if random then random_test_dir else crate_test_dir) (crate_name g) = Some dir"
    using can by (auto simp: can_write_to_file_def split: if_splits)
  let ?size = "random_file_number (crate_name g)"
  obtain cs where cs: "(if \<not> random then heuristic_choose max_test_file_number True g
        else Done (first_choose ?size g)) = Done cs" "set cs \<subseteq> set (api_sequences g)"
      "list_all (\<lambda>s. fuzzable_params s \<noteq> []) cs" "if random then cs = first_choose ?size g else chosen g cs"
  proof (cases random)
    case True
    have "set (first_choose ?size g) \<subseteq> set (api_sequences g)"
      "list_all (\<lambda>s. fuzzable_params s \<noteq> []) (first_choose ?size g)"
      by (auto simp: first_choose_eq list_all_iff dest!: in_set_takeD)
    then show ?thesis using that [of "first_choose ?size g"] True by auto
  next
    case False
    obtain cs where "chosen g cs" using heuristic_chosen [OF wf] .
    then show ?thesis using that [of cs] False chosen_fuzzable by (auto simp: chosen_def)
  qed
  have "list_all (in_range g) cs" using wf cs(2) wf_in_range by (auto simp: list_all_iff)
  from target_files_ok [OF this, of 0 ords pl "[]" "[]" "[]"] obtain st ts rs ls where
    t: "target_files ords pl g cs (0, [], [], []) = Done (st, ts, rs, ls)"
      "target_texts ords pl g cs \<lparr>fh_crate_name = crate_name g, test_dir = dir, test_files = ts,
         reproduce_files = rs, libfuzzer_files = ls\<rparr>"
    by (auto simp: target_texts_def)
  have "file_helper_new ords pl random g = Done \<lparr>fh_crate_name = crate_name g, test_dir = dir, test_files = ts,
      reproduce_files = rs, libfuzzer_files = ls\<rparr>"
    using dir cs(1) t(1) by (cases random) (simp_all add: file_helper_new_def random_file_number_def Let_def)
  with dir cs t(2) show ?thesis by auto
qed

text \<open>
  C26: for a graph of well-formed sequences whose crate is in the table, \<open>FileHelper::new\<close> returns
  without panic at most 300 targets; each sequence it has chosen has inputs to fuzz, and target
  \<open>i\<close> is the fuzz target, the replay program and the libFuzzer target of the \<open>i\<close>-th chosen sequence.
  The sequences are those that the heuristic returns, or in the random mode the first ones found;
  with the heuristic, fewer than 300 sequences cover all functions that can be covered or all edges.
\<close>

theorem file_helper_new_correct:
  assumes "list_all (wf_sequence g) (api_sequences g)" "can_write_to_file (crate_name g) random"
  shows "\<exists>h cs. file_helper_new ords pl random g = Done h \<and> fh_crate_name h = crate_name g \<and>
     map_of (if random then random_test_dir else crate_test_dir) (crate_name g) = Some (test_dir h) \<and>
     target_texts ords pl g cs h \<and> set cs \<subseteq> set (api_sequences g) \<and> list_all (\<lambda>s. fuzzable_params s \<noteq> []) cs \<and>
     (if random then cs = first_choose (random_file_number (crate_name g)) g else chosen g cs)"
  using assms by (rule file_helper_new_ok)

definition example_url :: api_graph where
  "example_url = example_found\<lparr>crate_name := ''url''\<rparr>"

lemma example_url_wf: "list_all (wf_sequence example_url) (api_sequences example_url)"
proof -
  have fields: "api_functions (g\<lparr>crate_name := c\<rparr>) = api_functions g" "graph_names (g\<lparr>crate_name := c\<rparr>) = graph_names g"
    "api_dependencies (g\<lparr>crate_name := c\<rparr>) = api_dependencies g" for g :: api_graph and c
    by simp_all
  have "wf_sequence (g\<lparr>crate_name := c\<rparr>) s = wf_sequence g s" for g :: api_graph and c s
    unfolding wf_sequence_def call_ok_def param_ok_def call_tags_ok_def seq_accesses_def fields by (rule refl)
  then show ?thesis using example_found_wf by (simp add: example_url_def list_all_iff)
qed

definition example_orders :: file_orders where
  "example_orders = (\<lambda>_. let ord = \<lparr>gate_helper_order = rev, gate_order = rev, prelude_order = rev, helper_order = rev\<rparr>
     in (ord, ord, ord))"

theorem file_helper_new_correct_witness:
  "\<exists>h cs. file_helper_new example_orders (\<lambda>_. None) False example_url = Done h \<and>
     test_dir h = ''/home/jjf/afl_fast_work/url_afl_work'' \<and> target_texts example_orders (\<lambda>_. None) example_url cs h"
  using file_helper_new_correct [OF example_url_wf, of False example_orders "\<lambda>_. None"]
  by (auto simp: can_write_to_file_def example_url_def crate_test_dir_def)

definition example_fs :: file_system where
  "example_fs = [[] \<mapsto> DirNode, [''home''] \<mapsto> DirNode]"

lemma example_fs_ok: "fs_ok example_fs"
  by (auto simp: fs_ok_def example_fs_def strict_prefix_def prefix_def Cons_eq_append_conv split: if_splits)

lemma example_fs_no_file: "no_file_above example_fs p"
  by (simp add: no_file_above_def is_file_def example_fs_def)

theorem write_files_exact_witness:
  "\<exists>fs'. write_files (\<lambda>_. False) \<lparr>fh_crate_name = ''url'', test_dir = ''/home/w'', test_files = [''a'', ''b''],
       reproduce_files = [''r''], libfuzzer_files = []\<rparr> example_fs = Done fs' \<and>
     fs' [''home'', ''w'', ''test_files'', ''test_url1.rs''] = Some (FileNode ''b'') \<and>
     fs' [''home'', ''w'', ''replay_files'', ''replay_url0.rs''] = Some (FileNode ''r'')"
proof -
  let ?h = "\<lparr>fh_crate_name = ''url'', test_dir = ''/home/w'', test_files = [''a'', ''b''],
       reproduce_files = [''r''], libfuzzer_files = []\<rparr>"
  have path: "path_from ''/home/w'' = [''home'', ''w'']"
    by (simp add: path_from_def str_split_def starts_with_def)
  have names: "file_name ''test'' ''url'' 1 = ''test_url1.rs''" "file_name ''replay'' ''url'' 0 = ''replay_url0.rs''"
    by (simp_all add: file_name_def nat_to_string.simps digit_char_def char_of_def bit_0)
  obtain fs' where w: "write_files (\<lambda>_. False) ?h example_fs = Done fs'"
      and t: "holds_exactly fs' [''home'', ''w'', test_file_dir] (file_name ''test'' ''url'') [''a'', ''b'']"
      and r: "holds_exactly fs' [''home'', ''w'', reproduce_file_dir] (file_name ''replay'' ''url'') [''r'']"
    using write_files_exact [OF example_fs_ok example_fs_no_file, of "\<lambda>_. False" ?h] by (auto simp: path)
  have "fs' [''home'', ''w'', test_file_dir, file_name ''test'' ''url'' 1] = Some (FileNode ''b'')"
    using t unfolding holds_exactly_def by (metis One_nat_def append_Cons append_Nil length_Cons lessI list.size(3) nth_Cons_0 nth_Cons_Suc)
  moreover have "fs' [''home'', ''w'', reproduce_file_dir, file_name ''replay'' ''url'' 0] = Some (FileNode ''r'')"
    using r unfolding holds_exactly_def by simp
  ultimately show ?thesis
    using w unfolding names test_file_dir_def reproduce_file_dir_def by blast
qed

text \<open>The libFuzzer targets go to a directory of their own.\<close>

lemma write_libfuzzer_files_ok:
  assumes dir: "map_of libfuzzer_fuzz_target_dir (fh_crate_name h) = Some dir"
    and "fs_ok fs" "no_file_above fs (path_from dir)" "\<forall>p. \<not> denied p"
  shows "\<exists>fs'. write_libfuzzer_files denied h fs = Done fs' \<and> fs_ok fs' \<and>
     holds_exactly fs' (path_from dir @ [libfuzzer_dir_name])
       (file_name ''fuzz_target'' (fh_crate_name h)) (libfuzzer_files h) \<and>
     (\<forall>q. untouched [path_from dir @ [libfuzzer_dir_name]] q \<longrightarrow> fs' q = fs q)"
proof -
  define fs1 where "fs1 = (if is_file fs (path_from dir) then fs(path_from dir := None) else fs)"
  note fs1 = remove_test_file [OF assms(2-4), folded fs1_def]
  from fill_dir [OF fs1(2,3) assms(4), of libfuzzer_dir_name "fh_crate_name h" "libfuzzer_files h" "''fuzz_target''"]
    fs1(1,4) show ?thesis
    by (force simp: write_libfuzzer_files_def dir Let_def untouched_def emptied_def strict_prefix_def)
qed

end
