(* ===== verification/Print_Message.thy ===== *)
theory Print_Message
  imports Target_Function
begin

text \<open>
  \<^verbatim>\<open>fuzz_target/print_message.rs\<close>: the messages about a graph, each the list of the lines printed. The
  text of \<open>{:?}\<close> for a call type comes from a derived \<open>Debug\<close> instance and is a parameter.
\<close>

section \<open>Definitions\<close>

text \<open>
  \<open>{:?}\<close> of a string: in quotes, quotes, backslashes and line ends escaped. The strings printed are
  paths, which have no other characters that are escaped.
\<close>

definition debug_char :: "char \<Rightarrow> string" where
  "debug_char c =
     (if c = CHR 0x22 then [CHR 0x5C, CHR 0x22]
      else if c = CHR 0x5C then [CHR 0x5C, CHR 0x5C]
      else if c = CHR 0x0A then [CHR 0x5C, CHR ''n'']
      else if c = CHR 0x0D then [CHR 0x5C, CHR ''r'']
      else if c = CHR 0x09 then [CHR 0x5C, CHR ''t'']
      else [c])"

definition debug_string :: "string \<Rightarrow> string" where
  "debug_string s = quote (concat (map debug_char s))"

definition print_pretty_sequences :: "api_graph \<Rightarrow> string list outcome" where
  "print_pretty_sequences g =
     ofold (\<lambda>api_sequence out.
         obind (ofold (\<lambda>api_call one_sequence.
             (case func api_call of (ApiBareFunction, i) \<Rightarrow>
                obind (get_index (api_functions g) i) (\<lambda>f. Done (one_sequence @ full_name f @ '' ''))))
           (seq_functions api_sequence) '''') (\<lambda>one_sequence.
         Done (out @ [debug_string one_sequence])))
       (api_sequences g) [''sequences:'']"

definition print_pretty_functions ::
  "(primitive_type \<Rightarrow> def_id option) \<Rightarrow> bool \<Rightarrow> api_graph \<Rightarrow> string list outcome" where
  "print_pretty_functions pl check_visited g =
     ofold (\<lambda>i out.
         obind (if check_visited then get_index (api_functions_visited g) i else Done False) (\<lambda>skip.
           if skip then Done out
           else obind (get_index (api_functions g) i) (\<lambda>api_function.
             Done (out @ [nat_to_string i @ '':'' @ pretty_print pl (graph_names g) api_function]))))
       [0..<length (api_functions g)] [''functions'']"

definition print_pretty_dependencies :: "(call_type \<Rightarrow> string) \<Rightarrow> api_graph \<Rightarrow> string list outcome" where
  "print_pretty_dependencies debug_call_type g =
     ofold (\<lambda>dependency out.
         (case (output_fun dependency, input_fun dependency) of
            ((ApiBareFunction, output_index), (ApiBareFunction, input_index)) \<Rightarrow>
              obind (get_index (api_functions g) output_index) (\<lambda>output_fun.
              obind (get_index (api_functions g) input_index) (\<lambda>input_fun.
                let res = full_name output_fun @ '' '' @ full_name input_fun @ '' '' @
                      nat_to_string (input_param_index dependency) @ '' ''
                in Done (out @ [debug_string res @ debug_call_type (dep_call_type dependency)])))))
       (api_dependencies g)
       [''dependencies:'', ''function number: '' @ nat_to_string (length (api_functions g))]"

definition print_generated ::
  "(nat \<Rightarrow> api_sequence \<Rightarrow> string outcome) \<Rightarrow> string \<Rightarrow> api_graph \<Rightarrow> string list outcome" where
  "print_generated gen title g =
     ofold (\<lambda>i out. obind (get_index (api_sequences g) i) (\<lambda>api_sequence.
         obind (gen i api_sequence) (\<lambda>t. Done (out @ [t]))))
       [0..<length (api_sequences g)] [title]"

definition print_generated_test_functions ::
  "(primitive_type \<Rightarrow> def_id option) \<Rightarrow> api_graph \<Rightarrow> string list outcome" where
  "print_generated_test_functions pl g =
     print_generated (\<lambda>i. to_well_written_function pl g i 0) ''test_functions:'' g"

definition print_generated_afl_file ::
  "(nat \<Rightarrow> hash_orders) \<Rightarrow> (primitive_type \<Rightarrow> def_id option) \<Rightarrow> api_graph \<Rightarrow> string list outcome" where
  "print_generated_afl_file ords pl g =
     print_generated (\<lambda>i. to_afl_test_file (ords i) pl g i) ''afl_files:'' g"

definition print_generated_libfuzzer_file ::
  "(nat \<Rightarrow> hash_orders) \<Rightarrow> (primitive_type \<Rightarrow> def_id option) \<Rightarrow> api_graph \<Rightarrow> string list outcome" where
  "print_generated_libfuzzer_file ords pl g =
     print_generated (\<lambda>i. to_libfuzzer_test_file (ords i) pl g i) ''libfuzzer files'' g"

definition print_generic_functions :: "api_graph \<Rightarrow> string list" where
  "print_generic_functions g =
     ''generic functions'' # map (\<lambda>f. full_name (gf_api_function f)) (generic_functions g)"

section \<open>Messages about well-formed graphs\<close>

lemma ofold_lines:
  assumes "\<And>x out. x \<in> set xs \<Longrightarrow> f x out = Done (out @ g x)"
  shows "ofold f xs out = Done (out @ concat (map g xs))"
  using assms by (induction xs arbitrary: out) auto

lemma sequence_line:
  assumes "\<forall>c \<in> set cs. snd (func c) < length (api_functions g)"
  shows "ofold (\<lambda>api_call one_sequence. (case func api_call of (ApiBareFunction, i) \<Rightarrow>
        obind (get_index (api_functions g) i) (\<lambda>f. Done (one_sequence @ full_name f @ '' '')))) cs '''' =
     Done (concat (map (\<lambda>c. full_name (called g c) @ '' '') cs))"
proof -
  have "(case func c of (ApiBareFunction, i) \<Rightarrow> obind (get_index (api_functions g) i)
      (\<lambda>f. Done (out @ full_name f @ '' ''))) = Done (out @ full_name (called g c) @ '' '')" if "c \<in> set cs" for c out
    using assms that by (cases "func c") (auto split: api_type.split)
  from ofold_lines [where f = "\<lambda>c out. (case func c of (ApiBareFunction, i) \<Rightarrow>
      obind (get_index (api_functions g) i) (\<lambda>f. Done (out @ full_name f @ '' '')))", OF this]
  show ?thesis by simp
qed

lemma print_pretty_sequences_eq:
  assumes "list_all (in_range g) (api_sequences g)"
  shows "print_pretty_sequences g =
     Done (''sequences:'' # map (\<lambda>s. debug_string (concat (map (\<lambda>c. full_name (called g c) @ '' '') (seq_functions s))))
       (api_sequences g))"
proof -
  have "\<forall>c \<in> set (seq_functions s). snd (func c) < length (api_functions g)" if "s \<in> set (api_sequences g)" for s
    using assms that by (auto simp: list_all_iff in_range_def call_in_range_def)
  note line = sequence_line [OF this]
  show ?thesis
    unfolding print_pretty_sequences_def
    by (subst ofold_lines [where g = "\<lambda>s. [debug_string (concat (map (\<lambda>c. full_name (called g c) @ '' '') (seq_functions s)))]"])
      (simp_all add: line concat_map_singleton)
qed

lemma print_unvisited_eq:
  assumes "length (api_functions_visited g) = length (api_functions g)"
  shows "print_pretty_functions pl True g =
     Done (''functions'' # map (\<lambda>i. nat_to_string i @ '':'' @ pretty_print pl (graph_names g) (api_functions g ! i))
       (filter (\<lambda>i. \<not> api_functions_visited g ! i) [0..<length (api_functions g)]))"
proof -
  have "concat (map (\<lambda>i. if v i then [] else [h i]) xs) = map h (filter (\<lambda>i. \<not> v i) xs)" for v and h :: "nat \<Rightarrow> string" and xs
    by (induction xs) auto
  then show ?thesis
    unfolding print_pretty_functions_def
    by (subst ofold_lines [where g = "\<lambda>i. if api_functions_visited g ! i then []
        else [nat_to_string i @ '':'' @ pretty_print pl (graph_names g) (api_functions g ! i)]"])
      (simp_all add: assms)
qed

lemma print_generated_done:
  assumes "list_all (in_range g) (api_sequences g)"
  shows "\<exists>ls. print_generated_test_functions pl g = Done ls" "\<exists>ls. print_generated_afl_file ords pl g = Done ls"
    "\<exists>ls. print_generated_libfuzzer_file ords pl g = Done ls"
proof -
  have loop: "\<exists>ls. print_generated gen title g = Done ls" if "\<And>i s. in_range g s \<Longrightarrow> \<exists>t. gen i s = Done t" for gen title
    unfolding print_generated_def
  proof (rule ofold_inv [of _ "\<lambda>_. True", simplified])
    fix i out assume "i \<in> set [0..<length (api_sequences g)]"
    then have i: "i < length (api_sequences g)" by simp
    then have "in_range g (api_sequences g ! i)" using assms by (simp add: list_all_length)
    from that [OF this] obtain t where "gen i (api_sequences g ! i) = Done t" by blast
    with i show "\<exists>s'. obind (get_index (api_sequences g) i) (\<lambda>api_sequence. obind (gen i api_sequence)
        (\<lambda>t. Done (out @ [t]))) = Done s'" by simp
  qed
  show "\<exists>ls. print_generated_test_functions pl g = Done ls" "\<exists>ls. print_generated_afl_file ords pl g = Done ls"
    "\<exists>ls. print_generated_libfuzzer_file ords pl g = Done ls"
    unfolding print_generated_test_functions_def print_generated_afl_file_def print_generated_libfuzzer_file_def
    by (rule loop, rule target_done, assumption)+
qed

end
