(* ===== verification/Fuzz_Run.thy ===== *)
theory Fuzz_Run
  imports Pass_Pipeline Graph_Cover Sequence_Sound File_Util Print_Message
begin

text \<open>
  The run of the generator on a crate (\<^verbatim>\<open>html/render.rs\<close>, \<open>fuzz_target_run_clean_krate\<close>): the steps
  from the crate, as the passes leave it, through the documentation cache to the files of the
  targets. The HTML files the function writes besides them (\<open>sources::render\<close>, \<open>write_shared\<close>) and
  the errors of writing them are left out.
\<close>

section \<open>Definitions\<close>

text \<open>
  What a run depends on besides the crate: the arguments of the cache, iteration orders, random
  numbers, the file system. \<open>table_order\<close> puts the tables of the cache in the order they are
  iterated in.
\<close>

record run_env =
  doc_env :: cache_env
  table_order :: "doc_cache \<Rightarrow> doc_cache"
  mod_order :: "(string \<times> visibility) list \<Rightarrow> (string \<times> visibility) list"
  known_order :: "(string \<times> bool) list \<Rightarrow> (string \<times> bool) list"
  node_order :: "nat list \<Rightarrow> nat list"
  random_numbers :: "nat \<Rightarrow> nat \<Rightarrow> nat"
  text_orders :: file_orders
  denied_paths :: "path \<Rightarrow> bool"

text \<open>
  The graph of the crate: impl blocks, bare functions, the two filters, the dependencies. The impl
  blocks are analysed before the cache is stored in the thread, so the definition ids of primitive
  types are not known there.
\<close>

definition crate_graph :: "run_env \<Rightarrow> doc_cache \<Rightarrow> clean_crate \<Rightarrow> api_graph outcome" where
  "crate_graph env cache k =
     obind (extract_impls_from_cache (\<lambda>_. None) (table_order env cache) fnm_new (graph_new (krate_name k)))
       (\<lambda>(full_name_map, g).
     obind (analyse_clean_krate k g) (\<lambda>g.
     obind (filter_functions (mod_order env, known_order env) g) (\<lambda>g.
       Done (find_all_dependencies g))))"

definition generate_sequences :: "run_env \<Rightarrow> bool \<Rightarrow> api_graph \<Rightarrow> api_graph outcome" where
  "generate_sequences env random_strategy g =
     (if \<not> random_strategy then default_generate_sequences (node_order env) (random_numbers env) g
      else generate_all_possoble_sequences (node_order env) (random_numbers env) RandomWalk g)"

text \<open>The cache is built while the cache of the thread is still empty.\<close>

definition start_env :: "run_env \<Rightarrow> cache_env" where
  "start_env env = (doc_env env)\<lparr>tls_locations := \<lambda>_. None\<rparr>"

text \<open>The lines the function prints itself, and the file system after the run.\<close>

definition fuzz_target_run_clean_krate ::
  "run_env \<Rightarrow> render_info \<Rightarrow> bool \<Rightarrow> clean_crate \<Rightarrow> file_system \<Rightarrow> (string list \<times> file_system) outcome" where
  "fuzz_target_run_clean_krate env renderinfo document_private raw_krate fs =
     obind (from_krate (start_env env) renderinfo document_private raw_krate) (\<lambda>(k, search_index, cache).
     obind (crate_graph env cache k) (\<lambda>g.
     let random_strategy = False
     in obind (generate_sequences env random_strategy g) (\<lambda>g.
     let out = print_generic_functions g @
           [''total functions in crate : '' @ nat_to_string (length (api_functions g))]
     in if can_write_to_file (crate_name g) random_strategy
        then obind (file_helper_new (text_orders env) (cache_primitive_locations cache) random_strategy g) (\<lambda>file_helper.
             obind (write_files (denied_paths env) file_helper fs) (\<lambda>fs.
               if can_generate_libfuzzer_target (crate_name g)
               then obind (write_libfuzzer_files (denied_paths env) file_helper fs) (\<lambda>fs. Done (out, fs))
               else Done (out, fs)))
        else Done (out, fs))))"

section \<open>The graph of a crate\<close>

definition cache_ok :: "doc_cache \<Rightarrow> bool" where
  "cache_ok c \<longleftrightarrow> distinct (map fst (cache_paths c)) \<and> distinct (map fst (cache_external_paths c)) \<and>
     list_all (\<lambda>(did, items). list_all (impl_item_ok (\<lambda>_. None)) items) (cache_impls c)"

definition reorders :: "(doc_cache \<Rightarrow> doc_cache) \<Rightarrow> bool" where
  "reorders f \<longleftrightarrow> (\<forall>c. mset (cache_paths (f c)) = mset (cache_paths c) \<and>
     mset (cache_external_paths (f c)) = mset (cache_external_paths c) \<and> mset (cache_impls (f c)) = mset (cache_impls c))"

lemma reorders_cache_ok: "reorders f \<Longrightarrow> cache_ok c \<Longrightarrow> cache_ok (f c)"
  unfolding reorders_def cache_ok_def
  by (metis list_all_iff mset_eq_setD mset_map mset_eq_imp_distinct_iff)

definition env_ok :: "run_env \<Rightarrow> bool" where
  "env_ok env \<longleftrightarrow> reorders (table_order env) \<and> hash_order (mod_order env) \<and> hash_order (known_order env) \<and> hash_order (node_order env) \<and>
     (\<forall>p. \<not> denied_paths env p)"

text \<open>All functions found in a crate, in the order they are added.\<close>

definition found_functions :: "full_name_map \<Rightarrow> doc_cache \<Rightarrow> clean_crate \<Rightarrow> api_function list" where
  "found_functions names c k =
     concat (map (impl_functions (\<lambda>_. None) names) (analysed_impls names c)) @ event_functions (crate_events k)"

lemma crate_graph_ok:
  assumes "cache_ok c" "crate_ok k" "crate_root k \<noteq> None" "env_ok env"
  shows "\<exists>names mods g. crate_graph env c k = Done g \<and> get_full_name names = cache_name (table_order env c) \<and>
     graph_names g = names \<and> crate_name g = krate_name k \<and> mods_ok mods \<and>
     api_functions g = filter (kept_function mods) (filter (usable_function names)
       (found_functions names (table_order env c) k)) \<and>
     set (api_dependencies g) = {d. edge g d} \<and> producers_return g"
proof -
  obtain names g1 where g1: "extract_impls_from_cache (\<lambda>_. None) (table_order env c) fnm_new (graph_new (krate_name k)) = Done (names, g1)"
      "get_full_name names = cache_name (table_order env c)" "graph_names g1 = names" "crate_name g1 = krate_name k"
      "graph_mods g1 = mv_new (krate_name k)" "api_functions g1 = filter (usable_function names)
         (concat (map (impl_functions (\<lambda>_. None) names) (analysed_impls names (table_order env c))))"
    using extract_impls_lemma [of "table_order env c" "\<lambda>_. None" "graph_new (krate_name k)"]
      reorders_cache_ok [of "table_order env" c] assms(1,4)
    by (auto simp: cache_ok_def env_ok_def graph_new_def)
  define g2 where "g2 = fold apply_event (crate_events k) g1"
  have g2: "analyse_clean_krate k g1 = Done g2" "mods_ok (graph_mods g2)"
    using analyse_clean_krate_eq [OF assms(2)] crate_mods_ok [OF assms(2,3) g1(5)] by (simp_all add: g2_def)
  note fields = apply_events(1-3) [where es = "crate_events k" and g = g1, folded g2_def]
  define g3 where "g3 = g2\<lparr>api_functions := filter (kept_function (graph_mods g2)) (api_functions g2)\<rparr>"
  have g3: "filter_functions (mod_order env, known_order env) g2 = Done g3"
    using filter_functions_eq [OF _ _ g2(2)] assms(4) by (simp add: env_ok_def g3_def)
  have edges: "set (api_dependencies (find_all_dependencies g3)) = {d. edge (find_all_dependencies g3) d}"
  proof -
    have fields: "api_functions (find_all_dependencies g3) = api_functions g3"
        "graph_names (find_all_dependencies g3) = graph_names g3"
      by (simp_all add: find_all_dependencies_def)
    have "edge (find_all_dependencies g3) = edge g3" unfolding fun_eq_iff edge_def fields by blast
    then show ?thesis by (auto simp: set_find_all_dependencies)
  qed
  then have "producers_return (find_all_dependencies g3)"
    by (auto simp: producers_return_def list_all_iff edge_def has_no_output_def Let_def split: option.splits)
  moreover have "crate_graph env c k = Done (find_all_dependencies g3)"
    by (simp add: crate_graph_def g1(1) g2(1) g3)
  moreover have "graph_names (find_all_dependencies g3) = names" "crate_name (find_all_dependencies g3) = krate_name k"
    using fields(2,3) g1(3,4) by (simp_all add: find_all_dependencies_def g3_def)
  moreover have "api_functions (find_all_dependencies g3) = filter (kept_function (graph_mods g2))
      (filter (usable_function names) (found_functions names (table_order env c) k))"
    using fields(1) g1(3,6) by (simp add: find_all_dependencies_def g3_def found_functions_def)
  ultimately show ?thesis using edges g1(2) g2(2) by blast
qed

section \<open>The files of a run\<close>

lemma table_dirs:
  assumes "map_of crate_test_dir crate = Some dir" "map_of libfuzzer_fuzz_target_dir crate = Some ldir"
  shows "path_from dir \<parallel> path_from ldir"
proof -
  have "list_all (\<lambda>(c, l). case map_of crate_test_dir c of None \<Rightarrow> True
      | Some d \<Rightarrow> \<not> prefix (path_from d) (path_from l) \<and> \<not> prefix (path_from l) (path_from d)) libfuzzer_fuzz_target_dir"
    by code_simp
  then show ?thesis using map_of_SomeD [OF assms(2)] assms(1) by (auto simp: list_all_iff parallel_def)
qed

definition dirs_clear :: "file_system \<Rightarrow> string \<Rightarrow> bool" where
  "dirs_clear fs crate \<longleftrightarrow> fs_ok fs \<and>
     (\<forall>dir. map_of crate_test_dir crate = Some dir \<or> map_of libfuzzer_fuzz_target_dir crate = Some dir \<longrightarrow>
        no_file_above fs (path_from dir))"

lemma fs_ok_above: "fs_ok fs \<Longrightarrow> prefix q p \<Longrightarrow> is_dir fs p \<Longrightarrow> is_dir fs q"
  unfolding fs_ok_def is_dir_def strict_prefix_def by (metis option.distinct(1))

lemma no_file_above_after:
  assumes "fs_ok fs'" "is_dir fs' (dir @ [a])" "is_dir fs' (dir @ [b])" "no_file_above fs ldir" "dir \<parallel> ldir"
    and "\<forall>q. untouched [dir @ [a], dir @ [b]] q \<longrightarrow> fs' q = fs q"
  shows "no_file_above fs' ldir"
  unfolding no_file_above_def
proof (intro allI impI)
  fix q assume q: "strict_prefix q ldir"
  show "\<not> is_file fs' q"
  proof (cases "prefix q (dir @ [a]) \<or> prefix q (dir @ [b])")
    case True
    then have "is_dir fs' q" using assms(2,3) fs_ok_above [OF assms(1)] by blast
    then show ?thesis by (simp add: is_file_def is_dir_def)
  next
    case False
    moreover have "\<not> prefix dir q" using q assms(5) by (auto simp: parallel_def strict_prefix_def)
    ultimately have "untouched [dir @ [a], dir @ [b]] q"
      by (auto simp: untouched_def dest: append_prefixD)
    then show ?thesis using assms(4,6) q by (simp add: no_file_above_def is_file_def)
  qed
qed

definition targets_written ::
  "run_env \<Rightarrow> (primitive_type \<Rightarrow> def_id option) \<Rightarrow> api_graph \<Rightarrow> api_sequence list \<Rightarrow> file_helper \<Rightarrow> file_system \<Rightarrow> bool" where
  "targets_written env pl g cs h fs \<longleftrightarrow>
     target_texts (text_orders env) pl g cs h \<and>
     holds_exactly fs (path_from (test_dir h) @ [test_file_dir]) (file_name ''test'' (crate_name g)) (test_files h) \<and>
     holds_exactly fs (path_from (test_dir h) @ [reproduce_file_dir]) (file_name ''replay'' (crate_name g)) (reproduce_files h) \<and>
     (\<forall>ldir. map_of libfuzzer_fuzz_target_dir (crate_name g) = Some ldir \<longrightarrow>
        holds_exactly fs (path_from ldir @ [libfuzzer_dir_name]) (file_name ''fuzz_target'' (crate_name g)) (libfuzzer_files h))"

lemma files_written:
  assumes fs: "dirs_clear fs (crate_name g)" and den: "\<forall>p. \<not> denied_paths env p"
    and h: "fh_crate_name h = crate_name g" "map_of crate_test_dir (crate_name g) = Some (test_dir h)"
    and texts: "target_texts (text_orders env) pl g cs h"
  shows "\<exists>fs'. obind (write_files (denied_paths env) h fs) (\<lambda>fs.
       if can_generate_libfuzzer_target (crate_name g)
       then obind (write_libfuzzer_files (denied_paths env) h fs) (\<lambda>fs. Done (out, fs)) else Done (out, fs)) =
     Done (out, fs') \<and> targets_written env pl g cs h fs'"
proof -
  let ?dir = "path_from (test_dir h)"
  obtain fs1 where fs1: "write_files (denied_paths env) h fs = Done fs1" "fs_ok fs1"
      "holds_exactly fs1 (?dir @ [test_file_dir]) (file_name ''test'' (crate_name g)) (test_files h)"
      "holds_exactly fs1 (?dir @ [reproduce_file_dir]) (file_name ''replay'' (crate_name g)) (reproduce_files h)"
      "\<forall>q. untouched [?dir @ [test_file_dir], ?dir @ [reproduce_file_dir]] q \<longrightarrow> fs1 q = fs q"
    using write_files_lemma [of fs h "denied_paths env"] fs den h by (auto simp: dirs_clear_def)
  show ?thesis
  proof (cases "map_of libfuzzer_fuzz_target_dir (crate_name g)")
    case None
    then show ?thesis using fs1 texts by (simp add: can_generate_libfuzzer_target_def targets_written_def)
  next
    case (Some ldir)
    have par: "?dir \<parallel> path_from ldir" by (rule table_dirs [OF h(2) Some])
    have "no_file_above fs1 (path_from ldir)"
      using no_file_above_after [OF fs1(2) _ _ _ par fs1(5)] fs1(3,4) fs Some
      by (simp add: holds_exactly_def dirs_clear_def)
    then obtain fs2 where fs2: "write_libfuzzer_files (denied_paths env) h fs1 = Done fs2"
        "holds_exactly fs2 (path_from ldir @ [libfuzzer_dir_name]) (file_name ''fuzz_target'' (crate_name g)) (libfuzzer_files h)"
        "\<forall>q. untouched [path_from ldir @ [libfuzzer_dir_name]] q \<longrightarrow> fs2 q = fs1 q"
      using write_libfuzzer_files_ok [OF _ fs1(2) _ den, of h ldir] Some h(1) by auto
    have same: "fs2 q = fs1 q" if "prefix (?dir @ [a]) q" for a q
    proof -
      have "?dir @ [a] \<parallel> path_from ldir @ [libfuzzer_dir_name]" using par by (auto intro: parallel_append)
      from parallel_below [OF this that] fs2(3) show ?thesis by (simp add: untouched_def)
    qed
    have "holds_exactly fs2 (?dir @ [test_file_dir]) (file_name ''test'' (crate_name g)) (test_files h)"
      "holds_exactly fs2 (?dir @ [reproduce_file_dir]) (file_name ''replay'' (crate_name g)) (reproduce_files h)"
      using holds_frame [OF fs1(3) same] holds_frame [OF fs1(4) same] by auto
    then show ?thesis
      using fs1(1) fs2(1,2) Some texts by (simp add: can_generate_libfuzzer_target_def targets_written_def)
  qed
qed

section \<open>The sequences of a run\<close>

text \<open>
  Every argument of every call: a parameter of the type the argument is built from, or the value
  of an earlier call, whose argument expression has the type of the parameter by Rust's rules. The
  conversions for which \<open>straight\<close> fails are excepted: those that peel more than one layer or make a
  \<open>*mut\<close> pointer, move out of a raw pointer or reborrow mutably what is shared.
\<close>

definition args_typed :: "api_graph \<Rightarrow> api_sequence \<Rightarrow> bool" where
  "args_typed g s \<longleftrightarrow> (\<forall>n < seq_len s. \<forall>j < length (params (seq_functions s ! n)).
     (case params (seq_functions s ! n) ! j of (pt, k, ct) \<Rightarrow>
        (case pt of
           FuzzableParam \<Rightarrow> k < length (fuzzable_params s) \<and>
             generate_fuzzable_type_and_call_type
               (fuzzable_call_type (graph_names g) (inputs (called g (seq_functions s ! n)) ! j)) =
             (fuzzable_params s ! k, ct)
         | FunctionReturn \<Rightarrow> k < n \<and> (\<exists>ty. output_ty (called g (seq_functions s ! k)) = Some ty \<and>
             (straight ty Move ct \<longrightarrow>
                call_yields (graph_names g) Move ct ty (inputs (called g (seq_functions s ! n)) ! j))))))"

lemma edge_typed:
  assumes "edge g (dep_between c d j ct)"
  shows "\<exists>ty. output_ty (called g c) = Some ty \<and>
     (straight ty Move ct \<longrightarrow> call_yields (graph_names g) Move ct ty (inputs (called g d) ! j))"
  using assms same_type_sound_lemma [of "graph_names g" _ "inputs (called g d) ! j" Move]
  by (auto simp: edge_def dep_between_def Let_def same_type_def split: option.splits)

lemma wf_args_typed:
  assumes wf: "wf_sequence g s" and edges: "set (api_dependencies g) = {d. edge g d}"
  shows "args_typed g s"
proof -
  have "param_ok g s n (seq_functions s ! n) j (params (seq_functions s ! n) ! j)"
    if "n < seq_len s" "j < length (params (seq_functions s ! n))" for n j
    using wf that by (simp add: wf_sequence_def call_ok_def)
  then show ?thesis
    unfolding args_typed_def param_ok_def edges
    by (fastforce split: prod.splits param_type.splits dest: edge_typed)
qed

text \<open>
  What is asked of a sequence: well-formed calls, typed arguments, Rust's rules for moves, borrows
  and marks (on plain conversions), and a test function whose variables are bound before their use.
\<close>

definition sequence_fine :: "api_graph \<Rightarrow> api_sequence \<Rightarrow> bool" where
  "sequence_fine g s \<longleftrightarrow> wf_sequence g s \<and> args_typed g s \<and> rust_sound g s \<and> scoped (param_scope s) (body_stmts g s)"

lemma generate_sequences_fine:
  assumes "set (api_dependencies g) = {d. edge g d}" "producers_return g"
    and "hash_order (node_order env)" "length (api_functions g) \<le> 1000"
  shows "\<exists>g'. generate_sequences env False g = Done g' \<and> list_all (sequence_fine g') (api_sequences g') \<and>
     api_functions g' = api_functions g \<and> crate_name g' = crate_name g \<and> graph_names g' = graph_names g \<and>
     visited_ok g' \<and> (\<forall>u < length (api_functions g). api_functions_visited g' ! u \<or> not_coverable g' u)"
proof -
  obtain g' where g': "default_generate_sequences (node_order env) (random_numbers env) g = Done g'"
      "grows (blank g [seq_new]) g'" "list_all (wf_sequence g) (api_sequences g')" "visited_ok g'"
      "\<forall>u < length (api_functions g). api_functions_visited g' ! u \<or> not_coverable g' u"
    using default_generate_lemma [OF assms(3,4)] by blast
  have same: "api_functions g' = api_functions g" "graph_names g' = graph_names g" "crate_name g' = crate_name g"
      "api_dependencies g' = api_dependencies g"
    using grows_fields [OF g'(2)] by (simp_all add: blank_def)
  have "edge g' = edge g" unfolding fun_eq_iff edge_def same by blast
  then have edges: "set (api_dependencies g') = {d. edge g' d}" using assms(1) same by simp
  have ret: "producers_return g'" using assms(2) same by (simp add: producers_return_def)
  have "sequence_fine g' s" if "wf_sequence g s" for s
  proof -
    have "wf_sequence g' s" using that wf_blank_grows [OF g'(2)] by simp
    moreover from this have "rust_sound g' s" by (rule wf_rust_sound) (simp add: edges)
    ultimately show ?thesis using wf_args_typed edges body_scoped ret by (auto simp: sequence_fine_def)
  qed
  then have "list_all (sequence_fine g') (api_sequences g')" using g'(3) by (auto simp: list_all_iff)
  then show ?thesis using g'(1,4,5) same by (auto simp: generate_sequences_def)
qed

section \<open>The cache of a crate\<close>

definition input_ok :: "render_info \<Rightarrow> clean_crate \<Rightarrow> bool" where
  "input_ok ri k \<longleftrightarrow> crate_wf k \<and> blocks_ok k \<and> crate_ok k \<and> crate_root k \<noteq> None \<and>
     distinct (map fst (ri_external_paths ri))"

lemma cache_of_crate:
  assumes "input_ok ri k"
  shows "\<exists>k' idx c. from_krate env ri dp k = Done (k', idx, c) \<and> cache_ok c \<and> crate_ok k' \<and> crate_root k' \<noteq> None \<and>
    krate_name k' = krate_name k \<and> crate_events k' = crate_events k \<and>
    entries (cache_impls c) = stored_impls env (crate_facts env (start_cache env ri dp k) k)"
proof -
  have k: "crate_wf k" "blocks_ok k" "crate_ok k" "crate_root k \<noteq> None" "distinct (map fst (ri_external_paths ri))"
    using assms by (simp_all add: input_ok_def)
  obtain k' idx c where c: "from_krate env ri dp k = Done (k', idx, c)"
      "krate_module k' = Option.bind (krate_module k) (prune cache_verdict)" "krate_name k' = krate_name k"
      "distinct (map fst (cache_impls c))"
      "entries (cache_impls c) = stored_impls env (crate_facts env (start_cache env ri dp k) k)"
      "distinct (map fst (cache_paths c))" "cache_external_paths c = cache_external_paths (start_cache env ri dp k)"
    using from_krate_ok [OF k(1)] by blast
  have "cache_ok c"
    using stored_blocks_ok [OF k(2) c(5,4)] c(6,7) start_external_paths [OF k(5)] by (simp add: cache_ok_def)
  with c cached_crate [OF k(3,4) c(3,2)] show ?thesis by auto
qed

end
