(* ===== verification/Spec2Isabelle.thy ===== *)
theory Spec2Isabelle
  imports Fuzz_Run
begin

text \<open>
  Verification of the RULF fuzz target generator (\<^verbatim>\<open>src/src/librustdoc/fuzz_target\<close>, the code of
  \<^verbatim>\<open>src/src/librustdoc/html/render.rs\<close> that drives it) and of the parts of rustdoc it gets its input
  from: the cleaned items and their documentation, the passes over them and the cache.

  \<^bold>\<open>The program.\<close> RULF is a fork of rustdoc. Rustdoc cleans a crate into a tree of items,
  its passes complete the impl blocks, tidy the documentation and strip what is hidden or private, and
  \<open>Cache::from_krate\<close> walks the tree to fill the tables of paths, traits and impl blocks. On the tree
  and the tables the generator (1) collects the public functions and methods of the crate, (2)
  computes which value of a function can be used as which argument of another (the API dependency graph), (3) searches for sequences of
  calls whose arguments are either bytes of a fuzzer's input or values of earlier calls, (4) chooses
  the sequences worth a target and (5) writes, for each, an AFL target, a replay program and a
  libFuzzer target. Everything else in the repository is the Rust compiler and its tools.

  \<^bold>\<open>Theories, in the order of the program.\<close>
  \<^item> \<open>Rulf_Prelude\<close>: outcomes (a value, a panic or an exit), checked vector accesses, loops over
    them, hash orders, Rust's string functions.
  \<^item> \<open>Clean_Types\<close>, \<open>Name_Map\<close>: the cleaned types of \<^verbatim>\<open>clean/types.rs\<close> and the table from definition
    ids to names (\<^verbatim>\<open>impl_util.rs\<close>, \<open>FullNameMap\<close>), with the locale \<open>name_table\<close>.
  \<^item> \<open>Doc_Cfg\<close>: \<^verbatim>\<open>clean/cfg.rs\<close>, the conditions of \<^verbatim>\<open>doc(cfg(..))\<close>, how they are parsed, simplified and rendered,
    with \<^verbatim>\<open>html/escape.rs\<close>. \<open>Clean_Item\<close>: the items of \<^verbatim>\<open>clean/types.rs\<close>, their attributes and \<^verbatim>\<open>html/item_type.rs\<close>. \<open>Doc_Folder\<close>:
    the trait of \<^verbatim>\<open>fold.rs\<close>, as the locale \<open>item_folder\<close> whose clients are the passes and the cache.
    \<open>Strip_Passes\<close>: \<^verbatim>\<open>passes/strip_hidden.rs\<close>, \<^verbatim>\<open>strip_private.rs\<close>, \<^verbatim>\<open>strip_priv_imports.rs\<close> and the strippers
    of \<^verbatim>\<open>passes/mod.rs\<close>; each is a relation between an item and what is left of it (locale \<open>stripping\<close>).
    \<open>Doc_Cache\<close>: \<^verbatim>\<open>html/render/cache.rs\<close>, the walk that fills the tables, and its specification by the
    events of the tree.
  \<^item> \<open>Doc_Comments\<close>: how attributes become documentation (\<open>Attributes::from_ast\<close>, the stripping of comment
    decoration, \<open>collapse\<close> and \<open>unindent\<close>). \<open>Attr_Folder\<close>: the locale \<open>attr_folder\<close> of the passes that change
    attributes only, with what such a pass keeps. \<open>Doc_Passes\<close>: its clients, \<^verbatim>\<open>collapse_docs.rs\<close>,
    \<^verbatim>\<open>unindent_comments.rs\<close>, \<^verbatim>\<open>propagate_doc_cfg.rs\<close>, \<^verbatim>\<open>private_items_doc_tests.rs\<close>, \<^verbatim>\<open>check_code_block_syntax.rs\<close>,
    \<^verbatim>\<open>collect_intra_doc_links.rs\<close> and \<^verbatim>\<open>calculate_doc_coverage.rs\<close>. \<open>Trait_Impls\<close>: \<^verbatim>\<open>collect_trait_impls.rs\<close>.
    \<open>Pass_Pipeline\<close>: the tables of \<^verbatim>\<open>passes/mod.rs\<close> and the loop of \<^verbatim>\<open>core.rs\<close> that runs the selected passes.
  \<^item> \<open>Call_Type\<close>, \<open>Prelude_Type\<close>, \<open>Fuzzable_Type\<close>, \<open>Api_Util\<close>, \<open>Api_Function\<close>: the files of the same
    names. How a value becomes an argument (\<open>same_type\<close>), which types come from bytes
    (\<open>fuzzable_call_type\<close>, \<open>generate_fuzzable_type_and_call_type\<close>), borrows and moves of arguments.
    The locale \<open>byte_layout\<close> holds the laws of the byte lengths. \<open>Arg_Expr\<close> models no code of its own: it
    gives the argument expressions that call types render to their types and uses by Rust's rules
    (\<open>call_yields\<close>, \<open>use_of\<close>, \<open>mutated\<close>, \<open>derefs_raw\<close>), without the generator's own tests.
  \<^item> \<open>Afl_Util\<close>, \<open>Afl_Readers\<close>: \<^verbatim>\<open>afl_util.rs\<close>, the code that reads a value from bytes, as the text that is
    emitted and as its meaning (locales \<open>be_reader\<close>, \<open>sized_reader\<close>).
  \<^item> \<open>Mod_Visibility\<close>: \<^verbatim>\<open>mod_visibility.rs\<close>. \<open>Impl_Util\<close>, \<open>Krate_Walk\<close>: the collection of functions from
    impl blocks (\<^verbatim>\<open>impl_util.rs\<close>) and from the modules of the crate (\<^verbatim>\<open>render.rs\<close>). \<open>Crate_Api\<close>: which
    functions of a crate the collection sees after the cache has been built. \<open>Public_Api\<close>:
    which functions the strip passes leave to it.
  \<^item> \<open>Api_Sequence\<close>, \<open>Sequence_Wf\<close>, \<open>Api_Graph\<close>, \<open>Graph_Search\<close>, \<open>Graph_Cover\<close>, \<open>Sequence_Choice\<close>:
    \<^verbatim>\<open>api_sequence.rs\<close> and \<^verbatim>\<open>api_graph.rs\<close>. \<open>Sequence_Wf\<close> defines the well-formed sequences, \<open>Api_Graph\<close>
    the dependencies and the extension step \<open>is_fun_satisfied\<close>, \<open>Graph_Search\<close> the four searches as
    clients of the locale \<open>sequence_search\<close>, \<open>Sequence_Sound\<close> what Rust's rules for moves, borrows and
    marks ask of a sequence (\<open>rust_sound\<close>) and when the step gives up, \<open>Graph_Cover\<close> the backward search for uncovered functions,
    \<open>Sequence_Choice\<close> the four choices.
  \<^item> \<open>Target_Code\<close>, \<open>Target_Function\<close>: the text of a target (\<^verbatim>\<open>api_sequence.rs\<close>, \<^verbatim>\<open>replay_util.rs\<close>), the
    program the text stands for, and its execution on a fuzzer's input.
  \<^item> \<open>File_Util\<close>, \<open>Print_Message\<close>: \<^verbatim>\<open>file_util.rs\<close> over an explicit file system, and \<^verbatim>\<open>print_message.rs\<close>.
  \<^item> \<open>Fuzz_Run\<close> and this theory: \<open>fuzz_target_run_clean_krate\<close> of \<^verbatim>\<open>render.rs\<close>, the composition, from the
    crate the passes leave through \<open>Cache::from_krate\<close> to the files.

  \<^bold>\<open>State and operations.\<close> A struct is a record, an enum a datatype with the source's constructors,
  a method a function of the same name (without a leading underscore) that returns the changed
  record. A \<open>HashMap\<close> or \<open>HashSet\<close> whose order the result depends on is a list without duplicates with
  an order that is an argument; theorems hold for all orders. Random numbers are a function from the
  number of the draw and the bound to the number drawn. Every index, \<open>unwrap\<close>, explicit \<open>panic!\<close> and
  \<open>process::exit\<close> of the source is a \<open>Panic\<close> or \<open>Exit\<close> of the model.

  \<^bold>\<open>What the lemmas show.\<close> A parsed condition holds exactly where the attribute says so; the
  documentation read from attributes is their text, and collapsing and unindenting lose nothing but
  line ends and indentation. A stripped crate has no hidden and no private function left, and nothing
  else is changed; after the default passes the crate has exactly the public functions of the crate
  they were given; the cache holds exactly the impl blocks, traits and paths the tree declares; the
  functions the generator sees are those of the crate, and those left by the visibility filter lie in
  modules declared public. The compatibility test is sound by Rust's typing of argument expressions
  for the conversions that are \<open>straight\<close> (\<open>same_type_sound\<close>), and its
  rendering agrees with the split into helper lines; the dependency graph is exactly the compatible
  pairs; the extension step keeps sequences well-formed in the generator's own terms (\<open>wf_sequence\<close>),
  and sound by Rust's rules (no use after move, no conflicting borrows, \<open>mut\<close> and \<open>unsafe\<close> marks) as far as
  the arguments are plain conversions; breadth-first search finds exactly the
  sequences the step can build; all searches return and leave well-formed sequences; the heuristic
  choice is greedy and covers every function it can or every edge; the emitted closure reads disjoint consecutive pieces of the
  input and never panics; the emitted function binds every variable before its use; the helpers
  emitted with it are exactly those its readers call; the files written are exactly the targets.
  Where Rust's rules and the generator part (values moved or borrowed inside \<open>Some(..)\<close>, nested layers,
  \<open>*mut\<close> pointers) lemmas of \<open>Arg_Expr\<close> and \<open>Sequence_Sound\<close> show it on examples. The theorems of this theory put these together for a whole run, the first of them
  (\<open>crate_to_targets\<close>) from the cleaned crate through the passes to the files.

  \<^bold>\<open>Bounds.\<close> Loops are recursion over the lists they run over, or structural in the bound the source
  has (\<open>mod_number\<close> passes, \<open>max_size\<close> steps, one round of the backward search per unvisited
  function), so no fuel is needed. The walk over modules and the functions on types terminate by the
  size of their argument. The backward search stores the index of a sequence as an \<open>i32\<close>; the round
  trip through it is written out, and at most 1000 functions, with at most about a thousand million
  sequences of three calls, is the hypothesis under which no index is changed by it.

  \<^bold>\<open>Not modelled.\<close> The cleaning of the compiler's data into items, and the compiler behind it: the
  crate, the access levels and the external paths are arguments, as are the impl blocks the compiler
  builds on demand, the resolution of links, the checks of code blocks and the spans of the source
  map. Documentation is ASCII, so that bytes and characters of a comment agree. The table the
  coverage pass prints, the HTML output and its error storage. The abort after errors were reported
  by a pass. The meaning of the called crates' own functions. Errors of the operating system other
  than a denied path.
\<close>

section \<open>The whole run\<close>

text \<open>The hypotheses of a run; the bound on the functions is the one the sequence search needs.\<close>

definition few_functions :: "run_env \<Rightarrow> render_info \<Rightarrow> bool \<Rightarrow> clean_crate \<Rightarrow> bool" where
  "few_functions env ri dp k \<longleftrightarrow>
     (\<forall>k' idx c g. from_krate (start_env env) ri dp k = Done (k', idx, c) \<longrightarrow> crate_graph env c k' = Done g \<longrightarrow>
        length (api_functions g) \<le> 1000)"

definition run_ok :: "run_env \<Rightarrow> render_info \<Rightarrow> bool \<Rightarrow> clean_crate \<Rightarrow> bool" where
  "run_ok env ri dp k \<longleftrightarrow> input_ok ri k \<and> env_ok env \<and> few_functions env ri dp k"

lemma sequences_of_run:
  assumes "run_ok env ri dp k"
  shows "\<exists>k' idx c g g'. from_krate (start_env env) ri dp k = Done (k', idx, c) \<and>
     crate_graph env c k' = Done g \<and> generate_sequences env False g = Done g' \<and>
     crate_name g' = krate_name k \<and> api_functions g' = api_functions g \<and>
     list_all (sequence_fine g') (api_sequences g') \<and> visited_ok g' \<and>
     (\<forall>u < length (api_functions g). api_functions_visited g' ! u \<or> not_coverable g' u)"
proof -
  have ok: "input_ok ri k" "env_ok env" using assms by (simp_all add: run_ok_def)
  obtain k' idx c where c: "from_krate (start_env env) ri dp k = Done (k', idx, c)" "cache_ok c" "crate_ok k'"
      "crate_root k' \<noteq> None" "krate_name k' = krate_name k"
    using cache_of_crate [OF ok(1)] by blast
  obtain g where g: "crate_graph env c k' = Done g" "crate_name g = krate_name k'"
      "set (api_dependencies g) = {d. edge g d}" "producers_return g"
    using crate_graph_ok [OF c(2-4) ok(2)] by blast
  have "hash_order (node_order env)" "length (api_functions g) \<le> 1000"
    using assms c(1) g(1) unfolding run_ok_def few_functions_def env_ok_def by blast+
  from generate_sequences_fine [OF g(3,4) this] obtain g' where
    "generate_sequences env False g = Done g'" "crate_name g' = crate_name g" "api_functions g' = api_functions g"
    "list_all (sequence_fine g') (api_sequences g')" "visited_ok g'"
    "\<forall>u < length (api_functions g). api_functions_visited g' ! u \<or> not_coverable g' u"
    by auto
  then show ?thesis using c(1,5) g(1,2) by auto
qed


text \<open>The files of a run: what \<open>generate_all_sequences\<close> found is written by the helper.\<close>

lemma targets_of_run:
  assumes run: "run_ok env ri dp k" and fs: "dirs_clear fs (krate_name k)"
  shows "\<exists>k' idx c g g' out fs'. from_krate (start_env env) ri dp k = Done (k', idx, c) \<and>
     crate_graph env c k' = Done g \<and> generate_sequences env False g = Done g' \<and>
     fuzz_target_run_clean_krate env ri dp k fs = Done (out, fs') \<and>
     (case map_of crate_test_dir (krate_name k) of
        None \<Rightarrow> fs' = fs
      | Some dir \<Rightarrow> \<exists>h cs. test_dir h = dir \<and> targets_written env (cache_primitive_locations c) g' cs h fs' \<and> length (test_files h) \<le> 300 \<and>
          chosen g' cs \<and> list_all (\<lambda>s. sequence_fine g' s \<and> fuzzable_params s \<noteq> []) cs)"
proof -
  obtain k' idx c g g' where c: "from_krate (start_env env) ri dp k = Done (k', idx, c)" and
    g: "crate_graph env c k' = Done g" "generate_sequences env False g = Done g'"
      "crate_name g' = krate_name k" "list_all (sequence_fine g') (api_sequences g')"
    using sequences_of_run [OF run] by blast
  let ?out = "print_generic_functions g' @
      [''total functions in crate : '' @ nat_to_string (length (api_functions g'))]"
  show ?thesis
  proof (cases "map_of crate_test_dir (krate_name k)")
    case None
    then have "fuzz_target_run_clean_krate env ri dp k fs = Done (?out, fs)"
      using c g by (simp add: fuzz_target_run_clean_krate_def can_write_to_file_def Let_def)
    then show ?thesis using None c g by auto
  next
    case (Some dir)
    have "list_all (wf_sequence g') (api_sequences g')" using g(4) by (auto simp: list_all_iff sequence_fine_def)
    moreover have can: "can_write_to_file (crate_name g') False" using Some g(3) by (simp add: can_write_to_file_def)
    ultimately obtain h cs where
      h: "file_helper_new (text_orders env) (cache_primitive_locations c) False g' = Done h" "fh_crate_name h = crate_name g'"
        "map_of crate_test_dir (crate_name g') = Some (test_dir h)"
        "target_texts (text_orders env) (cache_primitive_locations c) g' cs h"
        "set cs \<subseteq> set (api_sequences g')" "list_all (\<lambda>s. fuzzable_params s \<noteq> []) cs" "chosen g' cs"
      using file_helper_new_ok [of g' False "text_orders env" "cache_primitive_locations c"] by auto
    have "\<forall>p. \<not> denied_paths env p" using run by (simp add: run_ok_def env_ok_def)
    from files_written [OF _ this h(2,3,4), of fs ?out] fs g(3)
    obtain fs' where fs': "obind (write_files (denied_paths env) h fs) (\<lambda>fs.
          if can_generate_libfuzzer_target (crate_name g')
          then obind (write_libfuzzer_files (denied_paths env) h fs) (\<lambda>fs. Done (?out, fs)) else Done (?out, fs)) =
        Done (?out, fs')" "targets_written env (cache_primitive_locations c) g' cs h fs'"
      by auto
    have "fuzz_target_run_clean_krate env ri dp k fs = Done (?out, fs')"
      using fs'(1) unfolding fuzz_target_run_clean_krate_def Let_def c obind.simps prod.case g(1) g(2) if_P [OF can] h(1) .
    moreover have "list_all (\<lambda>s. sequence_fine g' s \<and> fuzzable_params s \<noteq> []) cs"
      using h(5,6) g(4) by (auto simp: list_all_iff)
    moreover have "length (test_files h) \<le> 300" using h(4) by (simp add: target_texts_def max_test_file_number_def)
    ultimately show ?thesis using Some c g(1,2,3) h(3,7) fs'(2) by auto
  qed
qed


section \<open>From the cleaned crate to the targets\<close>

lemma bare_functions_seen: "f \<in> set (event_functions (crate_events k)) \<Longrightarrow>
  \<exists>path name fn. (name, fn) \<in> seen_functions k \<and> f = bare_function (str_join ''::'' (path @ [name])) fn"
  by (force simp: event_functions_def seen_functions_def split: walk_event.splits)

text \<open>What a graph may call: methods of the impl blocks in the cache, and public functions of the crate.\<close>

definition offered :: "run_env \<Rightarrow> doc_cache \<Rightarrow> api_graph \<Rightarrow> (string \<times> clean_function) set \<Rightarrow> api_function \<Rightarrow> bool" where
  "offered env c g fns f \<longleftrightarrow>
     (\<exists>i \<in> set (analysed_impls (graph_names g) (table_order env c)). f \<in> set (impl_functions (\<lambda>_. None) (graph_names g) i)) \<or>
     (\<exists>path name fn. (name, fn) \<in> fns \<and> f = bare_function (str_join ''::'' (path @ [name])) fn)"

lemma graph_offered:
  assumes "input_ok ri k" "env_ok env" "from_krate (start_env env) ri dp k = Done (k', idx, c)" "crate_graph env c k' = Done g"
  shows "list_all (offered env c g (seen_functions k')) (api_functions g)"
proof -
  have "cache_ok c" "crate_ok k'" "crate_root k' \<noteq> None" using cache_of_crate [OF assms(1), of "start_env env" dp] assms(3) by auto
  then obtain names mods where g: "graph_names g = names" "api_functions g =
      filter (kept_function mods) (filter (usable_function names) (found_functions names (table_order env c) k'))"
    using crate_graph_ok [OF _ _ _ assms(2)] assms(4) by fastforce
  then show ?thesis
    using bare_functions_seen by (auto simp: list_all_iff found_functions_def offered_def)
qed


section \<open>A crate to run on\<close>

definition example_env :: run_env where
  "example_env = \<lparr>doc_env = example_doc_env,
     table_order = (\<lambda>c. c\<lparr>cache_impls := rev (cache_impls c), cache_paths := rev (cache_paths c)\<rparr>),
     mod_order = rev, known_order = rev, node_order = rev,
     random_numbers = (\<lambda>_ _. 0), text_orders = example_orders, denied_paths = (\<lambda>_. False)\<rparr>"

definition url_krate :: clean_crate where
  "url_krate = (example_crate
     [example_item (Some ''parse'') 1 Public (FunctionItem (example_function [Argument (Primitive U8) ''x''])),
      example_item (Some ''make'') 2 Public (FunctionItem (example_function []))])\<lparr>krate_name := ''url'', krate_collapsed := True\<rparr>"

text \<open>The mark that the comments are collapsed plays no part in the run.\<close>

lemma collapsed_mark [simp]:
  "crate_wf (k\<lparr>krate_collapsed := b\<rparr>) = crate_wf k" "blocks_ok (k\<lparr>krate_collapsed := b\<rparr>) = blocks_ok k"
  "crate_root (k\<lparr>krate_collapsed := b\<rparr>) = crate_root k" "crate_ok (k\<lparr>krate_collapsed := b\<rparr>) = crate_ok k"
  "crate_events (k\<lparr>krate_collapsed := b\<rparr>) = crate_events k" "crate_facts env c (k\<lparr>krate_collapsed := b\<rparr>) = crate_facts env c k"
  by (simp_all add: crate_wf_def blocks_ok_def crate_root_def crate_ok_def crate_events_def crate_facts_def)

lemma url_input_ok: "input_ok example_render_info url_krate"
proof -
  have "crate_wf url_krate" "blocks_ok url_krate"
    by (simp_all add: url_krate_def example_crate_wf example_function_wf example_blocks_ok)
  moreover have "crate_root url_krate \<noteq> None" "crate_ok url_krate"
    unfolding url_krate_def collapsed_mark by (rule example_crate_ok, simp add: example_crate_ok example_function_events)
  moreover have "distinct (map fst (ri_external_paths example_render_info))" by (simp add: example_render_info_def)
  ultimately show ?thesis by (simp add: input_ok_def)
qed

lemma url_run_ok: "run_ok example_env example_render_info False url_krate"
proof -
  have env: "env_ok example_env" by (simp add: example_env_def env_ok_def reorders_def)
  have "length (api_functions g) \<le> 1000"
    if c: "from_krate (start_env example_env) example_render_info False url_krate = Done (k', idx, c)"
      and g: "crate_graph example_env c k' = Done g" for k' idx c g
  proof -
    have k': "cache_ok c" "crate_ok k'" "crate_root k' \<noteq> None" "crate_events k' = crate_events url_krate"
        "entries (cache_impls c) = stored_impls (start_env example_env) (crate_facts (start_env example_env)
          (start_cache (start_env example_env) example_render_info False url_krate) url_krate)"
      using cache_of_crate [OF url_input_ok, of "start_env example_env" False] c by auto
    obtain names mods where fs: "api_functions g = filter (kept_function mods) (filter (usable_function names)
        (found_functions names (table_order example_env c) k'))"
      using crate_graph_ok [OF k'(1-3) env] g by auto
    have none: "crate_facts (start_env example_env) x url_krate = {}" for x
      by (simp add: url_krate_def example_crate_facts)
    have "distinct (map fst (cache_impls c))"
      using from_krate_ok [of url_krate "start_env example_env" example_render_info False] c url_input_ok
      by (auto simp: input_ok_def)
    then have "xs = []" if "(did, xs) \<in> set (cache_impls c)" for did xs
      using k'(5) that unfolding none by (cases xs) (fastforce simp: entries_def stored_impls_def)+
    then have "concat (map snd (filter P (cache_impls (table_order example_env c)))) = []" for P
      by (auto simp: example_env_def)
    then have "named_impls names (table_order example_env c) = []"
      unfolding named_impls_def by (simp only: map_filter_simps)
    then have "length (found_functions names (table_order example_env c) k') = 2"
      by (simp add: found_functions_def analysed_impls_def k'(4) url_krate_def example_crate_ok example_function_events)
    moreover have "length (api_functions g) \<le> length (found_functions names (table_order example_env c) k')"
      unfolding fs by (meson length_filter_le le_trans)
    ultimately show ?thesis by simp
  qed
  then show ?thesis using url_input_ok env by (auto simp: run_ok_def few_functions_def)
qed



text \<open>The passes leave the crate as it is, but for the mark that its comments are collapsed.\<close>

lemma url_passes:
  "run_passes example_pass_env example_impl_env example_options (url_krate\<lparr>krate_collapsed := False\<rparr>) =
     Done (url_krate, replicate 3 (0, ''missing code example in this documentation''))"
  by code_simp

lemma url_cleaned: "cleaned example_pass_env (url_krate\<lparr>krate_collapsed := False\<rparr>)"
proof -
  let ?k = "url_krate\<lparr>krate_collapsed := False\<rparr>"
  have "crate_flat ?k" by code_simp
  moreover have "rooted ?k" by (simp add: rooted_def url_krate_def example_crate_def example_item_def is_module_def)
  moreover have "unstripped_crate ?k"
    using example_function_items(2) [of "[example_item (Some ''parse'') 1 Public (FunctionItem (example_function [Argument (Primitive U8) ''x''])),
        example_item (Some ''make'') 2 Public (FunctionItem (example_function []))]"]
    by (simp add: url_krate_def example_item_def unstripped_crate_def)
  moreover have "list_all (all_items (comments_ok (span_to example_pass_env))) (crate_items ?k)" by code_simp
  ultimately show ?thesis using url_input_ok by (simp add: cleaned_def front_ok_def input_ok_def)
qed


end
